(* ===== verification/Pgp_Prelude.thy ===== *)
theory Pgp_Prelude
  imports Main "HOL-Library.Word"
begin

unbundle bit_operations_syntax

text \<open>
  The vocabulary every component shares: machine integers and byte strings, Rust's
  \<open>Result\<close> extended with the third outcome of a Rust function (a panic), the \<open>?\<close>
  operator, big- and little-endian byte images of integers, and the list and word lemmas
  the component proofs rest on.

  Conventions. A \<open>u8\<close>, \<open>u16\<close>, \<open>u32\<close>, \<open>u64\<close> of the source is a word of that width. A
  \<open>usize\<close> is a \<open>nat\<close>; a narrowing cast \<open>n as u8\<close> is \<open>of_nat n :: u8\<close>, which drops the high
  bits as the cast does, and a subtraction that would underflow is an explicit \<open>Panic\<close>
  branch, the behaviour of a build with overflow checks. A \<open>Vec<u8>\<close>, a \<open>&[u8]\<close> or a
  \<open>[u8; N]\<close> is a \<open>u8 list\<close>. Writing to an in-memory writer is the list of bytes written.
\<close>

section \<open>Types\<close>

type_synonym u8 = "8 word"
type_synonym u16 = "16 word"
type_synonym u32 = "32 word"
type_synonym u64 = "64 word"
type_synonym bytes = "u8 list"

text \<open>Facts that evaluate or invert parsers and serializers.\<close>

named_theorems parse_simps \<open>equations of parsers on a known prefix\<close>
named_theorems ser_simps \<open>equations of serializers\<close>

section \<open>Results\<close>

text \<open>
  A Rust function of type \<open>Result<A, E>\<close> returns \<open>Ok a\<close> or \<open>Err e\<close>, or panics.
\<close>

datatype ('a, 'e) result = Ok 'a | Err 'e | Panic

text \<open>The \<open>?\<close> operator, and \<open>map_err\<close>.\<close>

fun and_then :: "('a, 'e) result \<Rightarrow> ('a \<Rightarrow> ('b, 'e) result) \<Rightarrow> ('b, 'e) result" where
  "and_then (Ok a) k = k a"
| "and_then (Err e) k = Err e"
| "and_then Panic k = Panic"

fun map_err :: "('e \<Rightarrow> 'f) \<Rightarrow> ('a, 'e) result \<Rightarrow> ('a, 'f) result" where
  "map_err f (Ok a) = Ok a"
| "map_err f (Err e) = Err (f e)"
| "map_err f Panic = Panic"

fun map_ok :: "('a \<Rightarrow> 'b) \<Rightarrow> ('a, 'e) result \<Rightarrow> ('b, 'e) result" where
  "map_ok f (Ok a) = Ok (f a)"
| "map_ok f (Err e) = Err e"
| "map_ok f Panic = Panic"

fun is_ok :: "('a, 'e) result \<Rightarrow> bool" where
  "is_ok (Ok a) = True"
| "is_ok _ = False"

lemma and_then_eq_Ok [simp]: "and_then m k = Ok b \<longleftrightarrow> (\<exists>a. m = Ok a \<and> k a = Ok b)"
  by (cases m) auto

lemma and_then_eq_Panic: "and_then m k = Panic \<longleftrightarrow> m = Panic \<or> (\<exists>a. m = Ok a \<and> k a = Panic)"
  by (cases m) auto

lemma and_then_eq_Err:
  "and_then m k = Err e \<longleftrightarrow> m = Err e \<or> (\<exists>a. m = Ok a \<and> k a = Err e)"
  by (cases m) auto

lemma map_err_eq_Ok [simp]: "map_err f m = Ok a \<longleftrightarrow> m = Ok a"
  by (cases m) auto

lemma map_err_eq_Panic [simp]: "map_err f m = Panic \<longleftrightarrow> m = Panic"
  by (cases m) auto

lemma map_ok_eq_Ok [simp]: "map_ok f m = Ok b \<longleftrightarrow> (\<exists>a. m = Ok a \<and> b = f a)"
  by (cases m) auto

lemma map_ok_eq_Panic [simp]: "map_ok f m = Panic \<longleftrightarrow> m = Panic"
  by (cases m) auto

lemma is_ok_iff: "is_ok m \<longleftrightarrow> (\<exists>a. m = Ok a)"
  by (cases m) auto

lemma and_then_assoc:
  "and_then (and_then m k) l = and_then m (\<lambda>a. and_then (k a) l)"
  by (cases m) auto

lemma and_then_cong:
  "(\<And>a. m = Ok a \<Longrightarrow> k a = k' a) \<Longrightarrow> and_then m k = and_then m k'"
  by (cases m) auto

section \<open>Bytes of integers\<close>

text \<open>
  \<open>to_be_bytes\<close> and \<open>from_be_bytes\<close> of the standard library, and the little-endian
  variants for 16-bit values.
\<close>

definition be16 :: "u16 \<Rightarrow> bytes" where
  "be16 x = [ucast (drop_bit 8 x), ucast x]"

definition of_be16 :: "u8 \<Rightarrow> u8 \<Rightarrow> u16" where
  "of_be16 a b = push_bit 8 (ucast a) OR ucast b"

definition le16 :: "u16 \<Rightarrow> bytes" where
  "le16 x = [ucast x, ucast (drop_bit 8 x)]"

definition be32 :: "u32 \<Rightarrow> bytes" where
  "be32 x = [ucast (drop_bit 24 x), ucast (drop_bit 16 x), ucast (drop_bit 8 x), ucast x]"

definition of_be32 :: "u8 \<Rightarrow> u8 \<Rightarrow> u8 \<Rightarrow> u8 \<Rightarrow> u32" where
  "of_be32 a b c d =
     push_bit 24 (ucast a) OR push_bit 16 (ucast b) OR push_bit 8 (ucast c) OR ucast d"

definition be64 :: "u64 \<Rightarrow> bytes" where
  "be64 x = map (\<lambda>k. ucast (drop_bit (8 * k) x)) [7, 6, 5, 4, 3, 2, 1, 0]"

lemma length_be16 [simp]: "length (be16 x) = 2"
  by (simp add: be16_def)

lemma length_le16 [simp]: "length (le16 x) = 2"
  by (simp add: le16_def)

lemma length_be32 [simp]: "length (be32 x) = 4"
  by (simp add: be32_def)

lemma length_be64 [simp]: "length (be64 x) = 8"
  by (simp add: be64_def)

lemma of_be16_be16 [simp]: "of_be16 (ucast (drop_bit 8 x)) (ucast x) = x"
  by (rule bit_word_eqI) (auto simp: of_be16_def bit_simps)

lemma of_be32_be32 [simp]:
  "of_be32 (ucast (drop_bit 24 x)) (ucast (drop_bit 16 x)) (ucast (drop_bit 8 x)) (ucast x) = x"
proof (rule bit_word_eqI)
  fix n assume "n < LENGTH(32)"
  then consider "n < 8" | "8 \<le> n" "n < 16" | "16 \<le> n" "n < 24" | "24 \<le> n" "n < 32"
    by fastforce
  then show "bit (of_be32 (ucast (drop_bit 24 x)) (ucast (drop_bit 16 x)) (ucast (drop_bit 8 x))
      (ucast x)) n = bit x n"
    by cases (auto simp: of_be32_def bit_simps)
qed

lemma unat_u8 [simp]: "unat (b :: u8) < 256"
  using unsigned_less [of b, where ?'a = nat] by simp

lemma unat_ucast_u8 [simp]: "unat (ucast (b :: u8) :: u16) = unat b"
  using unat_u8 [of b] by (simp add: unsigned_ucast_eq take_bit_nat_eq_self del: unat_u8)

lemma unat_of_be16: "unat (of_be16 a b) = unat a * 256 + unat b"
proof -
  have dis: "push_bit 8 (ucast a :: u16) AND ucast b = 0"
    by (rule bit_word_eqI) (auto simp: bit_simps dest: bit_imp_le_length)
  have "of_be16 a b = push_bit 8 (ucast a) + ucast b"
    unfolding of_be16_def using dis by (rule disjunctive_add_eq_or [symmetric])
  moreover have "unat (push_bit 8 (ucast a :: u16)) = unat a * 256"
    using unat_u8 [of a]
    by (simp add: push_bit_eq_mult unat_word_ariths del: unat_u8)
  ultimately show ?thesis
    using unat_u8 [of a] unat_u8 [of b]
    by (simp add: unat_word_ariths del: unat_u8)
qed

lemma unat_ucast_u8_32 [simp]: "unat (ucast (b :: u8) :: u32) = unat b"
  using unat_u8 [of b] by (simp add: unsigned_ucast_eq take_bit_nat_eq_self del: unat_u8)

lemma unat_of_be32:
  "unat (of_be32 a b c d) = ((unat a * 256 + unat b) * 256 + unat c) * 256 + unat d"
proof -
  let ?a = "ucast a :: u32" and ?b = "ucast b :: u32" and ?c = "ucast c :: u32"
  have d1: "push_bit 8 ?c AND ucast d = 0"
    and d2: "push_bit 16 ?b AND (push_bit 8 ?c OR ucast d) = 0"
    and d3: "push_bit 24 ?a AND (push_bit 16 ?b OR push_bit 8 ?c OR ucast d) = 0"
    by (rule bit_word_eqI, auto simp: bit_simps dest: bit_imp_le_length)+
  have "of_be32 a b c d = push_bit 24 ?a + (push_bit 16 ?b + (push_bit 8 ?c + ucast d))"
    unfolding of_be32_def disjunctive_add_eq_or [OF d1] disjunctive_add_eq_or [OF d2]
      disjunctive_add_eq_or [OF d3] ..
  moreover have "unat (push_bit 24 ?a) = unat a * 2 ^ 24" "unat (push_bit 16 ?b) = unat b * 2 ^ 16"
    "unat (push_bit 8 ?c) = unat c * 2 ^ 8"
    using unat_u8 [of a] unat_u8 [of b] unat_u8 [of c]
    by (simp_all add: push_bit_eq_mult unat_word_ariths del: unat_u8)
  ultimately show ?thesis
    using unat_u8 [of a] unat_u8 [of b] unat_u8 [of c] unat_u8 [of d]
    by (simp add: unat_word_ariths del: unat_u8)
qed

section \<open>Bits\<close>

lemma unat_or_disjoint:
  fixes x y :: "'a::len word"
  assumes "x AND y = 0"
  shows "unat (x OR y) = unat x + unat y"
proof -
  have "unat x AND unat y = 0"
    using arg_cong [OF assms, of unat] by (simp add: unsigned_and_eq)
  then show ?thesis
    by (simp add: unsigned_or_eq disjunctive_add_eq_or)
qed

lemma unat_and_mask: "unat (x AND mask n :: 'a::len word) = unat x mod 2 ^ n"
proof -
  have "unat (x AND mask n) = take_bit n (unat x)"
    by (simp add: take_bit_eq_mask [symmetric] unsigned_take_bit_eq)
  then show ?thesis by (simp add: take_bit_eq_mod)
qed

lemma bit_small:
  assumes "unat (t :: 'a::len word) < 2 ^ k" "bit t n"
  shows "n < k"
proof -
  from assms(2) have "bit (unat t) n" 
    by (simp add: bit_unsigned_iff bit_imp_le_length)
  moreover have "take_bit k (unat t) = unat t"
    using assms(1) by (simp add: take_bit_nat_eq_self)
  ultimately show ?thesis by (metis bit_take_bit_iff)
qed

section \<open>Lists\<close>

lemma take_append_length [simp]: "length xs = n \<Longrightarrow> take n (xs @ ys) = xs"
  by simp

lemma drop_append_length [simp]: "length xs = n \<Longrightarrow> drop n (xs @ ys) = ys"
  by simp

lemma dropWhile_eq_drop_takeWhile: "dropWhile P xs = drop (length (takeWhile P xs)) xs"
  by (simp add: dropWhile_eq_drop)

lemma unat_of_nat_small [simp]:
  "n < 2 ^ LENGTH('a) \<Longrightarrow> unat (of_nat n :: 'a::len word) = n"
  by (simp add: unat_of_nat take_bit_nat_eq_self)

end
