(* ===== verification/Pgp_Chunks.thy ===== *)
theory Pgp_Chunks
  imports Pgp_Prelude
begin

text \<open>
  Cutting a slice into pieces of equal size, as the chunked ciphers and the key wrapping do, and
  sequences of invertible steps.
\<close>

text \<open>\<open>slice::chunks(n)\<close>: the consecutive pieces of length \<open>n\<close>, the last one possibly shorter.\<close>

function chunks :: "nat \<Rightarrow> bytes \<Rightarrow> bytes list" where
  "chunks n xs = (if xs = [] \<or> n = 0 then [] else take n xs # chunks n (drop n xs))"
  by pat_completeness auto
termination
  by (relation "measure (\<lambda>(n, xs). length xs)") auto

declare chunks.simps [simp del]

lemma chunks_Nil [simp]: "chunks n [] = []"
  by (simp add: chunks.simps)

lemma chunks_Cons:
  "c \<noteq> [] \<Longrightarrow> 0 < n \<Longrightarrow> length c = n \<or> (length c \<le> n \<and> r = []) \<Longrightarrow> chunks n (c @ r) = c # chunks n r"
  by (subst chunks.simps) auto

lemma concat_chunks [simp]: "0 < n \<Longrightarrow> concat (chunks n xs) = xs"
  by (induction n xs rule: chunks.induct) (subst chunks.simps, simp)

lemma chunks_exact:
  "0 < n \<Longrightarrow> n dvd length xs \<Longrightarrow> length (chunks n xs) = length xs div n \<and> (\<forall>c \<in> set (chunks n xs). length c = n)"
proof (induction n xs rule: chunks.induct)
  case (1 n xs)
  show ?case
  proof (cases "xs = []")
    case False
    with "1.prems" have "n \<le> length xs" by (simp add: dvd_imp_le)
    then have d: "length xs div n = Suc (length (drop n xs) div n)"
      using "1.prems"(1) by (simp add: le_div_geq)
    have dv: "n dvd length (drop n xs)" using "1.prems"(2) by (simp add: dvd_diff_nat)
    have ne: "\<not> (xs = [] \<or> n = 0)" using False "1.prems"(1) by simp
    note ih = "1.IH" [OF ne "1.prems"(1) dv]
    have c: "chunks n xs = take n xs # chunks n (drop n xs)"
      using False "1.prems"(1) by (subst chunks.simps) simp
    have "length (take n xs) = n" using \<open>n \<le> length xs\<close> by simp
    then show ?thesis
      unfolding c d using ih by (metis insert_iff length_Cons list.set(2))
  qed simp
qed

lemma chunks_concat:
  "0 < n \<Longrightarrow> \<forall>c \<in> set cs. length c = n \<Longrightarrow> chunks n (concat cs) = cs"
  by (induction cs) (auto simp: chunks_Cons)

text \<open>Undoing a sequence of invertible steps in the opposite order.\<close>

lemma fold_rev_inverse:
  assumes "P s" "\<And>x s. x \<in> set xs \<Longrightarrow> P s \<Longrightarrow> P (f x s) \<and> g x (f x s) = s"
  shows "P (fold f xs s) \<and> fold g (rev xs) (fold f xs s) = s"
  using assms by (induction xs arbitrary: s) auto

end
