(* ===== verification/Pgp_Errors.thy ===== *)
theory Pgp_Errors
  imports Pgp_Prelude
begin

text \<open>
  The library's error type (\<open>src/src/errors.rs\<close>) and its conversions from the errors of the
  \<open>nom\<close> parser combinators. Payloads that are values of other crates (the base64, RSA,
  elliptic-curve, signature and I/O errors) are left out; the text of a \<open>Message\<close> is the
  literal format string of the source, without the rendered arguments.
\<close>

text \<open>The error kinds of \<open>nom\<close> that the sources name or that their combinators report.\<close>

datatype error_kind =
  KTag | KMapRes | KMapOpt | KSwitch | KTagBits | KEof | KMany0 | KVerify | KAlphaNumeric
  | KLengthValue | KTakeWhile1 | KDigit | KComplete | KCrLf | KTakeUntil | KSpace

datatype needed = Unknown | Size nat

datatype error =
    ParsingError error_kind
  | InvalidInput
  | Incomplete needed
  | InvalidArmorWrappers
  | InvalidChecksum
  | Base64DecodeError
  | RequestedSizeTooLarge
  | NoMatchingPacket
  | TooManyPackets
  | RSAError
  | EllipticCurve
  | IOError
  | MissingPackets
  | InvalidKeyLength
  | BlockMode
  | MissingKey
  | CfbInvalidKeyIvLength
  | Unimplemented string
  | Unsupported string
  | Message string
  | PacketError error_kind
  | PacketIncomplete
  | UnpadError
  | PadError
  | Utf8Error
  | ParseIntError
  | InvalidPacketContent error
  | SignatureError
  | MdcError
  | TryFromInt
  | Gcm
  | Eax
  | Ocb
  | Sha1HashCollision

fun as_code :: "error \<Rightarrow> u32" where
  "as_code (ParsingError _) = 0"
| "as_code InvalidInput = 1"
| "as_code (Incomplete _) = 2"
| "as_code InvalidArmorWrappers = 3"
| "as_code InvalidChecksum = 4"
| "as_code Base64DecodeError = 5"
| "as_code RequestedSizeTooLarge = 6"
| "as_code NoMatchingPacket = 7"
| "as_code TooManyPackets = 8"
| "as_code RSAError = 9"
| "as_code IOError = 10"
| "as_code MissingPackets = 11"
| "as_code InvalidKeyLength = 12"
| "as_code BlockMode = 13"
| "as_code MissingKey = 14"
| "as_code CfbInvalidKeyIvLength = 15"
| "as_code (Unimplemented _) = 16"
| "as_code (Unsupported _) = 17"
| "as_code (Message _) = 18"
| "as_code (PacketError _) = 19"
| "as_code PacketIncomplete = 20"
| "as_code UnpadError = 21"
| "as_code PadError = 22"
| "as_code Utf8Error = 23"
| "as_code ParseIntError = 24"
| "as_code (InvalidPacketContent _) = 25"
| "as_code SignatureError = 26"
| "as_code MdcError = 27"
| "as_code TryFromInt = 28"
| "as_code EllipticCurve = 29"
| "as_code Gcm = 30"
| "as_code Eax = 31"
| "as_code Ocb = 32"
| "as_code Sha1HashCollision = 33"

text \<open>
  \<open>nom::Err\<close> over the library's error type. The conversions below are the \<open>From\<close>
  implementations the \<open>?\<close> operator uses.
\<close>

datatype nom_err = NomIncomplete needed | NomError error | NomFailure error

type_synonym 'a res = "('a, error) result"
type_synonym 'a parsed = "(bytes \<times> 'a, nom_err) result"

fun error_of_nom :: "nom_err \<Rightarrow> error" where
  "error_of_nom (NomIncomplete n) = Incomplete n"
| "error_of_nom (NomError e) = e"
| "error_of_nom (NomFailure e) = e"

text \<open>\<open>impl From<Error> for nom::Err<Error>\<close>.\<close>

definition nom_of_error :: "error \<Rightarrow> nom_err" where
  "nom_of_error e = NomError e"

text \<open>
  \<open>ParseError::from_error_kind\<close>, the conversion from \<open>nom::error::Error\<close>, which keeps the kind of error, and
  \<open>FromExternalError::from_external_error\<close>, which goes through it.
\<close>

definition from_error_kind :: "error_kind \<Rightarrow> error" where
  "from_error_kind k = ParsingError k"

definition from_nom_error :: "error_kind \<Rightarrow> error" where
  "from_nom_error k = PacketError k"

definition from_external_error :: "error_kind \<Rightarrow> error" where
  "from_external_error k = from_nom_error k"

text \<open>A parser applied to a whole slice with \<open>let (_, x) = parse(i)?\<close>.\<close>

definition run_parser :: "'a parsed \<Rightarrow> 'a res" where
  "run_parser r = map_ok snd (map_err error_of_nom r)"

lemma run_parser_Ok [simp]: "run_parser (Ok (i, x)) = Ok x"
  by (simp add: run_parser_def)

lemma run_parser_eq_Ok [simp]: "run_parser r = Ok x \<longleftrightarrow> (\<exists>i. r = Ok (i, x))"
  by (auto simp: run_parser_def)

lemma run_parser_eq_Panic [simp]: "run_parser r = Panic \<longleftrightarrow> r = Panic"
  by (auto simp: run_parser_def)

end
