(* ===== verification/Pgp_Wire.thy ===== *)
theory Pgp_Wire
  imports Pgp_Errors
begin

text \<open>
  The interface to the crates that read and write integers, slices and times for every packet
  codec: the streaming primitives of \<open>nom\<close>, the writers of \<open>byteorder\<close> and the conversions from
  seconds of \<open>chrono\<close> (a time or duration is its whole number of seconds). Their code is not
  part of the repository, so the models take them as an argument, a record of functions, and
  the locale \<open>wire_laws\<close> states what the codecs rely on: a primitive applied to enough input
  returns the value and the rest, and to too little input reports \<open>Incomplete\<close>; a writer emits
  the big- or little-endian bytes. Combinators that only compose parsers (\<open>map\<close>, \<open>map_res\<close>,
  \<open>map_opt\<close>, \<open>tuple\<close>, \<open>pair\<close>, \<open>alt\<close>, \<open>length_data\<close>, \<open>map_parser\<close>) are written out as the
  composition in the definitions that use them.
\<close>

section \<open>The primitives\<close>

record wire =
  be_u8 :: "bytes \<Rightarrow> u8 parsed"
  be_u16 :: "bytes \<Rightarrow> u16 parsed"
  be_u32 :: "bytes \<Rightarrow> u32 parsed"
  le_u16 :: "bytes \<Rightarrow> u16 parsed"
  take_bytes :: "nat \<Rightarrow> bytes \<Rightarrow> bytes parsed"
  tag_bytes :: "bytes \<Rightarrow> bytes \<Rightarrow> bytes parsed"
  bits_take :: "nat \<Rightarrow> bytes \<times> nat \<Rightarrow> ((bytes \<times> nat) \<times> nat, nom_err) result"
  bits_tag :: "nat \<Rightarrow> nat \<Rightarrow> bytes \<times> nat \<Rightarrow> ((bytes \<times> nat) \<times> nat, nom_err) result"
  write_u16 :: "u16 \<Rightarrow> bytes"
  write_u32 :: "u32 \<Rightarrow> bytes"
  write_u16_le :: "u16 \<Rightarrow> bytes"
  datetime_from_timestamp :: "u32 \<Rightarrow> int option"
  duration_try_seconds :: "u32 \<Rightarrow> int option"

definition incomplete :: "('a, nom_err) result \<Rightarrow> bool" where
  "incomplete r \<longleftrightarrow> (\<exists>n. r = Err (NomIncomplete n))"

text \<open>\<open>rest\<close> returns the whole remaining input, and the parsers of one field of a \<open>map\<close>.\<close>

definition rest_bytes :: "bytes \<Rightarrow> bytes parsed" where
  "rest_bytes i = Ok ([], i)"

definition pmap :: "('a \<Rightarrow> 'b) \<Rightarrow> 'a parsed \<Rightarrow> 'b parsed" where
  "pmap f r = map_ok (\<lambda>(i, x). (i, f x)) r"

text \<open>\<open>map_res p f\<close> with the library's error type: a failing \<open>f\<close> is an error of kind \<open>MapRes\<close>.\<close>

definition pmap_res :: "('a \<Rightarrow> 'b res) \<Rightarrow> 'a parsed \<Rightarrow> 'b parsed" where
  "pmap_res f r = and_then r (\<lambda>(i, x).
     case f x of Ok y \<Rightarrow> Ok (i, y)
     | Err _ \<Rightarrow> Err (NomError (from_external_error KMapRes))
     | Panic \<Rightarrow> Panic)"

text \<open>\<open>map_opt p f\<close>: \<open>None\<close> is an error of kind \<open>MapOpt\<close>.\<close>

definition pmap_opt :: "('a \<Rightarrow> 'b option) \<Rightarrow> 'a parsed \<Rightarrow> 'b parsed" where
  "pmap_opt f r = and_then r (\<lambda>(i, x).
     case f x of Some y \<Rightarrow> Ok (i, y) | None \<Rightarrow> Err (NomError (from_error_kind KMapOpt)))"

text \<open>\<open>complete p\<close> turns \<open>Incomplete\<close> into an error.\<close>

definition pcomplete :: "'a parsed \<Rightarrow> 'a parsed" where
  "pcomplete r = (case r of Err (NomIncomplete _) \<Rightarrow> Err (NomError (from_error_kind KComplete)) | _ \<Rightarrow> r)"

text \<open>\<open>map_parser p q\<close> runs \<open>q\<close> on the output of \<open>p\<close>; \<open>length_data(be_u16)\<close> reads a counted slice.\<close>

definition pmap_parser :: "(bytes \<Rightarrow> 'a parsed) \<Rightarrow> bytes parsed \<Rightarrow> 'a parsed" where
  "pmap_parser q r = and_then r (\<lambda>(i, o1). and_then (q o1) (\<lambda>(_, x). Ok (i, x)))"

definition length_data16 :: "wire \<Rightarrow> bytes \<Rightarrow> bytes parsed" where
  "length_data16 W i = and_then (be_u16 W i) (\<lambda>(i, n). take_bytes W (unat n) i)"

text \<open>
  \<open>many0 p\<close> repeats \<open>p\<close> until it reports an \<open>Error\<close> and returns what it gathered; other failures
  are passed on, and a step that consumes nothing is an error, so that it always ends.
\<close>

function many0 :: "(bytes \<Rightarrow> 'a parsed) \<Rightarrow> bytes \<Rightarrow> 'a list parsed" where
  "many0 p i =
     (case p i of
        Err (NomError _) \<Rightarrow> Ok (i, [])
      | Err e \<Rightarrow> Err e
      | Panic \<Rightarrow> Panic
      | Ok (i1, x) \<Rightarrow>
          if length i1 < length i then and_then (many0 p i1) (\<lambda>(j, xs). Ok (j, x # xs))
          else Err (NomError (from_error_kind KMany0)))"
  by pat_completeness auto
termination
  by (relation "measure (\<lambda>(p, i). length i)") auto

declare many0.simps [simp del]

lemma many0_cong_length:
  assumes "\<And>j. length j \<le> length i \<Longrightarrow> p j = q j"
  shows "many0 p i = many0 q i"
  using assms
proof (induction "length i" arbitrary: i rule: less_induct)
  case less
  have "p i = q i" using less.prems by simp
  moreover have "many0 p j = many0 q j" if "length j < length i" for j
    using less.hyps [OF that] less.prems that by auto
  ultimately show ?case
    by (subst (1 2) many0.simps) (auto split: result.splits nom_err.splits)
qed

text \<open>\<open>bits::bits\<close>: run a bit-level parser from bit 0, throw away a started byte at the end.\<close>

definition bits_run ::
  "(bytes \<times> nat \<Rightarrow> ((bytes \<times> nat) \<times> 'a, nom_err) result) \<Rightarrow> bytes \<Rightarrow> 'a parsed" where
  "bits_run p i = and_then (p (i, 0)) (\<lambda>((r, off), x). Ok (if off = 0 then r else drop 1 r, x))"

lemma pmap_Ok [simp]: "pmap f (Ok (i, x)) = Ok (i, f x)"
  by (simp add: pmap_def)

lemma pmap_res_Ok [simp]: "f x = Ok y \<Longrightarrow> pmap_res f (Ok (i, x)) = Ok (i, y)"
  by (simp add: pmap_res_def)

lemma pmap_opt_Ok [simp]: "f x = Some y \<Longrightarrow> pmap_opt f (Ok (i, x)) = Ok (i, y)"
  by (simp add: pmap_opt_def)

lemma pcomplete_Ok [simp]: "pcomplete (Ok x) = Ok x"
  by (simp add: pcomplete_def)

lemma pmap_parser_Ok [simp]: "q b = Ok (j, x) \<Longrightarrow> pmap_parser q (Ok (i, b)) = Ok (i, x)"
  by (simp add: pmap_parser_def)

lemma pmap_eq_Ok: "pmap f r = Ok (i, y) \<longleftrightarrow> (\<exists>x. r = Ok (i, x) \<and> y = f x)"
  by (auto simp: pmap_def)

lemma pmap_res_eq_Ok: "pmap_res f r = Ok (i, y) \<longleftrightarrow> (\<exists>x. r = Ok (i, x) \<and> f x = Ok y)"
proof (cases r)
  case (Ok p)
  then show ?thesis by (cases p; cases "f (snd p)") (auto simp: pmap_res_def)
qed (simp_all add: pmap_res_def)

section \<open>The laws\<close>

locale wire_laws =
  fixes W :: wire
  assumes be_u8_Cons [simp]: "be_u8 W (b # r) = Ok (r, b)"
    and be_u8_Nil: "incomplete (be_u8 W [])"
    and be_u16_Cons [simp]: "be_u16 W (a # b # r) = Ok (r, of_be16 a b)"
    and be_u16_short: "length i < 2 \<Longrightarrow> incomplete (be_u16 W i)"
    and be_u32_Cons [simp]: "be_u32 W (a # b # c # d # r) = Ok (r, of_be32 a b c d)"
    and be_u32_short: "length i < 4 \<Longrightarrow> incomplete (be_u32 W i)"
    and le_u16_Cons [simp]: "le_u16 W (a # b # r) = Ok (r, of_be16 b a)"
    and le_u16_short: "length i < 2 \<Longrightarrow> incomplete (le_u16 W i)"
    and take_enough [simp]: "n \<le> length i \<Longrightarrow> take_bytes W n i = Ok (drop n i, take n i)"
    and take_short: "length i < n \<Longrightarrow> incomplete (take_bytes W n i)"
    and tag_match [simp]: "tag_bytes W t (t @ r) = Ok (r, t)"
    and tag_mismatch: "\<nexists>r. i = t @ r \<Longrightarrow> \<exists>e. tag_bytes W t i = Err e"
    and bits_take_byte: "off + n \<le> 8 \<Longrightarrow> off < 8 \<Longrightarrow>
      bits_take W n (b # r, off) =
        Ok (if off + n = 8 then (r, 0) else (b # r, off + n),
            (unat b div 2 ^ (8 - off - n)) mod 2 ^ n)"
    and bits_take_16 [simp]:
      "bits_take W 16 (a # b # r, 0) = Ok ((r, 0), unat (of_be16 a b))"
    and bits_take_32 [simp]:
      "bits_take W 32 (a # b # c # d # r, 0) = Ok ((r, 0), unat (of_be32 a b c d))"
    and bits_take_short: "length i * 8 < off + n \<Longrightarrow> incomplete (bits_take W n (i, off))"
    and bits_tag_eq: "bits_tag W v n j = and_then (bits_take W n j)
      (\<lambda>(j', x). if x = v then Ok (j', x) else Err (NomError (from_error_kind KTagBits)))"
    and write_u16_eq [simp]: "write_u16 W x = be16 x"
    and write_u32_eq [simp]: "write_u32 W y = be32 y"
    and write_u16_le_eq [simp]: "write_u16_le W x = le16 x"
    and datetime_from_timestamp_eq [simp]: "datetime_from_timestamp W y = Some (uint y)"
    and duration_try_seconds_eq [simp]: "duration_try_seconds W y = Some (uint y)"
begin

lemma be_u16_be16 [simp]: "be_u16 W (be16 x @ r) = Ok (r, x)"
  by (simp add: be16_def)

lemma be_u32_be32 [simp]: "be_u32 W (be32 x @ r) = Ok (r, x)"
  by (simp add: be32_def)

lemma le_u16_le16 [simp]: "le_u16 W (le16 x @ r) = Ok (r, x)"
  by (simp add: le16_def)

lemma take_append [simp]: "length xs = n \<Longrightarrow> take_bytes W n (xs @ r) = Ok (r, xs)"
  by simp

text \<open>No primitive panics, and the rest is a suffix of the input.\<close>

lemma be_u8_Ok: "be_u8 W i = Ok (r, b) \<longleftrightarrow> i = b # r"
  by (cases i) (use be_u8_Nil in \<open>auto simp: incomplete_def\<close>)

lemma be_u16_Ok: "be_u16 W i = Ok (r, x) \<longleftrightarrow> (\<exists>a b. i = a # b # r \<and> x = of_be16 a b)"
proof (cases "length i < 2")
  case True
  with be_u16_short [OF True] show ?thesis by (auto simp: incomplete_def)
next
  case False
  then obtain a b i' where "i = a # b # i'"
    by (cases i; cases "tl i") auto
  then show ?thesis by auto
qed

lemma be_u32_Ok:
  "be_u32 W i = Ok (r, x) \<longleftrightarrow> (\<exists>a b c d. i = a # b # c # d # r \<and> x = of_be32 a b c d)"
proof (cases "length i < 4")
  case True
  with be_u32_short [OF True] show ?thesis by (auto simp: incomplete_def)
next
  case False
  then obtain a b c d i' where "i = a # b # c # d # i'"
    by (cases i; cases "tl i"; cases "tl (tl i)"; cases "tl (tl (tl i))") auto
  then show ?thesis by auto
qed

lemma take_Ok: "take_bytes W n i = Ok (r, x) \<longleftrightarrow> n \<le> length i \<and> r = drop n i \<and> x = take n i"
  by (cases "n \<le> length i") (use take_short [of i n] in \<open>auto simp: incomplete_def\<close>)

lemma le_u16_Ok: "le_u16 W i = Ok (r, x) \<longleftrightarrow> (\<exists>a b. i = a # b # r \<and> x = of_be16 b a)"
proof (cases "length i < 2")
  case True
  with le_u16_short [OF True] show ?thesis by (auto simp: incomplete_def)
next
  case False
  then obtain a b i' where "i = a # b # i'"
    by (cases i; cases "tl i") auto
  then show ?thesis by auto
qed

lemma be_u8_no_panic [simp]: "be_u8 W i \<noteq> Panic"
  by (cases i) (use be_u8_Nil in \<open>auto simp: incomplete_def\<close>)

lemma be_u16_no_panic [simp]: "be_u16 W i \<noteq> Panic"
  using be_u16_short [of i] be_u16_Cons
  by (cases i; cases "tl i") (auto simp: incomplete_def)

lemma be_u32_no_panic [simp]: "be_u32 W i \<noteq> Panic"
proof (cases "length i < 4")
  case True
  with be_u32_short [OF True] show ?thesis by (auto simp: incomplete_def)
next
  case False
  then obtain a b c d i' where "i = a # b # c # d # i'"
    by (cases i; cases "tl i"; cases "tl (tl i)"; cases "tl (tl (tl i))") auto
  then show ?thesis by simp
qed

lemma take_no_panic [simp]: "take_bytes W n i \<noteq> Panic"
  by (cases "n \<le> length i") (use take_short [of i n] in \<open>auto simp: incomplete_def\<close>)

end

section \<open>A reference implementation of the interface\<close>

text \<open>
  The functions below satisfy the laws; concrete runs of the codecs use them, and the
  interpretation shows that the laws are consistent.
\<close>

fun std_be_u8 :: "bytes \<Rightarrow> u8 parsed" where
  "std_be_u8 [] = Err (NomIncomplete (Size 1))"
| "std_be_u8 (b # r) = Ok (r, b)"

fun std_be_u16 :: "bytes \<Rightarrow> u16 parsed" where
  "std_be_u16 (a # b # r) = Ok (r, of_be16 a b)"
| "std_be_u16 i = Err (NomIncomplete (Size (2 - length i)))"

fun std_le_u16 :: "bytes \<Rightarrow> u16 parsed" where
  "std_le_u16 (a # b # r) = Ok (r, of_be16 b a)"
| "std_le_u16 i = Err (NomIncomplete (Size (2 - length i)))"

fun std_be_u32 :: "bytes \<Rightarrow> u32 parsed" where
  "std_be_u32 (a # b # c # d # r) = Ok (r, of_be32 a b c d)"
| "std_be_u32 i = Err (NomIncomplete (Size (4 - length i)))"

definition std_take :: "nat \<Rightarrow> bytes \<Rightarrow> bytes parsed" where
  "std_take n i = (if n \<le> length i then Ok (drop n i, take n i)
     else Err (NomIncomplete (Size (n - length i))))"

fun be_value :: "bytes \<Rightarrow> nat" where
  "be_value [] = 0"
| "be_value (b # r) = unat b * 256 ^ length r + be_value r"

definition std_bits_take ::
  "nat \<Rightarrow> bytes \<times> nat \<Rightarrow> ((bytes \<times> nat) \<times> nat, nom_err) result" where
  "std_bits_take n = (\<lambda>(i, off).
     if length i * 8 < off + n then Err (NomIncomplete (Size (off + n)))
     else
       let k = (off + n) div 8; m = (off + n + 7) div 8 in
       Ok ((drop k i, (off + n) mod 8),
           (be_value (take m i) div 2 ^ (m * 8 - off - n)) mod 2 ^ n))"

definition std_wire :: wire where
  "std_wire = \<lparr>
     be_u8 = std_be_u8, be_u16 = std_be_u16, be_u32 = std_be_u32, le_u16 = std_le_u16,
     take_bytes = std_take,
     tag_bytes = (\<lambda>t i. if take (length t) i = t then Ok (drop (length t) i, t)
                       else Err (NomError (from_error_kind KTag))),
     bits_take = std_bits_take,
     bits_tag = (\<lambda>v n i. and_then (std_bits_take n i)
       (\<lambda>(i', x). if x = v then Ok (i', x) else Err (NomError (from_error_kind KTagBits)))),
     write_u16 = be16, write_u32 = be32, write_u16_le = le16,
     datetime_from_timestamp = (\<lambda>t. Some (uint t)), duration_try_seconds = (\<lambda>t. Some (uint t))\<rparr>"

lemma length_lt_2: "length i < 2 \<longleftrightarrow> i = [] \<or> (\<exists>a. i = [a])"
  by (cases i; cases "tl i") auto

lemma length_lt_4:
  "length i < 4 \<longleftrightarrow> i = [] \<or> (\<exists>a. i = [a]) \<or> (\<exists>a b. i = [a, b]) \<or> (\<exists>a b c. i = [a, b, c])"
  by (cases i; cases "tl i"; cases "tl (tl i)"; cases "tl (tl (tl i))") auto

lemma std_bits_take_byte:
  assumes "off + n \<le> 8" "off < 8"
  shows "std_bits_take n (b # r, off) =
    Ok (if off + n = 8 then (r, 0) else (b # r, off + n),
        (unat b div 2 ^ (8 - off - n)) mod 2 ^ n)"
proof (cases "off + n = 0 \<or> off + n = 8")
  case True
  with assms show ?thesis by (auto simp: std_bits_take_def Let_def)
next
  case False
  with assms have "(off + n) div 8 = 0" "(off + n + 7) div 8 = 1" "(off + n) mod 8 = off + n"
    by auto
  with assms False show ?thesis by (simp add: std_bits_take_def Let_def)
qed

lemma std_tag_mismatch: "take (length t) i = t \<Longrightarrow> \<exists>r. i = t @ r"
  by (metis append_take_drop_id)

lemma std_bits_take_16:
  "std_bits_take 16 (a # b # r, 0) = Ok ((r, 0), unat (of_be16 a b))"
proof -
  have "be_value [a, b] = unat (of_be16 a b)"
    by (simp add: unat_of_be16)
  then show ?thesis
    using unsigned_less [of "of_be16 a b", where ?'a = nat]
    by (simp add: std_bits_take_def del: unsigned_less)
qed

lemma std_bits_take_32:
  "std_bits_take 32 (a # b # c # d # r, 0) = Ok ((r, 0), unat (of_be32 a b c d))"
proof -
  have "be_value [a, b, c, d] = unat (of_be32 a b c d)"
    by (simp add: unat_of_be32)
  then show ?thesis
    using unsigned_less [of "of_be32 a b c d", where ?'a = nat]
    by (simp add: std_bits_take_def del: unsigned_less)
qed

interpretation std: wire_laws std_wire
proof (unfold_locales, goal_cases)
  case (11 t r)
  show ?case by (simp add: std_wire_def)
next
  case (12 i t)
  then show ?case using std_tag_mismatch [of t i] by (auto simp: std_wire_def)
next
  case (16 i off n)
  then show ?case by (auto simp: std_wire_def std_bits_take_def incomplete_def)
qed (auto simp: std_wire_def std_take_def incomplete_def length_lt_2 length_lt_4
      std_bits_take_byte std_bits_take_16 std_bits_take_32)

end
