(* ===== verification/Pgp_Algorithms.thy ===== *)
theory Pgp_Algorithms
  imports Pgp_Wire
begin

text \<open>
  The algorithm registries: hash (\<open>crypto/hash.rs\<close>), public-key (\<open>crypto/public_key.rs\<close>),
  symmetric (\<open>crypto/sym.rs\<close>), AEAD (\<open>crypto/aead.rs\<close>) and compression
  (\<open>types/compression.rs\<close>) algorithms. Each is an enum over a byte with a catch-all variant;
  the conversions are those of \<open>FromPrimitive\<close> and \<open>IntoPrimitive\<close>, read off the declared
  discriminants. The locale \<open>byte_enum\<close> states the contract they share.
\<close>

section \<open>Enums over a byte\<close>

locale byte_enum =
  fixes to_u8 :: "'a \<Rightarrow> u8" and of_u8 :: "u8 \<Rightarrow> 'a"
  assumes to_of [simp]: "to_u8 (of_u8 b) = b"
begin

lemma of_u8_inject: "of_u8 a = of_u8 b \<longleftrightarrow> a = b"
  by (metis to_of)

lemma canonical_iff_range: "of_u8 (to_u8 x) = x \<longleftrightarrow> (\<exists>b. x = of_u8 b)"
  by (metis to_of)

lemma reparse_idempotent: "of_u8 (to_u8 (of_u8 b)) = of_u8 b"
  by simp

end

text \<open>
  A value is canonical when converting it to its byte and back gives it back; the others hide
  a known discriminant in the catch-all variant and cannot come from parsing.
\<close>

definition canonical :: "('a \<Rightarrow> u8) \<Rightarrow> (u8 \<Rightarrow> 'a) \<Rightarrow> 'a \<Rightarrow> bool" where
  "canonical to_u8 of_u8 x \<longleftrightarrow> of_u8 (to_u8 x) = x"

section \<open>Hash algorithms\<close>

datatype hash_alg =
    Hash_None
  | Hash_MD5
  | Hash_SHA1
  | Hash_RIPEMD160
  | Hash_SHA2_256
  | Hash_SHA2_384
  | Hash_SHA2_512
  | Hash_SHA2_224
  | Hash_SHA3_256
  | Hash_SHA3_512
  | Hash_Private10
  | Hash_Other u8

fun hash_alg_to_u8 :: "hash_alg \<Rightarrow> u8" where
  "hash_alg_to_u8 Hash_None = 0"
| "hash_alg_to_u8 Hash_MD5 = 1"
| "hash_alg_to_u8 Hash_SHA1 = 2"
| "hash_alg_to_u8 Hash_RIPEMD160 = 3"
| "hash_alg_to_u8 Hash_SHA2_256 = 8"
| "hash_alg_to_u8 Hash_SHA2_384 = 9"
| "hash_alg_to_u8 Hash_SHA2_512 = 10"
| "hash_alg_to_u8 Hash_SHA2_224 = 11"
| "hash_alg_to_u8 Hash_SHA3_256 = 12"
| "hash_alg_to_u8 Hash_SHA3_512 = 14"
| "hash_alg_to_u8 Hash_Private10 = 110"
| "hash_alg_to_u8 (Hash_Other b) = b"

definition hash_alg_of_u8 :: "u8 \<Rightarrow> hash_alg" where
  "hash_alg_of_u8 b =
     (if b = 0 then Hash_None
      else if b = 1 then Hash_MD5
      else if b = 2 then Hash_SHA1
      else if b = 3 then Hash_RIPEMD160
      else if b = 8 then Hash_SHA2_256
      else if b = 9 then Hash_SHA2_384
      else if b = 10 then Hash_SHA2_512
      else if b = 11 then Hash_SHA2_224
      else if b = 12 then Hash_SHA3_256
      else if b = 14 then Hash_SHA3_512
      else if b = 110 then Hash_Private10
      else Hash_Other b)"

definition hash_alg_default :: hash_alg where
  "hash_alg_default = Hash_SHA2_256"

definition hash_alg_from_str :: "string \<Rightarrow> hash_alg res" where
  "hash_alg_from_str s =
     (if s = ''None'' then Ok Hash_None
      else if s = ''MD5'' then Ok Hash_MD5
      else if s = ''SHA1'' then Ok Hash_SHA1
      else if s = ''RIPEMD160'' then Ok Hash_RIPEMD160
      else if s = ''SHA256'' then Ok Hash_SHA2_256
      else if s = ''SHA384'' then Ok Hash_SHA2_384
      else if s = ''SHA512'' then Ok Hash_SHA2_512
      else if s = ''SHA224'' then Ok Hash_SHA2_224
      else if s = ''SHA3-256'' then Ok Hash_SHA3_256
      else if s = ''SHA3-512'' then Ok Hash_SHA3_512
      else if s = ''Private10'' then Ok Hash_Private10
      else Err (Message ''unknown hash''))"

text \<open>\<open>Display\<close>; the decimal rendering of an unknown byte is left to the argument \<open>show_u8\<close>.\<close>

fun hash_alg_display :: "(u8 \<Rightarrow> string) \<Rightarrow> hash_alg \<Rightarrow> string" where
  "hash_alg_display show_u8 Hash_MD5 = ''MD5''"
| "hash_alg_display show_u8 Hash_SHA1 = ''SHA1''"
| "hash_alg_display show_u8 Hash_RIPEMD160 = ''RIPEMD160''"
| "hash_alg_display show_u8 Hash_SHA2_256 = ''SHA256''"
| "hash_alg_display show_u8 Hash_SHA2_384 = ''SHA384''"
| "hash_alg_display show_u8 Hash_SHA2_512 = ''SHA512''"
| "hash_alg_display show_u8 Hash_SHA2_224 = ''SHA224''"
| "hash_alg_display show_u8 Hash_SHA3_256 = ''SHA3-256''"
| "hash_alg_display show_u8 Hash_SHA3_512 = ''SHA3-512''"
| "hash_alg_display show_u8 Hash_Private10 = ''Private10''"
| "hash_alg_display show_u8 (Hash_Other v) = ''Other('' @ show_u8 v @ '')''"
| "hash_alg_display show_u8 Hash_None = ''None''"

text \<open>
  The digest crates are a parameter: \<open>hash_fun\<close> is the digest of a message under an algorithm.
  \<open>new_hasher\<close> fails on the algorithms it does not know, a hasher is the data fed to it so far,
  \<open>digest_size\<close> is the crates' output size.
\<close>

record hash_lib =
  hash_fun :: "hash_alg \<Rightarrow> bytes \<Rightarrow> bytes"
  output_size :: "hash_alg \<Rightarrow> nat"
  sha1_collision :: "bytes \<Rightarrow> bool"

definition hash_supported :: "hash_alg \<Rightarrow> bool" where
  "hash_supported a \<longleftrightarrow>
     a \<in> {Hash_MD5, Hash_SHA1, Hash_RIPEMD160, Hash_SHA2_256, Hash_SHA2_384, Hash_SHA2_512,
           Hash_SHA2_224, Hash_SHA3_256, Hash_SHA3_512}"

record hasher =
  hasher_alg :: hash_alg
  hasher_data :: bytes

definition new_hasher :: "hash_alg \<Rightarrow> hasher res" where
  "new_hasher a =
     (if hash_supported a then Ok \<lparr>hasher_alg = a, hasher_data = []\<rparr>
      else Err (Unimplemented ''hasher {:?}''))"

definition hasher_update :: "hasher \<Rightarrow> bytes \<Rightarrow> hasher" where
  "hasher_update h d = h\<lparr>hasher_data := hasher_data h @ d\<rparr>"

definition hasher_finish :: "hash_lib \<Rightarrow> hasher \<Rightarrow> bytes" where
  "hasher_finish H h = hash_fun H (hasher_alg h) (hasher_data h)"

text \<open>\<open>finish_reset_into(out)\<close> copies the first \<open>out.len()\<close> bytes; a longer \<open>out\<close> panics.\<close>

definition hasher_finish_into :: "hash_lib \<Rightarrow> hasher \<Rightarrow> nat \<Rightarrow> bytes res" where
  "hasher_finish_into H h n =
     (let r = hasher_finish H h in if n \<le> length r then Ok (take n r) else Panic)"

definition hash_digest :: "hash_lib \<Rightarrow> hash_alg \<Rightarrow> bytes \<Rightarrow> bytes res" where
  "hash_digest H a d =
     (if a = Hash_SHA1 then
        (if sha1_collision H d then Err Sha1HashCollision else Ok (hash_fun H a d))
      else if hash_supported a then Ok (hash_fun H a d)
      else if a = Hash_Private10 then Err (Unsupported ''Private10 should not be used'')
      else Err (Unimplemented ''hasher: {:?}''))"

definition digest_size :: "hash_lib \<Rightarrow> hash_alg \<Rightarrow> nat" where
  "digest_size H a = (if hash_supported a then output_size H a else 0)"

text \<open>What the code relies on: a digest has the announced, positive size.\<close>

locale hash_laws =
  fixes H :: hash_lib
  assumes output_size_pos: "hash_supported a \<Longrightarrow> 0 < output_size H a"
    and length_hash: "hash_supported a \<Longrightarrow> length (hash_fun H a d) = output_size H a"
begin

lemma finish_into_ok:
  assumes "hash_supported (hasher_alg h)" "n \<le> digest_size H (hasher_alg h)"
  shows "hasher_finish_into H h n = Ok (take n (hasher_finish H h))"
  using assms
  by (simp add: hasher_finish_into_def hasher_finish_def Let_def length_hash digest_size_def)

lemma digest_size_pos: "0 < digest_size H a \<longleftrightarrow> hash_supported a"
  by (simp add: digest_size_def output_size_pos)

end

section \<open>Public-key algorithms\<close>

datatype pk_alg =
    Pk_RSA
  | Pk_RSAEncrypt
  | Pk_RSASign
  | Pk_ElgamalSign
  | Pk_DSA
  | Pk_ECDH
  | Pk_ECDSA
  | Pk_Elgamal
  | Pk_DiffieHellman
  | Pk_EdDSA
  | Pk_Private100
  | Pk_Private101
  | Pk_Private102
  | Pk_Private103
  | Pk_Private104
  | Pk_Private105
  | Pk_Private106
  | Pk_Private107
  | Pk_Private108
  | Pk_Private109
  | Pk_Private110
  | Pk_Unknown u8

fun pk_alg_to_u8 :: "pk_alg \<Rightarrow> u8" where
  "pk_alg_to_u8 Pk_RSA = 1"
| "pk_alg_to_u8 Pk_RSAEncrypt = 2"
| "pk_alg_to_u8 Pk_RSASign = 3"
| "pk_alg_to_u8 Pk_ElgamalSign = 16"
| "pk_alg_to_u8 Pk_DSA = 17"
| "pk_alg_to_u8 Pk_ECDH = 18"
| "pk_alg_to_u8 Pk_ECDSA = 19"
| "pk_alg_to_u8 Pk_Elgamal = 20"
| "pk_alg_to_u8 Pk_DiffieHellman = 21"
| "pk_alg_to_u8 Pk_EdDSA = 22"
| "pk_alg_to_u8 Pk_Private100 = 100"
| "pk_alg_to_u8 Pk_Private101 = 101"
| "pk_alg_to_u8 Pk_Private102 = 102"
| "pk_alg_to_u8 Pk_Private103 = 103"
| "pk_alg_to_u8 Pk_Private104 = 104"
| "pk_alg_to_u8 Pk_Private105 = 105"
| "pk_alg_to_u8 Pk_Private106 = 106"
| "pk_alg_to_u8 Pk_Private107 = 107"
| "pk_alg_to_u8 Pk_Private108 = 108"
| "pk_alg_to_u8 Pk_Private109 = 109"
| "pk_alg_to_u8 Pk_Private110 = 110"
| "pk_alg_to_u8 (Pk_Unknown b) = b"

definition pk_alg_of_u8 :: "u8 \<Rightarrow> pk_alg" where
  "pk_alg_of_u8 b =
     (if b = 1 then Pk_RSA
      else if b = 2 then Pk_RSAEncrypt
      else if b = 3 then Pk_RSASign
      else if b = 16 then Pk_ElgamalSign
      else if b = 17 then Pk_DSA
      else if b = 18 then Pk_ECDH
      else if b = 19 then Pk_ECDSA
      else if b = 20 then Pk_Elgamal
      else if b = 21 then Pk_DiffieHellman
      else if b = 22 then Pk_EdDSA
      else if b = 100 then Pk_Private100
      else if b = 101 then Pk_Private101
      else if b = 102 then Pk_Private102
      else if b = 103 then Pk_Private103
      else if b = 104 then Pk_Private104
      else if b = 105 then Pk_Private105
      else if b = 106 then Pk_Private106
      else if b = 107 then Pk_Private107
      else if b = 108 then Pk_Private108
      else if b = 109 then Pk_Private109
      else if b = 110 then Pk_Private110
      else Pk_Unknown b)"

section \<open>Symmetric algorithms\<close>

datatype sym_alg =
    Sym_Plaintext
  | Sym_IDEA
  | Sym_TripleDES
  | Sym_CAST5
  | Sym_Blowfish
  | Sym_AES128
  | Sym_AES192
  | Sym_AES256
  | Sym_Twofish
  | Sym_Camellia128
  | Sym_Camellia192
  | Sym_Camellia256
  | Sym_Private10
  | Sym_Other u8

fun sym_alg_to_u8 :: "sym_alg \<Rightarrow> u8" where
  "sym_alg_to_u8 Sym_Plaintext = 0"
| "sym_alg_to_u8 Sym_IDEA = 1"
| "sym_alg_to_u8 Sym_TripleDES = 2"
| "sym_alg_to_u8 Sym_CAST5 = 3"
| "sym_alg_to_u8 Sym_Blowfish = 4"
| "sym_alg_to_u8 Sym_AES128 = 7"
| "sym_alg_to_u8 Sym_AES192 = 8"
| "sym_alg_to_u8 Sym_AES256 = 9"
| "sym_alg_to_u8 Sym_Twofish = 10"
| "sym_alg_to_u8 Sym_Camellia128 = 11"
| "sym_alg_to_u8 Sym_Camellia192 = 12"
| "sym_alg_to_u8 Sym_Camellia256 = 13"
| "sym_alg_to_u8 Sym_Private10 = 110"
| "sym_alg_to_u8 (Sym_Other b) = b"

definition sym_alg_of_u8 :: "u8 \<Rightarrow> sym_alg" where
  "sym_alg_of_u8 b =
     (if b = 0 then Sym_Plaintext
      else if b = 1 then Sym_IDEA
      else if b = 2 then Sym_TripleDES
      else if b = 3 then Sym_CAST5
      else if b = 4 then Sym_Blowfish
      else if b = 7 then Sym_AES128
      else if b = 8 then Sym_AES192
      else if b = 9 then Sym_AES256
      else if b = 10 then Sym_Twofish
      else if b = 11 then Sym_Camellia128
      else if b = 12 then Sym_Camellia192
      else if b = 13 then Sym_Camellia256
      else if b = 110 then Sym_Private10
      else Sym_Other b)"

fun block_size :: "sym_alg \<Rightarrow> nat" where
  "block_size Sym_Plaintext = 0"
| "block_size Sym_IDEA = 8"
| "block_size Sym_TripleDES = 8"
| "block_size Sym_CAST5 = 8"
| "block_size Sym_Blowfish = 8"
| "block_size Sym_AES128 = 16"
| "block_size Sym_AES192 = 16"
| "block_size Sym_AES256 = 16"
| "block_size Sym_Twofish = 16"
| "block_size Sym_Camellia128 = 16"
| "block_size Sym_Camellia192 = 16"
| "block_size Sym_Camellia256 = 16"
| "block_size Sym_Private10 = 0"
| "block_size (Sym_Other _) = 0"

fun key_size :: "sym_alg \<Rightarrow> nat" where
  "key_size Sym_Plaintext = 0"
| "key_size Sym_IDEA = 16"
| "key_size Sym_TripleDES = 24"
| "key_size Sym_CAST5 = 16"
| "key_size Sym_Blowfish = 16"
| "key_size Sym_AES128 = 16"
| "key_size Sym_AES192 = 24"
| "key_size Sym_AES256 = 32"
| "key_size Sym_Twofish = 32"
| "key_size Sym_Camellia128 = 16"
| "key_size Sym_Camellia192 = 24"
| "key_size Sym_Camellia256 = 32"
| "key_size Sym_Private10 = 0"
| "key_size (Sym_Other _) = 0"

section \<open>AEAD algorithms\<close>

datatype aead_alg =
    Aead_None
  | Aead_Eax
  | Aead_Ocb
  | Aead_Gcm
  | Aead_Private100
  | Aead_Private101
  | Aead_Private102
  | Aead_Private103
  | Aead_Private104
  | Aead_Private105
  | Aead_Private106
  | Aead_Private107
  | Aead_Private108
  | Aead_Private109
  | Aead_Private110
  | Aead_Other u8

fun aead_alg_to_u8 :: "aead_alg \<Rightarrow> u8" where
  "aead_alg_to_u8 Aead_None = 0"
| "aead_alg_to_u8 Aead_Eax = 1"
| "aead_alg_to_u8 Aead_Ocb = 2"
| "aead_alg_to_u8 Aead_Gcm = 3"
| "aead_alg_to_u8 Aead_Private100 = 100"
| "aead_alg_to_u8 Aead_Private101 = 101"
| "aead_alg_to_u8 Aead_Private102 = 102"
| "aead_alg_to_u8 Aead_Private103 = 103"
| "aead_alg_to_u8 Aead_Private104 = 104"
| "aead_alg_to_u8 Aead_Private105 = 105"
| "aead_alg_to_u8 Aead_Private106 = 106"
| "aead_alg_to_u8 Aead_Private107 = 107"
| "aead_alg_to_u8 Aead_Private108 = 108"
| "aead_alg_to_u8 Aead_Private109 = 109"
| "aead_alg_to_u8 Aead_Private110 = 110"
| "aead_alg_to_u8 (Aead_Other b) = b"

definition aead_alg_of_u8 :: "u8 \<Rightarrow> aead_alg" where
  "aead_alg_of_u8 b =
     (if b = 0 then Aead_None
      else if b = 1 then Aead_Eax
      else if b = 2 then Aead_Ocb
      else if b = 3 then Aead_Gcm
      else if b = 100 then Aead_Private100
      else if b = 101 then Aead_Private101
      else if b = 102 then Aead_Private102
      else if b = 103 then Aead_Private103
      else if b = 104 then Aead_Private104
      else if b = 105 then Aead_Private105
      else if b = 106 then Aead_Private106
      else if b = 107 then Aead_Private107
      else if b = 108 then Aead_Private108
      else if b = 109 then Aead_Private109
      else if b = 110 then Aead_Private110
      else Aead_Other b)"

fun nonce_size :: "aead_alg \<Rightarrow> nat" where
  "nonce_size Aead_Eax = 16"
| "nonce_size Aead_Ocb = 15"
| "nonce_size Aead_Gcm = 12"
| "nonce_size _ = 0"

fun iv_size :: "aead_alg \<Rightarrow> nat" where
  "iv_size Aead_Eax = 16"
| "iv_size Aead_Ocb = 15"
| "iv_size Aead_Gcm = 12"
| "iv_size _ = 0"

fun tag_size :: "aead_alg \<Rightarrow> nat" where
  "tag_size Aead_Eax = 16"
| "tag_size Aead_Ocb = 16"
| "tag_size Aead_Gcm = 16"
| "tag_size _ = 0"

section \<open>Compression algorithms\<close>

datatype compression_alg =
    Comp_Uncompressed
  | Comp_ZIP
  | Comp_ZLIB
  | Comp_BZip2
  | Comp_Private10
  | Comp_Other u8

fun compression_alg_to_u8 :: "compression_alg \<Rightarrow> u8" where
  "compression_alg_to_u8 Comp_Uncompressed = 0"
| "compression_alg_to_u8 Comp_ZIP = 1"
| "compression_alg_to_u8 Comp_ZLIB = 2"
| "compression_alg_to_u8 Comp_BZip2 = 3"
| "compression_alg_to_u8 Comp_Private10 = 110"
| "compression_alg_to_u8 (Comp_Other b) = b"

definition compression_alg_of_u8 :: "u8 \<Rightarrow> compression_alg" where
  "compression_alg_of_u8 b =
     (if b = 0 then Comp_Uncompressed
      else if b = 1 then Comp_ZIP
      else if b = 2 then Comp_ZLIB
      else if b = 3 then Comp_BZip2
      else if b = 110 then Comp_Private10
      else Comp_Other b)"

section \<open>The enums satisfy the contract\<close>

interpretation hash_enum: byte_enum hash_alg_to_u8 hash_alg_of_u8
  by unfold_locales (simp add: hash_alg_of_u8_def)

interpretation pk_enum: byte_enum pk_alg_to_u8 pk_alg_of_u8
  by unfold_locales (simp add: pk_alg_of_u8_def)

interpretation sym_enum: byte_enum sym_alg_to_u8 sym_alg_of_u8
  by unfold_locales (simp add: sym_alg_of_u8_def)

interpretation aead_enum: byte_enum aead_alg_to_u8 aead_alg_of_u8
  by unfold_locales (simp add: aead_alg_of_u8_def)

interpretation compression_enum: byte_enum compression_alg_to_u8 compression_alg_of_u8
  by unfold_locales (simp add: compression_alg_of_u8_def)

lemmas canonical_hash = canonical_def [of hash_alg_to_u8 hash_alg_of_u8]
lemmas canonical_pk = canonical_def [of pk_alg_to_u8 pk_alg_of_u8]
lemmas canonical_sym = canonical_def [of sym_alg_to_u8 sym_alg_of_u8]
lemmas canonical_aead = canonical_def [of aead_alg_to_u8 aead_alg_of_u8]
lemmas canonical_compression = canonical_def [of compression_alg_to_u8 compression_alg_of_u8]

lemma block_size_8_or_16: "block_size a \<in> {0, 8, 16}"
  by (cases a) simp_all

text \<open>A reference digest library, for concrete runs: a digest is the message padded or cut.\<close>

definition std_hash :: hash_lib where
  "std_hash = \<lparr>hash_fun = (\<lambda>a d. take 20 (d @ replicate 20 0)), output_size = (\<lambda>_. 20),
     sha1_collision = (\<lambda>_. False)\<rparr>"

interpretation std_hash: hash_laws std_hash
  by unfold_locales (simp_all add: std_hash_def)

text \<open>
  Every hash name that \<open>Display\<close> prints for a known algorithm is parsed back by \<open>FromStr\<close> to
  the same algorithm, and \<open>FromStr\<close> accepts no other string.
\<close>

theorem hash_alg_display_roundtrip:
  "hash_alg_from_str s = Ok a \<longleftrightarrow> s = hash_alg_display show_u8 a \<and> a \<notin> range Hash_Other"
  by (cases a) (auto simp: hash_alg_from_str_def split: if_splits)

end
