(* ===== verification/Pgp_Util.thy ===== *)
theory Pgp_Util
  imports Pgp_Wire
begin

text \<open>
  \<open>src/src/util.rs\<close>: the byte-string helpers and the variable-length packet lengths used
  inside signature subpackets and user attributes. The length codec round-trips on every
  32-bit length; the in-place variant of leading-zero stripping is characterised exactly,
  since it differs from the slice variant. The writers of the file are in \<open>Pgp_Writers\<close>.
\<close>

section \<open>Helpers of the standard library\<close>

primrec position :: "('a \<Rightarrow> bool) \<Rightarrow> 'a list \<Rightarrow> nat option" where
  "position P [] = None"
| "position P (x # xs) = (if P x then Some 0 else map_option Suc (position P xs))"

definition leading_zeros8 :: "u8 \<Rightarrow> nat" where
  "leading_zeros8 b = length (takeWhile (\<lambda>k. \<not> bit b k) [7, 6, 5, 4, 3, 2, 1, 0])"

text \<open>\<open>Vec::remove\<close>, which panics when the index is out of range.\<close>

definition vec_remove :: "nat \<Rightarrow> 'a list \<Rightarrow> ('a list, 'e) result" where
  "vec_remove i xs = (if i < length xs then Ok (take i xs @ drop (Suc i) xs) else Panic)"

lemma position_Some:
  "position P xs = Some k \<longleftrightarrow> k < length xs \<and> P (xs ! k) \<and> (\<forall>j < k. \<not> P (xs ! j))"
proof (induction xs arbitrary: k)
  case (Cons x xs)
  then show ?case by (cases k) (auto simp: less_Suc_eq_0_disj)
qed simp

lemma position_None: "position P xs = None \<longleftrightarrow> (\<forall>x \<in> set xs. \<not> P x)"
  by (induction xs) auto

section \<open>The utilities\<close>

definition is_alphanumeric :: "u8 \<Rightarrow> bool" where
  "is_alphanumeric c \<longleftrightarrow> (48 \<le> c \<and> c \<le> 57) \<or> (65 \<le> c \<and> c \<le> 90) \<or> (97 \<le> c \<and> c \<le> 122)"

definition is_base64_token :: "u8 \<Rightarrow> bool" where
  "is_base64_token c \<longleftrightarrow>
     is_alphanumeric c \<or> c = 47 \<or> c = 43 \<or> c = 61 \<or> c = 10 \<or> c = 13"

definition base64_token :: "bytes \<Rightarrow> bytes parsed" where
  "base64_token i =
     (if i = [] then Err (NomIncomplete Unknown)
      else case position (\<lambda>c. \<not> is_base64_token c) i of
        Some idx \<Rightarrow> if idx = 0 then Err (NomError (ParsingError KAlphaNumeric))
                    else Ok (drop idx i, take idx i)
      | None \<Rightarrow> Ok ([], i))"

definition bit_size :: "bytes \<Rightarrow> nat" where
  "bit_size v = (case v of [] \<Rightarrow> 0 | b # _ \<Rightarrow> length v * 8 - leading_zeros8 b)"

definition strip_leading_zeros :: "bytes \<Rightarrow> bytes" where
  "strip_leading_zeros xs =
     (case position (\<lambda>b. b \<noteq> 0) xs of None \<Rightarrow> xs | Some offset \<Rightarrow> drop offset xs)"

text \<open>\<open>for i in 0..offset { bytes.remove(i); }\<close>\<close>

fun remove_each :: "nat list \<Rightarrow> bytes \<Rightarrow> bytes res" where
  "remove_each [] xs = Ok xs"
| "remove_each (i # is) xs = and_then (vec_remove i xs) (remove_each is)"

definition strip_leading_zeros_vec :: "bytes \<Rightarrow> bytes res" where
  "strip_leading_zeros_vec xs =
     (case position (\<lambda>b. b \<noteq> 0) xs of None \<Rightarrow> Ok xs | Some offset \<Rightarrow> remove_each [0..<offset] xs)"

definition packet_length :: "wire \<Rightarrow> bytes \<Rightarrow> nat parsed" where
  "packet_length W i = and_then (be_u8 W i) (\<lambda>(i, olen).
     if olen \<le> 191 then Ok (i, unat olen)
     else if olen \<le> 254 then
       pmap (\<lambda>a. (unat olen - 192) * 256 + 192 + unat a) (be_u8 W i)
     else pmap unat (be_u32 W i))"

definition write_packet_len :: "wire \<Rightarrow> nat \<Rightarrow> bytes" where
  "write_packet_len W len =
     (if len < 192 then [of_nat len]
      else if len < 8384 then [of_nat ((len - 192) div 256 + 192), of_nat ((len - 192) mod 256)]
      else write_u32 W (of_nat len))"

definition write_packet_length :: "wire \<Rightarrow> nat \<Rightarrow> bytes" where
  "write_packet_length W len =
     (if len < 8384 then [] else [255]) @ write_packet_len W len"

section \<open>Leading zeros\<close>

lemma leading_zeros8_le: "leading_zeros8 b \<le> 8"
  using length_takeWhile_le [of "\<lambda>k. \<not> bit b k" "[7, 6, 5, 4, 3, 2, 1, 0]"]
  by (simp add: leading_zeros8_def)

lemma leading_zeros8_0 [simp]: "leading_zeros8 0 = 8"
  by (simp add: leading_zeros8_def)

lemma leading_zeros8_lt: "b \<noteq> 0 \<Longrightarrow> leading_zeros8 b < 8"
proof (rule ccontr)
  assume "b \<noteq> 0" and "\<not> leading_zeros8 b < 8"
  then have "takeWhile (\<lambda>k. \<not> bit b k) [7, 6, 5, 4, 3, 2, 1, 0] = [7, 6, 5, 4, 3, 2, 1, 0]"
    using leading_zeros8_le [of b] takeWhile_eq_take [of "\<lambda>k. \<not> bit b k" "[7, 6, 5, 4, 3, 2, 1, 0]"]
    by (simp add: leading_zeros8_def)
  then have "\<forall>k \<in> {0, 1, 2, 3, 4, 5, 6, 7}. \<not> bit b k"
    by (auto simp only: takeWhile_eq_all_conv list.set)
  moreover have "n \<in> {0, 1, 2, 3, 4, 5, 6, 7}" if "n < 8" for n :: nat
    using that by auto
  ultimately have "b = 0"
    by (intro bit_word_eqI) auto
  with \<open>b \<noteq> 0\<close> show False by simp
qed

lemma strip_leading_zeros_idem [simp]:
  "xs \<noteq> [] \<Longrightarrow> hd xs \<noteq> 0 \<Longrightarrow> strip_leading_zeros xs = xs"
  by (cases xs) (auto simp: strip_leading_zeros_def position_def)

lemma strip_leading_zeros_Nil [simp]: "strip_leading_zeros [] = []"
  by (simp add: strip_leading_zeros_def position_def)

lemma strip_leading_zeros_hd:
  "\<exists>x \<in> set xs. x \<noteq> 0 \<Longrightarrow> strip_leading_zeros xs \<noteq> [] \<and> hd (strip_leading_zeros xs) \<noteq> 0"
proof -
  assume "\<exists>x \<in> set xs. x \<noteq> 0"
  then obtain k where k: "position (\<lambda>b. b \<noteq> 0) xs = Some k"
    by (cases "position (\<lambda>b. b \<noteq> 0) xs") (auto simp: position_None)
  then have "k < length xs" "xs ! k \<noteq> 0" by (auto simp: position_Some)
  with k show ?thesis by (simp add: strip_leading_zeros_def hd_drop_conv_nth)
qed

section \<open>Packet lengths\<close>

context wire_laws
begin

lemma packet_length_write_packet_length:
  assumes "len < 2 ^ 32"
  shows "packet_length W (write_packet_length W len @ r) = Ok (r, len)"
proof -
  consider "len < 192" | "192 \<le> len" "len < 8384" | "8384 \<le> len" by linarith
  then show ?thesis
  proof cases
    case 1
    then show ?thesis
      by (simp add: packet_length_def write_packet_length_def write_packet_len_def word_le_nat_alt)
  next
    case 2
    define m where "m = (len - 192) div 256"
    from 2 have "m < 32" by (simp add: m_def)
    then have "unat (of_nat m + 192 :: u8) = m + 192"
      using unat_of_nat_small [of "m + 192", where ?'a = 8] by simp
    moreover have "m * 256 + 192 + (len - 192) mod 256 = len"
      using 2 by (simp add: m_def)
    ultimately show ?thesis
      using 2 \<open>m < 32\<close> unfolding m_def
      by (simp add: packet_length_def write_packet_length_def write_packet_len_def word_le_nat_alt
          pmap_def)
  next
    case 3
    with assms show ?thesis
      by (simp add: packet_length_def write_packet_length_def write_packet_len_def word_le_nat_alt
          pmap_def)
  qed
qed

lemma packet_length_no_panic [simp]: "packet_length W i \<noteq> Panic"
  by (auto simp: packet_length_def pmap_def and_then_eq_Panic)

lemma packet_length_consumes:
  "packet_length W i = Ok (r, n) \<Longrightarrow> \<exists>p. i = p @ r \<and> p \<noteq> [] \<and> length p \<le> 5"
  by (auto simp: packet_length_def pmap_def be_u8_Ok be_u32_Ok split: if_splits)

end

lemma length_write_packet_length:
  assumes "wire_laws W"
  shows "length (write_packet_length W len) = (if len < 192 then 1 else if len < 8384 then 2 else 5)"
  using wire_laws.write_u32_eq [OF assms]
  by (simp add: write_packet_length_def write_packet_len_def)

text \<open>
  Packet lengths round-trip: for every length below \<open>2^32\<close>, reading what
  \<open>write_packet_length\<close> wrote returns that length and leaves the following bytes untouched.
\<close>

theorem packet_length_roundtrip:
  assumes "wire_laws W" and "len < 2 ^ 32"
  shows "packet_length W (write_packet_length W len @ r) = Ok (r, len)"
  using assms by (rule wire_laws.packet_length_write_packet_length)

theorem packet_length_roundtrip_witness:
  "packet_length std_wire (write_packet_length std_wire 12870 @ [7]) = Ok ([7], 12870)
   \<and> write_packet_length std_wire 12870 = [0xff, 0, 0, 0x32, 0x46]"
  using packet_length_roundtrip [OF std.wire_laws_axioms, of 12870 "[7]"]
  by (simp add: write_packet_length_def write_packet_len_def std_wire_def be32_def)

section \<open>Stripping zeros in place\<close>

lemma remove_each_keeps_hd:
  "remove_each is xs = Ok ys \<Longrightarrow> 0 \<notin> set is \<Longrightarrow> ys \<noteq> [] \<longrightarrow> xs \<noteq> [] \<and> hd ys = hd xs"
proof (induction "is" arbitrary: xs)
  case (Cons i "is")
  then obtain zs where zs: "vec_remove i xs = (Ok zs :: bytes res)" "remove_each is zs = Ok ys"
    by auto
  with Cons.IH [OF zs(2)] Cons.prems(2) have "ys \<noteq> [] \<longrightarrow> zs \<noteq> [] \<and> hd ys = hd zs" by simp
  moreover from zs(1) Cons.prems(2) have "xs \<noteq> []" "hd zs = hd xs"
    by (cases xs; cases i; auto simp: vec_remove_def split: if_splits)+
  ultimately show ?case by simp
qed simp

lemma remove_each_length:
  "remove_each is xs = Ok ys \<Longrightarrow> length ys + length is = length xs"
proof (induction "is" arbitrary: xs)
  case (Cons i "is")
  then obtain zs where zs: "vec_remove i xs = (Ok zs :: bytes res)" "remove_each is zs = Ok ys"
    by auto
  from zs(1) have "length xs = Suc (length zs)"
    by (auto simp: vec_remove_def split: if_splits)
  with Cons.IH [OF zs(2)] show ?case by simp
qed simp

lemma remove_each_zeros_left:
  assumes "position (\<lambda>b. b \<noteq> 0) xs = Some k" "2 \<le> k" "remove_each [0..<k] xs = Ok ys"
  shows "ys \<noteq> [] \<and> hd ys = 0"
proof -
  have k: "k < length xs" "\<forall>j < k. xs ! j = 0"
    using assms(1) by (auto simp: position_Some)
  have "[0..<k] = 0 # [1..<k]"
    using assms(2) by (simp add: upt_conv_Cons)
  with assms(3) obtain zs where zs: "vec_remove 0 xs = (Ok zs :: bytes res)"
    "remove_each [1..<k] zs = Ok ys" by auto
  have "ys \<noteq> []"
    using remove_each_length [OF assms(3)] k(1) by auto
  moreover have "hd zs = 0"
    using zs(1) k assms(2) by (auto simp: vec_remove_def hd_drop_conv_nth split: if_splits)
  ultimately show ?thesis
    using remove_each_keeps_hd [OF zs(2)] by simp
qed

lemma strip_leading_zeros_vec_short:
  assumes "position (\<lambda>b. b \<noteq> 0) xs = Some k" "k \<le> 1"
  shows "strip_leading_zeros_vec xs = Ok (strip_leading_zeros xs)"
proof -
  from assms(1) have "k < length xs" by (simp add: position_Some)
  moreover from assms(2) have "k = 0 \<or> k = 1" by auto
  ultimately show ?thesis
    using assms(1)
    by (auto simp: strip_leading_zeros_vec_def strip_leading_zeros_def vec_remove_def)
qed

text \<open>
  The in-place \<open>strip_leading_zeros_vec\<close> (behind \<open>Mpi::from_raw\<close>) agrees with
  \<open>strip_leading_zeros\<close> exactly when the first non-zero byte has index at most 1: it removes
  index \<open>i\<close> of the already shortened vector at step \<open>i\<close>, so with two or more leading zeros
  it either panics or returns bytes that still start with a zero.
\<close>

theorem strip_leading_zeros_vec_correct_iff:
  assumes "position (\<lambda>b. b \<noteq> 0) xs = Some k"
  shows "strip_leading_zeros_vec xs = Ok (strip_leading_zeros xs) \<longleftrightarrow> k \<le> 1"
proof
  assume ok: "strip_leading_zeros_vec xs = Ok (strip_leading_zeros xs)"
  show "k \<le> 1"
  proof (rule ccontr)
    assume "\<not> k \<le> 1"
    moreover from ok assms have "remove_each [0..<k] xs = Ok (strip_leading_zeros xs)"
      by (simp add: strip_leading_zeros_vec_def)
    ultimately have "hd (strip_leading_zeros xs) = 0"
      using remove_each_zeros_left [OF assms] by simp
    moreover from assms have "\<exists>x \<in> set xs. x \<noteq> 0"
      by (auto simp: position_Some intro!: bexI [of _ "xs ! k"])
    then have "hd (strip_leading_zeros xs) \<noteq> 0"
      using strip_leading_zeros_hd by blast
    ultimately show False by simp
  qed
next
  assume "k \<le> 1"
  with assms show "strip_leading_zeros_vec xs = Ok (strip_leading_zeros xs)"
    by (rule strip_leading_zeros_vec_short)
qed

theorem strip_leading_zeros_vec_correct_iff_witness:
  "strip_leading_zeros [0, 0, 5] = [5] \<and> strip_leading_zeros_vec [0, 0, 5] = Ok [0]
   \<and> strip_leading_zeros_vec [0, 0, 5] \<noteq> Ok (strip_leading_zeros [0, 0, 5])
   \<and> strip_leading_zeros_vec [0, 0, 0, 5] = Panic"
proof -
  have "position (\<lambda>b. b \<noteq> 0) [0, 0, 5 :: u8] = Some 2" by code_simp
  from strip_leading_zeros_vec_correct_iff [OF this]
  have "strip_leading_zeros_vec [0, 0, 5] \<noteq> Ok (strip_leading_zeros [0, 0, 5])" by simp
  moreover have "strip_leading_zeros [0, 0, 5] = [5]" by code_simp
  moreover have "strip_leading_zeros_vec [0, 0, 5] = Ok [0]" by code_simp
  moreover have "strip_leading_zeros_vec [0, 0, 0, 5] = Panic" by code_simp
  ultimately show ?thesis by blast
qed

section \<open>The end of a line\<close>

text \<open>
  \<open>end_of_line\<close> is \<open>alt((eof, end_of_line))\<close>: where \<open>eof\<close> fails it tries itself on the same input. A call
  that does not return is \<open>None\<close>.
\<close>

partial_function (option) end_of_line :: "bytes \<Rightarrow> bytes parsed option" where
  "end_of_line i = (if i = [] then Some (Ok ([], [])) else end_of_line i)"

text \<open>It returns at the end of the input only.\<close>

lemma end_of_line_returns: "end_of_line i = (if i = [] then Some (Ok ([], [])) else None)"
proof (cases "end_of_line i")
  case (Some r)
  have "i = []"
    by (rule end_of_line.raw_induct [where P = "\<lambda>i r. i = []", OF _ Some]) (auto split: if_splits)
  then show ?thesis by (simp add: end_of_line.simps)
qed (auto simp: end_of_line.simps [of "[]"])

end
