(* ===== verification/Pgp_Mpi.thy ===== *)
theory Pgp_Mpi
  imports Pgp_Util
begin

text \<open>
  Multi-precision integers, \<open>src/src/types/mpi.rs\<close>. \<open>Mpi\<close> and \<open>MpiRef\<close> are newtypes over the
  bytes of the number; the writer prefixes the bit length in 16 bits and the reader strips
  leading zeros. A stripped number below the 16-bit limit round-trips; the size check of the
  reader, which compares a byte count with a bit limit, never fires.
\<close>

section \<open>Model\<close>

type_synonym mpi = bytes

definition MAX_EXTERN_MPI_BITS :: nat where
  "MAX_EXTERN_MPI_BITS = 16384"

text \<open>\<open>mpi\<close>: \<open>slice_index\<close>/\<open>take_split\<close> of the source are the streaming \<open>take\<close> ("same as take!").\<close>

definition mpi_parse :: "wire \<Rightarrow> bytes \<Rightarrow> mpi parsed" where
  "mpi_parse W i = and_then (be_u16 W i) (\<lambda>(number, len).
     let len_actual = (unat len + 7) div 8 in
     if len_actual > MAX_EXTERN_MPI_BITS then Err (NomError InvalidInput)
     else and_then (take_bytes W len_actual number) (\<lambda>(rest, n).
       Ok (rest, strip_leading_zeros n)))"

definition mpi_from_raw :: "bytes \<Rightarrow> mpi res" where
  "mpi_from_raw v = strip_leading_zeros_vec v"

definition mpi_from_slice :: "bytes \<Rightarrow> mpi" where
  "mpi_from_slice s = s"

definition mpi_from_raw_slice :: "bytes \<Rightarrow> mpi" where
  "mpi_from_raw_slice raw = strip_leading_zeros raw"

text \<open>\<open>MpiRef::strip_trailing_zeroes\<close>: the loop over the reversed bytes counts \<open>end\<close> down.\<close>

fun trailing_end :: "bytes \<Rightarrow> nat \<Rightarrow> nat" where
  "trailing_end [] e = e"
| "trailing_end (b # bs) e = (if b = 0 then trailing_end bs (e - 1) else e)"

definition strip_trailing_zeroes :: "mpi \<Rightarrow> mpi" where
  "strip_trailing_zeroes m = take (trailing_end (rev m) (length m)) m"

definition mpi_to_writer :: "wire \<Rightarrow> mpi \<Rightarrow> bytes" where
  "mpi_to_writer W m = write_u16 W (of_nat (bit_size m)) @ m"

text \<open>
  The numbers that survive a round trip: no leading zero, or the single byte zero would be
  written as length 0; and a bit size that fits the 16-bit length field.
\<close>

definition mpi_ok :: "mpi \<Rightarrow> bool" where
  "mpi_ok m \<longleftrightarrow> (m = [] \<or> hd m \<noteq> 0) \<and> bit_size m < 2 ^ 16"

section \<open>Sizes\<close>

lemma bit_size_bytes:
  assumes "m = [] \<or> hd m \<noteq> 0"
  shows "(bit_size m + 7) div 8 = length m"
proof (cases m)
  case (Cons b bs)
  with assms have "leading_zeros8 b < 8" by (simp add: leading_zeros8_lt)
  then have "bit_size m = length bs * 8 + (8 - leading_zeros8 b)" "1 \<le> 8 - leading_zeros8 b"
    using Cons by (simp_all add: bit_size_def)
  then show ?thesis using Cons by simp
qed (simp add: bit_size_def)

lemma strip_trailing_zeroes_append:
  "trailing_end (rev m) (length m) = length (rev (dropWhile (\<lambda>b. b = 0) (rev m)))"
proof -
  have "trailing_end bs (length bs) = length (dropWhile (\<lambda>b. b = 0) bs)" for bs
    by (induction bs) auto
  from this [of "rev m"] show ?thesis by simp
qed

lemma strip_trailing_zeroes_eq:
  "strip_trailing_zeroes m = rev (dropWhile (\<lambda>b. b = 0) (rev m))"
proof -
  have "rev (dropWhile (\<lambda>b. b = 0) (rev m)) @ rev (takeWhile (\<lambda>b. b = 0) (rev m)) = m"
    by (metis rev_append rev_rev_ident takeWhile_dropWhile_id)
  then show ?thesis
    unfolding strip_trailing_zeroes_def strip_trailing_zeroes_append
    by (metis append_eq_conv_conj)
qed

context wire_laws
begin

lemma mpi_parse_to_writer [simp]:
  assumes "mpi_ok m"
  shows "mpi_parse W (mpi_to_writer W m @ r) = Ok (r, m)"
proof -
  have strip: "strip_leading_zeros m = m"
    using assms by (cases m) (auto simp: mpi_ok_def)
  have len: "(bit_size m + 7) div 8 = length m"
    using assms by (simp add: bit_size_bytes mpi_ok_def)
  moreover have "length m \<le> MAX_EXTERN_MPI_BITS"
  proof -
    have "bit_size m < 65536" using assms by (simp add: mpi_ok_def)
    then have "(bit_size m + 7) div 8 \<le> 16384" by simp
    then show ?thesis using len by (simp add: MAX_EXTERN_MPI_BITS_def)
  qed
  ultimately show ?thesis
    using assms strip by (simp add: mpi_parse_def mpi_to_writer_def mpi_ok_def)
qed

lemma mpi_parse_no_panic [simp]: "mpi_parse W i \<noteq> Panic"
  by (auto simp: mpi_parse_def Let_def and_then_eq_Panic)

lemma mpi_size_check_never_fires:
  "mpi_parse W i \<noteq> Err (NomError InvalidInput)"
proof
  assume *: "mpi_parse W i = Err (NomError InvalidInput)"
  have le: "(unat (x :: u16) + 7) div 8 \<le> 16384" for x
  proof -
    have "unat x < 65536" using unsigned_less [of x, where ?'a = nat] by simp
    then show ?thesis by simp
  qed
  have "be_u16 W i \<noteq> Err (NomError InvalidInput)"
    using be_u16_short [of i] be_u16_Cons
    by (cases i; cases "tl i") (auto simp: incomplete_def)
  moreover have "take_bytes W n j \<noteq> Err (NomError InvalidInput)" for n j
    by (cases "n \<le> length j") (use take_short [of j n] in \<open>auto simp: incomplete_def\<close>)
  ultimately show False
    using * le by (auto simp: mpi_parse_def Let_def and_then_eq_Err MAX_EXTERN_MPI_BITS_def
        not_less split: if_splits)
qed

lemma mpi_parse_consumes:
  assumes "mpi_parse W i = Ok (r, m)"
  shows "\<exists>a b n. i = a # b # n @ r \<and> length n = (unat (of_be16 a b) + 7) div 8
           \<and> m = strip_leading_zeros n"
proof -
  obtain a b j where i: "i = a # b # j" and len: "(unat (of_be16 a b) + 7) div 8 \<le> length j"
    "r = drop ((unat (of_be16 a b) + 7) div 8) j"
    "m = strip_leading_zeros (take ((unat (of_be16 a b) + 7) div 8) j)"
    using assms by (auto simp: mpi_parse_def Let_def be_u16_Ok take_Ok split: if_splits)
  then show ?thesis
    by (intro exI [of _ a] exI [of _ b] exI [of _ "take ((unat (of_be16 a b) + 7) div 8) j"]) simp
qed

end

text \<open>
  MPIs round-trip: a number without leading zeros whose bit size fits the 16-bit length
  field is read back unchanged from what \<open>to_writer\<close> wrote, and the parser stops right after it.
\<close>

theorem mpi_roundtrip:
  assumes "wire_laws W" and "mpi_ok m"
  shows "mpi_parse W (mpi_to_writer W m @ r) = Ok (r, m)"
  using assms by (rule wire_laws.mpi_parse_to_writer)

theorem mpi_roundtrip_witness:
  "mpi_ok [0x01, 0xFF] \<and> mpi_parse std_wire (mpi_to_writer std_wire [0x01, 0xFF] @ [9]) = Ok ([9], [0x01, 0xFF])
   \<and> mpi_to_writer std_wire [0x01, 0xFF] = [0x00, 0x09, 0x01, 0xFF]"
proof -
  have ok: "mpi_ok [0x01, 0xFF]" by (simp add: mpi_ok_def bit_size_def leading_zeros8_def)
  moreover have "mpi_to_writer std_wire [0x01, 0xFF] = [0x00, 0x09, 0x01, 0xFF]" by code_simp
  ultimately show ?thesis
    using mpi_roundtrip [OF std.wire_laws_axioms ok, of "[9]"] by blast
qed

text \<open>
  The size limit of the MPI reader is inert: \<open>len_actual\<close> counts bytes and is at most 8192,
  while \<open>MAX_EXTERN_MPI_BITS\<close> is 16384, so no input, whatever bit length it announces, is
  rejected with \<open>InvalidInput\<close>.
\<close>

theorem mpi_limit_inert:
  assumes "wire_laws W"
  shows "mpi_parse W i \<noteq> Err (NomError InvalidInput)"
  using assms by (rule wire_laws.mpi_size_check_never_fires)

theorem mpi_limit_inert_witness:
  "mpi_parse std_wire (0x40 # 0x01 # replicate 2049 1) \<noteq> Err (NomError InvalidInput)
   \<and> unat (of_be16 0x40 0x01) > MAX_EXTERN_MPI_BITS"
  using mpi_limit_inert [OF std.wire_laws_axioms]
  by (auto simp: MAX_EXTERN_MPI_BITS_def unat_of_be16)

end
