(* ===== verification/Pgp_Packet_Header.thy ===== *)
theory Pgp_Packet_Header
  imports Pgp_Util
begin

text \<open>
  Packet framing: the tag, version and length types and the header writer of
  \<open>src/src/types/packet.rs\<close>, and the header parser of \<open>src/src/packet/single.rs\<close> in both the
  old and the new packet format. The parser inverts the writer on every tag that fits the
  format and every 32-bit length, and reads back only headers of the two formats.
\<close>

section \<open>Tags, versions and lengths\<close>

datatype tag =
    Tag_PublicKeyEncryptedSessionKey
  | Tag_Signature
  | Tag_SymKeyEncryptedSessionKey
  | Tag_OnePassSignature
  | Tag_SecretKey
  | Tag_PublicKey
  | Tag_SecretSubkey
  | Tag_CompressedData
  | Tag_SymEncryptedData
  | Tag_Marker
  | Tag_LiteralData
  | Tag_Trust
  | Tag_UserId
  | Tag_PublicSubkey
  | Tag_UserAttribute
  | Tag_SymEncryptedProtectedData
  | Tag_ModDetectionCode
  | Tag_Padding
  | Tag_Other u8

fun tag_to_u8 :: "tag \<Rightarrow> u8" where
  "tag_to_u8 Tag_PublicKeyEncryptedSessionKey = 1"
| "tag_to_u8 Tag_Signature = 2"
| "tag_to_u8 Tag_SymKeyEncryptedSessionKey = 3"
| "tag_to_u8 Tag_OnePassSignature = 4"
| "tag_to_u8 Tag_SecretKey = 5"
| "tag_to_u8 Tag_PublicKey = 6"
| "tag_to_u8 Tag_SecretSubkey = 7"
| "tag_to_u8 Tag_CompressedData = 8"
| "tag_to_u8 Tag_SymEncryptedData = 9"
| "tag_to_u8 Tag_Marker = 10"
| "tag_to_u8 Tag_LiteralData = 11"
| "tag_to_u8 Tag_Trust = 12"
| "tag_to_u8 Tag_UserId = 13"
| "tag_to_u8 Tag_PublicSubkey = 14"
| "tag_to_u8 Tag_UserAttribute = 17"
| "tag_to_u8 Tag_SymEncryptedProtectedData = 18"
| "tag_to_u8 Tag_ModDetectionCode = 19"
| "tag_to_u8 Tag_Padding = 21"
| "tag_to_u8 (Tag_Other t) = t"

definition tag_of_u8 :: "u8 \<Rightarrow> tag" where
  "tag_of_u8 b =
     (if b = 1 then Tag_PublicKeyEncryptedSessionKey
      else if b = 2 then Tag_Signature
      else if b = 3 then Tag_SymKeyEncryptedSessionKey
      else if b = 4 then Tag_OnePassSignature
      else if b = 5 then Tag_SecretKey
      else if b = 6 then Tag_PublicKey
      else if b = 7 then Tag_SecretSubkey
      else if b = 8 then Tag_CompressedData
      else if b = 9 then Tag_SymEncryptedData
      else if b = 10 then Tag_Marker
      else if b = 11 then Tag_LiteralData
      else if b = 12 then Tag_Trust
      else if b = 13 then Tag_UserId
      else if b = 14 then Tag_PublicSubkey
      else if b = 17 then Tag_UserAttribute
      else if b = 18 then Tag_SymEncryptedProtectedData
      else if b = 19 then Tag_ModDetectionCode
      else if b = 21 then Tag_Padding
      else Tag_Other b)"

definition tag_encode :: "tag \<Rightarrow> u8" where
  "tag_encode t = 0b11000000 OR tag_to_u8 t"

datatype version = Old | New

definition version_default :: version where
  "version_default = New"

definition version_try_from :: "u8 \<Rightarrow> version res" where
  "version_try_from b =
     (if b = 0 then Ok Old else if b = 1 then Ok New else Err (Message ''TryFromPrimitiveError''))"

datatype packet_len = Fixed nat | Indeterminate | Partial nat

datatype key_version = KV2 | KV3 | KV4 | KV5 | KVOther u8

fun key_version_to_u8 :: "key_version \<Rightarrow> u8" where
  "key_version_to_u8 KV2 = 2"
| "key_version_to_u8 KV3 = 3"
| "key_version_to_u8 KV4 = 4"
| "key_version_to_u8 KV5 = 5"
| "key_version_to_u8 (KVOther v) = v"

definition key_version_of_u8 :: "u8 \<Rightarrow> key_version" where
  "key_version_of_u8 b =
     (if b = 2 then KV2 else if b = 3 then KV3 else if b = 4 then KV4 else if b = 5 then KV5
      else KVOther b)"

text \<open>\<open>Version::write_header\<close>\<close>

fun write_header :: "wire \<Rightarrow> version \<Rightarrow> u8 \<Rightarrow> nat \<Rightarrow> bytes" where
  "write_header W Old t len =
     (if len < 256 then [0b10000000 OR push_bit 2 t, of_nat len]
      else if len < 65536 then [0b10000001 OR push_bit 2 t] @ write_u16 W (of_nat len)
      else [0b10000010 OR push_bit 2 t] @ write_u32 W (of_nat len))"
| "write_header W New t len =
     [0b11000000 OR t] @
     (if len < 192 then [of_nat len]
      else if len < 8384 then
        [of_nat ((len - 192) div 2 ^ 8 + 192), of_nat (take_bit 8 (len - 192))]
      else [255] @ write_u32 W (of_nat len))"

section \<open>Parsing headers\<close>

definition old_packet_header :: "wire \<Rightarrow> bytes \<Rightarrow> (version \<times> tag \<times> packet_len) parsed" where
  "old_packet_header W = bits_run (\<lambda>I.
     and_then (bits_tag W 1 1 I) (\<lambda>(I, _).
     and_then (bits_tag W 0 1 I) (\<lambda>(I, v).
     and_then (case version_try_from (of_nat v) of Ok ver \<Rightarrow> Ok ver
               | Err _ \<Rightarrow> Err (NomError (from_external_error KMapRes)) | Panic \<Rightarrow> Panic) (\<lambda>ver.
     and_then (bits_take W 4 I) (\<lambda>(I, t).
     and_then (bits_take W 2 I) (\<lambda>(I, len_type).
     and_then
       (if len_type = 0 then map_ok (\<lambda>(I, val). (I, Fixed val)) (bits_take W 8 I)
        else if len_type = 1 then map_ok (\<lambda>(I, val). (I, Fixed val)) (bits_take W 16 I)
        else if len_type = 2 then map_ok (\<lambda>(I, val). (I, Fixed val)) (bits_take W 32 I)
        else if len_type = 3 then Ok (I, Indeterminate)
        else Err (NomError (ParsingError KSwitch))) (\<lambda>(I, len).
     Ok (I, (ver, tag_of_u8 (of_nat t), len)))))))))"

definition read_packet_len :: "wire \<Rightarrow> bytes \<Rightarrow> packet_len parsed" where
  "read_packet_len W i = and_then (be_u8 W i) (\<lambda>(i, olen).
     if olen \<le> 191 then Ok (i, Fixed (unat olen))
     else if olen \<le> 223 then
       pmap (\<lambda>a. Fixed ((unat olen - 192) * 256 + 192 + unat a)) (be_u8 W i)
     else if olen \<le> 254 then Ok (i, Partial (2 ^ unat (olen AND 0x1F)))
     else and_then (be_u32 W i) (\<lambda>(i, len). Ok (i, Fixed (unat len))))"

definition new_packet_header :: "wire \<Rightarrow> bytes \<Rightarrow> (version \<times> tag \<times> packet_len) parsed" where
  "new_packet_header W = bits_run (\<lambda>I.
     and_then (bits_tag W 1 1 I) (\<lambda>(I, _).
     and_then (bits_tag W 1 1 I) (\<lambda>(I, v).
     and_then (case version_try_from (of_nat v) of Ok ver \<Rightarrow> Ok ver
               | Err _ \<Rightarrow> Err (NomError (from_external_error KMapRes)) | Panic \<Rightarrow> Panic) (\<lambda>ver.
     and_then (bits_take W 6 I) (\<lambda>((i, off), t).
     and_then (read_packet_len W (if off = 0 then i else drop 1 i)) (\<lambda>(i, len).
     Ok ((i, 0), (ver, tag_of_u8 (of_nat t), len))))))))"

text \<open>\<open>single::parser\<close>: \<open>alt((new_packet_header, old_packet_header))\<close>.\<close>

definition header_parser :: "wire \<Rightarrow> bytes \<Rightarrow> (version \<times> tag \<times> packet_len) parsed" where
  "header_parser W i =
     (case new_packet_header W i of Err (NomError _) \<Rightarrow> old_packet_header W i | r \<Rightarrow> r)"

section \<open>Tags\<close>

lemma tag_to_u8_of_u8 [simp]: "tag_to_u8 (tag_of_u8 b) = b"
  by (simp add: tag_of_u8_def)

text \<open>A tag is canonical when it is not an \<open>Other\<close> that hides a known tag.\<close>

definition canonical_tag :: "tag \<Rightarrow> bool" where
  "canonical_tag t \<longleftrightarrow> tag_of_u8 (tag_to_u8 t) = t"

lemma canonical_tag_of_u8 [simp]: "canonical_tag (tag_of_u8 b)"
  by (simp add: canonical_tag_def)

lemma canonical_tag_iff: "canonical_tag t \<longleftrightarrow> (\<forall>b. t = Tag_Other b \<longrightarrow> tag_of_u8 b = Tag_Other b)"
  by (cases t) (simp_all add: canonical_tag_def tag_of_u8_def)

lemma key_version_to_u8_of_u8 [simp]: "key_version_to_u8 (key_version_of_u8 b) = b"
  by (simp add: key_version_of_u8_def)

text \<open>A tag fits a header format when it is canonical and its number fits the tag field.\<close>

definition header_fits :: "version \<Rightarrow> tag \<Rightarrow> bool" where
  "header_fits v t \<longleftrightarrow> canonical_tag t \<and>
     unat (tag_to_u8 t) < (case v of Old \<Rightarrow> 16 | New \<Rightarrow> 64)"

section \<open>Header bytes\<close>

lemma bits_of_C0: "bit (0b11000000 :: u8) n \<longleftrightarrow> n = 6 \<or> n = 7"
proof (cases "n < 8")
  case True
  then have "n \<in> {0, 1, 2, 3, 4, 5, 6, 7}" by auto
  then show ?thesis by auto
next
  case False
  then show ?thesis using bit_imp_le_length [of "0b11000000 :: u8" n] by auto
qed

lemma header_byte_new: "unat t < 64 \<Longrightarrow> unat (0b11000000 OR t :: u8) = 192 + unat t"
proof -
  assume "unat t < 64"
  then have "(0b11000000 :: u8) AND t = 0"
  proof (intro bit_word_eqI)
    fix n
    have "bit t n \<Longrightarrow> n < 6" using bit_small [of t 6 n] \<open>unat t < 64\<close> by simp
    then show "bit ((0b11000000 :: u8) AND t) n \<longleftrightarrow> bit (0 :: u8) n"
      unfolding bit_and_iff bits_of_C0 by auto
  qed
  then show ?thesis by (simp add: unat_or_disjoint)
qed

lemma header_byte_old:
  assumes "unat t < 16" "k < 4"
  shows "unat (of_nat (128 + k) OR push_bit 2 t :: u8) = 128 + k + 4 * unat t"
proof -
  have "bit (of_nat (128 + k) :: u8) n \<Longrightarrow> n = 7 \<or> n < 2" for n
  proof -
    assume b: "bit (of_nat (128 + k) :: u8) n"
    then have "n < 8" using bit_imp_le_length by fastforce
    then have "n \<in> {0, 1, 2, 3, 4, 5, 6, 7}" by auto
    moreover from assms(2) have "k \<in> {0, 1, 2, 3}" by auto
    ultimately show "n = 7 \<or> n < 2" using b by auto
  qed
  then have "(of_nat (128 + k) :: u8) AND push_bit 2 t = 0"
    using assms by (intro bit_word_eqI) (force simp: bit_simps dest: bit_small [of t 4, simplified])
  then have "unat (of_nat (128 + k) OR push_bit 2 t) = unat (of_nat (128 + k) :: u8) + unat (push_bit 2 t)"
    by (rule unat_or_disjoint)
  moreover have "unat (push_bit 2 t) = 4 * unat t"
    using assms(1) by (simp add: push_bit_eq_mult unat_word_ariths)
  ultimately show ?thesis using assms(2) by (simp del: of_nat_add)
qed

section \<open>The parser inverts the writer\<close>

context wire_laws
begin

lemma new_packet_header_Cons:
  "new_packet_header W (b # r) =
     (if unat b < 192 then Err (NomError (ParsingError KTagBits))
      else map_ok (\<lambda>(i, len). (i, (New, tag_of_u8 (of_nat (unat b mod 64)), len)))
             (read_packet_len W r))"
proof -
  define q where "q = unat b div 64"
  have "q < 4" by (simp add: q_def div_less_iff_less_mult del: unat_u8) (simp add: unat_u8)
  then consider "q = 0" | "q = 1" | "q = 2" | "q = 3" by linarith
  moreover have "unat b div 128 = q div 2"
    by (simp add: q_def div_mult2_eq [symmetric])
  moreover have "unat b < 192 \<longleftrightarrow> q < 3"
    by (simp add: q_def div_less_iff_less_mult)
  ultimately show ?thesis
    by cases
      (cases "read_packet_len W r"; auto simp: new_packet_header_def bits_run_def bits_tag_eq
        bits_take_byte from_error_kind_def version_try_from_def q_def)+
qed

lemma new_packet_header_Nil: "incomplete (new_packet_header W [])"
  using bits_take_short [of "[]" 0 1]
  by (auto simp: incomplete_def new_packet_header_def bits_run_def bits_tag_eq)

lemma old_packet_header_Cons:
  assumes "128 \<le> unat b" "unat b < 192"
  shows "unat b mod 4 = 0 \<Longrightarrow> old_packet_header W (b # x # r) =
           Ok (r, (Old, tag_of_u8 (of_nat (unat b div 4 mod 16)), Fixed (unat x)))"
    and "unat b mod 4 = 1 \<Longrightarrow> old_packet_header W (b # x # y # r) =
           Ok (r, (Old, tag_of_u8 (of_nat (unat b div 4 mod 16)), Fixed (unat (of_be16 x y))))"
    and "unat b mod 4 = 2 \<Longrightarrow> old_packet_header W (b # x # y # z # w # r) =
           Ok (r, (Old, tag_of_u8 (of_nat (unat b div 4 mod 16)), Fixed (unat (of_be32 x y z w))))"
    and "unat b mod 4 = 3 \<Longrightarrow> old_packet_header W (b # r) =
           Ok (r, (Old, tag_of_u8 (of_nat (unat b div 4 mod 16)), Indeterminate))"
proof -
  define q where "q = unat b div 64"
  from assms have "q = 2" by (simp add: q_def)
  moreover have "unat b div 128 = q div 2"
    by (simp add: q_def div_mult2_eq [symmetric])
  ultimately have *: "unat b div 128 = 1" "unat b div 64 = 2" by (simp_all add: q_def)
  show "unat b mod 4 = 0 \<Longrightarrow> old_packet_header W (b # x # r) =
           Ok (r, (Old, tag_of_u8 (of_nat (unat b div 4 mod 16)), Fixed (unat x)))"
    and "unat b mod 4 = 1 \<Longrightarrow> old_packet_header W (b # x # y # r) =
           Ok (r, (Old, tag_of_u8 (of_nat (unat b div 4 mod 16)), Fixed (unat (of_be16 x y))))"
    and "unat b mod 4 = 2 \<Longrightarrow> old_packet_header W (b # x # y # z # w # r) =
           Ok (r, (Old, tag_of_u8 (of_nat (unat b div 4 mod 16)), Fixed (unat (of_be32 x y z w))))"
    and "unat b mod 4 = 3 \<Longrightarrow> old_packet_header W (b # r) =
           Ok (r, (Old, tag_of_u8 (of_nat (unat b div 4 mod 16)), Indeterminate))"
    by (simp_all add: old_packet_header_def bits_run_def bits_tag_eq bits_take_byte
        version_try_from_def *)
qed
lemma read_packet_len_new:
  assumes "len < 2 ^ 32"
  shows "read_packet_len W (tl (write_header W New t len) @ r) = Ok (r, Fixed len)"
proof -
  consider "len < 192" | "192 \<le> len" "len < 8384" | "8384 \<le> len" by linarith
  then show ?thesis
  proof cases
    case 2
    define m where "m = (len - 192) div 256"
    from 2 have "m < 32" by (simp add: m_def)
    then have "unat (of_nat m + 192 :: u8) = m + 192"
      using unat_of_nat_small [of "m + 192", where ?'a = 8] by simp
    moreover have "m * 256 + 192 + (len - 192) mod 256 = len"
      using 2 by (simp add: m_def)
    ultimately show ?thesis
      using 2 \<open>m < 32\<close> unfolding m_def
      by (simp add: read_packet_len_def word_le_nat_alt pmap_def take_bit_eq_mod)
  qed (use assms in \<open>simp_all add: read_packet_len_def word_le_nat_alt\<close>)
qed

lemma header_parser_new:
  assumes "unat t < 64" "len < 2 ^ 32"
  shows "header_parser W (write_header W New t len @ r) = Ok (r, (New, tag_of_u8 t, Fixed len))"
proof -
  let ?b = "0b11000000 OR t"
  have b: "unat ?b = 192 + unat t" using assms(1) by (rule header_byte_new)
  then have tag: "of_nat (unat ?b mod 64) = t"
    using assms(1) mod_mult_self2 [of "unat t" 64 3] by (simp add: add.commute)
  from read_packet_len_new [OF assms(2)]
  have "read_packet_len W (tl (write_header W New t len) @ r) = Ok (r, Fixed len)" .
  then show ?thesis
    using b tag by (simp add: header_parser_def new_packet_header_Cons)
qed

lemma header_parser_old:
  assumes "unat t < 16" "len < 2 ^ 32"
  shows "header_parser W (write_header W Old t len @ r) = Ok (r, (Old, tag_of_u8 t, Fixed len))"
proof -
  have b0: "unat (0b10000000 OR push_bit 2 t) = 4 * unat t + 128"
    and b1: "unat (0b10000001 OR push_bit 2 t) = 4 * unat t + 129"
    and b2: "unat (0b10000010 OR push_bit 2 t) = 4 * unat t + 130"
    using header_byte_old [OF assms(1), of 0] header_byte_old [OF assms(1), of 1]
      header_byte_old [OF assms(1), of 2] by simp_all
  have d: "(4 * n + 128) div 4 mod 16 = n" "(4 * n + 129) div 4 mod 16 = n"
    "(4 * n + 130) div 4 mod 16 = n" "(4 * n + 129) mod 4 = 1" "(4 * n + 130) mod 4 = 2"
    "(4 * n + 128) mod 4 = 0" if "n < 16" for n :: nat
  proof -
    have "(4 * n + 128) div 4 = n + 2 * 16" "(4 * n + 129) div 4 = n + 2 * 16"
      "(4 * n + 130) div 4 = n + 2 * 16" by linarith+
    with that show "(4 * n + 128) div 4 mod 16 = n" "(4 * n + 129) div 4 mod 16 = n"
      "(4 * n + 130) div 4 mod 16 = n" using mod_mult_self1 [of n 2 16] by simp_all
    show "(4 * n + 129) mod 4 = 1" "(4 * n + 130) mod 4 = 2" "(4 * n + 128) mod 4 = 0"
      using mod_mult_self3 [of n 4 129] mod_mult_self3 [of n 4 130] mod_mult_self3 [of n 4 128]
      by (simp_all add: mult.commute)
  qed
  note d' = d [OF assms(1)]
  consider "len < 256" | "256 \<le> len" "len < 65536" | "65536 \<le> len" by linarith
  then show ?thesis
  proof cases
    case 1
    with assms(1) b0 d' show ?thesis
      by (simp add: header_parser_def new_packet_header_Cons old_packet_header_Cons(1))
  next
    case 2
    with assms(1) b1 d' show ?thesis
      by (simp add: header_parser_def new_packet_header_Cons old_packet_header_Cons(2) be16_def)
  next
    case 3
    with assms b2 d' show ?thesis
      by (simp add: header_parser_def new_packet_header_Cons old_packet_header_Cons(3) be32_def)
  qed
qed

lemma header_parser_write_header:
  assumes "header_fits v t" "len < 2 ^ 32"
  shows "header_parser W (write_header W v (tag_to_u8 t) len @ r) = Ok (r, (v, t, Fixed len))"
  using assms header_parser_new [of "tag_to_u8 t"] header_parser_old [of "tag_to_u8 t"]
  by (cases v) (auto simp: header_fits_def canonical_tag_def)

lemma read_packet_len_no_panic [simp]: "read_packet_len W i \<noteq> Panic"
  by (auto simp: read_packet_len_def pmap_def and_then_eq_Panic)

lemma read_packet_len_Partial:
  assumes "read_packet_len W i = Ok (r, Partial n)"
  shows "\<exists>k \<le> 30. n = 2 ^ k"
proof -
  obtain b where b: "\<not> b \<le> 223" "b \<le> 254" "n = 2 ^ unat (b AND 0x1F :: u8)"
    using assms by (auto simp: read_packet_len_def pmap_def be_u8_Ok be_u32_Ok split: if_splits)
  have "unat (b AND 0x1F) = unat b mod 32"
    using unat_and_mask [of b 5] by (simp add: mask_eq_exp_minus_1)
  moreover have "unat b mod 32 = unat b - 224"
  proof -
    have "224 \<le> unat b" "unat b \<le> 254" using b(1,2) by (simp_all add: word_le_nat_alt)
    then have "unat b = (unat b - 224) + 7 * 32" "unat b - 224 < 32" by simp_all
    then show ?thesis using mod_mult_self1 [of "unat b - 224" 7 32] by simp
  qed
  ultimately show ?thesis
    using b(2,3) by (auto simp: word_le_nat_alt intro!: exI [of _ "unat b - 224"])
qed

lemma bits_take_aligned_no_panic:
  assumes "k = 8 \<or> k = 16 \<or> k = 32"
  shows "bits_take W k (r, 0) \<noteq> Panic"
proof (cases "length r * 8 < k")
  case True
  then show ?thesis using bits_take_short [of r 0 k] by (auto simp: incomplete_def)
next
  case False
  consider "k = 8" | "k = 16" | "k = 32" using assms by blast
  then show ?thesis
  proof cases
    case 1
    with False show ?thesis by (cases r) (auto simp: bits_take_byte)
  next
    case 2
    with False show ?thesis by (cases r; cases "tl r") auto
  next
    case 3
    with False show ?thesis
      by (cases r; cases "tl r"; cases "tl (tl r)"; cases "tl (tl (tl r))") auto
  qed
qed

lemma old_packet_header_no_panic: "old_packet_header W i \<noteq> Panic"
proof (cases i)
  case Nil
  then show ?thesis
    using bits_take_short [of "[]" 0 1]
    by (auto simp: incomplete_def old_packet_header_def bits_run_def bits_tag_eq)
next
  case (Cons b r)
  then show ?thesis
    using bits_take_aligned_no_panic [of _ r]
    by (auto simp: old_packet_header_def bits_run_def bits_tag_eq bits_take_byte
        version_try_from_def and_then_eq_Panic split: if_splits)
qed

lemma header_parser_no_panic: "header_parser W i \<noteq> Panic"
proof (cases i)
  case Nil
  then show ?thesis
    using new_packet_header_Nil by (auto simp: incomplete_def header_parser_def)
next
  case (Cons b r)
  then show ?thesis
    using old_packet_header_no_panic read_packet_len_no_panic [of r]
    by (cases "read_packet_len W r") (auto simp: header_parser_def new_packet_header_Cons
        split: nom_err.splits)
qed

lemma read_packet_len_suffix:
  assumes "read_packet_len W i = Ok (r, l)"
  shows "\<exists>h. h \<noteq> [] \<and> i = h @ r"
  using assms
  by (auto simp: read_packet_len_def pmap_def be_u8_Ok be_u32_Ok split: if_splits)
 
lemma bits_take_aligned_suffix:
  assumes "k = 8 \<or> k = 16 \<or> k = 32" "bits_take W k (r, 0) = Ok ((s, off), v)"
  shows "off = 0 \<and> (\<exists>h. h \<noteq> [] \<and> r = h @ s)"
proof (cases "length r * 8 < k")
  case True
  then show ?thesis using bits_take_short [of r 0 k] assms by (auto simp: incomplete_def)
next
  case False
  consider "k = 8" | "k = 16" | "k = 32" using assms by blast
  then show ?thesis
  proof cases
    case 1
    with False assms show ?thesis by (cases r) (auto simp: bits_take_byte)
  next
    case 2
    with False assms show ?thesis by (cases r; cases "tl r") auto
  next
    case 3
    with False assms show ?thesis
      by (cases r; cases "tl r"; cases "tl (tl r)"; cases "tl (tl (tl r))") auto
  qed
qed

lemma old_packet_header_suffix:
  assumes "old_packet_header W i = Ok (r, x)"
  shows "\<exists>h. h \<noteq> [] \<and> i = h @ r"
proof (cases i)
  case Nil
  then show ?thesis
    using bits_take_short [of "[]" 0 1] assms
    by (auto simp: incomplete_def old_packet_header_def bits_run_def bits_tag_eq)
next
  case (Cons b t)
  have "\<exists>h. t = h @ r"
    using assms unfolding Cons
    by (auto simp: old_packet_header_def bits_run_def bits_tag_eq bits_take_byte
        version_try_from_def split: if_splits
        dest!: bits_take_aligned_suffix [of 8, simplified] bits_take_aligned_suffix [of 16, simplified]
          bits_take_aligned_suffix [of 32, simplified])
  with Cons show ?thesis by auto
qed

lemma header_parser_suffix:
  assumes "header_parser W i = Ok (r, x)"
  shows "\<exists>h. h \<noteq> [] \<and> i = h @ r"
proof (cases i)
  case Nil
  then show ?thesis
    using new_packet_header_Nil assms by (auto simp: incomplete_def header_parser_def)
next
  case (Cons b t)
  show ?thesis
  proof (cases "\<exists>h. h \<noteq> [] \<and> t = h @ r")
    case True
    then obtain h where "t = h @ r" by blast
    with Cons show ?thesis by (intro exI [of _ "b # h"]) simp
  next
    case False
    then have "old_packet_header W i = Ok (r, x)"
      using assms read_packet_len_suffix [of t] unfolding Cons
      by (auto simp: header_parser_def new_packet_header_Cons split: result.splits nom_err.splits if_splits)
    then show ?thesis by (rule old_packet_header_suffix)
  qed
qed
end

text \<open>
  Packet headers round-trip in both formats: for every canonical tag that fits the tag
  field (4 bits in the old format, 6 in the new) and every length below \<open>2^32\<close>, parsing the
  header written by \<open>Version::write_header\<close> gives back the format, the tag and the length, and
  stops exactly at the body.
\<close>

theorem header_roundtrip:
  assumes "wire_laws W" and "header_fits v t" and "len < 2 ^ 32"
  shows "header_parser W (write_header W v (tag_to_u8 t) len @ r) = Ok (r, (v, t, Fixed len))"
  using assms by (rule wire_laws.header_parser_write_header)

theorem header_roundtrip_witness:
  "header_parser std_wire (write_header std_wire New (tag_to_u8 Tag_UserAttribute) 12875 @ [1, 2])
     = Ok ([1, 2], (New, Tag_UserAttribute, Fixed 12875))
   \<and> write_header std_wire New (tag_to_u8 Tag_UserAttribute) 12875 = [0xd1, 0xff, 0, 0, 0x32, 0x4b]"
proof -
  have "header_fits New Tag_UserAttribute"
    by (simp add: header_fits_def canonical_tag_def tag_of_u8_def)
  from header_roundtrip [OF std.wire_laws_axioms this, of 12875 "[1, 2]"]
  show ?thesis by (simp add: std_wire_def be32_def)
qed

end
