(* ===== verification/Pgp_Signature_Types.thy ===== *)
theory Pgp_Signature_Types
  imports Pgp_Algorithms Pgp_Mpi Pgp_Packet_Header
begin

text \<open>
  The data of signature packets, \<open>src/src/packet/signature/types.rs\<close> and the fields of
  \<open>config.rs\<close>: signature versions and types, the subpacket type registry with its critical bit,
  subpackets and their contents, key flags, notations, revocation reasons. A signature and its
  subpackets are mutually recursive, because a subpacket may embed a signature.

  A \<open>DateTime<Utc>\<close> or \<open>Duration\<close> is its number of seconds, a \<open>KeyId\<close> its 8 bytes, a
  \<open>String\<close> its UTF-8 bytes.
\<close>

section \<open>Registries\<close>

datatype signature_version =
    SigV2
  | SigV3
  | SigV4
  | SigV5
  | SigVOther u8

fun signature_version_to_u8 :: "signature_version \<Rightarrow> u8" where
  "signature_version_to_u8 SigV2 = 2"
| "signature_version_to_u8 SigV3 = 3"
| "signature_version_to_u8 SigV4 = 4"
| "signature_version_to_u8 SigV5 = 5"
| "signature_version_to_u8 (SigVOther b) = b"

definition signature_version_of_u8 :: "u8 \<Rightarrow> signature_version" where
  "signature_version_of_u8 b =
     (if b = 2 then SigV2
      else if b = 3 then SigV3
      else if b = 4 then SigV4
      else if b = 5 then SigV5
      else SigVOther b)"

datatype signature_type =
    Sig_Binary
  | Sig_Text
  | Sig_Standalone
  | Sig_CertGeneric
  | Sig_CertPersona
  | Sig_CertCasual
  | Sig_CertPositive
  | Sig_SubkeyBinding
  | Sig_KeyBinding
  | Sig_Key
  | Sig_KeyRevocation
  | Sig_SubkeyRevocation
  | Sig_CertRevocation
  | Sig_Timestamp
  | Sig_ThirdParty

fun signature_type_to_u8 :: "signature_type \<Rightarrow> u8" where
  "signature_type_to_u8 Sig_Binary = 0x00"
| "signature_type_to_u8 Sig_Text = 0x01"
| "signature_type_to_u8 Sig_Standalone = 0x02"
| "signature_type_to_u8 Sig_CertGeneric = 0x10"
| "signature_type_to_u8 Sig_CertPersona = 0x11"
| "signature_type_to_u8 Sig_CertCasual = 0x12"
| "signature_type_to_u8 Sig_CertPositive = 0x13"
| "signature_type_to_u8 Sig_SubkeyBinding = 0x18"
| "signature_type_to_u8 Sig_KeyBinding = 0x19"
| "signature_type_to_u8 Sig_Key = 0x1f"
| "signature_type_to_u8 Sig_KeyRevocation = 0x20"
| "signature_type_to_u8 Sig_SubkeyRevocation = 0x28"
| "signature_type_to_u8 Sig_CertRevocation = 0x30"
| "signature_type_to_u8 Sig_Timestamp = 0x40"
| "signature_type_to_u8 Sig_ThirdParty = 0x50"

definition signature_type_try_from :: "u8 \<Rightarrow> signature_type res" where
  "signature_type_try_from b =
     (if b = 0x00 then Ok Sig_Binary
      else if b = 0x01 then Ok Sig_Text
      else if b = 0x02 then Ok Sig_Standalone
      else if b = 0x10 then Ok Sig_CertGeneric
      else if b = 0x11 then Ok Sig_CertPersona
      else if b = 0x12 then Ok Sig_CertCasual
      else if b = 0x13 then Ok Sig_CertPositive
      else if b = 0x18 then Ok Sig_SubkeyBinding
      else if b = 0x19 then Ok Sig_KeyBinding
      else if b = 0x1f then Ok Sig_Key
      else if b = 0x20 then Ok Sig_KeyRevocation
      else if b = 0x28 then Ok Sig_SubkeyRevocation
      else if b = 0x30 then Ok Sig_CertRevocation
      else if b = 0x40 then Ok Sig_Timestamp
      else if b = 0x50 then Ok Sig_ThirdParty
      else Err (Message ''TryFromPrimitiveError''))"

datatype subpacket_type =
    SpT_SignatureCreationTime
  | SpT_SignatureExpirationTime
  | SpT_ExportableCertification
  | SpT_TrustSignature
  | SpT_RegularExpression
  | SpT_Revocable
  | SpT_KeyExpirationTime
  | SpT_PreferredSymmetricAlgorithms
  | SpT_RevocationKey
  | SpT_Issuer
  | SpT_Notation
  | SpT_PreferredHashAlgorithms
  | SpT_PreferredCompressionAlgorithms
  | SpT_KeyServerPreferences
  | SpT_PreferredKeyServer
  | SpT_PrimaryUserId
  | SpT_PolicyURI
  | SpT_KeyFlags
  | SpT_SignersUserID
  | SpT_RevocationReason
  | SpT_Features
  | SpT_SignatureTarget
  | SpT_EmbeddedSignature
  | SpT_IssuerFingerprint
  | SpT_PreferredAead
  | SpT_Experimental u8
  | SpT_Other u8

fun subpacket_type_raw :: "subpacket_type \<Rightarrow> u8" where
  "subpacket_type_raw SpT_SignatureCreationTime = 2"
| "subpacket_type_raw SpT_SignatureExpirationTime = 3"
| "subpacket_type_raw SpT_ExportableCertification = 4"
| "subpacket_type_raw SpT_TrustSignature = 5"
| "subpacket_type_raw SpT_RegularExpression = 6"
| "subpacket_type_raw SpT_Revocable = 7"
| "subpacket_type_raw SpT_KeyExpirationTime = 9"
| "subpacket_type_raw SpT_PreferredSymmetricAlgorithms = 11"
| "subpacket_type_raw SpT_RevocationKey = 12"
| "subpacket_type_raw SpT_Issuer = 16"
| "subpacket_type_raw SpT_Notation = 20"
| "subpacket_type_raw SpT_PreferredHashAlgorithms = 21"
| "subpacket_type_raw SpT_PreferredCompressionAlgorithms = 22"
| "subpacket_type_raw SpT_KeyServerPreferences = 23"
| "subpacket_type_raw SpT_PreferredKeyServer = 24"
| "subpacket_type_raw SpT_PrimaryUserId = 25"
| "subpacket_type_raw SpT_PolicyURI = 26"
| "subpacket_type_raw SpT_KeyFlags = 27"
| "subpacket_type_raw SpT_SignersUserID = 28"
| "subpacket_type_raw SpT_RevocationReason = 29"
| "subpacket_type_raw SpT_Features = 30"
| "subpacket_type_raw SpT_SignatureTarget = 31"
| "subpacket_type_raw SpT_EmbeddedSignature = 32"
| "subpacket_type_raw SpT_IssuerFingerprint = 33"
| "subpacket_type_raw SpT_PreferredAead = 34"
| "subpacket_type_raw (SpT_Experimental n) = n"
| "subpacket_type_raw (SpT_Other n) = n"

definition subpacket_type_as_u8 :: "subpacket_type \<Rightarrow> bool \<Rightarrow> u8" where
  "subpacket_type_as_u8 t is_critical =
     (let raw = subpacket_type_raw t in if is_critical then raw OR 0b10000000 else raw)"

definition subpacket_type_known :: "u8 \<Rightarrow> subpacket_type" where
  "subpacket_type_known n =
     (if n = 2 then SpT_SignatureCreationTime
      else if n = 3 then SpT_SignatureExpirationTime
      else if n = 4 then SpT_ExportableCertification
      else if n = 5 then SpT_TrustSignature
      else if n = 6 then SpT_RegularExpression
      else if n = 7 then SpT_Revocable
      else if n = 9 then SpT_KeyExpirationTime
      else if n = 11 then SpT_PreferredSymmetricAlgorithms
      else if n = 12 then SpT_RevocationKey
      else if n = 16 then SpT_Issuer
      else if n = 20 then SpT_Notation
      else if n = 21 then SpT_PreferredHashAlgorithms
      else if n = 22 then SpT_PreferredCompressionAlgorithms
      else if n = 23 then SpT_KeyServerPreferences
      else if n = 24 then SpT_PreferredKeyServer
      else if n = 25 then SpT_PrimaryUserId
      else if n = 26 then SpT_PolicyURI
      else if n = 27 then SpT_KeyFlags
      else if n = 28 then SpT_SignersUserID
      else if n = 29 then SpT_RevocationReason
      else if n = 30 then SpT_Features
      else if n = 31 then SpT_SignatureTarget
      else if n = 32 then SpT_EmbeddedSignature
      else if n = 33 then SpT_IssuerFingerprint
      else if n = 34 then SpT_PreferredAead
      else if 100 \<le> n \<and> n \<le> 110 then SpT_Experimental n
      else SpT_Other n)"

definition subpacket_type_from_u8 :: "u8 \<Rightarrow> subpacket_type \<times> bool" where
  "subpacket_type_from_u8 n =
     (subpacket_type_known (n AND 0b01111111), drop_bit 7 n = 1)"

datatype revocation_code =
    Rev_NoReason
  | Rev_KeySuperseded
  | Rev_KeyCompromised
  | Rev_KeyRetired
  | Rev_CertUserIdInvalid
  | Rev_Private100
  | Rev_Private101
  | Rev_Private102
  | Rev_Private103
  | Rev_Private104
  | Rev_Private105
  | Rev_Private106
  | Rev_Private107
  | Rev_Private108
  | Rev_Private109
  | Rev_Private110
  | Rev_Other u8

fun revocation_code_to_u8 :: "revocation_code \<Rightarrow> u8" where
  "revocation_code_to_u8 Rev_NoReason = 0"
| "revocation_code_to_u8 Rev_KeySuperseded = 1"
| "revocation_code_to_u8 Rev_KeyCompromised = 2"
| "revocation_code_to_u8 Rev_KeyRetired = 3"
| "revocation_code_to_u8 Rev_CertUserIdInvalid = 32"
| "revocation_code_to_u8 Rev_Private100 = 100"
| "revocation_code_to_u8 Rev_Private101 = 101"
| "revocation_code_to_u8 Rev_Private102 = 102"
| "revocation_code_to_u8 Rev_Private103 = 103"
| "revocation_code_to_u8 Rev_Private104 = 104"
| "revocation_code_to_u8 Rev_Private105 = 105"
| "revocation_code_to_u8 Rev_Private106 = 106"
| "revocation_code_to_u8 Rev_Private107 = 107"
| "revocation_code_to_u8 Rev_Private108 = 108"
| "revocation_code_to_u8 Rev_Private109 = 109"
| "revocation_code_to_u8 Rev_Private110 = 110"
| "revocation_code_to_u8 (Rev_Other b) = b"

definition revocation_code_of_u8 :: "u8 \<Rightarrow> revocation_code" where
  "revocation_code_of_u8 b =
     (if b = 0 then Rev_NoReason
      else if b = 1 then Rev_KeySuperseded
      else if b = 2 then Rev_KeyCompromised
      else if b = 3 then Rev_KeyRetired
      else if b = 32 then Rev_CertUserIdInvalid
      else if b = 100 then Rev_Private100
      else if b = 101 then Rev_Private101
      else if b = 102 then Rev_Private102
      else if b = 103 then Rev_Private103
      else if b = 104 then Rev_Private104
      else if b = 105 then Rev_Private105
      else if b = 106 then Rev_Private106
      else if b = 107 then Rev_Private107
      else if b = 108 then Rev_Private108
      else if b = 109 then Rev_Private109
      else if b = 110 then Rev_Private110
      else Rev_Other b)"

datatype revocation_key_class = Class_Default | Class_Sensitive

fun revocation_key_class_to_u8 :: "revocation_key_class \<Rightarrow> u8" where
  "revocation_key_class_to_u8 Class_Default = 0x80"
| "revocation_key_class_to_u8 Class_Sensitive = 0x80 OR 0x40"

definition revocation_key_class_try_from :: "u8 \<Rightarrow> revocation_key_class res" where
  "revocation_key_class_try_from b =
     (if b = 0x80 then Ok Class_Default
      else if b = 0x80 OR 0x40 then Ok Class_Sensitive
      else Err (Message ''TryFromPrimitiveError''))"

text \<open>\<open>KeyId::from_slice\<close>, \<open>types/key_id.rs\<close>\<close>

type_synonym key_id = bytes

definition key_id_from_slice :: "bytes \<Rightarrow> key_id res" where
  "key_id_from_slice i = (if length i = 8 then Ok i else Err (Message ''invalid input length''))"

record revocation_key =
  rk_class :: revocation_key_class
  rk_algorithm :: pk_alg
  rk_fingerprint :: bytes

record notation_data =
  readable :: bool
  notation_name :: bytes
  notation_value :: bytes

text \<open>\<open>KeyFlags\<close>: a byte with one bit per capability.\<close>

type_synonym key_flags = u8

definition key_flags_from :: "bytes \<Rightarrow> key_flags" where
  "key_flags_from other = (case other of [] \<Rightarrow> 0 | b # _ \<Rightarrow> b)"

definition kf_certify :: "key_flags \<Rightarrow> bool" where "kf_certify f = bit f 0"
definition kf_sign :: "key_flags \<Rightarrow> bool" where "kf_sign f = bit f 1"
definition kf_encrypt_comms :: "key_flags \<Rightarrow> bool" where "kf_encrypt_comms f = bit f 2"
definition kf_encrypt_storage :: "key_flags \<Rightarrow> bool" where "kf_encrypt_storage f = bit f 3"
definition kf_shared :: "key_flags \<Rightarrow> bool" where "kf_shared f = bit f 4"
definition kf_authentication :: "key_flags \<Rightarrow> bool" where "kf_authentication f = bit f 5"
definition kf_group :: "key_flags \<Rightarrow> bool" where "kf_group f = bit f 7"

section \<open>Signatures and subpackets\<close>

datatype signature =
  Signature (sig_packet_version: version) (config: signature_config)
    (signed_hash_value: bytes) (sig_mpis: "mpi list")
and signature_config =
  SignatureConfig (cfg_version: signature_version) (cfg_typ: signature_type)
    (pub_alg: pk_alg) (hash_alg: hash_alg)
    (unhashed_subpackets: "subpacket list") (hashed_subpackets: "subpacket list")
    (cfg_created: "int option") (cfg_issuer: "key_id option")
and subpacket = Subpacket (is_critical: bool) (sp_data: subpacket_data)
and subpacket_data =
    Sp_SignatureCreationTime int
  | Sp_SignatureExpirationTime int
  | Sp_KeyExpirationTime int
  | Sp_Issuer key_id
  | Sp_PreferredSymmetricAlgorithms "sym_alg list"
  | Sp_PreferredHashAlgorithms "hash_alg list"
  | Sp_PreferredCompressionAlgorithms "compression_alg list"
  | Sp_KeyServerPreferences bytes
  | Sp_KeyFlags bytes
  | Sp_Features bytes
  | Sp_RevocationReason revocation_code bytes
  | Sp_IsPrimary bool
  | Sp_Revocable bool
  | Sp_EmbeddedSignature signature
  | Sp_PreferredKeyServer bytes
  | Sp_Notation notation_data
  | Sp_RevocationKey revocation_key
  | Sp_SignersUserID bytes
  | Sp_PolicyURI bytes
  | Sp_TrustSignature u8 u8
  | Sp_RegularExpression bytes
  | Sp_ExportableCertification bool
  | Sp_IssuerFingerprint key_version bytes
  | Sp_PreferredAeadAlgorithms "aead_alg list"
  | Sp_Experimental u8 bytes
  | Sp_Other u8 bytes
  | Sp_SignatureTarget pk_alg hash_alg bytes

definition subpacket_regular :: "subpacket_data \<Rightarrow> subpacket" where
  "subpacket_regular d = Subpacket False d"

definition subpacket_critical :: "subpacket_data \<Rightarrow> subpacket" where
  "subpacket_critical d = Subpacket True d"

text \<open>\<open>SignatureConfig::new_v4\<close> and \<open>Signature::new\<close>\<close>

definition new_v4 ::
  "signature_version \<Rightarrow> signature_type \<Rightarrow> pk_alg \<Rightarrow> hash_alg \<Rightarrow> subpacket list \<Rightarrow> subpacket list
   \<Rightarrow> signature_config" where
  "new_v4 v t pk h hashed unhashed = SignatureConfig v t pk h unhashed hashed None None"

definition signature_new ::
  "version \<Rightarrow> signature_version \<Rightarrow> signature_type \<Rightarrow> pk_alg \<Rightarrow> hash_alg \<Rightarrow> bytes \<Rightarrow> mpi list
   \<Rightarrow> subpacket list \<Rightarrow> subpacket list \<Rightarrow> signature" where
  "signature_new pv v t pk h shv mpis hashed unhashed =
     Signature pv (new_v4 v t pk h hashed unhashed) shv mpis"

section \<open>The registries are byte enums\<close>

interpretation sigv_enum: byte_enum signature_version_to_u8 signature_version_of_u8
  by unfold_locales (simp add: signature_version_of_u8_def)

interpretation rev_enum: byte_enum revocation_code_to_u8 revocation_code_of_u8
  by unfold_locales (simp add: revocation_code_of_u8_def)

interpretation keyv_enum: byte_enum key_version_to_u8 key_version_of_u8
  by unfold_locales simp

interpretation tag_enum: byte_enum tag_to_u8 tag_of_u8
  by unfold_locales simp

lemma signature_type_try_from_to_u8 [simp]:
  "signature_type_try_from (signature_type_to_u8 t) = Ok t"
  by (cases t) (simp_all add: signature_type_try_from_def)

lemma signature_type_try_from_Ok: "signature_type_try_from b = Ok t \<Longrightarrow> signature_type_to_u8 t = b"
  by (auto simp: signature_type_try_from_def split: if_splits)

lemma revocation_key_class_roundtrip [simp]:
  "revocation_key_class_try_from (revocation_key_class_to_u8 c) = Ok c"
  by (cases c) (simp_all add: revocation_key_class_try_from_def)

lemma key_id_from_slice_8 [simp]: "length i = 8 \<Longrightarrow> key_id_from_slice i = Ok i"
  by (simp add: key_id_from_slice_def)

section \<open>The critical bit\<close>

text \<open>A subpacket type is canonical when its raw number has no critical bit and is read as itself.\<close>

definition canonical_sp_type :: "subpacket_type \<Rightarrow> bool" where
  "canonical_sp_type t \<longleftrightarrow> subpacket_type_raw t < 128 \<and> subpacket_type_known (subpacket_type_raw t) = t"

lemma critical_bit_set:
  fixes n :: u8
  assumes "n < 128"
  shows "(n OR 0b10000000) AND 0b01111111 = n" "drop_bit 7 (n OR 0b10000000) = 1"
    "n AND 0b01111111 = n" "drop_bit 7 n = 0"
proof -
  have lt: "unat n < 2 ^ 7" using assms by (simp add: word_less_nat_alt)
  have m: "(0b01111111 :: u8) = mask 7" and h: "(0b10000000 :: u8) = push_bit 7 1"
    by (simp_all add: mask_eq_exp_minus_1)
  have b: "bit n k \<Longrightarrow> k < 7" for k using lt by (rule bit_small)
  show "(n OR 0b10000000) AND 0b01111111 = n" "n AND 0b01111111 = n"
    unfolding m h by (rule bit_word_eqI, auto simp: bit_simps simp del: push_bit_of_1 dest: b)+
  show "drop_bit 7 n = 0"
    by (rule bit_word_eqI) (auto simp: bit_simps dest: b)
  show "drop_bit 7 (n OR 0b10000000) = 1"
    unfolding h by (rule bit_word_eqI) (auto simp: bit_simps simp del: push_bit_of_1 dest: b)
qed

lemma subpacket_type_from_as_u8 [simp]:
  "canonical_sp_type t \<Longrightarrow> subpacket_type_from_u8 (subpacket_type_as_u8 t c) = (t, c)"
  by (simp add: canonical_sp_type_def subpacket_type_from_u8_def subpacket_type_as_u8_def Let_def
      critical_bit_set)

lemma canonical_sp_type_simps [simp]:
  "canonical_sp_type SpT_SignatureCreationTime"
  "canonical_sp_type SpT_SignatureExpirationTime"
  "canonical_sp_type SpT_ExportableCertification"
  "canonical_sp_type SpT_TrustSignature"
  "canonical_sp_type SpT_RegularExpression"
  "canonical_sp_type SpT_Revocable"
  "canonical_sp_type SpT_KeyExpirationTime"
  "canonical_sp_type SpT_PreferredSymmetricAlgorithms"
  "canonical_sp_type SpT_RevocationKey"
  "canonical_sp_type SpT_Issuer"
  "canonical_sp_type SpT_Notation"
  "canonical_sp_type SpT_PreferredHashAlgorithms"
  "canonical_sp_type SpT_PreferredCompressionAlgorithms"
  "canonical_sp_type SpT_KeyServerPreferences"
  "canonical_sp_type SpT_PreferredKeyServer"
  "canonical_sp_type SpT_PrimaryUserId"
  "canonical_sp_type SpT_PolicyURI"
  "canonical_sp_type SpT_KeyFlags"
  "canonical_sp_type SpT_SignersUserID"
  "canonical_sp_type SpT_RevocationReason"
  "canonical_sp_type SpT_Features"
  "canonical_sp_type SpT_SignatureTarget"
  "canonical_sp_type SpT_EmbeddedSignature"
  "canonical_sp_type SpT_IssuerFingerprint"
  "canonical_sp_type SpT_PreferredAead"
  by (simp_all add: canonical_sp_type_def subpacket_type_known_def)

end
