(* ===== verification/Pgp_Utf8.thy ===== *)
theory Pgp_Utf8
  imports Pgp_Prelude
begin

text \<open>
  UTF-8 as the standard library defines it for \<open>str\<close>: which byte strings \<open>str::from_utf8\<close>
  accepts, and the number of characters \<open>str::chars().count()\<close> of such a string.
\<close>

definition utf8_cont :: "u8 \<Rightarrow> bool" where
  "utf8_cont b \<longleftrightarrow> 0x80 \<le> b \<and> b \<le> 0xBF"

text \<open>The length of the character at the front of a byte string, 0 when there is none.\<close>

definition byte_at :: "nat \<Rightarrow> (u8 \<Rightarrow> bool) \<Rightarrow> bytes \<Rightarrow> bool" where
  "byte_at k P s \<longleftrightarrow> k < length s \<and> P (s ! k)"

definition utf8_len :: "bytes \<Rightarrow> nat" where
  "utf8_len s =
     (case s of [] \<Rightarrow> 0
      | b # r \<Rightarrow>
        if b < 0x80 then 1
        else if 0xC2 \<le> b \<and> b \<le> 0xDF \<and> byte_at 0 utf8_cont r then 2
        else if 0xE0 \<le> b \<and> b \<le> 0xEF \<and> byte_at 0 utf8_cont r \<and> byte_at 1 utf8_cont r
          \<and> (b = 0xE0 \<longrightarrow> 0xA0 \<le> r ! 0) \<and> (b = 0xED \<longrightarrow> r ! 0 \<le> 0x9F) then 3
        else if 0xF0 \<le> b \<and> b \<le> 0xF4 \<and> byte_at 0 utf8_cont r \<and> byte_at 1 utf8_cont r
          \<and> byte_at 2 utf8_cont r
          \<and> (b = 0xF0 \<longrightarrow> 0x90 \<le> r ! 0) \<and> (b = 0xF4 \<longrightarrow> r ! 0 \<le> 0x8F) then 4
        else 0)"

function utf8_valid :: "bytes \<Rightarrow> bool" where
  "utf8_valid s =
     (if s = [] then True
      else if utf8_len s = 0 then False
      else utf8_valid (drop (utf8_len s) s))"
  by pat_completeness auto
termination
  by (relation "measure length") auto

declare utf8_valid.simps [simp del]

lemma utf8_valid_Nil [simp]: "utf8_valid []"
  by (simp add: utf8_valid.simps)

lemma utf8_valid_ascii_Cons [simp]: "b < 0x80 \<Longrightarrow> utf8_valid (b # r) \<longleftrightarrow> utf8_valid r"
  by (subst utf8_valid.simps) (simp add: utf8_len_def)

lemma utf8_len_le: "utf8_len s \<le> length s"
  by (cases s) (auto simp: utf8_len_def byte_at_def Suc_le_eq)

text \<open>Every character has exactly one byte that is not a continuation byte.\<close>

definition utf8_char_count :: "bytes \<Rightarrow> nat" where
  "utf8_char_count s = length (filter (\<lambda>b. \<not> utf8_cont b) s)"

definition ascii :: "bytes \<Rightarrow> bool" where
  "ascii s \<longleftrightarrow> (\<forall>b \<in> set s. b < 0x80)"

lemma ascii_utf8_valid: "ascii s \<Longrightarrow> utf8_valid s"
  by (induction s) (auto simp: ascii_def)

lemma ascii_char_count: "ascii s \<Longrightarrow> utf8_char_count s = length s"
  by (induction s) (auto simp: ascii_def utf8_char_count_def utf8_cont_def)

lemma utf8_char_count_le: "utf8_char_count s \<le> length s"
  by (simp add: utf8_char_count_def)

lemma utf8_char_count_eq_length: "utf8_char_count s = length s \<longleftrightarrow> (\<forall>b \<in> set s. \<not> utf8_cont b)"
proof -
  have "length (filter P s) = length s \<longleftrightarrow> (\<forall>b \<in> set s. P b)" for P
    by (metis filter_True length_filter_less less_irrefl_nat)
  then show ?thesis by (simp add: utf8_char_count_def)
qed

text \<open>A byte of 128 or more starts a sequence whose next byte is a continuation byte.\<close>

lemma utf8_valid_Cons_cont:
  assumes "utf8_valid (b # r)" "\<not> b < 0x80"
  shows "\<exists>c r'. r = c # r' \<and> utf8_cont c"
proof -
  from assms have "utf8_len (b # r) \<noteq> 0" by (subst (asm) utf8_valid.simps) (simp split: if_splits)
  with assms(2) have "byte_at 0 utf8_cont r" by (simp add: utf8_len_def split: if_splits)
  then show ?thesis by (cases r) (simp_all add: byte_at_def)
qed

lemma utf8_no_cont_ascii:
  assumes "utf8_valid s" "\<forall>b \<in> set s. \<not> utf8_cont b"
  shows "ascii s"
  using assms
proof (induction s)
  case (Cons b r)
  have "b < 0x80"
    using utf8_valid_Cons_cont [OF Cons.prems(1)] Cons.prems(2) by force
  moreover from this Cons have "ascii r" by simp
  ultimately show ?case by (simp add: ascii_def)
qed (simp add: ascii_def)

lemma utf8_char_count_ascii: "utf8_valid s \<Longrightarrow> utf8_char_count s = length s \<longleftrightarrow> ascii s"
  using utf8_char_count_eq_length utf8_no_cont_ascii ascii_char_count by blast

section \<open>Cutting at ASCII bytes\<close>

lemma ascii_not_cont: "b < 0x80 \<Longrightarrow> \<not> utf8_cont b"
  by (auto simp: utf8_cont_def word_less_nat_alt word_le_nat_alt)

text \<open>An ASCII byte never belongs to a longer character.\<close>

lemma utf8_len_append_ascii:
  assumes "b < 0x80" "xs \<noteq> []"
  shows "utf8_len (xs @ b # ys) = utf8_len xs"
proof -
  obtain x r where xs: "xs = x # r" using assms(2) by (cases xs) auto
  have nc: "\<not> utf8_cont b" using assms(1) by (rule ascii_not_cont)
  have 0: "byte_at 0 utf8_cont (r @ b # ys) = byte_at 0 utf8_cont r"
    using nc by (cases r) (auto simp: byte_at_def)
  have 1: "(byte_at 0 utf8_cont r \<and> byte_at 1 utf8_cont (r @ b # ys))
      = (byte_at 0 utf8_cont r \<and> byte_at 1 utf8_cont r)"
    using nc by (cases r; cases "tl r") (auto simp: byte_at_def)
  have 2: "(byte_at 0 utf8_cont r \<and> byte_at 1 utf8_cont r \<and> byte_at 2 utf8_cont (r @ b # ys))
      = (byte_at 0 utf8_cont r \<and> byte_at 1 utf8_cont r \<and> byte_at 2 utf8_cont r)"
    using nc by (cases r; cases "tl r"; cases "tl (tl r)") (auto simp: byte_at_def)
  have n: "byte_at 0 utf8_cont r \<Longrightarrow> (r @ b # ys) ! 0 = r ! 0"
    by (simp add: byte_at_def nth_append)
  show ?thesis
    unfolding xs utf8_len_def append_Cons list.case 0
    by (cases "byte_at 0 utf8_cont r"; cases "byte_at 1 utf8_cont r")
      (use 1 2 n in \<open>simp_all\<close>)
qed

lemma utf8_valid_append_ascii:
  "b < 0x80 \<Longrightarrow> utf8_valid (xs @ b # ys) \<longleftrightarrow> utf8_valid xs \<and> utf8_valid ys"
proof (induction "length xs" arbitrary: xs rule: less_induct)
  case less
  show ?case
  proof (cases "xs = []")
    case False
    note eq = utf8_len_append_ascii [OF less.prems False]
    show ?thesis
    proof (cases "utf8_len xs = 0")
      case True
      with False eq show ?thesis by (subst (1 2) utf8_valid.simps) simp
    next
      case nz: False
      have "utf8_valid (drop (utf8_len xs) xs @ b # ys)
          \<longleftrightarrow> utf8_valid (drop (utf8_len xs) xs) \<and> utf8_valid ys"
        using nz False less.prems by (intro less.hyps) auto
      with False nz eq utf8_len_le [of xs] show ?thesis by (subst (1 2) utf8_valid.simps) simp
    qed
  qed (use less.prems in simp)
qed

end
