(* ===== verification/Pgp_Signature.thy ===== *)
theory Pgp_Signature
  imports Pgp_Signature_Types Pgp_Utf8
begin

text \<open>
  Reading and writing signature packets, \<open>src/src/packet/signature/de.rs\<close> and
  \<open>src/src/packet/signature/ser.rs\<close>. Each subpacket parser takes the body of the subpacket; a
  signature may be embedded in a subpacket, so \<open>subpacket\<close> takes the parser of embedded
  signatures as an argument and \<open>signature_parse_fuel\<close> ties the knot. Its fuel bounds the
  nesting depth; an embedded signature is shorter than the packet around it, so fuel above the
  length of the input is never used up, whatever is returned there, and \<open>signature_parse\<close> satisfies the equation of the
  source's recursion (\<open>signature_parse_unfold\<close>).
\<close>

section \<open>Parsing subpackets\<close>

definition dt_from_timestamp :: "wire \<Rightarrow> u32 \<Rightarrow> int option" where
  "dt_from_timestamp W ts = datetime_from_timestamp W ts"

definition duration_from_timestamp :: "wire \<Rightarrow> u32 \<Rightarrow> int option" where
  "duration_from_timestamp W ts = duration_try_seconds W ts"

definition str_from_utf8 :: "bytes \<Rightarrow> bytes res" where
  "str_from_utf8 s = (if utf8_valid s then Ok s else Err Utf8Error)"

definition signature_creation_time :: "wire \<Rightarrow> bytes \<Rightarrow> subpacket_data parsed" where
  "signature_creation_time W i =
     pmap_opt (\<lambda>date. map_option Sp_SignatureCreationTime (dt_from_timestamp W date)) (be_u32 W i)"

definition issuer :: "wire \<Rightarrow> bytes \<Rightarrow> subpacket_data parsed" where
  "issuer W i = pmap Sp_Issuer (pmap_res key_id_from_slice (pcomplete (take_bytes W 8 i)))"

definition key_expiration :: "wire \<Rightarrow> bytes \<Rightarrow> subpacket_data parsed" where
  "key_expiration W i =
     pmap_opt (\<lambda>date. map_option Sp_KeyExpirationTime (duration_from_timestamp W date)) (be_u32 W i)"

definition pref_sym_alg :: "bytes \<Rightarrow> subpacket_data parsed" where
  "pref_sym_alg body = Ok ([], Sp_PreferredSymmetricAlgorithms (map sym_alg_of_u8 body))"

definition pref_hash_alg :: "bytes \<Rightarrow> subpacket_data parsed" where
  "pref_hash_alg body = Ok ([], Sp_PreferredHashAlgorithms (map hash_alg_of_u8 body))"

definition pref_com_alg :: "bytes \<Rightarrow> subpacket_data parsed" where
  "pref_com_alg body = Ok ([], Sp_PreferredCompressionAlgorithms (map compression_alg_of_u8 body))"

definition signature_expiration_time :: "wire \<Rightarrow> bytes \<Rightarrow> subpacket_data parsed" where
  "signature_expiration_time W i =
     pmap_opt (\<lambda>date. map_option Sp_SignatureExpirationTime (duration_from_timestamp W date))
       (be_u32 W i)"

definition exportable_certification :: "wire \<Rightarrow> bytes \<Rightarrow> subpacket_data parsed" where
  "exportable_certification W i =
     pmap (\<lambda>v. Sp_ExportableCertification (v = 1)) (pcomplete (be_u8 W i))"

definition revocable :: "wire \<Rightarrow> bytes \<Rightarrow> subpacket_data parsed" where
  "revocable W i = pmap (\<lambda>v. Sp_Revocable (v = 1)) (pcomplete (be_u8 W i))"

definition trust_signature :: "wire \<Rightarrow> bytes \<Rightarrow> subpacket_data parsed" where
  "trust_signature W i = and_then (be_u8 W i) (\<lambda>(i, depth). and_then (be_u8 W i) (\<lambda>(i, val).
     Ok (i, Sp_TrustSignature depth val)))"

definition regular_expression :: "bytes \<Rightarrow> subpacket_data parsed" where
  "regular_expression i = pmap Sp_RegularExpression (rest_bytes i)"

definition revocation_key :: "wire \<Rightarrow> bytes \<Rightarrow> subpacket_data parsed" where
  "revocation_key W i =
     and_then (pmap_res revocation_key_class_try_from (be_u8 W i)) (\<lambda>(i, class).
     and_then (pmap pk_alg_of_u8 (be_u8 W i)) (\<lambda>(i, algorithm).
     and_then (take_bytes W 20 i) (\<lambda>(i, fp).
       Ok (i, Sp_RevocationKey
         \<lparr>rk_class = class, rk_algorithm = algorithm, rk_fingerprint = fp\<rparr>))))"

definition parse_notation_data :: "wire \<Rightarrow> bytes \<Rightarrow> subpacket_data parsed" where
  "parse_notation_data W i =
     and_then (pmap (\<lambda>v. v = 0x80) (be_u8 W i)) (\<lambda>(i, rd).
     and_then (tag_bytes W [0, 0, 0] i) (\<lambda>(i, _).
     and_then (be_u16 W i) (\<lambda>(i, name_len).
     and_then (be_u16 W i) (\<lambda>(i, value_len).
     and_then (take_bytes W (unat name_len) i) (\<lambda>(i, name).
     and_then (take_bytes W (unat value_len) i) (\<lambda>(i, val).
       Ok (i, Sp_Notation
         \<lparr>readable = rd, notation_name = name, notation_value = val\<rparr>)))))))"

definition key_server_prefs :: "bytes \<Rightarrow> subpacket_data parsed" where
  "key_server_prefs body = Ok ([], Sp_KeyServerPreferences body)"

definition preferred_key_server :: "bytes \<Rightarrow> subpacket_data parsed" where
  "preferred_key_server i = pmap Sp_PreferredKeyServer (pmap_res str_from_utf8 (rest_bytes i))"

definition primary_userid :: "wire \<Rightarrow> bytes \<Rightarrow> subpacket_data parsed" where
  "primary_userid W i = pmap (\<lambda>a. Sp_IsPrimary (a = 1)) (be_u8 W i)"

definition policy_uri :: "bytes \<Rightarrow> subpacket_data parsed" where
  "policy_uri i = pmap Sp_PolicyURI (pmap_res str_from_utf8 (rest_bytes i))"

definition parse_key_flags :: "bytes \<Rightarrow> subpacket_data parsed" where
  "parse_key_flags body = Ok ([], Sp_KeyFlags body)"

definition signers_userid :: "bytes \<Rightarrow> subpacket_data parsed" where
  "signers_userid i = Ok ([], Sp_SignersUserID i)"

definition features :: "bytes \<Rightarrow> subpacket_data parsed" where
  "features body = Ok ([], Sp_Features body)"

definition rev_reason :: "wire \<Rightarrow> bytes \<Rightarrow> subpacket_data parsed" where
  "rev_reason W i =
     and_then (pmap revocation_code_of_u8 (be_u8 W i)) (\<lambda>(i, code).
     and_then (rest_bytes i) (\<lambda>(i, reason). Ok (i, Sp_RevocationReason code reason)))"

definition sig_target :: "wire \<Rightarrow> bytes \<Rightarrow> subpacket_data parsed" where
  "sig_target W i =
     and_then (pmap pk_alg_of_u8 (be_u8 W i)) (\<lambda>(i, pa).
     and_then (pmap hash_alg_of_u8 (be_u8 W i)) (\<lambda>(i, ha).
     and_then (rest_bytes i) (\<lambda>(i, h). Ok (i, Sp_SignatureTarget pa ha h))))"

definition embedded_sig ::
  "(bytes \<Rightarrow> signature parsed) \<Rightarrow> bytes \<Rightarrow> subpacket_data parsed" where
  "embedded_sig emb i = pmap Sp_EmbeddedSignature (emb i)"

definition issuer_fingerprint :: "wire \<Rightarrow> bytes \<Rightarrow> subpacket_data parsed" where
  "issuer_fingerprint W i =
     and_then (pmap key_version_of_u8 (be_u8 W i)) (\<lambda>(i, v).
     and_then (rest_bytes i) (\<lambda>(i, fp). Ok (i, Sp_IssuerFingerprint v fp)))"

definition pref_aead_alg :: "bytes \<Rightarrow> subpacket_data parsed" where
  "pref_aead_alg body = Ok ([], Sp_PreferredAeadAlgorithms (map aead_alg_of_u8 body))"

fun subpacket_body ::
  "wire \<Rightarrow> (bytes \<Rightarrow> signature parsed) \<Rightarrow> subpacket_type \<Rightarrow> bytes \<Rightarrow> subpacket_data parsed" where
  "subpacket_body W emb SpT_SignatureCreationTime body = signature_creation_time W body"
| "subpacket_body W emb SpT_SignatureExpirationTime body = signature_expiration_time W body"
| "subpacket_body W emb SpT_ExportableCertification body = exportable_certification W body"
| "subpacket_body W emb SpT_TrustSignature body = trust_signature W body"
| "subpacket_body W emb SpT_RegularExpression body = regular_expression body"
| "subpacket_body W emb SpT_Revocable body = revocable W body"
| "subpacket_body W emb SpT_KeyExpirationTime body = key_expiration W body"
| "subpacket_body W emb SpT_PreferredSymmetricAlgorithms body = pref_sym_alg body"
| "subpacket_body W emb SpT_RevocationKey body = revocation_key W body"
| "subpacket_body W emb SpT_Issuer body = issuer W body"
| "subpacket_body W emb SpT_Notation body = parse_notation_data W body"
| "subpacket_body W emb SpT_PreferredHashAlgorithms body = pref_hash_alg body"
| "subpacket_body W emb SpT_PreferredCompressionAlgorithms body = pref_com_alg body"
| "subpacket_body W emb SpT_KeyServerPreferences body = key_server_prefs body"
| "subpacket_body W emb SpT_PreferredKeyServer body = preferred_key_server body"
| "subpacket_body W emb SpT_PrimaryUserId body = primary_userid W body"
| "subpacket_body W emb SpT_PolicyURI body = policy_uri body"
| "subpacket_body W emb SpT_KeyFlags body = parse_key_flags body"
| "subpacket_body W emb SpT_SignersUserID body = signers_userid body"
| "subpacket_body W emb SpT_RevocationReason body = rev_reason W body"
| "subpacket_body W emb SpT_Features body = features body"
| "subpacket_body W emb SpT_SignatureTarget body = sig_target W body"
| "subpacket_body W emb SpT_EmbeddedSignature body = embedded_sig emb body"
| "subpacket_body W emb SpT_IssuerFingerprint body = issuer_fingerprint W body"
| "subpacket_body W emb SpT_PreferredAead body = pref_aead_alg body"
| "subpacket_body W emb (SpT_Experimental n) body = Ok (body, Sp_Experimental n body)"
| "subpacket_body W emb (SpT_Other n) body = Ok (body, Sp_Other n body)"

definition subpacket ::
  "wire \<Rightarrow> (bytes \<Rightarrow> signature parsed) \<Rightarrow> subpacket_type \<Rightarrow> bool \<Rightarrow> bytes \<Rightarrow> subpacket parsed" where
  "subpacket W emb t crit body = pmap (Subpacket crit) (subpacket_body W emb t body)"

text \<open>
  One round of \<open>subpackets\<close>. The length counts the type octet, so \<open>take(len - 1)\<close> underflows on
  a zero length. \<open>map_parser\<close> throws away what the subpacket parser leaves of the body.
\<close>

definition one_subpacket :: "wire \<Rightarrow> (bytes \<Rightarrow> signature parsed) \<Rightarrow> bytes \<Rightarrow> subpacket parsed" where
  "one_subpacket W emb i =
     and_then (packet_length W i) (\<lambda>(i, len).
     and_then (pmap subpacket_type_from_u8 (be_u8 W i)) (\<lambda>(i, ty).
     if len = 0 then Panic
     else pmap_parser (subpacket W emb (fst ty) (snd ty)) (take_bytes W (len - 1) i)))"

definition subpackets :: "wire \<Rightarrow> (bytes \<Rightarrow> signature parsed) \<Rightarrow> bytes \<Rightarrow> subpacket list parsed" where
  "subpackets W emb i = many0 (\<lambda>i. pcomplete (one_subpacket W emb i)) i"

section \<open>Parsing signatures\<close>

text \<open>The number of integers of a signature; other algorithms leave the rest unread.\<close>

definition actual_signature :: "wire \<Rightarrow> pk_alg \<Rightarrow> bytes \<Rightarrow> mpi list parsed" where
  "actual_signature W ty i =
     (if ty \<in> {Pk_RSA, Pk_RSASign} then pmap (\<lambda>v. [v]) (mpi_parse W i)
      else if ty \<in> {Pk_DSA, Pk_ECDSA, Pk_EdDSA} then
        and_then (mpi_parse W i) (\<lambda>(i, a). and_then (mpi_parse W i) (\<lambda>(i, b). Ok (i, [a, b])))
      else if ty \<in> {Pk_Private100, Pk_Private101, Pk_Private102, Pk_Private103, Pk_Private104,
          Pk_Private105, Pk_Private106, Pk_Private107, Pk_Private108, Pk_Private109,
          Pk_Private110} then pmap (\<lambda>v. [v]) (mpi_parse W i)
      else Ok (i, []))"

definition v3_parser :: "wire \<Rightarrow> version \<Rightarrow> signature_version \<Rightarrow> bytes \<Rightarrow> signature parsed" where
  "v3_parser W pv v i =
     and_then (tag_bytes W [5] i) (\<lambda>(i, _).
     and_then (pmap_res signature_type_try_from (be_u8 W i)) (\<lambda>(i, ty).
     and_then (pmap_opt (datetime_from_timestamp W) (be_u32 W i)) (\<lambda>(i, created).
     and_then (pmap_res key_id_from_slice (take_bytes W 8 i)) (\<lambda>(i, iss).
     and_then (pmap pk_alg_of_u8 (be_u8 W i)) (\<lambda>(i, pa).
     and_then (pmap hash_alg_of_u8 (be_u8 W i)) (\<lambda>(i, ha).
     and_then (take_bytes W 2 i) (\<lambda>(i, ls_hash).
     and_then (actual_signature W pa i) (\<lambda>(i, sig).
       Ok (i, Signature pv (SignatureConfig v ty pa ha [] [] (Some created) (Some iss))
         ls_hash sig)))))))))"

definition v4_parser ::
  "wire \<Rightarrow> (bytes \<Rightarrow> signature parsed) \<Rightarrow> version \<Rightarrow> signature_version \<Rightarrow> bytes \<Rightarrow> signature parsed" where
  "v4_parser W emb pv v i =
     and_then (pmap_res signature_type_try_from (be_u8 W i)) (\<lambda>(i, ty).
     and_then (pmap pk_alg_of_u8 (be_u8 W i)) (\<lambda>(i, pa).
     and_then (pmap hash_alg_of_u8 (be_u8 W i)) (\<lambda>(i, ha).
     and_then (pmap_parser (subpackets W emb) (length_data16 W i)) (\<lambda>(i, hsub).
     and_then (pmap_parser (subpackets W emb) (length_data16 W i)) (\<lambda>(i, usub).
     and_then (take_bytes W 2 i) (\<lambda>(i, ls_hash).
     and_then (actual_signature W pa i) (\<lambda>(i, sig).
       Ok (i, signature_new pv v ty pa ha ls_hash sig hsub usub))))))))"

definition invalid_version :: "bytes \<Rightarrow> signature_version \<Rightarrow> signature parsed" where
  "invalid_version body v = Err (NomError (Unsupported ''unknown signature version''))"

definition signature_step ::
  "wire \<Rightarrow> (bytes \<Rightarrow> signature parsed) \<Rightarrow> version \<Rightarrow> bytes \<Rightarrow> signature parsed" where
  "signature_step W emb pv i =
     and_then (pmap signature_version_of_u8 (be_u8 W i)) (\<lambda>(i, v).
       if v \<in> {SigV2, SigV3} then v3_parser W pv v i
       else if v \<in> {SigV4, SigV5} then v4_parser W emb pv v i
       else invalid_version i v)"

text \<open>
  The recursion over embedded signatures, at most \<open>n\<close> levels deep. What it returns below that depth is the
  argument \<open>out\<close>, so that a result which does not depend on \<open>out\<close> is one of the source's recursion.
\<close>

primrec signature_parse_fuel :: "signature parsed \<Rightarrow> wire \<Rightarrow> nat \<Rightarrow> version \<Rightarrow> bytes \<Rightarrow> signature parsed" where
  "signature_parse_fuel out W 0 pv i = out"
| "signature_parse_fuel out W (Suc n) pv i =
     signature_step W (\<lambda>j. signature_parse_fuel out W n New j) pv i"

definition signature_parse :: "wire \<Rightarrow> version \<Rightarrow> bytes \<Rightarrow> signature parsed" where
  "signature_parse W pv i = signature_parse_fuel Panic W (Suc (length i)) pv i"

definition signature_from_slice :: "wire \<Rightarrow> version \<Rightarrow> bytes \<Rightarrow> signature res" where
  "signature_from_slice W pv i = run_parser (signature_parse W pv i)"

section \<open>Writing\<close>

definition duration_to_u32 :: "int \<Rightarrow> u32" where
  "duration_to_u32 d = (if 0 \<le> d \<and> d < 2 ^ 32 then word_of_int d else 0xFFFFFFFF)"

definition u8_of_bool :: "bool \<Rightarrow> u8" where
  "u8_of_bool b = (if b then 1 else 0)"

fun subpacket_typ :: "subpacket_data \<Rightarrow> subpacket_type" where
  "subpacket_typ (Sp_SignatureCreationTime _) = SpT_SignatureCreationTime"
| "subpacket_typ (Sp_SignatureExpirationTime _) = SpT_SignatureExpirationTime"
| "subpacket_typ (Sp_KeyExpirationTime _) = SpT_KeyExpirationTime"
| "subpacket_typ (Sp_Issuer _) = SpT_Issuer"
| "subpacket_typ (Sp_PreferredSymmetricAlgorithms _) = SpT_PreferredSymmetricAlgorithms"
| "subpacket_typ (Sp_PreferredHashAlgorithms _) = SpT_PreferredHashAlgorithms"
| "subpacket_typ (Sp_PreferredCompressionAlgorithms _) = SpT_PreferredCompressionAlgorithms"
| "subpacket_typ (Sp_KeyServerPreferences _) = SpT_KeyServerPreferences"
| "subpacket_typ (Sp_KeyFlags _) = SpT_KeyFlags"
| "subpacket_typ (Sp_Features _) = SpT_Features"
| "subpacket_typ (Sp_RevocationReason _ _) = SpT_RevocationReason"
| "subpacket_typ (Sp_IsPrimary _) = SpT_PrimaryUserId"
| "subpacket_typ (Sp_Revocable _) = SpT_Revocable"
| "subpacket_typ (Sp_EmbeddedSignature _) = SpT_EmbeddedSignature"
| "subpacket_typ (Sp_PreferredKeyServer _) = SpT_PreferredKeyServer"
| "subpacket_typ (Sp_Notation _) = SpT_Notation"
| "subpacket_typ (Sp_RevocationKey _) = SpT_RevocationKey"
| "subpacket_typ (Sp_SignersUserID _) = SpT_SignersUserID"
| "subpacket_typ (Sp_PolicyURI _) = SpT_PolicyURI"
| "subpacket_typ (Sp_TrustSignature _ _) = SpT_TrustSignature"
| "subpacket_typ (Sp_RegularExpression _) = SpT_RegularExpression"
| "subpacket_typ (Sp_ExportableCertification _) = SpT_ExportableCertification"
| "subpacket_typ (Sp_IssuerFingerprint _ _) = SpT_IssuerFingerprint"
| "subpacket_typ (Sp_PreferredAeadAlgorithms _) = SpT_PreferredAead"
| "subpacket_typ (Sp_Experimental n _) = SpT_Experimental n"
| "subpacket_typ (Sp_Other n _) = SpT_Other n"
| "subpacket_typ (Sp_SignatureTarget _ _ _) = SpT_SignatureTarget"

definition mpis_to_writer :: "wire \<Rightarrow> mpi list \<Rightarrow> bytes" where
  "mpis_to_writer W ms = concat (map (mpi_to_writer W) ms)"

text \<open>
  The writers of signatures, their configurations, subpackets and subpacket bodies. A missing
  creation time or issuer of a version 2 or 3 signature is an \<open>expect\<close> that panics.
\<close>

fun signature_to_writer :: "wire \<Rightarrow> signature \<Rightarrow> bytes res"
and config_to_writer_v3 :: "wire \<Rightarrow> signature_config \<Rightarrow> bytes res"
and config_to_writer_v4 :: "wire \<Rightarrow> signature_config \<Rightarrow> bytes res"
and subpackets_to_writer :: "wire \<Rightarrow> subpacket list \<Rightarrow> bytes res"
and subpacket_to_writer :: "wire \<Rightarrow> subpacket \<Rightarrow> bytes res"
and body_to_writer :: "wire \<Rightarrow> subpacket_data \<Rightarrow> bytes res"
and body_len :: "wire \<Rightarrow> subpacket_data \<Rightarrow> nat res" where
  "signature_to_writer W (Signature pv cfg shv mpis) =
     (let v = cfg_version cfg in
      if v \<in> {SigV2, SigV3} then
        and_then (config_to_writer_v3 W cfg) (\<lambda>c.
          Ok ([signature_version_to_u8 v] @ c @ shv @ mpis_to_writer W mpis))
      else if v \<in> {SigV4, SigV5} then
        and_then (config_to_writer_v4 W cfg) (\<lambda>c.
          Ok ([signature_version_to_u8 v] @ c @ shv @ mpis_to_writer W mpis))
      else Err (Message ''Unsupported signature version''))"
| "config_to_writer_v3 W (SignatureConfig v ty pa ha us hs created iss) =
     (case created of None \<Rightarrow> Panic | Some t \<Rightarrow>
      case iss of None \<Rightarrow> Panic | Some k \<Rightarrow>
        Ok ([0x05, signature_type_to_u8 ty] @ write_u32 W (word_of_int t) @ k
            @ [pk_alg_to_u8 pa, hash_alg_to_u8 ha]))"
| "config_to_writer_v4 W (SignatureConfig v ty pa ha us hs created iss) =
     and_then (subpackets_to_writer W hs) (\<lambda>h.
     and_then (subpackets_to_writer W us) (\<lambda>u.
       Ok ([signature_type_to_u8 ty, pk_alg_to_u8 pa, hash_alg_to_u8 ha]
           @ write_u16 W (of_nat (length h)) @ h
           @ write_u16 W (of_nat (length u)) @ u)))"
| "subpackets_to_writer W [] = Ok []"
| "subpackets_to_writer W (p # ps) =
     and_then (subpacket_to_writer W p) (\<lambda>a.
     and_then (subpackets_to_writer W ps) (\<lambda>b. Ok (a @ b)))"
| "subpacket_to_writer W (Subpacket crit d) =
     and_then (body_len W d) (\<lambda>len.
     and_then (body_to_writer W d) (\<lambda>body.
       Ok (write_packet_length W (1 + len) @ [subpacket_type_as_u8 (subpacket_typ d) crit] @ body)))"
| "body_to_writer W (Sp_SignatureCreationTime t) = Ok (write_u32 W (word_of_int t))"
| "body_to_writer W (Sp_SignatureExpirationTime d) = Ok (write_u32 W (duration_to_u32 d))"
| "body_to_writer W (Sp_KeyExpirationTime d) = Ok (write_u32 W (duration_to_u32 d))"
| "body_to_writer W (Sp_Issuer k) = Ok k"
| "body_to_writer W (Sp_PreferredSymmetricAlgorithms algs) = Ok (map sym_alg_to_u8 algs)"
| "body_to_writer W (Sp_PreferredHashAlgorithms algs) = Ok (map hash_alg_to_u8 algs)"
| "body_to_writer W (Sp_PreferredCompressionAlgorithms algs) = Ok (map compression_alg_to_u8 algs)"
| "body_to_writer W (Sp_KeyServerPreferences prefs) = Ok prefs"
| "body_to_writer W (Sp_KeyFlags flags) = Ok flags"
| "body_to_writer W (Sp_Features fs) = Ok fs"
| "body_to_writer W (Sp_RevocationReason code reason) = Ok (revocation_code_to_u8 code # reason)"
| "body_to_writer W (Sp_IsPrimary b) = Ok [u8_of_bool b]"
| "body_to_writer W (Sp_Revocable b) = Ok [u8_of_bool b]"
| "body_to_writer W (Sp_EmbeddedSignature s) = signature_to_writer W s"
| "body_to_writer W (Sp_PreferredKeyServer server) = Ok server"
| "body_to_writer W (Sp_Notation n) =
     Ok ([if readable n then 0x80 else 0, 0, 0, 0]
         @ write_u16 W (of_nat (length (notation_name n)))
         @ write_u16 W (of_nat (length (notation_value n)))
         @ notation_name n @ notation_value n)"
| "body_to_writer W (Sp_RevocationKey k) =
     Ok ([revocation_key_class_to_u8 (rk_class k), pk_alg_to_u8 (rk_algorithm k)]
         @ rk_fingerprint k)"
| "body_to_writer W (Sp_SignersUserID body) = Ok body"
| "body_to_writer W (Sp_PolicyURI uri) = Ok uri"
| "body_to_writer W (Sp_TrustSignature depth val) = Ok [depth, val]"
| "body_to_writer W (Sp_RegularExpression re) = Ok re"
| "body_to_writer W (Sp_ExportableCertification b) = Ok [u8_of_bool b]"
| "body_to_writer W (Sp_IssuerFingerprint v fp) = Ok (key_version_to_u8 v # fp)"
| "body_to_writer W (Sp_PreferredAeadAlgorithms algs) = Ok (map aead_alg_to_u8 algs)"
| "body_to_writer W (Sp_Experimental n body) = Ok body"
| "body_to_writer W (Sp_Other n body) = Ok body"
| "body_to_writer W (Sp_SignatureTarget pa ha h) = Ok ([pk_alg_to_u8 pa, hash_alg_to_u8 ha] @ h)"
| "body_len W (Sp_SignatureCreationTime t) = Ok 4"
| "body_len W (Sp_SignatureExpirationTime d) = Ok 4"
| "body_len W (Sp_KeyExpirationTime d) = Ok 4"
| "body_len W (Sp_Issuer k) = Ok 8"
| "body_len W (Sp_PreferredSymmetricAlgorithms algs) = Ok (length algs)"
| "body_len W (Sp_PreferredHashAlgorithms algs) = Ok (length algs)"
| "body_len W (Sp_PreferredCompressionAlgorithms algs) = Ok (length algs)"
| "body_len W (Sp_KeyServerPreferences prefs) = Ok (length prefs)"
| "body_len W (Sp_KeyFlags flags) = Ok (length flags)"
| "body_len W (Sp_Features fs) = Ok (length fs)"
| "body_len W (Sp_RevocationReason code reason) = Ok (1 + length reason)"
| "body_len W (Sp_IsPrimary b) = Ok 1"
| "body_len W (Sp_Revocable b) = Ok 1"
| "body_len W (Sp_EmbeddedSignature s) = map_ok length (signature_to_writer W s)"
| "body_len W (Sp_PreferredKeyServer server) = Ok (utf8_char_count server)"
| "body_len W (Sp_Notation n) =
     Ok (4 + 2 + 2 + length (notation_name n) + length (notation_value n))"
| "body_len W (Sp_RevocationKey k) = Ok 22"
| "body_len W (Sp_SignersUserID body) = Ok (length body)"
| "body_len W (Sp_PolicyURI uri) = Ok (length uri)"
| "body_len W (Sp_TrustSignature depth val) = Ok 2"
| "body_len W (Sp_RegularExpression re) = Ok (length re)"
| "body_len W (Sp_ExportableCertification b) = Ok 1"
| "body_len W (Sp_IssuerFingerprint v fp) = Ok (1 + length fp)"
| "body_len W (Sp_PreferredAeadAlgorithms algs) = Ok (length algs)"
| "body_len W (Sp_Experimental n body) = Ok (length body)"
| "body_len W (Sp_Other n body) = Ok (length body)"
| "body_len W (Sp_SignatureTarget pa ha h) = Ok (2 + length h)"

end
