(* ===== verification/Pgp_Signature_Codec.thy ===== *)
theory Pgp_Signature_Codec
  imports Pgp_Signature
begin

text \<open>
  The correctness of the signature codec: which signatures survive a round trip (\<open>sig_ok\<close>),
  the independence of the parser from its fuel, the round trip of whole signatures with nested
  embedded signatures, the announced against the written length of a subpacket, and the
  behaviour on malformed subpackets.
\<close>

section \<open>Which signatures survive a round trip\<close>

definition in_u32 :: "int \<Rightarrow> bool" where
  "in_u32 t \<longleftrightarrow> 0 \<le> t \<and> t < 2 ^ 32"

abbreviation "canonical_sym_alg \<equiv> canonical sym_alg_to_u8 sym_alg_of_u8"
abbreviation "canonical_hash_alg \<equiv> canonical hash_alg_to_u8 hash_alg_of_u8"
abbreviation "canonical_pk_alg \<equiv> canonical pk_alg_to_u8 pk_alg_of_u8"
abbreviation "canonical_com_alg \<equiv> canonical compression_alg_to_u8 compression_alg_of_u8"
abbreviation "canonical_aead_alg \<equiv> canonical aead_alg_to_u8 aead_alg_of_u8"

text \<open>The integers of a signature fit its algorithm.\<close>

definition mpis_fit :: "pk_alg \<Rightarrow> mpi list \<Rightarrow> bool" where
  "mpis_fit a ms \<longleftrightarrow> list_all mpi_ok ms \<and>
     length ms = (if a \<in> {Pk_DSA, Pk_ECDSA, Pk_EdDSA} then 2
       else if a \<in> {Pk_RSAEncrypt, Pk_ElgamalSign, Pk_ECDH, Pk_Elgamal, Pk_DiffieHellman} then 0
       else (case a of Pk_Unknown _ \<Rightarrow> 0 | _ \<Rightarrow> 1))"

definition area_ok :: "wire \<Rightarrow> subpacket list \<Rightarrow> bool" where
  "area_ok W ps \<longleftrightarrow> (case subpackets_to_writer W ps of Ok b \<Rightarrow> length b < 2 ^ 16 | _ \<Rightarrow> False)"

fun sig_ok :: "wire \<Rightarrow> signature \<Rightarrow> bool"
and cfg_ok :: "wire \<Rightarrow> signature_config \<Rightarrow> bool"
and sps_ok :: "wire \<Rightarrow> subpacket list \<Rightarrow> bool"
and sp_ok :: "wire \<Rightarrow> subpacket \<Rightarrow> bool"
and data_ok :: "wire \<Rightarrow> subpacket_data \<Rightarrow> bool" where
  "sig_ok W (Signature pv cfg shv mpis) \<longleftrightarrow>
     length shv = 2 \<and> mpis_fit (pub_alg cfg) mpis \<and> cfg_ok W cfg"
| "cfg_ok W (SignatureConfig v ty pa ha us hs created iss) \<longleftrightarrow>
     canonical_pk_alg pa \<and> canonical_hash_alg ha \<and>
     (if v \<in> {SigV2, SigV3} then
        us = [] \<and> hs = [] \<and> (case created of Some t \<Rightarrow> in_u32 t | None \<Rightarrow> False)
        \<and> (case iss of Some k \<Rightarrow> length k = 8 | None \<Rightarrow> False)
      else v \<in> {SigV4, SigV5} \<and> created = None \<and> iss = None
        \<and> sps_ok W us \<and> sps_ok W hs \<and> area_ok W us \<and> area_ok W hs)"
| "sps_ok W [] \<longleftrightarrow> True"
| "sps_ok W (p # ps) \<longleftrightarrow> sp_ok W p \<and> sps_ok W ps"
| "sp_ok W (Subpacket crit d) \<longleftrightarrow> canonical_sp_type (subpacket_typ d) \<and> data_ok W d"
| "data_ok W (Sp_SignatureCreationTime t) \<longleftrightarrow> in_u32 t"
| "data_ok W (Sp_SignatureExpirationTime d) \<longleftrightarrow> in_u32 d"
| "data_ok W (Sp_KeyExpirationTime d) \<longleftrightarrow> in_u32 d"
| "data_ok W (Sp_Issuer k) \<longleftrightarrow> length k = 8"
| "data_ok W (Sp_PreferredSymmetricAlgorithms algs) \<longleftrightarrow> list_all canonical_sym_alg algs"
| "data_ok W (Sp_PreferredHashAlgorithms algs) \<longleftrightarrow> list_all canonical_hash_alg algs"
| "data_ok W (Sp_PreferredCompressionAlgorithms algs) \<longleftrightarrow> list_all canonical_com_alg algs"
| "data_ok W (Sp_RevocationReason code reason) \<longleftrightarrow>
     revocation_code_of_u8 (revocation_code_to_u8 code) = code"
| "data_ok W (Sp_EmbeddedSignature s) \<longleftrightarrow> sig_packet_version s = New \<and> sig_ok W s"
| "data_ok W (Sp_PreferredKeyServer server) \<longleftrightarrow> ascii server"
| "data_ok W (Sp_Notation n) \<longleftrightarrow>
     length (notation_name n) < 2 ^ 16 \<and> length (notation_value n) < 2 ^ 16"
| "data_ok W (Sp_RevocationKey k) \<longleftrightarrow>
     canonical_pk_alg (rk_algorithm k) \<and> length (rk_fingerprint k) = 20"
| "data_ok W (Sp_PolicyURI uri) \<longleftrightarrow> utf8_valid uri"
| "data_ok W (Sp_IssuerFingerprint v fp) \<longleftrightarrow> key_version_of_u8 (key_version_to_u8 v) = v"
| "data_ok W (Sp_PreferredAeadAlgorithms algs) \<longleftrightarrow> list_all canonical_aead_alg algs"
| "data_ok W (Sp_SignatureTarget pa ha h) \<longleftrightarrow> canonical_pk_alg pa \<and> canonical_hash_alg ha"
| "data_ok W _ \<longleftrightarrow> True"

section \<open>Helpers\<close>

lemma map_canonical [simp]:
  "list_all (canonical to of_byte) xs \<Longrightarrow> map of_byte (map to xs) = xs"
  by (induction xs) (simp_all add: canonical_def)

lemma word_of_int_in_u32 [simp]: "in_u32 t \<Longrightarrow> uint (word_of_int t :: u32) = t"
  by (simp add: in_u32_def uint_word_of_int)

lemma duration_to_u32_in_u32 [simp]: "in_u32 t \<Longrightarrow> uint (duration_to_u32 t) = t"
  by (simp add: duration_to_u32_def in_u32_def uint_word_of_int)

section \<open>Fuel\<close>

text \<open>A subpacket parser calls the embedded-signature parser on its body only.\<close>

lemma subpacket_cong: "f b = g b \<Longrightarrow> subpacket W f t c b = subpacket W g t c b"
  by (cases t) (simp_all add: subpacket_def embedded_sig_def)

context wire_laws
begin

lemma one_subpacket_cong:
  assumes "\<And>j. length j < length i \<Longrightarrow> f j = g j"
  shows "one_subpacket W f i = one_subpacket W g i"
proof -
  have "f (take (n - 1) j) = g (take (n - 1) j)" if "packet_length W i = Ok (b # j, n)" for b j n
    using packet_length_consumes [OF that] by (intro assms) auto
  then have "subpacket W f t c (take (n - Suc 0) j) = subpacket W g t c (take (n - Suc 0) j)"
    if "packet_length W i = Ok (b # j, n)" for b j n t c
    using that by (intro subpacket_cong) auto
  then show ?thesis
    unfolding one_subpacket_def pmap_parser_def
    by (intro and_then_cong) (auto simp: pmap_def be_u8_Ok take_Ok intro!: and_then_cong)
qed

lemma subpackets_cong:
  assumes "\<And>j. length j < length i \<Longrightarrow> f j = g j"
  shows "subpackets W f i = subpackets W g i"
  unfolding subpackets_def
  by (intro many0_cong_length arg_cong [of _ _ pcomplete] one_subpacket_cong assms) auto

lemma area_cong:
  assumes "\<And>j. length j < length i \<Longrightarrow> f j = g j"
  shows "pmap_parser (subpackets W f) (length_data16 W i) = pmap_parser (subpackets W g) (length_data16 W i)"
proof -
  have "subpackets W f b = subpackets W g b" if "length_data16 W i = Ok (j, b)" for j b
    using that by (intro subpackets_cong assms) (auto simp: length_data16_def be_u16_Ok take_Ok)
  then show ?thesis
    unfolding pmap_parser_def by (intro and_then_cong) auto
qed

lemma area_shorter:
  "pmap_parser q (length_data16 W i) = Ok (j, x) \<Longrightarrow> length j < length i"
  by (auto simp: pmap_parser_def length_data16_def be_u16_Ok take_Ok)

lemma pmap_be_u8_Ok: "pmap f (be_u8 W i) = Ok (j, y) \<longleftrightarrow> (\<exists>b. i = b # j \<and> y = f b)"
  by (auto simp: pmap_eq_Ok be_u8_Ok)

lemma pmap_res_be_u8_Ok: "pmap_res f (be_u8 W i) = Ok (j, y) \<longleftrightarrow> (\<exists>b. i = b # j \<and> f b = Ok y)"
  by (auto simp: pmap_res_eq_Ok be_u8_Ok)

lemma v4_parser_cong:
  assumes "\<And>j. length j < length i \<Longrightarrow> f j = g j"
  shows "v4_parser W f pv v i = v4_parser W g pv v i"
proof -
  have eq: "pmap_parser (subpackets W f) (length_data16 W j) =
      pmap_parser (subpackets W g) (length_data16 W j)" if "length j < length i" for j
    using that by (intro area_cong assms) auto
  show ?thesis
    unfolding v4_parser_def
    by (intro and_then_cong)
      (auto simp: eq pmap_be_u8_Ok pmap_res_be_u8_Ok dest!: area_shorter intro!: and_then_cong)
qed

lemma signature_step_cong:
  assumes "\<And>j. length j < length i \<Longrightarrow> f j = g j"
  shows "signature_step W f pv i = signature_step W g pv i"
  unfolding signature_step_def
  by (intro and_then_cong) (auto simp: pmap_be_u8_Ok intro!: v4_parser_cong assms)

lemma signature_parse_fuel_enough:
  "length i < n \<Longrightarrow> length i < m \<Longrightarrow> signature_parse_fuel x W n pv i = signature_parse_fuel y W m pv i"
proof (induction n arbitrary: m pv i)
  case (Suc n)
  then obtain m' where m: "m = Suc m'" by (cases m) auto
  have "signature_parse_fuel x W n New j = signature_parse_fuel y W m' New j"
    if "length j < length i" for j
    using that Suc.prems m by (intro Suc.IH) auto
  then show ?case
    unfolding m by (simp add: signature_step_cong [of i "signature_parse_fuel x W n New"])
qed simp

lemma signature_parse_unfold:
  "signature_parse W pv i = signature_step W (signature_parse W New) pv i"
proof -
  have "signature_parse_fuel Panic W (length i) New j = signature_parse W New j"
    if "length j < length i" for j
    unfolding signature_parse_def using that by (intro signature_parse_fuel_enough) auto
  then show ?thesis
    unfolding signature_parse_def [of W pv i]
    by (simp add: signature_step_cong [of i "signature_parse_fuel Panic W (length i) New"])
qed

text \<open>What \<open>body_to_writer\<close> writes has the announced length and is read back.\<close>

definition body_roundtrips :: "subpacket_data \<Rightarrow> bool" where
  "body_roundtrips d \<longleftrightarrow> (\<exists>b r. body_to_writer W d = Ok b \<and> body_len W d = Ok (length b)
     \<and> subpacket_body W (signature_parse W New) (subpacket_typ d) b = Ok (r, d))"

lemmas body_parsers = signature_creation_time_def issuer_def key_expiration_def pref_sym_alg_def
  pref_hash_alg_def pref_com_alg_def signature_expiration_time_def exportable_certification_def
  revocable_def trust_signature_def regular_expression_def revocation_key_def
  parse_notation_data_def key_server_prefs_def preferred_key_server_def primary_userid_def
  policy_uri_def parse_key_flags_def signers_userid_def features_def rev_reason_def sig_target_def
  issuer_fingerprint_def pref_aead_alg_def dt_from_timestamp_def duration_from_timestamp_def
  str_from_utf8_def rest_bytes_def

lemma be_u32_be32_Nil [simp]: "be_u32 W (be32 x) = Ok ([], x)"
  using be_u32_be32 [of x "[]"] by simp

lemma tag_000 [simp]: "tag_bytes W [0, 0, 0] (0 # 0 # 0 # r) = Ok (r, [0, 0, 0])"
  using tag_match [of "[0, 0, 0]" r] by simp

lemma body_roundtrips_notation:
  "data_ok W (Sp_Notation n) \<Longrightarrow> body_roundtrips (Sp_Notation n)"
  by (cases n) (simp add: body_roundtrips_def body_parsers)

lemma body_roundtrips_revocation_key:
  "data_ok W (Sp_RevocationKey k) \<Longrightarrow> body_roundtrips (Sp_RevocationKey k)"
  by (cases k) (simp add: body_roundtrips_def body_parsers canonical_def)

lemma body_roundtrips_key_server:
  "data_ok W (Sp_PreferredKeyServer s) \<Longrightarrow> body_roundtrips (Sp_PreferredKeyServer s)"
  by (simp add: body_roundtrips_def body_parsers ascii_utf8_valid ascii_char_count)

lemma body_roundtrips_plain:
  assumes "data_ok W d" "\<nexists>s. d = Sp_EmbeddedSignature s"
  shows "body_roundtrips d"
  using assms
proof (cases d)
  case (Sp_Notation n) with assms body_roundtrips_notation show ?thesis by simp
next
  case (Sp_RevocationKey k) with assms body_roundtrips_revocation_key show ?thesis by simp
next
  case (Sp_PreferredKeyServer s) with assms body_roundtrips_key_server show ?thesis by simp
qed (simp_all add: body_roundtrips_def body_parsers canonical_def u8_of_bool_def list_all_iff
      map_idI)

lemma one_subpacket_roundtrip:
  assumes "body_roundtrips d" "canonical_sp_type (subpacket_typ d)"
  shows "\<exists>out. subpacket_to_writer W (Subpacket c d) = Ok out \<and> out \<noteq> [] \<and> (length out < 2 ^ 32 \<longrightarrow>
    (\<forall>r. one_subpacket W (signature_parse W New) (out @ r) = Ok (r, Subpacket c d)))"
proof -
  obtain b r' where b: "body_to_writer W d = Ok b" "body_len W d = Ok (length b)"
    "subpacket_body W (signature_parse W New) (subpacket_typ d) b = Ok (r', d)"
    using assms(1) by (auto simp: body_roundtrips_def)
  let ?out = "write_packet_length W (1 + length b) @ [subpacket_type_as_u8 (subpacket_typ d) c] @ b"
  have "one_subpacket W (signature_parse W New) (?out @ r) = Ok (r, Subpacket c d)"
    if "length ?out < 2 ^ 32" for r
  proof -
    have "1 + length b < 2 ^ 32" using that by simp
    from packet_length_write_packet_length [OF this] assms(2) b(3) show ?thesis
      by (simp add: one_subpacket_def subpacket_def)
  qed
  with b show ?thesis by simp
qed

definition subpacket_roundtrips :: "subpacket \<Rightarrow> bool" where
  "subpacket_roundtrips p \<longleftrightarrow> (\<exists>out. subpacket_to_writer W p = Ok out \<and> out \<noteq> [] \<and> (length out < 2 ^ 32 \<longrightarrow>
    (\<forall>r. one_subpacket W (signature_parse W New) (out @ r) = Ok (r, p))))"

lemma one_subpacket_Nil: "\<exists>n. one_subpacket W f [] = Err (NomIncomplete n)"
  using be_u8_Nil by (auto simp: one_subpacket_def packet_length_def incomplete_def)

lemma many0_Nil [simp]: "many0 (\<lambda>i. pcomplete (one_subpacket W f i)) [] = Ok ([], [])"
  using one_subpacket_Nil [of f] by (subst many0.simps) (auto simp: pcomplete_def)

lemma subpackets_roundtrip:
  assumes "\<forall>p \<in> set ps. subpacket_roundtrips p" "subpackets_to_writer W ps = Ok out" "length out < 2 ^ 32"
  shows "subpackets W (signature_parse W New) out = Ok ([], ps)"
  using assms
proof (induction ps arbitrary: out)
  case (Cons p ps)
  then obtain a b where ab: "subpacket_to_writer W p = Ok a" "subpackets_to_writer W ps = Ok b"
    "out = a @ b" by auto
  from Cons.prems(1) ab(1) Cons.prems(3) have "a \<noteq> []"
    "one_subpacket W (signature_parse W New) (a @ b) = Ok (b, p)"
    by (auto simp: subpacket_roundtrips_def ab(3))
  moreover have "subpackets W (signature_parse W New) b = Ok ([], ps)"
    using Cons.prems ab by (intro Cons.IH) auto
  ultimately show ?case
    unfolding subpackets_def ab(3) by (subst many0.simps) simp
qed (simp add: subpackets_def)

lemma subpackets_write_Ok:
  "\<forall>p \<in> set ps. subpacket_roundtrips p \<Longrightarrow> \<exists>out. subpackets_to_writer W ps = Ok out"
  by (induction ps) (auto simp: subpacket_roundtrips_def)

lemma length_data16_write [simp]:
  "length b < 2 ^ 16 \<Longrightarrow> length_data16 W (be16 (of_nat (length b)) @ b @ r) = Ok (r, b)"
  by (simp add: length_data16_def)

lemma mpi_list_1: "length ms = Suc 0 \<longleftrightarrow> (\<exists>m. ms = [m])"
  by (simp add: length_Suc_conv)

lemma mpi_list_2: "length ms = 2 \<longleftrightarrow> (\<exists>m n. ms = [m, n])"
  by (auto simp: length_Suc_conv numeral_2_eq_2)

lemma actual_signature_roundtrip:
  "mpis_fit a ms \<Longrightarrow> actual_signature W a (mpis_to_writer W ms @ r) = Ok (r, ms)"
  by (cases a) (auto simp: mpis_fit_def actual_signature_def mpis_to_writer_def mpi_list_1 mpi_list_2)

lemma area_roundtrip:
  assumes "\<forall>p \<in> set ps. subpacket_roundtrips p" "subpackets_to_writer W ps = Ok b" "length b < 2 ^ 16"
  shows "pmap_parser (subpackets W (signature_parse W New))
    (length_data16 W (be16 (of_nat (length b)) @ b @ r)) = Ok (r, ps)"
  using assms subpackets_roundtrip [OF assms(1,2)] by simp

lemma version_v4: "v \<in> {SigV4, SigV5} \<Longrightarrow> signature_version_of_u8 (signature_version_to_u8 v) = v"
  by (auto simp: signature_version_of_u8_def)

lemma version_v3: "v \<in> {SigV2, SigV3} \<Longrightarrow> signature_version_of_u8 (signature_version_to_u8 v) = v"
  by (auto simp: signature_version_of_u8_def)

lemma tag_5 [simp]: "tag_bytes W [5] (5 # r) = Ok (r, [5])"
  using tag_match [of "[5]" r] by simp

lemma signature_v3_roundtrip:
  assumes "sig_ok W (Signature pv cfg shv mpis)" "cfg_version cfg \<in> {SigV2, SigV3}"
  shows "\<exists>out. signature_to_writer W (Signature pv cfg shv mpis) = Ok out
    \<and> (\<forall>r. signature_parse W pv (out @ r) = Ok (r, Signature pv cfg shv mpis))"
proof (cases cfg)
  case (SignatureConfig v ty pa ha us hs created iss)
  with assms have v: "v \<in> {SigV2, SigV3}" by simp
  from assms(1) v SignatureConfig obtain t k where ok: "us = []" "hs = []" "created = Some t" "in_u32 t"
    "iss = Some k" "length k = 8" "length shv = 2" "mpis_fit pa mpis" "canonical_pk_alg pa"
    "canonical_hash_alg ha" by (auto split: option.splits)
  note rt = actual_signature_roundtrip [OF ok(8)] version_v3 [OF v]
  from v have "signature_to_writer W (Signature pv cfg shv mpis) = Ok ([signature_version_to_u8 v]
      @ [5, signature_type_to_u8 ty] @ be32 (word_of_int t) @ k
      @ [pk_alg_to_u8 pa, hash_alg_to_u8 ha] @ shv @ mpis_to_writer W mpis)"
    using SignatureConfig ok by (simp add: Let_def)
  moreover from v ok rt have "signature_parse W pv (([signature_version_to_u8 v]
      @ [5, signature_type_to_u8 ty] @ be32 (word_of_int t) @ k
      @ [pk_alg_to_u8 pa, hash_alg_to_u8 ha] @ shv @ mpis_to_writer W mpis) @ r)
      = Ok (r, Signature pv cfg shv mpis)" for r
    by (subst signature_parse_unfold) (simp add: signature_step_def v3_parser_def canonical_def
        SignatureConfig del: and_then_eq_Ok)
  ultimately show ?thesis by simp
qed

lemma signature_v4_roundtrip:
  assumes "sig_ok W (Signature pv cfg shv mpis)" "cfg_version cfg \<in> {SigV4, SigV5}"
    and "\<forall>p \<in> set (unhashed_subpackets cfg) \<union> set (hashed_subpackets cfg). subpacket_roundtrips p"
  shows "\<exists>out. signature_to_writer W (Signature pv cfg shv mpis) = Ok out
    \<and> (\<forall>r. signature_parse W pv (out @ r) = Ok (r, Signature pv cfg shv mpis))"
proof (cases cfg)
  case (SignatureConfig v ty pa ha us hs created iss)
  with assms have ps: "\<forall>p \<in> set us. subpacket_roundtrips p" "\<forall>p \<in> set hs. subpacket_roundtrips p"
    and v: "v \<in> {SigV4, SigV5}" by auto
  from assms(1,2) SignatureConfig have ok: "area_ok W us" "area_ok W hs" "length shv = 2" "mpis_fit pa mpis"
    "canonical_pk_alg pa" "canonical_hash_alg ha" "created = None" "iss = None" by auto
  from ok obtain u h where w: "subpackets_to_writer W us = Ok u" "length u < 2 ^ 16"
    "subpackets_to_writer W hs = Ok h" "length h < 2 ^ 16"
    by (auto simp: area_ok_def split: result.splits)
  note rt = area_roundtrip [OF ps(1) w(1,2)] area_roundtrip [OF ps(2) w(3,4)]
    actual_signature_roundtrip [OF ok(4)] version_v4 [OF v]
  from v have "signature_to_writer W (Signature pv cfg shv mpis) = Ok ([signature_version_to_u8 v]
      @ [signature_type_to_u8 ty, pk_alg_to_u8 pa, hash_alg_to_u8 ha]
      @ be16 (of_nat (length h)) @ h @ be16 (of_nat (length u)) @ u @ shv @ mpis_to_writer W mpis)"
    using SignatureConfig w by (auto simp: Let_def)
  moreover from v ok rt have "signature_parse W pv (([signature_version_to_u8 v]
      @ [signature_type_to_u8 ty, pk_alg_to_u8 pa, hash_alg_to_u8 ha]
      @ be16 (of_nat (length h)) @ h @ be16 (of_nat (length u)) @ u @ shv @ mpis_to_writer W mpis) @ r)
      = Ok (r, Signature pv cfg shv mpis)" for r
    by (subst signature_parse_unfold) (auto simp: signature_step_def v4_parser_def canonical_def
        signature_new_def new_v4_def SignatureConfig simp del: and_then_eq_Ok)
  ultimately show ?thesis by simp
qed

lemma sps_ok_iff: "sps_ok W ps \<longleftrightarrow> (\<forall>p \<in> set ps. sp_ok W p)"
  by (induction ps) auto

lemma roundtrip_induct:
  "sig_ok W s \<longrightarrow> (\<exists>out. signature_to_writer W s = Ok out
     \<and> (\<forall>r. signature_parse W (sig_packet_version s) (out @ r) = Ok (r, s)))"
  "\<forall>p \<in> set (unhashed_subpackets c) \<union> set (hashed_subpackets c). sp_ok W p \<longrightarrow> subpacket_roundtrips p"
  "sp_ok W p \<longrightarrow> subpacket_roundtrips p"
  "data_ok W d \<longrightarrow> body_roundtrips d"
proof (induction s and c and p and d)
  case (Signature pv cfg shv mpis)
  show ?case
  proof
    assume ok: "sig_ok W (Signature pv cfg shv mpis)"
    then consider "cfg_version cfg \<in> {SigV2, SigV3}" | "cfg_version cfg \<in> {SigV4, SigV5}"
      "sps_ok W (unhashed_subpackets cfg)" "sps_ok W (hashed_subpackets cfg)"
      by (cases cfg) (auto split: if_splits)
    then show "\<exists>out. signature_to_writer W (Signature pv cfg shv mpis) = Ok out
      \<and> (\<forall>r. signature_parse W (sig_packet_version (Signature pv cfg shv mpis)) (out @ r)
          = Ok (r, Signature pv cfg shv mpis))"
    proof cases
      case 1
      from signature_v3_roundtrip [OF ok this] show ?thesis by simp
    next
      case 2
      with Signature signature_v4_roundtrip [OF ok] show ?thesis by (auto simp: sps_ok_iff)
    qed
  qed
next
  case (Subpacket crit d)
  then show ?case using one_subpacket_roundtrip [of d crit] by (simp add: subpacket_roundtrips_def)
next
  case (Sp_EmbeddedSignature s)
  have "body_roundtrips (Sp_EmbeddedSignature s)" if "sig_packet_version s = New" "sig_ok W s"
  proof -
    from Sp_EmbeddedSignature that obtain out where "signature_to_writer W s = Ok out"
      "signature_parse W New (out @ []) = Ok ([], s)" by metis
    then show ?thesis by (simp add: body_roundtrips_def embedded_sig_def)
  qed
  then show ?case by simp
qed (auto intro!: body_roundtrips_plain simp del: data_ok.simps)

end

text \<open>
  C4. Signature packets round-trip: every well-formed signature of version 2 to 5, with all kinds
  of subpackets and with signatures embedded to any depth, is written without an error, and
  parsing what was written returns exactly that signature and leaves the bytes after it.
\<close>

theorem signature_roundtrip:
  assumes "wire_laws W" and "sig_ok W s"
  shows "\<exists>out. signature_to_writer W s = Ok out
    \<and> (\<forall>r. signature_parse W (sig_packet_version s) (out @ r) = Ok (r, s))"
  using wire_laws.roundtrip_induct(1) [OF assms(1), of s] assms(2) by blast

text \<open>A key binding with an embedded signature that carries an issuer and a creation time.\<close>

definition sample_embedded :: signature where
  "sample_embedded = Signature New
     (SignatureConfig SigV4 Sig_KeyBinding Pk_EdDSA Hash_SHA2_256
       [Subpacket False (Sp_Issuer [1, 2, 3, 4, 5, 6, 7, 8])]
       [Subpacket True (Sp_SignatureCreationTime 1234)] None None) [0xAB, 0xCD] [[1, 2], [3]]"

definition sample_signature :: signature where
  "sample_signature = Signature Old
     (SignatureConfig SigV4 Sig_SubkeyBinding Pk_RSA Hash_SHA1
       [Subpacket False (Sp_EmbeddedSignature sample_embedded)]
       [Subpacket False (Sp_PreferredKeyServer [0x61, 0x62]), Subpacket True (Sp_KeyFlags [3])]
       None None) [9, 8] [[5, 0]]"

theorem signature_roundtrip_witness:
  "sig_ok std_wire sample_signature
   \<and> (\<exists>out. signature_to_writer std_wire sample_signature = Ok out
     \<and> signature_parse std_wire Old (out @ [7]) = Ok ([7], sample_signature))"
proof -
  have ok: "sig_ok std_wire sample_signature"
    by (simp add: sample_signature_def sample_embedded_def area_ok_def in_u32_def mpis_fit_def
        mpi_ok_def bit_size_def leading_zeros8_def canonical_def write_packet_length_def
        write_packet_len_def mpis_to_writer_def mpi_to_writer_def ascii_def
        utf8_char_count_def utf8_cont_def pk_alg_of_u8_def hash_alg_of_u8_def)
  from signature_roundtrip [OF std.wire_laws_axioms this] ok show ?thesis
    by (auto simp: sample_signature_def)
qed

section \<open>Announced and written length\<close>

text \<open>What the types of the source fix: a key id has 8 bytes, a revocation key 20, a string is UTF-8.\<close>

fun data_typed :: "subpacket_data \<Rightarrow> bool" where
  "data_typed (Sp_Issuer k) \<longleftrightarrow> length k = 8"
| "data_typed (Sp_RevocationKey k) \<longleftrightarrow> length (rk_fingerprint k) = 20"
| "data_typed (Sp_PreferredKeyServer s) \<longleftrightarrow> utf8_valid s"
| "data_typed _ \<longleftrightarrow> True"

text \<open>
  The length announced for a subpacket, \<open>body_len\<close>, is the number of bytes its body is
  written with, for every kind of subpacket except a preferred key server: there the
  announced length counts characters and the written one bytes, and they agree exactly for
  ASCII.
\<close>

theorem body_len_exact_iff:
  assumes "wire_laws W" and "data_typed d" and "body_to_writer W d = Ok b"
  shows "body_len W d = Ok (length b) \<longleftrightarrow> (case d of Sp_PreferredKeyServer s \<Rightarrow> ascii s | _ \<Rightarrow> True)"
proof -
  from assms(1) have [simp]: "length (write_u32 W x) = 4" "length (write_u16 W y) = 2" for x y
    by (simp_all add: wire_laws.write_u32_eq wire_laws.write_u16_eq)
  from assms(2,3) show ?thesis
    using utf8_char_count_ascii by (cases d) auto
qed

theorem body_len_exact_iff_witness:
  "body_len std_wire (Sp_PreferredKeyServer [0xC3, 0xA9]) \<noteq> Ok (length [0xC3 :: u8, 0xA9])
   \<and> body_len std_wire (Sp_PreferredKeyServer [0xC3, 0xA9]) = Ok 1
   \<and> body_len std_wire (Sp_TrustSignature 1 2) = Ok (length [1 :: u8, 2])"
proof -
  have "utf8_valid [0xC3, 0xA9]" "\<not> ascii [0xC3, 0xA9]"
    by (simp_all add: utf8_valid.simps utf8_len_def byte_at_def utf8_cont_def ascii_def)
  with body_len_exact_iff [OF std.wire_laws_axioms, of "Sp_PreferredKeyServer [0xC3, 0xA9]"]
    body_len_exact_iff [OF std.wire_laws_axioms, of "Sp_TrustSignature 1 2"]
  show ?thesis by (simp add: utf8_char_count_def utf8_cont_def)
qed

section \<open>Malformed input\<close>

context wire_laws
begin

lemma one_subpacket_zero: "one_subpacket W f (0 # b # r) = Panic"
  by (simp add: one_subpacket_def packet_length_def)

lemma subpackets_zero: "subpackets W f (0 # b # r) = Panic"
  unfolding subpackets_def by (subst many0.simps) (simp add: one_subpacket_zero pcomplete_def)

lemma hashed_area_panic:
  assumes "v \<in> {4, 5}" "signature_type_try_from t = Ok ty" "n = length (0 # b # area)" "n < 2 ^ 16"
  shows "signature_parse W pv ([v, t, pa, ha] @ be16 (of_nat n) @ (0 # b # area) @ r) = Panic"
proof -
  have "length_data16 W (be16 (of_nat n) @ (0 # b # area) @ r) = Ok (r, 0 # b # area)"
    using assms(3,4) unfolding assms(3) by (intro length_data16_write) simp
  with assms(1,2) show ?thesis
    by (subst signature_parse_unfold)
      (auto simp: signature_step_def signature_version_of_u8_def v4_parser_def pmap_parser_def
        subpackets_zero)
qed

text \<open>\<open>many0\<close> stops at the first subpacket it cannot read and drops the rest of the area.\<close>

lemma subpackets_stop:
  assumes "\<forall>p \<in> set ps. subpacket_roundtrips p" "subpackets_to_writer W ps = Ok out"
    "length out < 2 ^ 32"
    and bad: "one_subpacket W (signature_parse W New) bad = Err e" "\<nexists>x. e = NomFailure x"
  shows "subpackets W (signature_parse W New) (out @ bad) = Ok (bad, ps)"
  using assms(1-3)
proof (induction ps arbitrary: out)
  case Nil
  from bad have "\<exists>x. pcomplete (one_subpacket W (signature_parse W New) bad) = Err (NomError x)"
    by (cases e) (auto simp: pcomplete_def)
  with Nil show ?case unfolding subpackets_def by (subst many0.simps) auto
next
  case (Cons p ps)
  then obtain a b where ab: "subpacket_to_writer W p = Ok a" "subpackets_to_writer W ps = Ok b"
    "out = a @ b" by auto
  from Cons.prems(1) ab(1) Cons.prems(3) have "a \<noteq> []"
    "one_subpacket W (signature_parse W New) (a @ b @ bad) = Ok (b @ bad, p)"
    by (auto simp: subpacket_roundtrips_def ab(3))
  moreover have "subpackets W (signature_parse W New) (b @ bad) = Ok (bad, ps)"
    using Cons.prems ab by (intro Cons.IH) auto
  ultimately show ?case
    unfolding subpackets_def ab(3) by (subst many0.simps) simp
qed

lemma area_stop:
  assumes "sps_ok W ps" "subpackets_to_writer W ps = Ok out"
    "n = length out + length bad" "n < 2 ^ 16"
    and "one_subpacket W (signature_parse W New) bad = Err e" "\<nexists>x. e = NomFailure x"
  shows "pmap_parser (subpackets W (signature_parse W New))
    (length_data16 W (be16 (of_nat n) @ out @ bad @ r)) = Ok (r, ps)"
proof -
  have "\<forall>p \<in> set ps. subpacket_roundtrips p"
    using assms(1) roundtrip_induct(3) by (auto simp: sps_ok_iff)
  from subpackets_stop [OF this assms(2) _ assms(5,6)] assms(3,4)
  show ?thesis using length_data16_write [of "out @ bad" r] by simp
qed

end

text \<open>
  A version 4 or 5 signature whose hashed area starts with a subpacket of length 0 makes
  the parser panic: \<open>len - 1\<close> underflows before anything checks it.
\<close>

theorem signature_zero_length_subpacket_panics:
  assumes "wire_laws W" and "v \<in> {4, 5}" and "signature_type_try_from t = Ok ty"
    and "n = length (0 # b # area)" and "n < 2 ^ 16"
  shows "signature_from_slice W pv ([v, t, pa, ha] @ be16 (of_nat n) @ (0 # b # area) @ r) = Panic"
  using wire_laws.hashed_area_panic [OF assms]
  by (simp add: signature_from_slice_def)

theorem signature_zero_length_subpacket_panics_witness:
  "signature_from_slice std_wire New [4, 0, 1, 8, 0, 2, 0, 2] = Panic"
  using signature_zero_length_subpacket_panics [OF std.wire_laws_axioms, of 4 0 Sig_Binary 2 2 "[]"
      New 1 8 "[]"]
  by (simp add: signature_type_try_from_def be16_def)

text \<open>
  A malformed subpacket is not an error of the signature: after any well-formed subpackets,
  a subpacket that cannot be read ends the list, and it and all bytes of the area after it
  are dropped, while the rest of the signature packet is read as usual.
\<close>

theorem malformed_subpacket_dropped:
  assumes "wire_laws W" and "sps_ok W ps" and "subpackets_to_writer W ps = Ok out"
    and "n = length out + length bad" and "n < 2 ^ 16"
    and "one_subpacket W (signature_parse W New) bad = Err e" and "\<nexists>x. e = NomFailure x"
  shows "pmap_parser (subpackets W (signature_parse W New))
    (length_data16 W (be16 (of_nat n) @ out @ bad @ r)) = Ok (r, ps)"
  using assms by (rule wire_laws.area_stop)

text \<open>An exportable-certification subpacket without a body, and a critical one after it.\<close>

theorem malformed_subpacket_dropped_witness:
  "one_subpacket std_wire (signature_parse std_wire New) [1, 4, 2, 0x84, 0] =
     Err (NomError (from_error_kind KComplete))
   \<and> pmap_parser (subpackets std_wire (signature_parse std_wire New))
     (length_data16 std_wire [0, 8, 2, 7, 1, 1, 4, 2, 0x84, 0, 9]) =
     Ok ([9], [Subpacket False (Sp_Revocable True)])"
proof -
  have bad: "one_subpacket std_wire (signature_parse std_wire New) [1, 4, 2, 0x84, 0] =
      Err (NomError (from_error_kind KComplete))"
    by (simp add: one_subpacket_def packet_length_def pmap_parser_def subpacket_type_from_u8_def
        subpacket_type_known_def subpacket_def exportable_certification_def pmap_def std_wire_def
        pcomplete_def std_take_def)
  have out: "subpackets_to_writer std_wire [Subpacket False (Sp_Revocable True)] = Ok [2, 7, 1]"
    by (simp add: write_packet_length_def write_packet_len_def u8_of_bool_def
        subpacket_type_as_u8_def)
  from malformed_subpacket_dropped [OF std.wire_laws_axioms _ out _ _ bad, of 8 "[9]"] bad
  show ?thesis by (simp add: be16_def)
qed

text \<open>
  C38. Parsing signatures terminates on every input: the recursion into embedded signatures never goes deeper
  than the input is long. With any larger bound on the depth the bound is not reached, since the result is the
  same whatever value \<open>out\<close> is returned there, a panic included, and it is the result that satisfies the
  equation of the source's recursive parser.
\<close>

theorem signature_parse_terminates:
  assumes "wire_laws W" and "length i < n"
  shows "signature_parse_fuel out W n pv i = signature_parse W pv i
    \<and> signature_parse W pv i = signature_step W (signature_parse W New) pv i"
  using wire_laws.signature_parse_fuel_enough [OF assms(1,2), of "Suc (length i)" out pv Panic]
    wire_laws.signature_parse_unfold [OF assms(1)]
  by (simp add: signature_parse_def)

theorem signature_parse_terminates_witness:
  "signature_parse_fuel (Err (NomError InvalidInput)) std_wire 3 New [7, 0] = signature_parse std_wire New [7, 0]
   \<and> signature_parse std_wire New [7, 0] =
       Err (NomError (Unsupported ''unknown signature version''))"
  using signature_parse_terminates [OF std.wire_laws_axioms, of "[7, 0]" 3 "Err (NomError InvalidInput)" New]
  by (simp add: signature_step_def signature_version_of_u8_def invalid_version_def)

end
