(* ===== verification/Pgp_Lines.thy ===== *)
theory Pgp_Lines
  imports Pgp_Errors
begin

text \<open>
  Line endings: the normalizing iterator of \<open>src/src/normalize_lines.rs\<close>, the line-splitting
  writer of \<open>src/src/line_writer.rs\<close>. Normalization to CRLF, the only style the library uses, and to
  CR equal a reference definition, normalization to CRLF is idempotent, and normalization to LF
  is shown to lose line breaks. The writer's output does not depend on how the data was cut into
  writes.
\<close>

section \<open>Line breaks\<close>

datatype line_break = Crlf | Lf | Cr

abbreviation cr :: u8 where "cr \<equiv> 13"
abbreviation lf :: u8 where "lf \<equiv> 10"

fun line_break_as_ref :: "line_break \<Rightarrow> bytes" where
  "line_break_as_ref Crlf = [cr, lf]"
| "line_break_as_ref Lf = [lf]"
| "line_break_as_ref Cr = [cr]"

section \<open>The normalizing iterator\<close>

text \<open>
  \<open>Normalized::next\<close> on the state (\<open>prev_was_cr\<close>, remaining bytes of \<open>iter\<close>): the byte returned,
  if any, and the state after. \<open>iter_next\<close> is \<open>iter.next()\<close>.
\<close>

fun iter_next :: "bytes \<Rightarrow> u8 option \<times> bytes" where
  "iter_next [] = (None, [])"
| "iter_next (b # r) = (Some b, r)"

fun next_byte :: "line_break \<Rightarrow> bool \<Rightarrow> bytes \<Rightarrow> u8 option \<times> bool \<times> bytes" where
  "next_byte Lf prev [] = (None, False, [])"
| "next_byte Cr prev [] = (None, False, [])"
| "next_byte Crlf prev [] = (if prev then Some lf else None, False, [])"
| "next_byte lb prev (b # r) =
     (if b = lf then
        (case lb of
           Lf \<Rightarrow> (let i = if prev then r else b # r; (x, i') = iter_next i in (x, prev, i'))
         | Cr \<Rightarrow> if prev then next_byte Cr False r else (Some cr, prev, r)
         | Crlf \<Rightarrow> if prev then (Some b, False, r) else (Some cr, True, b # r))
      else if b = cr then
        (case lb of
           Lf \<Rightarrow> (Some lf, True, r)
         | Cr \<Rightarrow> (Some b, True, r)
         | Crlf \<Rightarrow> if prev then (Some lf, False, b # r) else (Some b, True, r))
      else
        (case lb of
           Crlf \<Rightarrow> if prev then (Some lf, False, b # r) else (Some b, False, r)
         | _ \<Rightarrow> (Some b, False, r)))"

text \<open>\<open>collect\<close>: the bytes up to the first \<open>None\<close>.\<close>

fun pending :: "bool \<Rightarrow> bytes \<Rightarrow> nat" where
  "pending prev i = 2 * length i +
     (if i \<noteq> [] \<and> hd i = lf then (if prev then 0 else 1) else (if prev then 1 else 0))"

lemma next_byte_length: "next_byte lb prev i = (Some x, prev', i') \<Longrightarrow> length i' \<le> length i"
  by (induction lb prev i rule: next_byte.induct)
    (auto split: if_splits line_break.splits prod.splits simp: Let_def elim!: iter_next.elims)

lemma next_byte_pending:
  assumes "next_byte lb prev i = (Some x, prev', i')"
  shows "pending prev' i' < pending prev i"
  using assms
proof (induction lb prev i rule: next_byte.induct)
  case (4 lb prev b r)
  then show ?case
    by (cases lb; cases r) (auto split: if_splits simp: Let_def)
qed (auto split: if_splits)

function collect_normalized :: "line_break \<Rightarrow> bool \<Rightarrow> bytes \<Rightarrow> bytes" where
  "collect_normalized lb prev i =
     (case next_byte lb prev i of
        (None, _, _) \<Rightarrow> []
      | (Some x, prev', i') \<Rightarrow> x # collect_normalized lb prev' i')"
  by pat_completeness auto
termination
  by (relation "measure (\<lambda>(lb, prev, i). pending prev i)") (auto dest!: next_byte_pending [OF sym] simp del: pending.simps)

declare collect_normalized.simps [simp del]

definition normalize_lines :: "line_break \<Rightarrow> bytes \<Rightarrow> bytes" where
  "normalize_lines lb i = collect_normalized lb False i"

section \<open>Normalization is correct for CRLF and CR\<close>

text \<open>The reference: CR LF, CR and LF each become one line break.\<close>

fun break_lines :: "bytes \<Rightarrow> bytes \<Rightarrow> bytes" where
  "break_lines nl [] = []"
| "break_lines nl [b] = (if b = cr \<or> b = lf then nl else [b])"
| "break_lines nl (b # c # r) =
     (if b = cr \<and> c = lf then nl @ break_lines nl r
      else if b = cr \<or> b = lf then nl @ break_lines nl (c # r)
      else b # break_lines nl (c # r))"

lemma collect_Nil: "collect_normalized lb False [] = []"
  by (subst collect_normalized.simps) (cases lb; simp)

lemma collect_Crlf_True:
  "collect_normalized Crlf True [] = [lf]"
  "collect_normalized Crlf True (b # r) = lf # collect_normalized Crlf False (if b = lf then r else b # r)"
  by (subst collect_normalized.simps, simp add: collect_Nil)+

lemma collect_Crlf_Cons:
  "collect_normalized Crlf False (b # r) =
     (if b = lf then cr # lf # collect_normalized Crlf False r
      else if b = cr then cr # collect_normalized Crlf True r
      else b # collect_normalized Crlf False r)"
  by (subst collect_normalized.simps) (simp add: collect_Crlf_True)

lemma collect_Crlf: "collect_normalized Crlf False i = break_lines [cr, lf] i"
proof (induction "[cr, lf]" i rule: break_lines.induct)
  case (3 b c r)
  then show ?case
    by (subst collect_Crlf_Cons) (auto simp: collect_Crlf_True)
qed (simp_all add: collect_Nil collect_Crlf_Cons collect_Crlf_True)

lemma collect_Cr_Cons:
  "collect_normalized Cr False (b # r) =
     (if b = lf then cr # collect_normalized Cr False r
      else if b = cr then cr # collect_normalized Cr True r
      else b # collect_normalized Cr False r)"
  by (subst collect_normalized.simps) simp

lemma collect_Cr_True:
  "collect_normalized Cr True [] = []"
  "collect_normalized Cr True (b # r) = collect_normalized Cr False (if b = lf then r else b # r)"
proof -
  show "collect_normalized Cr True [] = []" by (subst collect_normalized.simps) simp
  show "collect_normalized Cr True (b # r) = collect_normalized Cr False (if b = lf then r else b # r)"
    by (cases "b = lf"; subst (1 2) collect_normalized.simps) simp_all
qed

lemma collect_Cr: "collect_normalized Cr False i = break_lines [cr] i"
proof (induction "[cr]" i rule: break_lines.induct)
  case (3 b c r)
  then show ?case
    by (subst collect_Cr_Cons) (auto simp: collect_Cr_True)
qed (simp_all add: collect_Nil collect_Cr_Cons collect_Cr_True)

lemma break_lines_lf: "break_lines [cr, lf] (cr # lf # i) = cr # lf # break_lines [cr, lf] i"
  by simp

lemma break_lines_plain:
  "b \<noteq> cr \<Longrightarrow> b \<noteq> lf \<Longrightarrow> break_lines nl (b # r) = b # break_lines nl r"
  by (cases r) auto

lemma break_lines_crlf_idem: "break_lines [cr, lf] (break_lines [cr, lf] i) = break_lines [cr, lf] i"
  by (induction "[cr, lf]" i rule: break_lines.induct) (auto simp: break_lines_plain)

text \<open>
  C39. Normalization to CRLF line endings, the form in which text is stored and signed, is the
  reference translation (each of CR LF, CR, LF becomes one CR LF), normalizing twice changes
  nothing more, and normalization to CR equals the reference as well.
\<close>

theorem normalize_lines_correct:
  "normalize_lines Crlf i = break_lines [cr, lf] i
   \<and> normalize_lines Crlf (normalize_lines Crlf i) = normalize_lines Crlf i
   \<and> normalize_lines Cr i = break_lines [cr] i"
  by (simp add: normalize_lines_def collect_Crlf collect_Cr break_lines_crlf_idem)

text \<open>
  Normalization to LF loses line breaks: \<open>prev_was_cr\<close> stays set after a CR LF pair, so the LF
  that ends the following one-byte line is swallowed and the lines are joined.
\<close>

theorem normalize_lines_lf_joins_lines:
  assumes "x \<notin> {cr, lf}" and "y \<notin> {cr, lf}"
  shows "normalize_lines Lf [cr, lf, x, lf, y] = [lf, x, y]
    \<and> break_lines [lf] [cr, lf, x, lf, y] = [lf, x, lf, y]"
  using assms
  by (simp add: normalize_lines_def collect_normalized.simps)

theorem normalize_lines_lf_joins_lines_witness:
  "normalize_lines Lf [cr, lf, 0x61, lf, 0x62] = [lf, 0x61, 0x62]"
  using normalize_lines_lf_joins_lines [of "0x61" "0x62"] by simp

section \<open>The line writer\<close>

text \<open>
  \<open>LineWriter\<close> around an in-memory writer \<open>w\<close>; \<open>extra\<close> holds the \<open>extra_len\<close> buffered bytes.
\<close>

record line_writer =
  lw_line_break :: line_break
  lw_w :: bytes
  lw_extra :: bytes
  lw_finished :: bool
  lw_panicked :: bool

definition lw_new :: "bytes \<Rightarrow> line_break \<Rightarrow> line_writer" where
  "lw_new w lb = \<lparr>lw_line_break = lb, lw_w = w, lw_extra = [], lw_finished = False, lw_panicked = False\<rparr>"

definition lw_finish :: "line_writer \<Rightarrow> line_writer" where
  "lw_finish s =
     (if lw_finished s then s
      else if lw_extra s \<noteq> [] then
        s\<lparr>lw_w := lw_w s @ lw_extra s @ line_break_as_ref (lw_line_break s), lw_extra := [],
          lw_finished := True\<rparr>
      else s\<lparr>lw_finished := True\<rparr>)"

text \<open>
  \<open>write\<close> for lines of \<open>sl\<close> bytes: the state after and the number of bytes taken. The buffer has
  room for a line and the longest line break.
\<close>

definition lw_write :: "nat \<Rightarrow> line_writer \<Rightarrow> bytes \<Rightarrow> (line_writer \<times> nat) res" where
  "lw_write sl s input =
     (if lw_finished s then Panic
      else if input = [] then Ok (s, 0)
      else if length (lw_extra s) + length input < sl then
        Ok (s\<lparr>lw_extra := lw_extra s @ input\<rparr>, length input)
      else
        let copied = min (length (lw_extra s)) (sl + 2);
            s1 = s\<lparr>lw_extra := drop copied (lw_extra s)\<rparr>;
            buffer = take copied (lw_extra s);
            missing = (if length buffer < sl then min (sl - length buffer) (length input) else 0);
            buffer = buffer @ take missing input
        in if length buffer < sl then Ok (s1, missing)
           else Ok (s1\<lparr>lw_w := lw_w s @ buffer @ line_break_as_ref (lw_line_break s)\<rparr>, missing))"

text \<open>\<open>Drop::drop\<close>, and \<open>Write::write_all\<close> of the standard library.\<close>

definition lw_drop :: "line_writer \<Rightarrow> line_writer" where
  "lw_drop s = (if \<not> lw_panicked s then lw_finish s else s)"

function lw_write_all :: "nat \<Rightarrow> line_writer \<Rightarrow> bytes \<Rightarrow> line_writer res" where
  "lw_write_all sl s input =
     (if input = [] then Ok s
      else and_then (lw_write sl s input) (\<lambda>(s', n).
        if n = 0 then Err IOError else lw_write_all sl s' (drop n input)))"
  by pat_completeness auto
termination
  by (relation "measure (\<lambda>(sl, s, input). length input)") auto

declare lw_write_all.simps [simp del]

fun lw_write_each :: "nat \<Rightarrow> line_writer \<Rightarrow> bytes list \<Rightarrow> line_writer res" where
  "lw_write_each sl s [] = Ok s"
| "lw_write_each sl s (p # ps) = and_then (lw_write_all sl s p) (\<lambda>s'. lw_write_each sl s' ps)"

text \<open>The specification: lines of \<open>sl\<close> bytes, each followed by a line break.\<close>

function wrap_lines :: "nat \<Rightarrow> bytes \<Rightarrow> bytes \<Rightarrow> bytes" where
  "wrap_lines sl nl xs =
     (if xs = [] \<or> sl = 0 then [] else take sl xs @ nl @ wrap_lines sl nl (drop sl xs))"
  by pat_completeness auto
termination
  by (relation "measure (\<lambda>(sl, nl, xs). length xs)") auto

declare wrap_lines.simps [simp del]

text \<open>
  The state after some data was written: it is open, and what was written together with the
  buffer wraps to the data, for any continuation.
\<close>

definition lw_holds :: "nat \<Rightarrow> line_break \<Rightarrow> bytes \<Rightarrow> bytes \<Rightarrow> line_writer \<Rightarrow> bool" where
  "lw_holds sl lb w0 d s \<longleftrightarrow>
     lw_line_break s = lb \<and> \<not> lw_finished s \<and> \<not> lw_panicked s \<and> length (lw_extra s) < sl \<and>
     (\<forall>rest. w0 @ wrap_lines sl (line_break_as_ref lb) (d @ rest)
        = lw_w s @ wrap_lines sl (line_break_as_ref lb) (lw_extra s @ rest))"

lemma lw_holds_new: "0 < sl \<Longrightarrow> lw_holds sl lb w0 [] (lw_new w0 lb)"
  by (simp add: lw_holds_def lw_new_def)

lemma wrap_lines_line:
  "0 < sl \<Longrightarrow> length l = sl \<Longrightarrow> wrap_lines sl nl (l @ r) = l @ nl @ wrap_lines sl nl r"
  by (subst wrap_lines.simps) auto

lemma wrap_lines_last:
  "length l < sl \<Longrightarrow> wrap_lines sl nl l = (if l = [] then [] else l @ nl)"
  by (subst wrap_lines.simps, subst wrap_lines.simps) auto

lemma lw_write_holds:
  assumes "lw_holds sl lb w0 d s" "input \<noteq> []"
  shows "\<exists>s' n. lw_write sl s input = Ok (s', n) \<and> 0 < n \<and> n \<le> length input
    \<and> lw_holds sl lb w0 (d @ take n input) s'"
proof (cases "length (lw_extra s) + length input < sl")
  case True
  with assms show ?thesis
    by (auto simp: lw_write_def lw_holds_def)
next
  case False
  define n where "n = sl - length (lw_extra s)"
  have ex: "length (lw_extra s) < sl" and sl: "0 < sl"
    using assms by (auto simp: lw_holds_def)
  have n: "0 < n" "n \<le> length input" "min (sl - length (lw_extra s)) (length input) = n"
    using False ex by (auto simp: n_def)
  have line: "length (lw_extra s @ take n input) = sl"
    using n ex by (simp add: n_def)
  have "wrap_lines sl nl (lw_extra s @ take n input @ rest)
      = lw_extra s @ take n input @ nl @ wrap_lines sl nl rest" for nl rest
    using wrap_lines_line [OF sl line, of nl rest] by simp
  moreover have "lw_write sl s input = Ok (s\<lparr>lw_extra := [],
      lw_w := lw_w s @ (lw_extra s @ take n input) @ line_break_as_ref (lw_line_break s)\<rparr>, n)"
    using assms False ex n line by (simp add: lw_write_def lw_holds_def Let_def)
  ultimately show ?thesis
    using assms n sl by (auto simp: lw_holds_def)
qed

lemma lw_write_all_holds:
  "lw_holds sl lb w0 d s \<Longrightarrow> \<exists>s'. lw_write_all sl s input = Ok s' \<and> lw_holds sl lb w0 (d @ input) s'"
proof (induction "length input" arbitrary: input d s rule: less_induct)
  case less
  show ?case
  proof (cases "input = []")
    case False
    from lw_write_holds [OF less.prems False] obtain s1 n where 1:
      "lw_write sl s input = Ok (s1, n)" "0 < n" "n \<le> length input"
      "lw_holds sl lb w0 (d @ take n input) s1" by blast
    then have "length (drop n input) < length input" using False by simp
    from less.hyps [OF this 1(4)] 1 False show ?thesis
      by (subst lw_write_all.simps) auto
  qed (use less.prems in \<open>simp add: lw_write_all.simps\<close>)
qed

lemma lw_write_each_holds:
  "lw_holds sl lb w0 d s \<Longrightarrow>
   \<exists>s'. lw_write_each sl s ps = Ok s' \<and> lw_holds sl lb w0 (d @ concat ps) s'"
proof (induction ps arbitrary: d s)
  case (Cons p ps)
  from lw_write_all_holds [OF Cons.prems, of p] obtain s1 where 1:
    "lw_write_all sl s p = Ok s1" "lw_holds sl lb w0 (d @ p) s1" by blast
  from Cons.IH [OF 1(2)] 1(1) show ?case by auto
qed simp

lemma lw_finish_holds:
  assumes "lw_holds sl lb w0 d s"
  shows "lw_w (lw_drop s) = w0 @ wrap_lines sl (line_break_as_ref lb) d \<and> lw_finished (lw_drop s)"
proof -
  from assms have "w0 @ wrap_lines sl (line_break_as_ref lb) (d @ [])
      = lw_w s @ wrap_lines sl (line_break_as_ref lb) (lw_extra s @ [])"
    unfolding lw_holds_def by blast
  with assms show ?thesis
    using wrap_lines_last [of "lw_extra s" sl]
    by (auto simp: lw_finish_def lw_drop_def lw_holds_def)
qed

text \<open>
  The line writer wraps its input: for any line length above 0 and any way of cutting the data
  into writes, every write succeeds, and after the writer is dropped the bytes written are
  the lines of the data, each of full length except the last and each followed by the line break.
\<close>

theorem line_writer_wraps:
  assumes "0 < sl"
  shows "\<exists>s. lw_write_each sl (lw_new w0 lb) ps = Ok s
    \<and> lw_w (lw_drop s) = w0 @ wrap_lines sl (line_break_as_ref lb) (concat ps)
    \<and> lw_finished (lw_drop s)"
proof -
  from lw_write_each_holds [OF lw_holds_new [OF assms]] obtain s where
    "lw_write_each sl (lw_new w0 lb) ps = Ok s" "lw_holds sl lb w0 ([] @ concat ps) s" by blast
  with lw_finish_holds show ?thesis by fastforce
qed

theorem line_writer_wraps_witness:
  "\<exists>s. lw_write_each 4 (lw_new [] Crlf) [[1, 2, 3], [4, 5], [6]] = Ok s
    \<and> lw_w (lw_drop s) = [1, 2, 3, 4, 13, 10, 5, 6, 13, 10] \<and> lw_finished (lw_drop s)"
  using line_writer_wraps [of 4 "[]" Crlf "[[1, 2, 3], [4, 5], [6]]"]
  by (simp add: wrap_lines.simps)

end
