(* ===== verification/Pgp_Packets.thy ===== *)
theory Pgp_Packets
  imports Pgp_Signature_Codec Pgp_Lines
begin

text \<open>
  The packets with a simple body: marker, trust, modification detection code, encrypted data,
  padding, user id, one-pass signature, literal data, compressed data and user attribute (the
  files of those names under \<open>src/src/packet/\<close>). The locale \<open>packet_codec\<close> is the contract of
  \<open>PacketTrait\<close> and \<open>Deserialize\<close> together: what a packet type writes, it reads back; every packet type
  here and in the later theories is an instance.
\<close>

section \<open>The contract of a packet type\<close>

locale packet_codec =
  fixes from_slice :: "version \<Rightarrow> bytes \<Rightarrow> 'p res"
    and to_writer :: "'p \<Rightarrow> bytes res"
    and pv :: "'p \<Rightarrow> version"
    and packet_ok :: "'p \<Rightarrow> bool"
  assumes codec_roundtrip:
    "packet_ok p \<Longrightarrow> \<exists>b. to_writer p = Ok b \<and> from_slice (pv p) b = Ok p"
begin

lemma write_read: "packet_ok p \<Longrightarrow> and_then (to_writer p) (from_slice (pv p)) = Ok p"
  using codec_roundtrip [of p] by auto

lemma to_writer_inj:
  "packet_ok p \<Longrightarrow> packet_ok q \<Longrightarrow> pv p = pv q \<Longrightarrow> to_writer p = to_writer q \<Longrightarrow> p = q"
  using codec_roundtrip [of p] codec_roundtrip [of q] by auto

end

section \<open>Marker, trust, modification detection code\<close>

record marker =
  marker_packet_version :: version

definition PGP :: bytes where
  "PGP = [0x50, 0x47, 0x50]"

definition marker_from_slice :: "version \<Rightarrow> bytes \<Rightarrow> marker res" where
  "marker_from_slice v input =
     (if input = PGP then Ok \<lparr>marker_packet_version = v\<rparr> else Err (Message ''invalid input''))"

definition marker_to_writer :: "marker \<Rightarrow> bytes res" where
  "marker_to_writer m = Ok PGP"

record trust =
  trust_packet_version :: version

definition trust_from_slice :: "version \<Rightarrow> bytes \<Rightarrow> trust res" where
  "trust_from_slice v input = Ok \<lparr>trust_packet_version = v\<rparr>"

definition trust_to_writer :: "trust \<Rightarrow> bytes res" where
  "trust_to_writer t = Ok []"

record mod_detection_code =
  mdc_packet_version :: version
  mdc_hash :: bytes

definition mdc_from_slice :: "version \<Rightarrow> bytes \<Rightarrow> mod_detection_code res" where
  "mdc_from_slice v input =
     (if length input = 20 then Ok \<lparr>mdc_packet_version = v, mdc_hash = input\<rparr>
      else Err (Message ''invalid input len''))"

definition mdc_to_writer :: "mod_detection_code \<Rightarrow> bytes res" where
  "mdc_to_writer m = Ok (mdc_hash m)"

section \<open>Encrypted data, padding, user id\<close>

record sym_encrypted_data =
  sed_packet_version :: version
  sed_data :: bytes

definition sed_from_slice :: "version \<Rightarrow> bytes \<Rightarrow> sym_encrypted_data res" where
  "sed_from_slice v input = Ok \<lparr>sed_packet_version = v, sed_data = input\<rparr>"

definition sed_to_writer :: "sym_encrypted_data \<Rightarrow> bytes res" where
  "sed_to_writer p = Ok (sed_data p)"

record padding =
  padding_packet_version :: version
  padding_data :: bytes

definition padding_from_slice :: "version \<Rightarrow> bytes \<Rightarrow> padding res" where
  "padding_from_slice v input = Ok \<lparr>padding_packet_version = v, padding_data = input\<rparr>"

definition padding_new :: "(nat \<Rightarrow> bytes) \<Rightarrow> version \<Rightarrow> nat \<Rightarrow> padding" where
  "padding_new rng v sz = \<lparr>padding_packet_version = v, padding_data = rng sz\<rparr>"

definition padding_to_writer :: "padding \<Rightarrow> bytes res" where
  "padding_to_writer p = Ok (padding_data p)"

record user_id =
  uid_packet_version :: version
  uid_id :: bytes

definition user_id_from_slice :: "version \<Rightarrow> bytes \<Rightarrow> user_id res" where
  "user_id_from_slice v input = Ok \<lparr>uid_packet_version = v, uid_id = input\<rparr>"

definition user_id_to_writer :: "user_id \<Rightarrow> bytes res" where
  "user_id_to_writer p = Ok (uid_id p)"

section \<open>One-pass signatures\<close>

record one_pass_signature =
  ops_packet_version :: version
  ops_version :: u8
  ops_typ :: signature_type
  ops_hash_algorithm :: hash_alg
  ops_pub_algorithm :: pk_alg
  ops_key_id :: key_id
  ops_last :: u8

definition ops_parse :: "wire \<Rightarrow> version \<Rightarrow> bytes \<Rightarrow> one_pass_signature parsed" where
  "ops_parse W v i =
     and_then (be_u8 W i) (\<lambda>(i, ver).
     and_then (pmap_res signature_type_try_from (be_u8 W i)) (\<lambda>(i, ty).
     and_then (pmap hash_alg_of_u8 (be_u8 W i)) (\<lambda>(i, ha).
     and_then (pmap pk_alg_of_u8 (be_u8 W i)) (\<lambda>(i, pa).
     and_then (pmap_res key_id_from_slice (take_bytes W 8 i)) (\<lambda>(i, k).
     and_then (be_u8 W i) (\<lambda>(i, lst).
       Ok (i, \<lparr>ops_packet_version = v, ops_version = ver, ops_typ = ty, ops_hash_algorithm = ha,
               ops_pub_algorithm = pa, ops_key_id = k, ops_last = lst\<rparr>)))))))"

definition ops_from_slice :: "wire \<Rightarrow> version \<Rightarrow> bytes \<Rightarrow> one_pass_signature res" where
  "ops_from_slice W v i = and_then (run_parser (ops_parse W v i)) (\<lambda>pk.
     if ops_version pk \<noteq> 2 \<and> ops_version pk \<noteq> 3 \<and> ops_version pk \<noteq> 4 \<and> ops_version pk \<noteq> 5
     then Err (Unsupported ''unsupported signature version {}'') else Ok pk)"

definition ops_from_details ::
  "signature_type \<Rightarrow> hash_alg \<Rightarrow> pk_alg \<Rightarrow> key_id \<Rightarrow> one_pass_signature" where
  "ops_from_details ty ha pa k =
     \<lparr>ops_packet_version = version_default, ops_version = 3, ops_typ = ty, ops_hash_algorithm = ha,
      ops_pub_algorithm = pa, ops_key_id = k, ops_last = 1\<rparr>"

definition ops_to_writer :: "one_pass_signature \<Rightarrow> bytes res" where
  "ops_to_writer p = Ok
     ([ops_version p, signature_type_to_u8 (ops_typ p), hash_alg_to_u8 (ops_hash_algorithm p),
       pk_alg_to_u8 (ops_pub_algorithm p)] @ ops_key_id p @ [ops_last p])"

definition ops_ok :: "one_pass_signature \<Rightarrow> bool" where
  "ops_ok p \<longleftrightarrow> ops_version p \<in> {2, 3, 4, 5} \<and> canonical_hash_alg (ops_hash_algorithm p)
     \<and> canonical_pk_alg (ops_pub_algorithm p) \<and> length (ops_key_id p) = 8"

section \<open>Literal data\<close>

datatype data_mode = Mode_Binary | Mode_Text | Mode_Utf8 | Mode_Mime | Mode_Other u8

fun data_mode_to_u8 :: "data_mode \<Rightarrow> u8" where
  "data_mode_to_u8 Mode_Binary = 98"
| "data_mode_to_u8 Mode_Text = 116"
| "data_mode_to_u8 Mode_Utf8 = 117"
| "data_mode_to_u8 Mode_Mime = 109"
| "data_mode_to_u8 (Mode_Other b) = b"

definition data_mode_of_u8 :: "u8 \<Rightarrow> data_mode" where
  "data_mode_of_u8 b =
     (if b = 98 then Mode_Binary else if b = 116 then Mode_Text else if b = 117 then Mode_Utf8
      else if b = 109 then Mode_Mime else Mode_Other b)"

record literal_data =
  lit_packet_version :: version
  lit_mode :: data_mode
  lit_file_name :: bytes
  lit_created :: int
  lit_data :: bytes

definition literal_from_str :: "int \<Rightarrow> bytes \<Rightarrow> bytes \<Rightarrow> literal_data" where
  "literal_from_str now file_name raw_data =
     \<lparr>lit_packet_version = New, lit_mode = Mode_Utf8, lit_file_name = file_name, lit_created = now,
      lit_data = normalize_lines Crlf raw_data\<rparr>"

definition literal_from_bytes :: "int \<Rightarrow> bytes \<Rightarrow> bytes \<Rightarrow> literal_data" where
  "literal_from_bytes now file_name data =
     \<lparr>lit_packet_version = New, lit_mode = Mode_Binary, lit_file_name = file_name, lit_created = now,
      lit_data = data\<rparr>"

definition literal_is_binary :: "literal_data \<Rightarrow> bool" where
  "literal_is_binary p \<longleftrightarrow> lit_mode p = Mode_Binary"

definition literal_to_string :: "literal_data \<Rightarrow> bytes option" where
  "literal_to_string p =
     (case lit_mode p of Mode_Binary \<Rightarrow> None
      | _ \<Rightarrow> if utf8_valid (lit_data p) then Some (lit_data p) else None)"

definition length_data8 :: "wire \<Rightarrow> bytes \<Rightarrow> bytes parsed" where
  "length_data8 W i = and_then (be_u8 W i) (\<lambda>(i, n). take_bytes W (unat n) i)"

definition literal_parse :: "wire \<Rightarrow> version \<Rightarrow> bytes \<Rightarrow> literal_data parsed" where
  "literal_parse W v i =
     and_then (pmap data_mode_of_u8 (be_u8 W i)) (\<lambda>(i, mode).
     and_then (length_data8 W i) (\<lambda>(i, name).
     and_then (pmap_opt (datetime_from_timestamp W) (be_u32 W i)) (\<lambda>(i, created).
     and_then (rest_bytes i) (\<lambda>(i, data).
       Ok (i, \<lparr>lit_packet_version = v, lit_mode = mode, lit_file_name = name,
               lit_created = created, lit_data = data\<rparr>)))))"

definition literal_from_slice :: "wire \<Rightarrow> version \<Rightarrow> bytes \<Rightarrow> literal_data res" where
  "literal_from_slice W v i = run_parser (literal_parse W v i)"

definition literal_to_writer :: "wire \<Rightarrow> literal_data \<Rightarrow> bytes res" where
  "literal_to_writer W p = Ok
     ([data_mode_to_u8 (lit_mode p), of_nat (length (lit_file_name p))] @ lit_file_name p
      @ write_u32 W (word_of_int (lit_created p)) @ lit_data p)"

definition literal_ok :: "literal_data \<Rightarrow> bool" where
  "literal_ok p \<longleftrightarrow> canonical data_mode_to_u8 data_mode_of_u8 (lit_mode p)
     \<and> length (lit_file_name p) < 256 \<and> in_u32 (lit_created p)"

section \<open>Compressed data\<close>

record compressed_data =
  cd_packet_version :: version
  cd_algorithm :: compression_alg
  cd_data :: bytes

datatype decompressor = Dec_Uncompressed bytes | Dec_Zip bytes | Dec_Zlib bytes | Dec_Bzip2

definition compressed_from_slice :: "version \<Rightarrow> bytes \<Rightarrow> compressed_data res" where
  "compressed_from_slice v input =
     (if length input > 1 then
        Ok \<lparr>cd_packet_version = v, cd_algorithm = compression_alg_of_u8 (hd input),
            cd_data = tl input\<rparr>
      else Err (Message ''input too short''))"

definition from_compressed :: "compression_alg \<Rightarrow> bytes \<Rightarrow> compressed_data" where
  "from_compressed a data =
     \<lparr>cd_packet_version = version_default, cd_algorithm = a, cd_data = data\<rparr>"

definition decompress :: "compressed_data \<Rightarrow> decompressor res" where
  "decompress p =
     (case cd_algorithm p of
        Comp_Uncompressed \<Rightarrow> Ok (Dec_Uncompressed (cd_data p))
      | Comp_ZIP \<Rightarrow> Ok (Dec_Zip (cd_data p))
      | Comp_ZLIB \<Rightarrow> Ok (Dec_Zlib (cd_data p))
      | Comp_BZip2 \<Rightarrow> Err (Unimplemented ''BZip2'')
      | _ \<Rightarrow> Err (Unsupported ''CompressionAlgorithm {} is unsupported''))"

definition compressed_to_writer :: "compressed_data \<Rightarrow> bytes res" where
  "compressed_to_writer p = Ok ([compression_alg_to_u8 (cd_algorithm p)] @ cd_data p)"

definition compressed_ok :: "compressed_data \<Rightarrow> bool" where
  "compressed_ok p \<longleftrightarrow> canonical_com_alg (cd_algorithm p) \<and> cd_data p \<noteq> []"

section \<open>User attributes\<close>

datatype user_attribute =
    Attr_Image version bytes bytes
  | Attr_Unknown version u8 bytes

fun attr_packet_version :: "user_attribute \<Rightarrow> version" where
  "attr_packet_version (Attr_Image v _ _) = v"
| "attr_packet_version (Attr_Unknown v _ _) = v"

fun attr_to_u8 :: "user_attribute \<Rightarrow> u8" where
  "attr_to_u8 (Attr_Image _ _ _) = 1"
| "attr_to_u8 (Attr_Unknown _ ty _) = ty"

fun attr_packet_len :: "user_attribute \<Rightarrow> nat" where
  "attr_packet_len (Attr_Image _ _ data) = 1 + 16 + length data"
| "attr_packet_len (Attr_Unknown _ _ data) = 1 + length data"

text \<open>\<open>length_data(map(le_u16, |l| l - 2))\<close>, which underflows below 2, then the rest.\<close>

definition attr_image :: "wire \<Rightarrow> version \<Rightarrow> bytes \<Rightarrow> user_attribute parsed" where
  "attr_image W v i =
     and_then (le_u16 W i) (\<lambda>(i, l).
     if l < 2 then Panic
     else and_then (take_bytes W (unat (l - 2)) i) (\<lambda>(i, header).
       and_then (rest_bytes i) (\<lambda>(i, img). Ok (i, Attr_Image v header img))))"

definition attr_parse :: "wire \<Rightarrow> version \<Rightarrow> bytes \<Rightarrow> user_attribute parsed" where
  "attr_parse W v i =
     and_then (packet_length W i) (\<lambda>(i, len).
     and_then (be_u8 W i) (\<lambda>(i, ty).
     if len = 0 then Panic
     else pmap_parser (\<lambda>i. if ty = 1 then attr_image W v i
         else pmap (Attr_Unknown v ty) (rest_bytes i)) (take_bytes W (len - 1) i)))"

definition attr_from_slice :: "wire \<Rightarrow> version \<Rightarrow> bytes \<Rightarrow> user_attribute res" where
  "attr_from_slice W v i = run_parser (attr_parse W v i)"

fun attr_body :: "wire \<Rightarrow> user_attribute \<Rightarrow> bytes" where
  "attr_body W (Attr_Image _ header data) =
     [0x01] @ write_u16_le W (of_nat (length header + 2)) @ header @ data"
| "attr_body W (Attr_Unknown _ ty data) = [ty] @ data"

definition attr_to_writer :: "wire \<Rightarrow> user_attribute \<Rightarrow> bytes res" where
  "attr_to_writer W a = Ok (write_packet_length W (attr_packet_len a) @ attr_body W a)"

fun attr_ok :: "user_attribute \<Rightarrow> bool" where
  "attr_ok (Attr_Image _ header data) \<longleftrightarrow> length header = 14 \<and> 17 + length data < 2 ^ 32"
| "attr_ok (Attr_Unknown _ ty data) \<longleftrightarrow> ty \<noteq> 1 \<and> 1 + length data < 2 ^ 32"

section \<open>Every packet type meets the contract\<close>

interpretation marker: packet_codec marker_from_slice marker_to_writer marker_packet_version "\<lambda>_. True"
  by unfold_locales (simp add: marker_from_slice_def marker_to_writer_def)

interpretation trust: packet_codec trust_from_slice trust_to_writer trust_packet_version "\<lambda>_. True"
  by unfold_locales (simp add: trust_from_slice_def trust_to_writer_def)

interpretation mdc: packet_codec mdc_from_slice mdc_to_writer mdc_packet_version
  "\<lambda>p. length (mdc_hash p) = 20"
  by unfold_locales (simp add: mdc_from_slice_def mdc_to_writer_def)

interpretation sed: packet_codec sed_from_slice sed_to_writer sed_packet_version "\<lambda>_. True"
  by unfold_locales (simp add: sed_from_slice_def sed_to_writer_def)

interpretation padding: packet_codec padding_from_slice padding_to_writer padding_packet_version "\<lambda>_. True"
  by unfold_locales (simp add: padding_from_slice_def padding_to_writer_def)

interpretation uid: packet_codec user_id_from_slice user_id_to_writer uid_packet_version "\<lambda>_. True"
  by unfold_locales (simp add: user_id_from_slice_def user_id_to_writer_def)

interpretation compressed: packet_codec compressed_from_slice compressed_to_writer cd_packet_version
  compressed_ok
  by unfold_locales
    (simp add: compressed_from_slice_def compressed_to_writer_def compressed_ok_def canonical_def)

context wire_laws
begin

lemma length_data8_write [simp]:
  "length b < 256 \<Longrightarrow> length_data8 W (of_nat (length b) # b @ r) = Ok (r, b)"
  by (simp add: length_data8_def)

lemma ops_roundtrip:
  assumes "ops_ok p"
  shows "\<exists>b. ops_to_writer p = Ok b \<and> ops_from_slice W (ops_packet_version p) b = Ok p"
proof -
  have "ops_parse W (ops_packet_version p) ([ops_version p, signature_type_to_u8 (ops_typ p),
      hash_alg_to_u8 (ops_hash_algorithm p), pk_alg_to_u8 (ops_pub_algorithm p)] @ ops_key_id p
      @ [ops_last p]) = Ok ([], p)"
    using assms by (simp add: ops_parse_def ops_ok_def canonical_def del: and_then_eq_Ok)
  with assms show ?thesis by (auto simp: ops_to_writer_def ops_from_slice_def ops_ok_def)
qed

lemma literal_roundtrip:
  assumes "literal_ok p"
  shows "\<exists>b. literal_to_writer W p = Ok b \<and> literal_from_slice W (lit_packet_version p) b = Ok p"
  using assms
  by (simp add: literal_to_writer_def literal_from_slice_def literal_parse_def literal_ok_def
      canonical_def rest_bytes_def)

lemma attr_roundtrip:
  assumes "attr_ok a"
  shows "\<exists>b. attr_to_writer W a = Ok b \<and> attr_from_slice W (attr_packet_version a) b = Ok a"
proof (cases a)
  case (Attr_Image v header data)
  with assms have "1 + 16 + length data < 2 ^ 32" by simp
  from packet_length_write_packet_length [OF this] Attr_Image assms show ?thesis
    by (simp add: attr_to_writer_def attr_from_slice_def attr_parse_def pmap_parser_def
        attr_image_def rest_bytes_def)
next
  case (Attr_Unknown v ty data)
  with assms have "1 + length data < 2 ^ 32" by simp
  from packet_length_write_packet_length [OF this] Attr_Unknown assms show ?thesis
    by (simp add: attr_to_writer_def attr_from_slice_def attr_parse_def pmap_parser_def
        rest_bytes_def)
qed

end

sublocale wire_laws \<subseteq> ops: packet_codec "ops_from_slice W" ops_to_writer ops_packet_version ops_ok
  by unfold_locales (rule ops_roundtrip)

sublocale wire_laws \<subseteq> literal: packet_codec "literal_from_slice W" "literal_to_writer W"
  lit_packet_version literal_ok
  by unfold_locales (rule literal_roundtrip)

sublocale wire_laws \<subseteq> attr: packet_codec "attr_from_slice W" "attr_to_writer W"
  attr_packet_version attr_ok
  by unfold_locales (rule attr_roundtrip)

sublocale wire_laws \<subseteq> sig: packet_codec "signature_from_slice W" "signature_to_writer W"
  sig_packet_version "sig_ok W"
proof
  fix s assume "sig_ok W s"
  then obtain out where "signature_to_writer W s = Ok out"
    "signature_parse W (sig_packet_version s) (out @ []) = Ok ([], s)"
    using roundtrip_induct(1) [of s] by blast
  then show "\<exists>b. signature_to_writer W s = Ok b
      \<and> signature_from_slice W (sig_packet_version s) b = Ok s"
    by (simp add: signature_from_slice_def)
qed

section \<open>Properties\<close>

context wire_laws
begin

lemma literal_parse_name:
  "literal_parse W v i = Ok (r, q) \<Longrightarrow> length (lit_file_name q) < 256"
proof -
  assume "literal_parse W v i = Ok (r, q)"
  then obtain i' j n where "length_data8 W i' = Ok (j, n)" "lit_file_name q = n"
    by (auto simp: literal_parse_def)
  then show ?thesis
    by (auto simp: length_data8_def take_Ok be_u8_Ok intro: le_less_trans [OF min.cobounded2])
qed

lemma literal_roundtrip_exact:
  assumes "canonical data_mode_to_u8 data_mode_of_u8 (lit_mode p)" "in_u32 (lit_created p)"
  shows "and_then (literal_to_writer W p) (literal_from_slice W (lit_packet_version p)) = Ok p
    \<longleftrightarrow> length (lit_file_name p) < 256"
proof
  assume "and_then (literal_to_writer W p) (literal_from_slice W (lit_packet_version p)) = Ok p"
  then show "length (lit_file_name p) < 256"
    using literal_parse_name by (auto simp: literal_from_slice_def)
next
  assume "length (lit_file_name p) < 256"
  with assms show "and_then (literal_to_writer W p) (literal_from_slice W (lit_packet_version p)) = Ok p"
    by (intro literal.write_read) (simp add: literal_ok_def)
qed

lemma attr_len_exact:
  "attr_packet_len a = length (attr_body W a) \<longleftrightarrow>
     (case a of Attr_Image _ header _ \<Rightarrow> length header = 14 | Attr_Unknown _ _ _ \<Rightarrow> True)"
  by (cases a) auto

lemma attr_zero_length_panics: "attr_from_slice W v (0 # ty # r) = Panic"
  by (simp add: attr_from_slice_def attr_parse_def packet_length_def)

lemma attr_image_short_header_panics:
  assumes "l < 2" "3 + length img < 192"
  shows "attr_from_slice W v (of_nat (3 + length img) # 1 # le16 l @ img) = Panic"
proof -
  have "unat (of_nat (3 + length img) :: u8) = 3 + length img"
    using assms(2) by (intro unat_of_nat_small) simp
  moreover have "(of_nat (3 + length img) :: u8) \<le> 191"
    using assms(2) calculation by (simp add: word_le_nat_alt del: of_nat_add of_nat_Suc)
  moreover have "take_bytes W (2 + length img) (le16 l @ img) = Ok ([], le16 l @ img)" by simp
  ultimately show ?thesis
    using assms(1)
    by (simp add: attr_from_slice_def attr_parse_def packet_length_def pmap_parser_def
        attr_image_def del: of_nat_add take_enough)
qed

end

text \<open>
  C31. Literal data packets round-trip exactly when the file name has fewer than 256 bytes: the
  writer puts \<open>name.len() as u8\<close> in front of the name, so a longer name is written with a truncated
  length and the packet is read back as a different one.
\<close>

theorem literal_roundtrip_iff:
  assumes "wire_laws W" and "canonical data_mode_to_u8 data_mode_of_u8 (lit_mode p)"
    and "in_u32 (lit_created p)"
  shows "and_then (literal_to_writer W p) (literal_from_slice W (lit_packet_version p)) = Ok p
    \<longleftrightarrow> length (lit_file_name p) < 256"
  using assms by (rule wire_laws.literal_roundtrip_exact)

theorem literal_roundtrip_iff_witness:
  "and_then (literal_to_writer std_wire (literal_from_str 7 [0x61] [lf]))
     (literal_from_slice std_wire New) = Ok (literal_from_str 7 [0x61] [lf])
   \<and> and_then (literal_to_writer std_wire (literal_from_bytes 7 (replicate 256 0x61) []))
     (literal_from_slice std_wire New) \<noteq> Ok (literal_from_bytes 7 (replicate 256 0x61) [])"
  using literal_roundtrip_iff [OF std.wire_laws_axioms, of "literal_from_str 7 [0x61] [lf]"]
    literal_roundtrip_iff [OF std.wire_laws_axioms, of "literal_from_bytes 7 (replicate 256 0x61) []"]
  by (simp add: literal_from_str_def literal_from_bytes_def canonical_def data_mode_of_u8_def
      in_u32_def)

text \<open>
  The length announced for a user attribute is the written one except for images whose header
  does not have the 14 bytes that \<open>packet_len\<close> takes for granted.
\<close>

theorem attr_len_exact_iff:
  assumes "wire_laws W"
  shows "attr_packet_len a = length (attr_body W a) \<longleftrightarrow>
     (case a of Attr_Image _ header _ \<Rightarrow> length header = 14 | Attr_Unknown _ _ _ \<Rightarrow> True)"
  using assms by (rule wire_laws.attr_len_exact)

theorem attr_len_exact_iff_witness:
  "attr_packet_len (Attr_Image New [1, 1] [9]) \<noteq> length (attr_body std_wire (Attr_Image New [1, 1] [9]))
   \<and> attr_from_slice std_wire New [6, 1, 4, 0, 1, 1, 9] = Ok (Attr_Image New [1, 1] [9])"
  using attr_len_exact_iff [OF std.wire_laws_axioms, of "Attr_Image New [1, 1] [9]"]
  by (simp add: attr_from_slice_def attr_parse_def packet_length_def pmap_parser_def attr_image_def
      std_wire_def std_take_def rest_bytes_def of_be16_def)

text \<open>
  Two malformed user attribute packets panic: an attribute of length 0, and an image whose
  header length field, which counts its own two bytes, is below 2.
\<close>

theorem attr_malformed_panics:
  assumes "wire_laws W" and "l < 2" and "3 + length img < 192"
  shows "attr_from_slice W v (0 # ty # r) = Panic
    \<and> attr_from_slice W v (of_nat (3 + length img) # 1 # le16 l @ img) = Panic"
  using wire_laws.attr_zero_length_panics [OF assms(1)]
    wire_laws.attr_image_short_header_panics [OF assms] by blast

theorem attr_malformed_panics_witness:
  "attr_from_slice std_wire New [0, 5] = Panic \<and> attr_from_slice std_wire New [4, 1, 1, 0, 7] = Panic"
  using attr_malformed_panics [OF std.wire_laws_axioms, of 1 "[7]" New 5 "[]"]
  by (simp add: le16_def)

end
