(* ===== verification/Pgp_S2k.thy ===== *)
theory Pgp_S2k
  imports Pgp_Algorithms
begin

text \<open>
  \<open>src/src/types/s2k.rs\<close>: string-to-key specifiers, their wire format and the derivation of a
  key from a passphrase. The derivation is proved equal to its description: the key is the
  prefix of the digests of the repeated \<open>salt @ passphrase\<close>, each preceded by one more zero
  byte. The number of rounds is computed in single precision, as in the source: it is exact for
  key sizes below \<open>2^24\<close>, which all keys of the library have, and wrong for some larger ones.
\<close>

section \<open>Specifiers\<close>

datatype s2k_usage =
    Usage_Unprotected
  | Usage_LegacyCfb sym_alg
  | Usage_Aead
  | Usage_Cfb
  | Usage_MalleableCfb

datatype string_to_key =
    Simple hash_alg
  | Salted hash_alg bytes
  | Reserved bytes
  | IteratedAndSalted hash_alg bytes u8
  | Argon2 bytes u8 u8 u8
  | Private u8 bytes
  | Other u8 bytes

datatype s2k_params =
    Params_Unprotected
  | Params_LegacyCfb sym_alg bytes
  | Params_Aead sym_alg aead_alg string_to_key bytes
  | Params_Cfb sym_alg string_to_key bytes
  | Params_MaleableCfb sym_alg string_to_key bytes

fun s2k_params_to_u8 :: "s2k_params \<Rightarrow> u8" where
  "s2k_params_to_u8 Params_Unprotected = 0"
| "s2k_params_to_u8 (Params_LegacyCfb a _) = sym_alg_to_u8 a"
| "s2k_params_to_u8 (Params_Aead _ _ _ _) = 253"
| "s2k_params_to_u8 (Params_Cfb _ _ _) = 254"
| "s2k_params_to_u8 (Params_MaleableCfb _ _ _) = 255"

definition s2k_usage_of_u8 :: "u8 \<Rightarrow> s2k_usage" where
  "s2k_usage_of_u8 v =
     (if v = 0 then Usage_Unprotected
      else if 1 \<le> v \<and> v \<le> 252 then Usage_LegacyCfb (sym_alg_of_u8 v)
      else if v = 253 then Usage_Aead
      else if v = 254 then Usage_Cfb
      else Usage_MalleableCfb)"

text \<open>The constructors that draw randomness take the random bytes as an argument.\<close>

definition DEFAULT_ITER_SALTED_COUNT :: u8 where
  "DEFAULT_ITER_SALTED_COUNT = 224"

definition s2k_new_iterated :: "(nat \<Rightarrow> bytes) \<Rightarrow> hash_alg \<Rightarrow> u8 \<Rightarrow> string_to_key" where
  "s2k_new_iterated rng a count = IteratedAndSalted a (rng 8) count"

definition s2k_new_default :: "(nat \<Rightarrow> bytes) \<Rightarrow> string_to_key" where
  "s2k_new_default rng = s2k_new_iterated rng hash_alg_default DEFAULT_ITER_SALTED_COUNT"

definition s2k_new_argon2 :: "(nat \<Rightarrow> bytes) \<Rightarrow> u8 \<Rightarrow> u8 \<Rightarrow> u8 \<Rightarrow> string_to_key" where
  "s2k_new_argon2 rng t p m_enc = Argon2 (rng 16) t p m_enc"

definition s2k_params_new_default :: "(nat \<Rightarrow> bytes) \<Rightarrow> s2k_params" where
  "s2k_params_new_default rng =
     Params_Cfb Sym_AES256 (s2k_new_default rng) (rng (block_size Sym_AES256))"

fun s2k_id :: "string_to_key \<Rightarrow> u8" where
  "s2k_id (Simple _) = 0"
| "s2k_id (Salted _ _) = 1"
| "s2k_id (Reserved _) = 2"
| "s2k_id (IteratedAndSalted _ _ _) = 3"
| "s2k_id (Argon2 _ _ _ _) = 4"
| "s2k_id (Private typ _) = typ"
| "s2k_id (Other typ _) = typ"

fun uses_salt :: "string_to_key \<Rightarrow> bool" where
  "uses_salt (Salted _ _) = True"
| "uses_salt (IteratedAndSalted _ _ _) = True"
| "uses_salt (Argon2 _ _ _ _) = True"
| "uses_salt _ = False"

section \<open>Key derivation\<close>

definition EXPBIAS :: nat where
  "EXPBIAS = 6"

definition decode_count :: "u8 \<Rightarrow> nat" where
  "decode_count c = unat (push_bit (unat (drop_bit 4 c) + EXPBIAS) (16 + ucast (c AND 15)) :: u32)"

text \<open>\<open>while count > data_size { update(salt); update(pw); count -= data_size }\<close>, then the rest.
  The salt has 8 bytes, so \<open>data_size\<close> is never 0.\<close>

function iterate_salted :: "hasher \<Rightarrow> bytes \<Rightarrow> bytes \<Rightarrow> nat \<Rightarrow> hasher" where
  "iterate_salted h salt pw count =
     (let data_size = length salt + length pw in
      if data_size < count \<and> 0 < data_size then
        iterate_salted (hasher_update (hasher_update h salt) pw) salt pw (count - data_size)
      else if count < length salt then hasher_update h (take count salt)
      else hasher_update (hasher_update h salt) (take (count - length salt) pw))"
  by pat_completeness auto
termination
  by (relation "measure (\<lambda>(h, salt, pw, count). count)") auto

declare iterate_salted.simps [simp del]

definition hash_round :: "string_to_key \<Rightarrow> hasher \<Rightarrow> bytes \<Rightarrow> hasher res" where
  "hash_round s h pw =
     (case s of
        Simple _ \<Rightarrow> Ok (hasher_update h pw)
      | Salted _ salt \<Rightarrow> Ok (hasher_update (hasher_update h salt) pw)
      | IteratedAndSalted _ salt c \<Rightarrow>
          (let data_size = length salt + length pw; count = decode_count c;
               count = (if count < data_size then data_size else count)
           in Ok (iterate_salted h salt pw count))
      | _ \<Rightarrow> Err (Unimplemented ''S2K {:?} is not available''))"

text \<open>
  The loop over the rounds; \<open>key\<close> is the part of the key written so far. The last round writes
  the remaining bytes, the others a whole digest.
\<close>

fun derive_rounds ::
  "hash_lib \<Rightarrow> string_to_key \<Rightarrow> hash_alg \<Rightarrow> bytes \<Rightarrow> nat \<Rightarrow> nat \<Rightarrow> nat list \<Rightarrow> bytes \<Rightarrow> bytes res" where
  "derive_rounds H s a pw ks rounds [] key = Ok key"
| "derive_rounds H s a pw ks rounds (round # rs) key =
     and_then (new_hasher a) (\<lambda>h.
     and_then (hash_round s (hasher_update h (replicate round 0)) pw) (\<lambda>h.
     let start = round * digest_size H a;
         stop = (if round = rounds - 1 then ks else (round + 1) * digest_size H a) in
     if stop < start \<or> ks < stop then Panic else
     and_then (hasher_finish_into H h (stop - start)) (\<lambda>out.
     derive_rounds H s a pw ks rounds rs (key @ out))))"

text \<open>
  Single-precision arithmetic on the numbers the source uses it for, without subnormals and overflow, which
  numbers of 64 bits do not reach. A float has 24 significant bits; an integer is rounded to it, and so is
  a quotient, both to the nearest value and a tie to the even one.
\<close>

fun bit_length :: "nat \<Rightarrow> nat" where
  "bit_length n = (if n = 0 then 0 else Suc (bit_length (n div 2)))"

declare bit_length.simps [simp del]

definition round_half_even :: "nat \<Rightarrow> nat \<Rightarrow> nat" where
  "round_half_even a b =
     (let q = a div b; r = a mod b in if 2 * r < b \<or> 2 * r = b \<and> even q then q else Suc q)"

definition f32_of_nat :: "nat \<Rightarrow> nat" where
  "f32_of_nat n = (let s = bit_length n - 24 in round_half_even n (2 ^ s) * 2 ^ s)"

text \<open>
  The quotient is \<open>m * 2^s / 2^k\<close> with 24 bits in \<open>m\<close>: \<open>k\<close> bits behind the point when it is small, \<open>s\<close> bits
  lost in front of it when it is large.
\<close>

definition f32_scale :: "nat \<Rightarrow> nat \<Rightarrow> nat" where
  "f32_scale a b =
     (let j = 24 + bit_length b - bit_length a in if a * 2 ^ j < b * 2 ^ 24 then j else j - 1)"

definition f32_div_ceil :: "nat \<Rightarrow> nat \<Rightarrow> nat" where
  "f32_div_ceil a b =
     (let k = f32_scale a b; s = bit_length (a div b) - 24; m = round_half_even (a * 2 ^ k) (b * 2 ^ s)
      in (m * 2 ^ s + 2 ^ k - 1) div 2 ^ k)"

text \<open>
  \<open>(key_size as f32 / digest_size as f32).ceil() as usize\<close>: a division by zero is infinite and
  saturates to \<open>usize::MAX\<close> (\<open>None\<close> here), and \<open>0.0 / 0.0\<close> is not a number and casts to 0.
\<close>

definition ceil_div :: "nat \<Rightarrow> nat \<Rightarrow> nat option" where
  "ceil_div a b =
     (if b = 0 then (if a = 0 then Some 0 else None)
      else if a = 0 then Some 0
      else Some (f32_div_ceil (f32_of_nat a) (f32_of_nat b)))"

text \<open>\<open>vec![0u8; usize::MAX]\<close> panics with a capacity overflow, before the hasher is created.\<close>

definition derive_hashed ::
  "hash_lib \<Rightarrow> string_to_key \<Rightarrow> hash_alg \<Rightarrow> bytes \<Rightarrow> nat \<Rightarrow> bytes res" where
  "derive_hashed H s a pw ks =
     (case ceil_div ks (digest_size H a) of
        None \<Rightarrow> Panic
      | Some rounds \<Rightarrow> derive_rounds H s a pw ks rounds [0..<rounds] [])"

text \<open>\<open>(p as f32).log2().ceil() as u8\<close> for a byte \<open>p\<close>; the logarithm of 0 saturates to 0.\<close>

definition ceil_log2 :: "nat \<Rightarrow> nat" where
  "ceil_log2 p = length (takeWhile (\<lambda>k. 2 ^ k < p) [0, 1, 2, 3, 4, 5, 6, 7])"

text \<open>
  The \<open>argon2\<close> crate is the argument \<open>argon2\<close>: memory, passes, lanes, output length, passphrase
  and salt to the derived bytes or an error.
\<close>

definition derive_key ::
  "hash_lib \<Rightarrow> (nat \<Rightarrow> nat \<Rightarrow> nat \<Rightarrow> nat \<Rightarrow> bytes \<Rightarrow> bytes \<Rightarrow> bytes option)
   \<Rightarrow> string_to_key \<Rightarrow> bytes \<Rightarrow> nat \<Rightarrow> bytes res" where
  "derive_key H argon2 s pw ks =
     (case s of
        Simple a \<Rightarrow> derive_hashed H s a pw ks
      | Salted a _ \<Rightarrow> derive_hashed H s a pw ks
      | IteratedAndSalted a _ _ \<Rightarrow> derive_hashed H s a pw ks
      | Argon2 salt t p m_enc \<Rightarrow>
          if ceil_log2 (unat p) \<le> unat m_enc \<and> m_enc \<le> 31 then
            (case argon2 (2 ^ unat m_enc) (unat t) (unat p) ks pw salt of
               None \<Rightarrow> Err (Message ''{:?}'') | Some out \<Rightarrow> Ok out)
          else Err (Message ''unsupported value {} for m in argon s2k'')
      | _ \<Rightarrow> Err (Unimplemented ''S2K {:?} is not available''))"

section \<open>Wire format\<close>

definition s2k_parser :: "wire \<Rightarrow> bytes \<Rightarrow> string_to_key parsed" where
  "s2k_parser W i = and_then (be_u8 W i) (\<lambda>(i, typ).
     if typ = 0 then
       and_then (be_u8 W i) (\<lambda>(i, h). Ok (i, Simple (hash_alg_of_u8 h)))
     else if typ = 1 then
       and_then (be_u8 W i) (\<lambda>(i, h).
       and_then (take_bytes W 8 i) (\<lambda>(i, salt). Ok (i, Salted (hash_alg_of_u8 h) salt)))
     else if typ = 2 then
       and_then (rest_bytes i) (\<lambda>(i, unknown). Ok (i, Reserved unknown))
     else if typ = 3 then
       and_then (be_u8 W i) (\<lambda>(i, h).
       and_then (take_bytes W 8 i) (\<lambda>(i, salt).
       and_then (be_u8 W i) (\<lambda>(i, count).
       Ok (i, IteratedAndSalted (hash_alg_of_u8 h) salt count))))
     else if typ = 4 then
       and_then (take_bytes W 16 i) (\<lambda>(i, salt).
       and_then (be_u8 W i) (\<lambda>(i, t).
       and_then (be_u8 W i) (\<lambda>(i, p).
       and_then (be_u8 W i) (\<lambda>(i, m_enc). Ok (i, Argon2 salt t p m_enc)))))
     else if 100 \<le> typ \<and> typ \<le> 110 then
       and_then (rest_bytes i) (\<lambda>(i, unknown). Ok (i, Private typ unknown))
     else
       and_then (rest_bytes i) (\<lambda>(i, unknown). Ok (i, Other typ unknown)))"

fun s2k_to_writer :: "string_to_key \<Rightarrow> bytes" where
  "s2k_to_writer (Simple a) = [0, hash_alg_to_u8 a]"
| "s2k_to_writer (Salted a salt) = [1, hash_alg_to_u8 a] @ salt"
| "s2k_to_writer (IteratedAndSalted a salt count) = [3, hash_alg_to_u8 a] @ salt @ [count]"
| "s2k_to_writer (Argon2 salt t p m_enc) = [4] @ salt @ [t, p, m_enc]"
| "s2k_to_writer (Reserved unknown) = [2] @ unknown"
| "s2k_to_writer (Private typ unknown) = [typ] @ unknown"
| "s2k_to_writer (Other typ unknown) = [typ] @ unknown"

text \<open>The values the Rust types and the parser can produce.\<close>

fun s2k_ok :: "string_to_key \<Rightarrow> bool" where
  "s2k_ok (Simple a) = canonical hash_alg_to_u8 hash_alg_of_u8 a"
| "s2k_ok (Salted a salt) = (canonical hash_alg_to_u8 hash_alg_of_u8 a \<and> length salt = 8)"
| "s2k_ok (Reserved _) = True"
| "s2k_ok (IteratedAndSalted a salt _) =
     (canonical hash_alg_to_u8 hash_alg_of_u8 a \<and> length salt = 8)"
| "s2k_ok (Argon2 salt _ _ _) = (length salt = 16)"
| "s2k_ok (Private typ _) = (100 \<le> typ \<and> typ \<le> 110)"
| "s2k_ok (Other typ _) = (4 < typ \<and> \<not> (100 \<le> typ \<and> typ \<le> 110))"

text \<open>Specifiers with a known layout end by themselves; the others take the rest of the input.\<close>

fun s2k_delimited :: "string_to_key \<Rightarrow> bool" where
  "s2k_delimited (Reserved _) = False"
| "s2k_delimited (Private _ _) = False"
| "s2k_delimited (Other _ _) = False"
| "s2k_delimited _ = True"

section \<open>The octets hashed\<close>

text \<open>
  The specification: \<open>count\<close> octets of the endless repetition of \<open>xs\<close>.
\<close>

definition repeat_octets :: "nat \<Rightarrow> bytes \<Rightarrow> bytes" where
  "repeat_octets count xs = map (\<lambda>i. xs ! (i mod length xs)) [0..<count]"

lemma repeat_octets_short: "count \<le> length xs \<Longrightarrow> repeat_octets count xs = take count xs"
  by (rule nth_equalityI) (auto simp: repeat_octets_def)

lemma repeat_octets_step:
  assumes "length xs \<le> count" "xs \<noteq> []"
  shows "repeat_octets count xs = xs @ repeat_octets (count - length xs) xs"
proof (rule nth_equalityI)
  fix i assume "i < length (repeat_octets count xs)"
  then have i: "i < count" by (simp add: repeat_octets_def)
  show "repeat_octets count xs ! i = (xs @ repeat_octets (count - length xs) xs) ! i"
  proof (cases "i < length xs")
    case True
    with i show ?thesis by (simp add: repeat_octets_def nth_append)
  next
    case False
    with i have "i - length xs < count - length xs" "i mod length xs = (i - length xs) mod length xs"
      by (auto simp: le_mod_geq)
    with False i show ?thesis by (simp add: repeat_octets_def nth_append)
  qed
qed (use assms in \<open>simp add: repeat_octets_def\<close>)

lemma hasher_update_data [simp]:
  "hasher_data (hasher_update h d) = hasher_data h @ d" "hasher_alg (hasher_update h d) = hasher_alg h"
  by (simp_all add: hasher_update_def)

lemma iterate_salted_octets:
  assumes "salt @ pw \<noteq> []"
  shows "hasher_data (iterate_salted h salt pw count) = hasher_data h @ repeat_octets count (salt @ pw)
    \<and> hasher_alg (iterate_salted h salt pw count) = hasher_alg h"
  using assms
proof (induction h salt pw count rule: iterate_salted.induct)
  case (1 h salt pw count)
  let ?n = "length salt + length pw"
  have pos: "0 < ?n" using "1.prems" by auto
  show ?case
  proof (cases "?n < count")
    case True
    with pos have "iterate_salted h salt pw count =
        iterate_salted (hasher_update (hasher_update h salt) pw) salt pw (count - ?n)"
      by (subst iterate_salted.simps) (simp add: Let_def)
    with 1 True pos repeat_octets_step [of "salt @ pw" count] show ?thesis
      by (simp add: Let_def)
  next
    case False
    then have "iterate_salted h salt pw count =
        (if count < length salt then hasher_update h (take count salt)
         else hasher_update (hasher_update h salt) (take (count - length salt) pw))"
      by (subst iterate_salted.simps) (simp add: Let_def)
    with False repeat_octets_short [of count "salt @ pw"] show ?thesis
      by (simp add: not_less)
  qed
qed

fun s2k_octets :: "string_to_key \<Rightarrow> bytes \<Rightarrow> bytes" where
  "s2k_octets (Simple _) pw = pw"
| "s2k_octets (Salted _ salt) pw = salt @ pw"
| "s2k_octets (IteratedAndSalted _ salt c) pw =
     repeat_octets (max (decode_count c) (length (salt @ pw))) (salt @ pw)"
| "s2k_octets _ pw = []"

fun s2k_hash :: "string_to_key \<Rightarrow> hash_alg option" where
  "s2k_hash (Simple a) = Some a"
| "s2k_hash (Salted a _) = Some a"
| "s2k_hash (IteratedAndSalted a _ _) = Some a"
| "s2k_hash _ = None"

lemma hash_round_octets:
  assumes "s2k_hash s = Some a" "s2k_ok s"
  shows "\<exists>h'. hash_round s h pw = Ok h' \<and> hasher_data h' = hasher_data h @ s2k_octets s pw
    \<and> hasher_alg h' = hasher_alg h"
proof (cases s)
  case (IteratedAndSalted b salt c)
  with assms have "salt @ pw \<noteq> []" by auto
  from iterate_salted_octets [OF this] show ?thesis
    using IteratedAndSalted by (auto simp: hash_round_def Let_def max_def)
qed (use assms in \<open>auto simp: hash_round_def\<close>)

section \<open>The number of rounds\<close>

lemma bit_length_bounds: "n < 2 ^ bit_length n \<and> (0 < n \<longrightarrow> 2 ^ (bit_length n - 1) \<le> n)"
proof (induction n rule: bit_length.induct)
  case (1 n)
  show ?case
  proof (cases "n = 0")
    case False
    with 1 have h: "n div 2 < 2 ^ bit_length (n div 2)" "0 < n div 2 \<longrightarrow> 2 ^ (bit_length (n div 2) - 1) \<le> n div 2" by auto
    have e: "bit_length n = Suc (bit_length (n div 2))" using False by (subst bit_length.simps) simp
    show ?thesis
    proof (cases "n div 2 = 0")
      case True
      then have "n = 1" using False by simp
      then show ?thesis by (simp add: bit_length.simps)
    next
      case False
      then have "bit_length (n div 2) \<noteq> 0" by (subst bit_length.simps) simp
      then obtain l where l: "bit_length (n div 2) = Suc l" using not0_implies_Suc by blast
      then show ?thesis using h e False by (auto simp: mult.commute)
    qed
  qed (simp add: bit_length.simps)
qed

lemma bit_length_le: "n < 2 ^ k \<Longrightarrow> bit_length n \<le> k"
proof (rule ccontr)
  assume "n < 2 ^ k" "\<not> bit_length n \<le> k"
  then have "0 < n" by (cases "n = 0") (auto simp: bit_length.simps)
  with bit_length_bounds [of n] have "2 ^ (bit_length n - 1) \<le> n" by simp
  moreover have "(2::nat) ^ k \<le> 2 ^ (bit_length n - 1)" using \<open>\<not> bit_length n \<le> k\<close> by (intro power_increasing) auto
  ultimately show False using \<open>n < 2 ^ k\<close> by linarith
qed

lemma f32_of_nat_exact: "n < 2 ^ 24 \<Longrightarrow> f32_of_nat n = n"
  using bit_length_le [of n 24] by (simp add: f32_of_nat_def round_half_even_def)

lemma f32_scale_min:
  assumes "0 < a" "a < 2 ^ 24" "0 < b"
  shows "b * 2 ^ 23 \<le> a * 2 ^ f32_scale a b"
proof -
  let ?la = "bit_length a" and ?lb = "bit_length b"
  let ?j = "24 + ?lb - ?la"
  have la: "?la \<le> 24" by (rule bit_length_le [OF assms(2)])
  have a: "2 ^ (?la - 1) \<le> a" and b: "b < 2 ^ ?lb" using bit_length_bounds assms by auto
  have pos: "0 < ?la" "0 < ?lb" using assms by (simp_all add: bit_length.simps)
  have "b * 2 ^ 23 \<le> 2 ^ ?lb * 2 ^ 23" using b by simp
  also have "\<dots> = 2 ^ (?la - 1 + ?j)" unfolding power_add [symmetric] using la pos by (intro arg_cong [of _ _ "\<lambda>n. 2 ^ n"]) auto
  also have "\<dots> = 2 ^ (?la - 1) * 2 ^ ?j" by (rule power_add)
  also have "\<dots> \<le> a * 2 ^ ?j" using a by simp
  finally have j: "b * 2 ^ 23 \<le> a * 2 ^ ?j" .
  obtain i where i: "?j = Suc i" using la pos by (cases ?j) auto
  show ?thesis using j i by (auto simp: f32_scale_def Let_def)
qed

lemma ceil_mult: "0 < b \<Longrightarrow> (q * b + b - 1) div b = (q :: nat)"
proof -
  assume b: "0 < b"
  then have "q * b + b - 1 = q * b + (b - 1)" by simp
  with b show ?thesis by (simp del: add_diff_assoc)
qed

lemma ceil_between: "q * d < m \<Longrightarrow> m \<le> Suc q * d \<Longrightarrow> (m + d - 1) div d = Suc (q :: nat)"
proof -
  assume m: "q * d < m" "m \<le> Suc q * d"
  then have "m + d - 1 = Suc q * d + (m - 1 - q * d)" "m - 1 - q * d < d" by auto
  then show ?thesis by (metis add.right_neutral div_less div_mult_self3 gr_implies_not0)
qed

text \<open>Below \<open>2^24\<close> a quotient that is not an integer stays strictly between its neighbours, or becomes the upper one.\<close>

lemma f32_div_ceil_exact:
  assumes "0 < a" "a < 2 ^ 24" "0 < b"
  shows "f32_div_ceil a b = (a + b - 1) div b"
proof -
  define k q r where "k = f32_scale a b" and "q = a div b" and "r = a mod b"
  have ab: "a = q * b + r" "r < b" using assms(3) by (simp_all add: q_def r_def)
  have "a div b < 2 ^ 24" using assms(2) div_le_dividend [of a b] by linarith
  then have s: "bit_length (a div b) - 24 = 0" using bit_length_le by simp
  define m where "m = round_half_even (a * 2 ^ k) b"
  have f: "f32_div_ceil a b = (m + 2 ^ k - 1) div 2 ^ k"
    using s by (simp add: f32_div_ceil_def Let_def m_def flip: k_def)
  have X: "a * 2 ^ k = q * 2 ^ k * b + r * 2 ^ k" using ab(1) by (simp add: algebra_simps)
  have d: "a * 2 ^ k div b = q * 2 ^ k + r * 2 ^ k div b" "a * 2 ^ k mod b = r * 2 ^ k mod b"
    using assms(3) unfolding X by simp_all
  show ?thesis
  proof (cases "r = 0")
    case True
    then have "m = q * 2 ^ k" using d assms(3) by (simp add: m_def round_half_even_def)
    with f ab(1) True assms(3) show ?thesis by (simp add: ceil_mult del: One_nat_def)
  next
    case False
    have "b * 2 ^ 23 \<le> a * 2 ^ k" using f32_scale_min [OF assms] unfolding k_def .
    also have "\<dots> < 2 ^ 24 * 2 ^ k" using assms(2) by (intro mult_strict_right_mono) simp_all
    finally have b: "b < 2 * 2 ^ k" by simp
    have up: "r * 2 ^ k div b < 2 ^ k" using ab(2) assms(3) by (simp add: div_less_iff_less_mult)
    then have "m \<le> Suc q * 2 ^ k" using d(1) by (auto simp: m_def round_half_even_def Let_def)
    moreover have "q * 2 ^ k < m"
    proof (cases "r * 2 ^ k div b = 0")
      case True
      then have "r * 2 ^ k < b" using assms(3) by (auto simp: div_eq_0_iff)
      then have "a * 2 ^ k mod b = r * 2 ^ k" using d(2) by simp
      moreover have "2 * 2 ^ k \<le> 2 * (r * 2 ^ k)" using False by (cases r) simp_all
      ultimately have "b < 2 * (a * 2 ^ k mod b)" using b by linarith
      then show ?thesis using d(1) by (simp add: m_def round_half_even_def Let_def)
    next
      case False
      then show ?thesis using d(1) by (simp add: m_def round_half_even_def Let_def)
    qed
    ultimately have "f32_div_ceil a b = Suc q" unfolding f by (intro ceil_between)
    moreover have "(a + b - 1) div b = Suc q" using ab False by (intro ceil_between) auto
    ultimately show ?thesis by simp
  qed
qed

lemma ceil_div_exact: "0 < b \<Longrightarrow> a < 2 ^ 24 \<Longrightarrow> b < 2 ^ 24 \<Longrightarrow> ceil_div a b = Some ((a + b - 1) div b)"
  by (cases "a = 0") (simp_all add: ceil_div_def f32_of_nat_exact f32_div_ceil_exact)

text \<open>
  Just above, the size itself is rounded: for \<open>2^24 + 1\<close> bytes and a digest of 16 there is one round too few.
\<close>

lemma ceil_div_short: "ceil_div (2 ^ 24 + 1) 16 = Some (2 ^ 20)"
proof -
  have l: "bit_length 16777217 = 25" "bit_length 16777216 = 25" "bit_length 16 = 5" "bit_length 1048576 = 21"
    by (simp_all add: bit_length.simps)
  then have "f32_of_nat (2 ^ 24 + 1) = 16777216" "f32_of_nat 16 = 16"
    by (simp_all add: f32_of_nat_def round_half_even_def)
  with l show ?thesis by (simp add: ceil_div_def f32_div_ceil_def f32_scale_def round_half_even_def)
qed

section \<open>The derived key\<close>

definition s2k_digest :: "hash_lib \<Rightarrow> string_to_key \<Rightarrow> hash_alg \<Rightarrow> bytes \<Rightarrow> nat \<Rightarrow> bytes" where
  "s2k_digest H s a pw r = hash_fun H a (replicate r 0 @ s2k_octets s pw)"

context hash_laws
begin

lemma derive_rounds_Cons:
  assumes "s2k_hash s = Some a" "s2k_ok s" "hash_supported a"
    and "r * digest_size H a + n = (if r = rounds - 1 then ks else (r + 1) * digest_size H a)"
    and "n \<le> digest_size H a" "r * digest_size H a + n \<le> ks"
  shows "derive_rounds H s a pw ks rounds (r # rs) key =
    derive_rounds H s a pw ks rounds rs (key @ take n (s2k_digest H s a pw r))"
proof -
  let ?h = "hasher_update \<lparr>hasher_alg = a, hasher_data = []\<rparr> (replicate r 0)"
  obtain h' where h': "hash_round s ?h pw = Ok h'" "hasher_data h' = replicate r 0 @ s2k_octets s pw"
    "hasher_alg h' = a"
    using hash_round_octets [OF assms(1,2), of ?h pw] by auto
  then have "hasher_finish_into H h' n = Ok (take n (s2k_digest H s a pw r))"
    using assms(3,5) finish_into_ok [of h' n] by (simp add: hasher_finish_def s2k_digest_def)
  moreover have "(if r = rounds - 1 then ks else (r + 1) * digest_size H a) = r * digest_size H a + n"
    using assms(4) by simp
  ultimately show ?thesis
    unfolding derive_rounds.simps Let_def using h' assms(3,6) by (simp add: new_hasher_def)
qed

lemma derive_rounds_eq:
  assumes "s2k_hash s = Some a" "s2k_ok s" "hash_supported a"
    and "(rounds - 1) * digest_size H a < ks" "ks \<le> rounds * digest_size H a" "k \<le> rounds"
  shows "derive_rounds H s a pw ks rounds [k..<rounds] key =
    Ok (key @ take (ks - k * digest_size H a) (concat (map (s2k_digest H s a pw) [k..<rounds])))"
  using assms(6)
proof (induction "rounds - k" arbitrary: k key)
  case 0
  with assms(5) show ?case by simp
next
  case (Suc m)
  let ?D = "digest_size H a"
  from Suc have k: "k < rounds" by simp
  then have cons: "[k..<rounds] = k # [Suc k..<rounds]" by (simp add: upt_conv_Cons)
  have len: "length (s2k_digest H s a pw k) = ?D"
    using assms(3) by (simp add: s2k_digest_def length_hash digest_size_def)
  show ?case
  proof (cases "k = rounds - 1")
    case True
    with assms(5) k have "ks - k * ?D \<le> ?D"
      by (cases rounds) auto
    moreover from True k have "[k..<rounds] = [k]" by (simp add: upt_conv_Cons)
    moreover have "derive_rounds H s a pw ks rounds [k] key =
        derive_rounds H s a pw ks rounds [] (key @ take (ks - k * ?D) (s2k_digest H s a pw k))"
      using calculation True assms(4) by (intro derive_rounds_Cons [OF assms(1,2,3)]) auto
    ultimately show ?thesis by simp
  next
    case False
    with k have "(k + 1) * ?D \<le> (rounds - 1) * ?D" by (intro mult_le_mono1) auto
    with assms(4) have le: "k * ?D + ?D \<le> ks" by simp
    have "derive_rounds H s a pw ks rounds [k..<rounds] key =
        derive_rounds H s a pw ks rounds [Suc k..<rounds] (key @ s2k_digest H s a pw k)"
      using derive_rounds_Cons [OF assms(1,2,3), of k ?D rounds ks pw "[Suc k..<rounds]" key]
        False len le by (simp add: cons add.commute del: derive_rounds.simps)
    also have "\<dots> = Ok ((key @ s2k_digest H s a pw k) @
        take (ks - Suc k * ?D) (concat (map (s2k_digest H s a pw) [Suc k..<rounds])))"
      using Suc(1) [of "Suc k"] Suc(2) k by simp
    finally show ?thesis
      using le len by (simp add: cons add.commute del: derive_rounds.simps)
  qed
qed

lemma derive_key_hashed:
  assumes "s2k_hash s = Some a" "s2k_ok s" "hash_supported a" "digest_size H a < 2 ^ 24" "ks < 2 ^ 24"
  shows "derive_key H argon2 s pw ks =
    Ok (take ks (concat (map (s2k_digest H s a pw)
          [0..<(ks + digest_size H a - 1) div digest_size H a])))"
proof -
  let ?D = "digest_size H a"
  define n where "n = (ks + ?D - 1) div ?D"
  have D: "0 < ?D" using assms(3) by (simp add: digest_size_pos)
  have dk: "derive_key H argon2 s pw ks = derive_rounds H s a pw ks n [0..<n] []"
    using assms(1) ceil_div_exact [OF D assms(5,4)] by (cases s) (auto simp: derive_key_def derive_hashed_def n_def)
  show ?thesis
  proof (cases "ks = 0")
    case True
    with D have "n = 0" by (simp add: n_def)
    with dk True show ?thesis by simp
  next
    case False
    have "n * ?D \<le> ks + ?D - 1" "ks + ?D - 1 < (n + 1) * ?D"
      using div_times_less_eq_dividend [of "ks + ?D - 1" ?D]
        dividend_less_div_times [OF D, of "ks + ?D - 1"] by (simp_all add: n_def add.commute)
    moreover from False D have "1 \<le> n"
      by (simp add: n_def div_greater_zero_iff Suc_le_eq)
    then obtain m where "n = Suc m" by (cases n) auto
    ultimately have "(n - 1) * ?D < ks" "ks \<le> n * ?D"
      using D False by auto
    with derive_rounds_eq [OF assms(1-3), of n ks 0 pw "[]"] dk show ?thesis
      by (simp add: n_def)
  qed
qed

lemma derive_key_length:
  assumes "s2k_hash s = Some a" "s2k_ok s" "hash_supported a" "digest_size H a < 2 ^ 24" "ks < 2 ^ 24"
    and "derive_key H argon2 s pw ks = Ok key"
  shows "length key = ks"
proof -
  let ?D = "digest_size H a" and ?n = "(ks + digest_size H a - 1) div digest_size H a"
  have D: "0 < ?D" using assms(3) by (simp add: digest_size_pos)
  have len: "length (s2k_digest H s a pw r) = ?D" for r
    using assms(3) by (simp add: s2k_digest_def length_hash digest_size_def)
  have "length (concat (map (s2k_digest H s a pw) [0..<m])) = m * ?D" for m
    by (induction m) (simp_all add: len)
  moreover have "ks \<le> ?n * ?D"
    using dividend_less_div_times [OF D, of "ks + ?D - 1"] by (simp add: add.commute)
  ultimately show ?thesis
    using assms(6) derive_key_hashed [OF assms(1-5), of argon2 pw] by auto
qed

end

lemma decode_count_bounds: "1024 \<le> decode_count c \<and> decode_count c \<le> 65011712"
proof -
  define e where "e = unat (drop_bit 4 c)"
  have e: "e < 16"
    using unat_u8 [of c] unsigned_drop_bit_eq [of 4 c, where ?'a = nat]
    by (simp add: e_def drop_bit_eq_div take_bit_nat_eq_self del: unat_u8)
  define m where "m = unat c mod 16"
  have "unat (c AND 15) = m"
    using unat_and_mask [of c 4] by (simp add: m_def mask_eq_exp_minus_1)
  then have "unat (16 + ucast (c AND 15) :: u32) = 16 + m"
    by (simp add: unat_word_ariths m_def)
  moreover have "(16 + m) * 2 ^ (e + 6) < 2 ^ 32"
  proof -
    have "(16 + m) * 2 ^ (e + 6) \<le> 31 * (2 ^ 21 :: nat)"
      using e by (intro mult_le_mono power_increasing) (auto simp: m_def)
    then show ?thesis by simp
  qed
  ultimately have dc: "decode_count c = (16 + m) * 2 ^ (e + 6)"
    using unsigned_push_bit_eq [of "e + 6" "16 + ucast (c AND 15) :: u32", where ?'a = nat]
    by (simp add: decode_count_def EXPBIAS_def e_def [symmetric] take_bit_nat_eq_self
        push_bit_eq_mult [of _ "16 + m"])
  have "(16 + m) * 2 ^ (e + 6) \<le> 31 * (2 ^ 21 :: nat)"
    using e by (intro mult_le_mono power_increasing) (auto simp: m_def)
  moreover have "16 * (2 ^ 6 :: nat) \<le> (16 + m) * 2 ^ (e + 6)"
    by (intro mult_le_mono power_increasing) auto
  ultimately show ?thesis using dc by simp
qed

context wire_laws
begin

lemma s2k_parser_to_writer:
  assumes "s2k_ok s" "s2k_delimited s \<or> r = []"
  shows "s2k_parser W (s2k_to_writer s @ r) = Ok (r, s)"
proof (cases s)
  case (Private ty u)
  with assms have "ty \<noteq> 0 \<and> ty \<noteq> 1 \<and> ty \<noteq> 2 \<and> ty \<noteq> 3 \<and> ty \<noteq> 4"
    by (auto simp: word_le_nat_alt)
  with Private assms show ?thesis by (simp add: s2k_parser_def rest_bytes_def)
next
  case (Other ty u)
  with assms have "ty \<noteq> 0 \<and> ty \<noteq> 1 \<and> ty \<noteq> 2 \<and> ty \<noteq> 3 \<and> ty \<noteq> 4"
    by (auto simp: word_less_nat_alt)
  with Other assms show ?thesis by (auto simp: s2k_parser_def rest_bytes_def)
qed (use assms in \<open>simp_all add: s2k_parser_def rest_bytes_def canonical_hash\<close>)

end

text \<open>
  C37. Key derivation for the hashed specifiers (simple, salted, iterated): with a supported hash, a salt of
  eight octets where there is one, and for keys and digests shorter than \<open>2^24\<close> bytes the derived key is the first \<open>ks\<close> bytes of the digests of rounds
  0, 1, \<dots>, where round \<open>r\<close> hashes \<open>r\<close> zero bytes and then the octets of the specifier; for the iterated
  form these are the decoded count (at least one full copy) of octets of the repeated
  \<open>salt @ passphrase\<close>. The key has exactly the requested length, although the source computes the number of
  rounds in single precision: no rounding of the quotient changes its ceiling below that bound.
\<close>

theorem s2k_derive_key_spec:
  assumes "hash_laws H" and "s2k_hash s = Some a" and "s2k_ok s" and "hash_supported a"
    and "digest_size H a < 2 ^ 24" and "ks < 2 ^ 24"
  shows "\<exists>key. derive_key H argon2 s pw ks = Ok key \<and> length key = ks \<and>
    key = take ks (concat (map (\<lambda>r. hash_fun H a (replicate r 0 @ s2k_octets s pw))
            [0..<(ks + digest_size H a - 1) div digest_size H a]))"
  using hash_laws.derive_key_hashed [OF assms, of argon2 pw]
    hash_laws.derive_key_length [OF assms, of argon2 pw]
  by (simp add: s2k_digest_def [abs_def])

theorem s2k_derive_key_spec_witness:
  "\<exists>key. derive_key std_hash (\<lambda>_ _ _ _ _ _. None) (Salted Hash_SHA1 [1, 2, 3, 4, 5, 6, 7, 8]) [9] 24
     = Ok key \<and> length key = 24"
proof -
  have ok: "s2k_ok (Salted Hash_SHA1 [1, 2, 3, 4, 5, 6, 7, 8])"
    by (simp add: canonical_hash hash_alg_of_u8_def)
  show ?thesis
    using s2k_derive_key_spec [OF std_hash.hash_laws_axioms _ ok, of Hash_SHA1
        24 "\<lambda>_ _ _ _ _ _. None" "[9]"]
    by (auto simp: hash_supported_def digest_size_def std_hash_def)
qed

text \<open>
  A specifier that names a hash the library does not support makes \<open>derive_key\<close> panic for
  every non-empty key: the digest size 0 turns the number of rounds into \<open>usize::MAX\<close>, and the
  allocation of that many zero bytes comes before the unsupported hash is reported.
\<close>

theorem s2k_unsupported_hash_panics:
  assumes "s2k_hash s = Some a" and "\<not> hash_supported a" and "0 < ks"
  shows "derive_key H argon2 s pw ks = Panic"
  using assms
  by (cases s) (simp_all add: derive_key_def derive_hashed_def ceil_div_def digest_size_def)

theorem s2k_unsupported_hash_panics_witness:
  "derive_key std_hash (\<lambda>_ _ _ _ _ _. None) (Simple (Hash_Other 99)) [1, 2, 3] 16 = Panic"
  by (rule s2k_unsupported_hash_panics [of _ "Hash_Other 99"]) (simp_all add: hash_supported_def)

text \<open>
  Specifiers round-trip: the parser reads back what \<open>to_writer\<close> wrote; the types with a fixed
  layout leave the following bytes untouched, the reserved, private and unknown types take all of
  the remaining input and so are read back only at its end.
\<close>

theorem s2k_roundtrip:
  assumes "wire_laws W" and "s2k_ok s" and "s2k_delimited s \<or> r = []"
  shows "s2k_parser W (s2k_to_writer s @ r) = Ok (r, s)"
  using assms by (rule wire_laws.s2k_parser_to_writer)

theorem s2k_roundtrip_witness:
  "s2k_parser std_wire (s2k_to_writer (IteratedAndSalted Hash_SHA2_256 [1, 2, 3, 4, 5, 6, 7, 8] 224) @ [42])
   = Ok ([42], IteratedAndSalted Hash_SHA2_256 [1, 2, 3, 4, 5, 6, 7, 8] 224)"
  by (rule s2k_roundtrip [OF std.wire_laws_axioms])
    (simp_all add: canonical_hash hash_alg_of_u8_def)

text \<open>
  The iteration count decodes to a value between 1024 and 65011712 octets for every byte.
\<close>

theorem s2k_count_bounds: "1024 \<le> decode_count c \<and> decode_count c \<le> 65011712"
  by (rule decode_count_bounds)

end
