(* ===== verification/Pgp_Sym.thy ===== *)
theory Pgp_Sym
  imports Pgp_Algorithms
begin

text \<open>
  \<open>src/src/crypto/sym.rs\<close>: OpenPGP's symmetric encryption over the CFB mode of the cipher
  crates. The crates are a parameter: a stateful buffered encryptor and decryptor per algorithm,
  the one-shot CFB functions, and SHA-1 for the modification detection code. The eleven match
  arms that differ only in the cipher type are one equation on \<open>cipher_supported\<close>.

  Integrity-protected encryption round-trips for every supported cipher; a result of
  \<open>decrypt_protected\<close> always carries a matching detection code; the paths that panic are
  characterised.
\<close>

section \<open>The cipher crates\<close>

record 's cipher_lib =
  enc_new :: "sym_alg \<Rightarrow> bytes \<Rightarrow> bytes \<Rightarrow> 's option"
  enc_buf :: "'s \<Rightarrow> bytes \<Rightarrow> 's \<times> bytes"
  dec_new :: "sym_alg \<Rightarrow> bytes \<Rightarrow> bytes \<Rightarrow> 's option"
  dec_buf :: "'s \<Rightarrow> bytes \<Rightarrow> 's \<times> bytes"
  cfb_encrypt :: "sym_alg \<Rightarrow> bytes \<Rightarrow> bytes \<Rightarrow> bytes \<Rightarrow> bytes option"
  cfb_decrypt :: "sym_alg \<Rightarrow> bytes \<Rightarrow> bytes \<Rightarrow> bytes \<Rightarrow> bytes option"
  sha1 :: "bytes \<Rightarrow> bytes"

definition cipher_supported :: "sym_alg \<Rightarrow> bool" where
  "cipher_supported a \<longleftrightarrow>
     a \<in> {Sym_IDEA, Sym_TripleDES, Sym_CAST5, Sym_Blowfish, Sym_AES128, Sym_AES192, Sym_AES256,
           Sym_Twofish, Sym_Camellia128, Sym_Camellia192, Sym_Camellia256}"

section \<open>Decryption\<close>

text \<open>The macro \<open>decrypt!\<close>: prefix and data through one decryptor; \<open>resync\<close> is \<open>unimplemented!\<close>.\<close>

definition decrypt_macro ::
  "('s, 'z) cipher_lib_scheme \<Rightarrow> sym_alg \<Rightarrow> bytes \<Rightarrow> bytes \<Rightarrow> bytes \<Rightarrow> bytes \<Rightarrow> bool
   \<Rightarrow> (bytes \<times> bytes) res" where
  "decrypt_macro C a key iv prefix d resync =
     (case dec_new C a key iv of
        None \<Rightarrow> Err CfbInvalidKeyIvLength
      | Some s \<Rightarrow>
          let (s, prefix') = dec_buf C s prefix in
          if resync then Panic else Ok (prefix', snd (dec_buf C s d)))"

definition decrypt_with_iv ::
  "('s, 'z) cipher_lib_scheme \<Rightarrow> sym_alg \<Rightarrow> bytes \<Rightarrow> bytes \<Rightarrow> bytes \<Rightarrow> bool
   \<Rightarrow> (bytes \<times> bytes) res" where
  "decrypt_with_iv C a key iv ct resync =
     (let bs = block_size a in
      if \<not> bs + 2 < length ct then Err (Message ''invalid ciphertext'')
      else
        let prefix = take (bs + 2) ct; d = drop (bs + 2) ct in
        if a = Sym_Plaintext then Ok (prefix, d)
        else if cipher_supported a then decrypt_macro C a key iv prefix d resync
        else Err (Unimplemented ''SymmetricKeyAlgorithm {} is unsupported''))"

definition sym_decrypt ::
  "('s, 'z) cipher_lib_scheme \<Rightarrow> sym_alg \<Rightarrow> bytes \<Rightarrow> bytes \<Rightarrow> bytes res" where
  "sym_decrypt C a key ct =
     map_ok snd (decrypt_with_iv C a key (replicate (block_size a) 0) ct True)"

definition MDC_LEN :: nat where
  "MDC_LEN = 22"

text \<open>\<open>res.len() - MDC_LEN\<close> underflows on shorter data.\<close>

definition decrypt_protected ::
  "('s, 'z) cipher_lib_scheme \<Rightarrow> sym_alg \<Rightarrow> bytes \<Rightarrow> bytes \<Rightarrow> bytes res" where
  "decrypt_protected C a key ct =
     and_then (decrypt_with_iv C a key (replicate (block_size a) 0) ct False) (\<lambda>(prefix, r).
     if length r < MDC_LEN then Panic
     else
       let d = take (length r - MDC_LEN) r; mdc = drop (length r - MDC_LEN) r;
           h = sha1 C (prefix @ d @ take 2 mdc) in
       if mdc ! 0 \<noteq> 0xD3 \<or> mdc ! 1 \<noteq> 0x14 \<or> drop 2 mdc \<noteq> h then Err MdcError else Ok d)"

definition decrypt_with_iv_regular ::
  "('s, 'z) cipher_lib_scheme \<Rightarrow> sym_alg \<Rightarrow> bytes \<Rightarrow> bytes \<Rightarrow> bytes \<Rightarrow> bytes res" where
  "decrypt_with_iv_regular C a key iv ct =
     (if a = Sym_Plaintext then Ok ct
      else if cipher_supported a then
        (case cfb_decrypt C a key iv ct of None \<Rightarrow> Err CfbInvalidKeyIvLength | Some d \<Rightarrow> Ok d)
      else Err (Unimplemented ''SymmetricKeyAlgorithm {} is unsupported''))"

section \<open>Encryption\<close>

definition encrypt_macro ::
  "('s, 'z) cipher_lib_scheme \<Rightarrow> sym_alg \<Rightarrow> bytes \<Rightarrow> bytes \<Rightarrow> bytes \<Rightarrow> bytes \<Rightarrow> bool
   \<Rightarrow> (bytes \<times> bytes) res" where
  "encrypt_macro C a key iv prefix d resync =
     (case enc_new C a key iv of
        None \<Rightarrow> Err CfbInvalidKeyIvLength
      | Some s \<Rightarrow>
          let (s, prefix') = enc_buf C s prefix in
          if resync then Panic else Ok (prefix', snd (enc_buf C s d)))"

text \<open>\<open>encrypt_with_iv\<close> overwrites its buffer; \<open>split_at_mut\<close> panics when it is too short.\<close>

definition encrypt_with_iv ::
  "('s, 'z) cipher_lib_scheme \<Rightarrow> sym_alg \<Rightarrow> bytes \<Rightarrow> bytes \<Rightarrow> bytes \<Rightarrow> bool \<Rightarrow> bytes res" where
  "encrypt_with_iv C a key iv buf resync =
     (let bs = block_size a in
      if length buf < bs + 2 then Panic
      else
        let prefix = take (bs + 2) buf; d = drop (bs + 2) buf in
        if a = Sym_Plaintext then Ok buf
        else if cipher_supported a then
          map_ok (\<lambda>(p, x). p @ x) (encrypt_macro C a key iv prefix d resync)
        else Err (Message ''SymmetricKeyAlgorithm {} is unsupported''))"

text \<open>
  The random prefix with its two repeated octets; \<open>ciphertext[bs - 2]\<close> underflows when the
  algorithm has block size 0. \<open>rng n\<close> are the \<open>n\<close> bytes drawn.
\<close>

definition quick_check_prefix :: "(nat \<Rightarrow> bytes) \<Rightarrow> nat \<Rightarrow> bytes res" where
  "quick_check_prefix rng bs =
     (if bs < 2 then Panic
      else Ok (rng bs @ [rng bs ! (bs - 2), rng bs ! (bs - 1)]))"

definition encrypt_with_rng ::
  "('s, 'z) cipher_lib_scheme \<Rightarrow> sym_alg \<Rightarrow> (nat \<Rightarrow> bytes) \<Rightarrow> bytes \<Rightarrow> bytes \<Rightarrow> bytes res" where
  "encrypt_with_rng C a rng key pt =
     and_then (quick_check_prefix rng (block_size a)) (\<lambda>prefix.
     encrypt_with_iv C a key (replicate (block_size a) 0) (prefix @ pt) True)"

definition encrypt_protected_with_rng ::
  "('s, 'z) cipher_lib_scheme \<Rightarrow> sym_alg \<Rightarrow> (nat \<Rightarrow> bytes) \<Rightarrow> bytes \<Rightarrow> bytes \<Rightarrow> bytes res" where
  "encrypt_protected_with_rng C a rng key pt =
     and_then (quick_check_prefix rng (block_size a)) (\<lambda>prefix.
     let body = prefix @ pt @ [0xD3, 0x14];
         checksum = take 20 (sha1 C body) in
     encrypt_with_iv C a key (replicate (block_size a) 0) (body @ checksum) False)"

definition encrypt_with_iv_regular ::
  "('s, 'z) cipher_lib_scheme \<Rightarrow> sym_alg \<Rightarrow> bytes \<Rightarrow> bytes \<Rightarrow> bytes \<Rightarrow> bytes res" where
  "encrypt_with_iv_regular C a key iv pt =
     (if a = Sym_Plaintext then Ok pt
      else if cipher_supported a then
        (case cfb_encrypt C a key iv pt of None \<Rightarrow> Err CfbInvalidKeyIvLength | Some d \<Rightarrow> Ok d)
      else Err (Unimplemented ''SymmetricKeyAlgorithm {} is unsupported''))"

definition new_session_key :: "sym_alg \<Rightarrow> (nat \<Rightarrow> bytes) \<Rightarrow> bytes" where
  "new_session_key a rng = rng (key_size a)"

lemma cipher_supported_block: "cipher_supported a \<Longrightarrow> 8 \<le> block_size a"
  by (auto simp: cipher_supported_def)

section \<open>What the crates promise\<close>

text \<open>
  A cipher accepts a key and an initialization vector of its sizes; a decryptor with the same key
  and vector inverts the encryptor buffer by buffer; both keep the length; SHA-1 has 20 bytes.
\<close>

locale cipher_laws =
  fixes C :: "('s, 'z) cipher_lib_scheme"
  assumes enc_new_ok: "cipher_supported a \<Longrightarrow> length k = key_size a \<Longrightarrow> length iv = block_size a
      \<Longrightarrow> enc_new C a k iv \<noteq> None"
    and dec_inverse: "cipher_supported a \<Longrightarrow> enc_new C a k iv = Some s
      \<Longrightarrow> \<exists>d. dec_new C a k iv = Some d \<and>
        (\<forall>p x. let (s1, p') = enc_buf C s p; (_, x') = enc_buf C s1 x;
                   (d1, p'') = dec_buf C d p'; (_, x'') = dec_buf C d1 x'
               in p'' = p \<and> x'' = x)"
    and enc_length: "length (snd (enc_buf C s p)) = length p"
    and cfb_inverse: "cfb_encrypt C a k iv x = Some y \<Longrightarrow> cfb_decrypt C a k iv y = Some x"
    and cfb_length: "cfb_encrypt C a k iv x = Some y \<Longrightarrow> length y = length x"
    and sha1_length: "length (sha1 C x) = 20"
begin

lemma macro_inverse:
  assumes "cipher_supported a" "encrypt_macro C a k iv p x False = Ok (p', x')"
  shows "decrypt_macro C a k iv p' x' False = Ok (p, x) \<and> length p' = length p
    \<and> length x' = length x"
proof -
  obtain s where s: "enc_new C a k iv = Some s"
    "p' = snd (enc_buf C s p)" "x' = snd (enc_buf C (fst (enc_buf C s p)) x)"
    using assms(2) by (auto simp: encrypt_macro_def split: option.splits prod.splits)
  from dec_inverse [OF assms(1) s(1)] obtain d where d: "dec_new C a k iv = Some d"
    "\<forall>p x. let (s1, p') = enc_buf C s p; (_, x') = enc_buf C s1 x;
                   (d1, p'') = dec_buf C d p'; (_, x'') = dec_buf C d1 x'
               in p'' = p \<and> x'' = x" by blast
  from d(2) [rule_format, of p x] s d(1) show ?thesis
    by (auto simp: decrypt_macro_def enc_length split: prod.splits)
qed

lemma encrypt_with_iv_inverse:
  assumes "cipher_supported a" "encrypt_with_iv C a k iv (p @ x) False = Ok ct"
    and "length p = block_size a + 2" "x \<noteq> []"
  shows "decrypt_with_iv C a k iv ct False = Ok (p, x)"
proof -
  from assms(1) have "a \<noteq> Sym_Plaintext" by (auto simp: cipher_supported_def)
  with assms obtain p' x' where px: "encrypt_macro C a k iv p x False = Ok (p', x')"
    "ct = p' @ x'"
    by (auto simp: encrypt_with_iv_def Let_def split: if_splits)
  from macro_inverse [OF assms(1) px(1)] assms px(2) \<open>a \<noteq> Sym_Plaintext\<close> show ?thesis
    by (simp add: decrypt_with_iv_def Let_def)
qed

lemma encrypt_with_iv_ok:
  assumes "cipher_supported a" "length k = key_size a" "length iv = block_size a"
    and "block_size a + 2 \<le> length buf"
  shows "\<exists>ct. encrypt_with_iv C a k iv buf False = Ok ct \<and> length ct = length buf"
proof -
  from assms(1) have "a \<noteq> Sym_Plaintext" by (auto simp: cipher_supported_def)
  moreover obtain s where "enc_new C a k iv = Some s"
    using enc_new_ok [OF assms(1-3)] by auto
  ultimately show ?thesis
    using assms by (simp add: encrypt_with_iv_def encrypt_macro_def Let_def split_beta enc_length)
qed

lemma decrypt_protected_encrypt:
  assumes "cipher_supported a" "length key = key_size a" "length (rng (block_size a)) = block_size a"
  shows "\<exists>ct. encrypt_protected_with_rng C a rng key pt = Ok ct \<and>
    length ct = block_size a + 2 + length pt + 22 \<and> decrypt_protected C a key ct = Ok pt"
proof -
  let ?bs = "block_size a"
  define p where "p = rng ?bs @ [rng ?bs ! (?bs - 2), rng ?bs ! (?bs - 1)]"
  define x where "x = pt @ [0xD3, 0x14] @ sha1 C (p @ pt @ [0xD3, 0x14])"
  have p: "quick_check_prefix rng ?bs = Ok p" "length p = ?bs + 2"
    using cipher_supported_block [OF assms(1)] assms(3) by (simp_all add: quick_check_prefix_def p_def)
  have "take 20 (sha1 C y) = sha1 C y" for y by (simp add: sha1_length)
  with p have enc: "encrypt_protected_with_rng C a rng key pt =
      encrypt_with_iv C a key (replicate ?bs 0) (p @ x) False"
    by (simp add: encrypt_protected_with_rng_def Let_def x_def)
  obtain ct where ct: "encrypt_with_iv C a key (replicate ?bs 0) (p @ x) False = Ok ct"
    "length ct = length (p @ x)"
    using encrypt_with_iv_ok [OF assms(1,2), of "replicate ?bs 0" "p @ x"] p(2) by auto
  have "decrypt_with_iv C a key (replicate ?bs 0) ct False = Ok (p, x)"
    by (rule encrypt_with_iv_inverse [OF assms(1) ct(1) p(2)]) (simp add: x_def)
  then have "decrypt_protected C a key ct = Ok pt"
    by (simp add: decrypt_protected_def Let_def x_def MDC_LEN_def sha1_length)
  with enc ct p(2) show ?thesis
    by (simp add: x_def sha1_length)
qed

end

section \<open>A reference cipher\<close>

text \<open>
  A stream cipher for concrete runs: every byte is combined with the first key byte. It is a
  stand-in that satisfies the laws, not one of the library's ciphers.
\<close>

definition xor_stream :: "u8 \<Rightarrow> bytes \<Rightarrow> bytes" where
  "xor_stream k d = map (\<lambda>b. b XOR k) d"

definition std_cipher :: "u8 cipher_lib" where
  "std_cipher = \<lparr>
     enc_new = (\<lambda>a k iv. if length k = key_size a \<and> length iv = block_size a
                         then Some (hd (k @ [0])) else None),
     enc_buf = (\<lambda>s d. (s, xor_stream s d)),
     dec_new = (\<lambda>a k iv. if length k = key_size a \<and> length iv = block_size a
                         then Some (hd (k @ [0])) else None),
     dec_buf = (\<lambda>s d. (s, xor_stream s d)),
     cfb_encrypt = (\<lambda>a k iv d. Some (xor_stream (hd (k @ [0])) d)),
     cfb_decrypt = (\<lambda>a k iv d. Some (xor_stream (hd (k @ [0])) d)),
     sha1 = (\<lambda>d. take 20 (d @ replicate 20 0))\<rparr>"

lemma xor_stream_involution [simp]: "xor_stream k (xor_stream k d) = d"
  by (simp add: xor_stream_def comp_def xor.assoc)

lemma length_xor_stream [simp]: "length (xor_stream k d) = length d"
  by (simp add: xor_stream_def)

interpretation std_cipher: cipher_laws std_cipher
  by unfold_locales (auto simp: std_cipher_def split: if_splits)

section \<open>Properties\<close>

text \<open>
  C21. Integrity-protected encryption round-trips: for every supported cipher, key of its size
  and random prefix of a block, \<open>encrypt_protected_with_rng\<close> succeeds with a ciphertext of block
  size + 2 + plaintext + 22 bytes, and \<open>decrypt_protected\<close> with the same key returns the plaintext.
\<close>

theorem sym_protected_roundtrip:
  assumes "cipher_laws C" and "cipher_supported a" and "length key = key_size a"
    and "length (rng (block_size a)) = block_size a"
  shows "\<exists>ct. encrypt_protected_with_rng C a rng key pt = Ok ct \<and>
    length ct = block_size a + 2 + length pt + 22 \<and> decrypt_protected C a key ct = Ok pt"
  using assms by (rule cipher_laws.decrypt_protected_encrypt)

theorem sym_protected_roundtrip_witness:
  "\<exists>ct. encrypt_protected_with_rng std_cipher Sym_AES128 (\<lambda>n. replicate n 7) (replicate 16 1) [1, 2, 3]
     = Ok ct \<and> length ct = 43 \<and> decrypt_protected std_cipher Sym_AES128 (replicate 16 1) ct = Ok [1, 2, 3]"
  using sym_protected_roundtrip [OF std_cipher.cipher_laws_axioms, of Sym_AES128 "replicate 16 1"
      "\<lambda>n. replicate n 7" "[1, 2, 3]"]
  by (simp add: cipher_supported_def)

text \<open>
  C22. No plaintext without a valid detection code: if \<open>decrypt_protected\<close> returns data, the
  decrypted stream was that data followed by the bytes \<open>D3 14\<close> and the SHA-1 of the prefix, the
  data and those two bytes.
\<close>

theorem sym_protected_authentic:
  assumes "decrypt_protected C a key ct = Ok d"
  shows "\<exists>prefix. decrypt_with_iv C a key (replicate (block_size a) 0) ct False =
    Ok (prefix, d @ [0xD3, 0x14] @ sha1 C (prefix @ d @ [0xD3, 0x14]))"
proof -
  obtain prefix r where r: "decrypt_with_iv C a key (replicate (block_size a) 0) ct False = Ok (prefix, r)"
    "MDC_LEN \<le> length r" "d = take (length r - MDC_LEN) r"
    and m: "drop (length r - MDC_LEN) r ! 0 = 0xD3" "drop (length r - MDC_LEN) r ! 1 = 0x14"
      "drop 2 (drop (length r - MDC_LEN) r) = sha1 C (prefix @ d @ take 2 (drop (length r - MDC_LEN) r))"
    using assms by (auto simp: decrypt_protected_def Let_def not_less split: if_splits)
  define mdc where "mdc = drop (length r - MDC_LEN) r"
  have "length mdc = 22" using r(2) by (simp add: mdc_def MDC_LEN_def)
  then obtain x y t where xy: "mdc = x # y # t"
    by (cases mdc; cases "tl mdc") auto
  with m r(3) have "mdc = [0xD3, 0x14] @ sha1 C (prefix @ d @ [0xD3, 0x14])"
    by (simp add: mdc_def [symmetric] drop_drop [symmetric] del: drop_drop)
  moreover have "r = d @ mdc" using r(3) by (simp add: mdc_def)
  ultimately show ?thesis using r(1) by blast
qed

theorem sym_protected_authentic_witness:
  "\<exists>ct. decrypt_protected std_cipher Sym_AES128 (replicate 16 1) ct = Ok [1, 2, 3] \<and>
    (\<exists>prefix. decrypt_with_iv std_cipher Sym_AES128 (replicate 16 1) (replicate 16 0) ct False =
      Ok (prefix, [1, 2, 3] @ [0xD3, 0x14] @ sha1 std_cipher (prefix @ [1, 2, 3] @ [0xD3, 0x14])))"
proof -
  obtain ct where ct: "decrypt_protected std_cipher Sym_AES128 (replicate 16 1) ct = Ok [1, 2, 3]"
    using std_cipher.decrypt_protected_encrypt [of Sym_AES128 "replicate 16 1" "\<lambda>n. replicate n 7" "[1, 2, 3]"]
    by (auto simp: cipher_supported_def)
  from sym_protected_authentic [OF this] ct show ?thesis by auto
qed

text \<open>
  The unprotected mode is unusable: with a key and vector the cipher accepts, \<open>encrypt\<close>
  panics on every plaintext and \<open>decrypt\<close> on every ciphertext longer than the prefix, because
  both ask for the CFB resynchronization that the macros leave \<open>unimplemented!\<close>.
\<close>

theorem sym_unprotected_panics:
  assumes "cipher_supported a" and "enc_new C a key (replicate (block_size a) 0) = Some s"
    and "dec_new C a key (replicate (block_size a) 0) = Some t"
    and "length (rng (block_size a)) = block_size a" and "block_size a + 2 < length ct"
  shows "encrypt_with_rng C a rng key pt = Panic \<and> sym_decrypt C a key ct = Panic"
proof -
  have "a \<noteq> Sym_Plaintext" using assms(1) by (auto simp: cipher_supported_def)
  with assms cipher_supported_block [OF assms(1)] show ?thesis
    by (simp add: encrypt_with_rng_def quick_check_prefix_def encrypt_with_iv_def encrypt_macro_def
        sym_decrypt_def decrypt_with_iv_def decrypt_macro_def Let_def split_beta)
qed

theorem sym_unprotected_panics_witness:
  "encrypt_with_rng std_cipher Sym_AES256 (\<lambda>n. replicate n 7) (replicate 32 1) [1, 2, 3] = Panic
   \<and> sym_decrypt std_cipher Sym_AES256 (replicate 32 1) (replicate 30 9) = Panic"
  by (rule sym_unprotected_panics [where s = 1 and t = 1])
    (simp_all add: cipher_supported_def std_cipher_def)

text \<open>
  A protected ciphertext whose decrypted data is shorter than the 22 bytes of a detection
  code is not reported as an error: \<open>decrypt_protected\<close> panics.
\<close>

theorem sym_protected_short_panics:
  assumes "decrypt_with_iv C a key (replicate (block_size a) 0) ct False = Ok (prefix, r)"
    and "length r < 22"
  shows "decrypt_protected C a key ct = Panic"
  using assms by (simp add: decrypt_protected_def MDC_LEN_def)

theorem sym_protected_short_panics_witness:
  "decrypt_protected std_cipher Sym_AES128 (replicate 16 1) (replicate 20 9) = Panic"
proof -
  have "decrypt_with_iv std_cipher Sym_AES128 (replicate 16 1) (replicate (block_size Sym_AES128) 0)
      (replicate 20 9) False = Ok (replicate 18 8, replicate 2 8)"
    by (simp add: decrypt_with_iv_def decrypt_macro_def std_cipher_def cipher_supported_def
        xor_stream_def Let_def)
  then show ?thesis by (rule sym_protected_short_panics) simp
qed

end
