(* ===== verification/Pgp_Aead.thy ===== *)
theory Pgp_Aead
  imports Pgp_Algorithms
begin

text \<open>
  Authenticated encryption, \<open>src/src/crypto/aead.rs\<close>, over the AEAD and HKDF crates as a
  parameter. The six match arms per direction that differ only in the cipher type are one equation
  on \<open>aead_supported\<close>; a key slice that is too short, or a nonce or tag of the wrong length, is a panic
  of the slice conversions.
\<close>

record aead_lib =
  aead_open :: "aead_alg \<Rightarrow> sym_alg \<Rightarrow> bytes \<Rightarrow> bytes \<Rightarrow> bytes \<Rightarrow> bytes \<Rightarrow> bytes \<Rightarrow> bytes option"
  aead_seal :: "aead_alg \<Rightarrow> sym_alg \<Rightarrow> bytes \<Rightarrow> bytes \<Rightarrow> bytes \<Rightarrow> bytes \<Rightarrow> (bytes \<times> bytes) option"
  hkdf_sha256 :: "bytes option \<Rightarrow> bytes \<Rightarrow> bytes \<Rightarrow> nat \<Rightarrow> bytes"

definition aead_supported :: "sym_alg \<Rightarrow> aead_alg \<Rightarrow> bool" where
  "aead_supported s a \<longleftrightarrow> s \<in> {Sym_AES128, Sym_AES256} \<and> a \<in> {Aead_Gcm, Aead_Eax, Aead_Ocb}"

definition aead_error :: "aead_alg \<Rightarrow> error" where
  "aead_error a = (if a = Aead_Gcm then Gcm else if a = Aead_Eax then Eax else Ocb)"

definition aead_key_len :: "sym_alg \<Rightarrow> nat" where
  "aead_key_len s = (if s = Sym_AES128 then 16 else 32)"

text \<open>The result is the buffer after the call.\<close>

definition aead_decrypt_in_place ::
  "aead_lib \<Rightarrow> aead_alg \<Rightarrow> sym_alg \<Rightarrow> bytes \<Rightarrow> bytes \<Rightarrow> bytes \<Rightarrow> bytes \<Rightarrow> bytes \<Rightarrow> bytes res" where
  "aead_decrypt_in_place A a s key nonce ad auth_tag buffer =
     (if aead_supported s a then
        if length key < aead_key_len s \<or> length nonce \<noteq> nonce_size a \<or> length auth_tag \<noteq> 16
        then Panic
        else (case aead_open A a s (take (aead_key_len s) key) nonce ad auth_tag buffer of
                None \<Rightarrow> Err (aead_error a) | Some d \<Rightarrow> Ok d)
      else Err (Unimplemented ''AEAD not supported: {:?}, {:?}''))"

text \<open>The result is the buffer after the call and the tag returned.\<close>

definition aead_encrypt_in_place ::
  "aead_lib \<Rightarrow> aead_alg \<Rightarrow> sym_alg \<Rightarrow> bytes \<Rightarrow> bytes \<Rightarrow> bytes \<Rightarrow> bytes \<Rightarrow> (bytes \<times> bytes) res" where
  "aead_encrypt_in_place A a s key nonce ad buffer =
     (if aead_supported s a then
        if length key < aead_key_len s \<or> length nonce \<noteq> nonce_size a then Panic
        else (case aead_seal A a s (take (aead_key_len s) key) nonce ad buffer of
                None \<Rightarrow> Err (aead_error a) | Some r \<Rightarrow> Ok r)
      else Err (Unimplemented ''AEAD not supported: {:?}, {:?}''))"

text \<open>
  What the crates promise: sealing yields a ciphertext of the length of the plaintext and a tag of
  16 bytes, opening inverts it, and HKDF returns as many bytes as asked for.
\<close>

locale aead_laws =
  fixes A :: aead_lib
  assumes seal_length: "aead_seal A a s k n ad x = Some (c, t) \<Longrightarrow> length c = length x \<and> length t = 16"
    and open_seal: "aead_seal A a s k n ad x = Some (c, t) \<Longrightarrow> aead_open A a s k n ad t c = Some x"
    and hkdf_length: "length (hkdf_sha256 A salt ikm info len) = len"
begin

lemma decrypt_encrypt:
  assumes "aead_encrypt_in_place A a s key nonce ad x = Ok (c, t)"
  shows "aead_decrypt_in_place A a s key nonce ad t c = Ok x \<and> length c = length x \<and> length t = 16"
  using assms
  by (auto simp: aead_encrypt_in_place_def aead_decrypt_in_place_def open_seal
      split: if_splits option.splits dest: seal_length)

end

text \<open>A stand-in for concrete runs: the tag holds the first bytes of key, nonce and data.\<close>

definition std_tag :: "bytes \<Rightarrow> bytes \<Rightarrow> bytes \<Rightarrow> bytes \<Rightarrow> bytes" where
  "std_tag k n ad x = take 16 (take 2 (k @ [0, 0]) @ take 8 (drop (length n - 8) n) @ take 6 (rev ad @ x) @ replicate 16 0)"

definition std_aead :: aead_lib where
  "std_aead = \<lparr>
     aead_open = (\<lambda>a s k n ad t c. if t = std_tag k n ad c then Some (map NOT c) else None),
     aead_seal = (\<lambda>a s k n ad x. Some (map NOT x, std_tag k n ad (map NOT x))),
     hkdf_sha256 = (\<lambda>salt ikm info len. take len (ikm @ replicate len 7))\<rparr>"

interpretation std_aead: aead_laws std_aead
  by unfold_locales (auto simp: std_aead_def std_tag_def comp_def)

text \<open>
  Authenticated encryption round-trips through the library's wrappers: decrypting what was
  encrypted in place, with the tag that was returned, restores the buffer, for every combination
  of cipher and mode that encryption accepts; the ciphertext has the length of the plaintext.
\<close>

theorem aead_roundtrip:
  assumes "aead_laws A" and "aead_encrypt_in_place A a s key nonce ad x = Ok (c, t)"
  shows "aead_decrypt_in_place A a s key nonce ad t c = Ok x \<and> length c = length x \<and> length t = 16"
  using assms by (rule aead_laws.decrypt_encrypt)

theorem aead_roundtrip_witness:
  "\<exists>c t. aead_encrypt_in_place std_aead Aead_Gcm Sym_AES128 (replicate 16 1) (replicate 12 2) [9] [5, 6]
     = Ok (c, t)
   \<and> aead_decrypt_in_place std_aead Aead_Gcm Sym_AES128 (replicate 16 1) (replicate 12 2) [9] t c
     = Ok [5, 6]"
proof -
  have "aead_encrypt_in_place std_aead Aead_Gcm Sym_AES128 (replicate 16 1) (replicate 12 2) [9] [5, 6]
     = Ok (map NOT [5, 6], std_tag (replicate 16 1) (replicate 12 2) [9] (map NOT [5, 6]))"
    by (simp add: aead_encrypt_in_place_def aead_supported_def aead_key_len_def std_aead_def)
  from aead_roundtrip [OF std_aead.aead_laws_axioms this] this show ?thesis by blast
qed

end
