(* ===== verification/Pgp_Checksum.thy ===== *)
theory Pgp_Checksum
  imports Pgp_Algorithms
begin

text \<open>
  \<open>src/src/crypto/checksum.rs\<close>: the two-octet checksum that guards session keys and secret key
  material, as the streaming \<open>SimpleChecksum\<close> hasher, and the SHA-1 checksum. The hasher computes
  the sum of the octets modulo 65536, however the data is cut into chunks.
\<close>

section \<open>Model\<close>

type_synonym simple_checksum = u16

definition checksum_default :: simple_checksum where
  "checksum_default = 0"

text \<open>\<open>Hasher::write\<close>: a 32-bit sum of the buffer, added to the state and cut to 16 bits. The sum wraps as in a
  build without overflow checks; a build with them panics where it exceeds 32 bits, for a single buffer of more
  than \<open>2^24\<close> octets, which neither session keys nor secret key material reach.\<close>

definition checksum_write :: "simple_checksum \<Rightarrow> bytes \<Rightarrow> simple_checksum" where
  "checksum_write s buf =
     (let new_sum = sum_list (map (\<lambda>b. ucast b :: u32) buf) in
      ucast ((ucast s + new_sum) AND 0xffff))"

definition checksum_finish :: "simple_checksum \<Rightarrow> u64" where
  "checksum_finish s = ucast s"

definition checksum_to_writer :: "wire \<Rightarrow> simple_checksum \<Rightarrow> bytes" where
  "checksum_to_writer W s = write_u16 W s"

definition checksum_finalize :: "wire \<Rightarrow> simple_checksum \<Rightarrow> bytes" where
  "checksum_finalize W s = write_u16 W s"

definition calculate_simple :: "bytes \<Rightarrow> u16" where
  "calculate_simple d = ucast (checksum_finish (checksum_write checksum_default d))"

definition simple_to_writer :: "wire \<Rightarrow> bytes \<Rightarrow> bytes" where
  "simple_to_writer W d = checksum_to_writer W (checksum_write checksum_default d)"

text \<open>\<open>simple(actual, data)\<close>: \<open>&actual[..2]\<close> panics on a shorter slice.\<close>

definition simple :: "bytes \<Rightarrow> bytes \<Rightarrow> unit res" where
  "simple actual d =
     (if length actual < 2 then Panic
      else if take 2 actual = be16 (calculate_simple d) then Ok ()
      else Err (Message ''invalid simple checksum''))"

definition calculate_sha1 :: "hash_lib \<Rightarrow> bytes list \<Rightarrow> bytes res" where
  "calculate_sha1 H chunks =
     (if sha1_collision H (concat chunks) then Err Sha1HashCollision
      else Ok (hash_fun H Hash_SHA1 (concat chunks)))"

section \<open>The checksum is the octet sum modulo 65536\<close>

lemma sum_words: "sum_list (map (\<lambda>b. ucast b :: u32) d) = of_nat (sum_list (map unat d))"
proof (induction d)
  case (Cons b d)
  have "(ucast b :: u32) = of_nat (unat b)"
    by simp
  with Cons show ?case by simp
qed simp

lemma ucast_mask16: "(ucast ((x :: u32) AND 0xffff) :: u16) = ucast x"
proof -
  have "x AND 0xffff = take_bit 16 x"
    by (simp add: take_bit_eq_mask mask_eq_exp_minus_1)
  then show ?thesis
    by (intro bit_word_eqI) (simp add: bit_simps)
qed

lemma ucast_of_nat_16: "(ucast (of_nat n :: u32) :: u16) = of_nat n"
  by (rule bit_word_eqI) (auto simp: bit_simps)

lemma checksum_write_eq: "checksum_write s d = s + of_nat (sum_list (map unat d))"
proof -
  have "(ucast s :: u32) + of_nat n = of_nat (unat s + n)" for n
    by simp
  then show ?thesis
    by (simp only: checksum_write_def Let_def sum_words ucast_mask16 ucast_of_nat_16) simp
qed

lemma checksum_write_append:
  "checksum_write s (xs @ ys) = checksum_write (checksum_write s xs) ys"
  by (simp add: checksum_write_eq)

lemma calculate_simple_eq: "calculate_simple d = of_nat (sum_list (map unat d))"
proof -
  have "(ucast (ucast (x :: u16) :: u64) :: u16) = x" for x
    by (rule bit_word_eqI) (auto simp: bit_simps)
  then show ?thesis
    by (simp add: calculate_simple_def checksum_finish_def checksum_default_def checksum_write_eq)
qed

lemma simple_ok_iff: "simple actual d = Ok () \<longleftrightarrow> (\<exists>r. actual = be16 (calculate_simple d) @ r)"
proof -
  have "take 2 actual = be16 x \<longleftrightarrow> (\<exists>r. actual = be16 x @ r)" if "2 \<le> length actual" for x
    using that append_take_drop_id [of 2 actual] by (metis length_be16 append_eq_conv_conj)
  then show ?thesis
    by (auto simp: simple_def)
qed

text \<open>
  The streaming checksum, fed any sequence of chunks, holds the sum of all octets modulo 65536.
\<close>

theorem checksum_chunks:
  "unat (foldl checksum_write checksum_default chunks)
   = sum_list (map unat (concat chunks)) mod 65536"
proof -
  have "foldl checksum_write s chunks = checksum_write s (concat chunks)" for s
    by (induction chunks arbitrary: s) (simp_all add: checksum_write_append checksum_write_eq)
  then show ?thesis
    by (simp add: checksum_write_eq checksum_default_def unat_of_nat take_bit_eq_mod)
qed

text \<open>
  The check accepts exactly the byte strings that begin with the two big-endian bytes that
  \<open>simple_to_writer\<close> writes for the same data.
\<close>

theorem simple_accepts_written:
  assumes "wire_laws W"
  shows "simple actual d = Ok () \<longleftrightarrow> (\<exists>r. actual = simple_to_writer W d @ r)"
proof -
  have "simple_to_writer W d = be16 (calculate_simple d)"
    using wire_laws.write_u16_eq [OF assms]
    by (simp add: simple_to_writer_def checksum_to_writer_def calculate_simple_eq
        checksum_write_eq checksum_default_def)
  then show ?thesis by (simp add: simple_ok_iff)
qed

theorem simple_accepts_written_witness:
  "simple (simple_to_writer std_wire [200, 100] @ [5]) [200, 100] = Ok ()"
  using simple_accepts_written [OF std.wire_laws_axioms] by blast

end
