(* ===== verification/Pgp_Session_Keys.thy ===== *)
theory Pgp_Session_Keys
  imports Pgp_Chunks Pgp_Packets Pgp_S2k Pgp_Sym Pgp_Aead Pgp_Checksum
begin

text \<open>
  Session keys and encrypted data: the public-key and symmetric-key encrypted session key packets,
  the integrity protected data packet (\<open>public_key_encrypted_session_key.rs\<close>,
  \<open>sym_key_encrypted_session_key.rs\<close>, \<open>sym_encrypted_protected_data.rs\<close> under \<open>src/src/packet/\<close>) and
  the decryption of session keys (\<open>src/src/composed/message/decrypt.rs\<close>,
  \<open>src/src/types/secret_key_repr.rs\<close>). The asymmetric operations of a key are arguments.
\<close>

section \<open>Public-key encrypted session keys\<close>

record pkesk =
  pkesk_packet_version :: version
  pkesk_version :: u8
  pkesk_id :: key_id
  pkesk_algorithm :: pk_alg
  pkesk_mpis :: "mpi list"

definition pkesk_parse_mpis :: "wire \<Rightarrow> pk_alg \<Rightarrow> bytes \<Rightarrow> mpi list parsed" where
  "pkesk_parse_mpis W alg i =
     (case alg of
        Pk_RSA \<Rightarrow> pmap (\<lambda>v. [v]) (mpi_parse W i)
      | Pk_RSASign \<Rightarrow> pmap (\<lambda>v. [v]) (mpi_parse W i)
      | Pk_RSAEncrypt \<Rightarrow> pmap (\<lambda>v. [v]) (mpi_parse W i)
      | Pk_Elgamal \<Rightarrow> and_then (mpi_parse W i) (\<lambda>(i, a). pmap (\<lambda>b. [a, b]) (mpi_parse W i))
      | Pk_ElgamalSign \<Rightarrow> and_then (mpi_parse W i) (\<lambda>(i, a). pmap (\<lambda>b. [a, b]) (mpi_parse W i))
      | Pk_ECDSA \<Rightarrow> Ok (i, [])
      | Pk_DSA \<Rightarrow> Ok (i, [])
      | Pk_DiffieHellman \<Rightarrow> Ok (i, [])
      | Pk_ECDH \<Rightarrow>
          and_then (mpi_parse W i) (\<lambda>(i, a).
          and_then (be_u8 W i) (\<lambda>(i, blen).
          and_then (take_bytes W (unat blen) i) (\<lambda>(i, b). Ok (i, [a, [blen], mpi_from_slice b]))))
      | Pk_Unknown _ \<Rightarrow> Ok (i, [])
      | _ \<Rightarrow> Err (NomError (ParsingError KSwitch)))"

definition pkesk_parse :: "wire \<Rightarrow> version \<Rightarrow> bytes \<Rightarrow> pkesk parsed" where
  "pkesk_parse W v i =
     and_then (be_u8 W i) (\<lambda>(i, ver).
     and_then (pmap_res key_id_from_slice (take_bytes W 8 i)) (\<lambda>(i, k).
     and_then (pmap pk_alg_of_u8 (be_u8 W i)) (\<lambda>(i, alg).
     and_then (pkesk_parse_mpis W alg i) (\<lambda>(i, mpis).
       Ok (i, \<lparr>pkesk_packet_version = v, pkesk_version = ver, pkesk_id = k, pkesk_algorithm = alg,
               pkesk_mpis = mpis\<rparr>)))))"

definition pkesk_from_slice :: "wire \<Rightarrow> version \<Rightarrow> bytes \<Rightarrow> pkesk res" where
  "pkesk_from_slice W v i = and_then (run_parser (pkesk_parse W v i)) (\<lambda>pk.
     if pkesk_version pk \<noteq> 3 then Err (Unsupported ''unsupported PKESK version {}'') else Ok pk)"

text \<open>The data encrypted to the key: algorithm, session key, checksum.\<close>

definition session_key_data :: "bytes \<Rightarrow> sym_alg \<Rightarrow> bytes" where
  "session_key_data session_key alg =
     [sym_alg_to_u8 alg] @ session_key @ be16 (calculate_simple session_key)"

definition from_session_key ::
  "(bytes \<Rightarrow> mpi list res) \<Rightarrow> key_id \<Rightarrow> pk_alg \<Rightarrow> bytes \<Rightarrow> sym_alg \<Rightarrow> pkesk res" where
  "from_session_key encrypt k pa session_key alg =
     and_then (encrypt (session_key_data session_key alg)) (\<lambda>mpis.
       Ok \<lparr>pkesk_packet_version = version_default, pkesk_version = 3, pkesk_id = k,
           pkesk_algorithm = pa, pkesk_mpis = mpis\<rparr>)"

text \<open>The ECDH arm indexes the three values and underflows when the third is longer than announced.\<close>

definition pkesk_write_ecdh :: "wire \<Rightarrow> mpi list \<Rightarrow> bytes res" where
  "pkesk_write_ecdh W mpis =
     (if length mpis < 3 then Panic
      else
        let blen = (case mpis ! 1 of [] \<Rightarrow> 0 | l # _ \<Rightarrow> unat l); third = mpis ! 2 in
        if blen < length third then Panic
        else Ok (mpi_to_writer W (mpis ! 0) @ [of_nat blen] @ replicate (blen - length third) 0
                 @ third))"

definition pkesk_write_mpis :: "wire \<Rightarrow> pk_alg \<Rightarrow> mpi list \<Rightarrow> bytes res" where
  "pkesk_write_mpis W a mpis =
     (if a \<in> {Pk_RSA, Pk_RSASign, Pk_RSAEncrypt, Pk_Elgamal, Pk_ElgamalSign}
      then Ok (mpis_to_writer W mpis)
      else if a = Pk_ECDH then pkesk_write_ecdh W mpis
      else Err (Unimplemented ''writing {:?}''))"

definition pkesk_to_writer :: "wire \<Rightarrow> pkesk \<Rightarrow> bytes res" where
  "pkesk_to_writer W p =
     and_then (pkesk_write_mpis W (pkesk_algorithm p) (pkesk_mpis p)) (\<lambda>b.
       Ok ([pkesk_version p] @ pkesk_id p @ [pk_alg_to_u8 (pkesk_algorithm p)] @ b))"

definition pkesk_mpis_fit :: "pk_alg \<Rightarrow> mpi list \<Rightarrow> bool" where
  "pkesk_mpis_fit a ms \<longleftrightarrow>
     (if a \<in> {Pk_RSA, Pk_RSASign, Pk_RSAEncrypt} then length ms = 1 \<and> list_all mpi_ok ms
      else if a \<in> {Pk_Elgamal, Pk_ElgamalSign} then length ms = 2 \<and> list_all mpi_ok ms
      else a = Pk_ECDH \<and> length ms = 3 \<and> mpi_ok (ms ! 0) \<and> length (ms ! 2) < 256
        \<and> ms ! 1 = [of_nat (length (ms ! 2))])"

definition pkesk_ok :: "pkesk \<Rightarrow> bool" where
  "pkesk_ok p \<longleftrightarrow> pkesk_version p = 3 \<and> length (pkesk_id p) = 8
     \<and> pkesk_mpis_fit (pkesk_algorithm p) (pkesk_mpis p)"

section \<open>Recovering a session key\<close>

datatype plain_session_key =
    Plain_V4 sym_alg bytes
  | Plain_V5 bytes
  | Plain_V6 bytes

text \<open>
  \<open>SecretKeyRepr::decrypt\<close> for an RSA (\<open>ecdh\<close> false) or ECDH key: indexing and slicing out of range
  panics.
\<close>

definition repr_decrypt :: "bool \<Rightarrow> (mpi list \<Rightarrow> bytes res) \<Rightarrow> mpi list \<Rightarrow> (bytes \<times> sym_alg) res" where
  "repr_decrypt ecdh dec mpis =
     and_then (dec mpis) (\<lambda>decrypted_key.
     case decrypted_key of [] \<Rightarrow> Panic | b # _ \<Rightarrow>
       let alg = sym_alg_of_u8 b; len = length decrypted_key in
       if alg = Sym_Plaintext then Err (Message ''session key algorithm cannot be plaintext'')
       else if (if ecdh then len < 3 else len < key_size alg + 3) then Panic
       else
         let k = (if ecdh then take (len - 3) (drop 1 decrypted_key)
                  else take (key_size alg) (drop 1 decrypted_key));
             checksum = (if ecdh then drop (len - 2) decrypted_key
                  else take 2 (drop (key_size alg + 1) decrypted_key))
         in and_then (simple checksum k) (\<lambda>_. Ok (k, alg)))"

definition decrypt_session_key ::
  "bool \<Rightarrow> (mpi list \<Rightarrow> bytes res) \<Rightarrow> mpi list \<Rightarrow> plain_session_key res" where
  "decrypt_session_key ecdh dec mpis =
     map_ok (\<lambda>(key, alg). Plain_V4 alg key) (repr_decrypt ecdh dec mpis)"

section \<open>Symmetric-key encrypted session keys\<close>

datatype skesk =
    Skesk_V4 version sym_alg string_to_key "bytes option"
  | Skesk_V5 version sym_alg string_to_key aead_alg bytes bytes bytes
  | Skesk_V6 version sym_alg string_to_key aead_alg bytes bytes bytes

fun skesk_packet_version :: "skesk \<Rightarrow> version" where
  "skesk_packet_version (Skesk_V4 v _ _ _) = v"
| "skesk_packet_version (Skesk_V5 v _ _ _ _ _ _) = v"
| "skesk_packet_version (Skesk_V6 v _ _ _ _ _ _) = v"

fun skesk_sym_algorithm :: "skesk \<Rightarrow> sym_alg" where
  "skesk_sym_algorithm (Skesk_V4 _ a _ _) = a"
| "skesk_sym_algorithm (Skesk_V5 _ a _ _ _ _ _) = a"
| "skesk_sym_algorithm (Skesk_V6 _ a _ _ _ _ _) = a"

fun skesk_s2k :: "skesk \<Rightarrow> string_to_key" where
  "skesk_s2k (Skesk_V4 _ _ s _) = s"
| "skesk_s2k (Skesk_V5 _ _ s _ _ _ _) = s"
| "skesk_s2k (Skesk_V6 _ _ s _ _ _ _) = s"

fun skesk_encrypted_key :: "skesk \<Rightarrow> bytes option" where
  "skesk_encrypted_key (Skesk_V4 _ _ _ k) = k"
| "skesk_encrypted_key (Skesk_V5 _ _ _ _ _ _ k) = Some k"
| "skesk_encrypted_key (Skesk_V6 _ _ _ _ _ _ k) = Some k"

definition skesk_parse_v4 :: "wire \<Rightarrow> version \<Rightarrow> bytes \<Rightarrow> skesk parsed" where
  "skesk_parse_v4 W v i =
     and_then (pmap sym_alg_of_u8 (be_u8 W i)) (\<lambda>(i, alg).
     and_then (s2k_parser W i) (\<lambda>(i, s2k).
       Ok ([], Skesk_V4 v alg s2k (if i = [] then None else Some i))))"

text \<open>The two AEAD versions differ in the constructor only; \<open>l - tag_size\<close> underflows on short input.\<close>

definition skesk_parse_aead ::
  "wire \<Rightarrow> (sym_alg \<Rightarrow> string_to_key \<Rightarrow> aead_alg \<Rightarrow> bytes \<Rightarrow> bytes \<Rightarrow> bytes \<Rightarrow> skesk) \<Rightarrow> bytes
   \<Rightarrow> skesk parsed" where
  "skesk_parse_aead W mk i =
     and_then (be_u8 W i) (\<lambda>(i, count).
     and_then (pmap sym_alg_of_u8 (be_u8 W i)) (\<lambda>(i, alg).
     and_then (pmap aead_alg_of_u8 (be_u8 W i)) (\<lambda>(i, aead).
     and_then (be_u8 W i) (\<lambda>(i, s2k_len).
     and_then (s2k_parser W i) (\<lambda>(i, s2k).
     and_then (take_bytes W (iv_size aead) i) (\<lambda>(i, iv).
     let l = length i in
     if l < tag_size aead then Panic
     else and_then (take_bytes W (l - tag_size aead) i) (\<lambda>(i, esk).
       and_then (take_bytes W (tag_size aead) i) (\<lambda>(i, auth_tag).
         Ok (i, mk alg s2k aead iv auth_tag esk)))))))))"

definition skesk_parse :: "wire \<Rightarrow> version \<Rightarrow> bytes \<Rightarrow> skesk parsed" where
  "skesk_parse W v i = and_then (be_u8 W i) (\<lambda>(i, ver).
     if ver = 4 then skesk_parse_v4 W v i
     else if ver = 5 then skesk_parse_aead W (Skesk_V5 v) i
     else if ver = 6 then skesk_parse_aead W (Skesk_V6 v) i
     else Err (NomError (Unsupported ''Unsupported SKESK version {}'')))"

definition skesk_from_slice :: "wire \<Rightarrow> version \<Rightarrow> bytes \<Rightarrow> skesk res" where
  "skesk_from_slice W v i = run_parser (skesk_parse W v i)"

definition skesk_write_aead ::
  "u8 \<Rightarrow> sym_alg \<Rightarrow> string_to_key \<Rightarrow> aead_alg \<Rightarrow> bytes \<Rightarrow> bytes \<Rightarrow> bytes \<Rightarrow> bytes" where
  "skesk_write_aead ver alg s2k aead iv auth_tag key =
     (let buf = s2k_to_writer s2k;
          first_buf = [sym_alg_to_u8 alg, aead_alg_to_u8 aead, of_nat (length buf)] @ buf @ iv
      in [ver, of_nat (length first_buf)] @ first_buf @ key @ auth_tag)"

fun skesk_to_writer :: "skesk \<Rightarrow> bytes res" where
  "skesk_to_writer (Skesk_V4 _ alg s2k k) =
     Ok ([0x04, sym_alg_to_u8 alg] @ s2k_to_writer s2k
         @ (case k of Some key \<Rightarrow> key | None \<Rightarrow> []))"
| "skesk_to_writer (Skesk_V5 _ alg s2k aead iv auth_tag key) =
     Ok (skesk_write_aead 0x05 alg s2k aead iv auth_tag key)"
| "skesk_to_writer (Skesk_V6 _ alg s2k aead iv auth_tag key) =
     Ok (skesk_write_aead 0x06 alg s2k aead iv auth_tag key)"

definition skesk_aead_ok ::
  "sym_alg \<Rightarrow> string_to_key \<Rightarrow> aead_alg \<Rightarrow> bytes \<Rightarrow> bytes \<Rightarrow> bool" where
  "skesk_aead_ok alg s2k aead iv auth_tag \<longleftrightarrow>
     canonical_sym_alg alg \<and> canonical_aead_alg aead \<and> s2k_ok s2k \<and> s2k_delimited s2k
     \<and> length iv = iv_size aead \<and> length auth_tag = tag_size aead"

fun skesk_ok :: "skesk \<Rightarrow> bool" where
  "skesk_ok (Skesk_V4 _ alg s2k k) \<longleftrightarrow> canonical_sym_alg alg \<and> s2k_ok s2k \<and> k \<noteq> Some []
     \<and> (s2k_delimited s2k \<or> k = None)"
| "skesk_ok (Skesk_V5 _ alg s2k aead iv t _) \<longleftrightarrow> skesk_aead_ok alg s2k aead iv t"
| "skesk_ok (Skesk_V6 _ alg s2k aead iv t _) \<longleftrightarrow> skesk_aead_ok alg s2k aead iv t"

text \<open>\<open>decrypt\<close>: \<open>decrypted_key[0]\<close> panics on an empty key.\<close>

definition skesk_decrypt_aead ::
  "aead_lib \<Rightarrow> u8 \<Rightarrow> sym_alg \<Rightarrow> aead_alg \<Rightarrow> bytes \<Rightarrow> bytes \<Rightarrow> bytes \<Rightarrow> bytes \<Rightarrow> bytes res" where
  "skesk_decrypt_aead A ver alg aead iv auth_tag ikm esk =
     (let info = [tag_encode Tag_SymKeyEncryptedSessionKey, ver, sym_alg_to_u8 alg,
            aead_alg_to_u8 aead];
          okm = hkdf_sha256 A None ikm info 42
      in aead_decrypt_in_place A aead alg okm iv info auth_tag esk)"

fun skesk_decrypt ::
  "('s, 'z) cipher_lib_scheme \<Rightarrow> aead_lib \<Rightarrow> skesk \<Rightarrow> bytes \<Rightarrow> plain_session_key res" where
  "skesk_decrypt C A (Skesk_V4 _ alg _ ek) key =
     and_then (decrypt_with_iv_regular C alg key (replicate (block_size alg) 0)
       (case ek of Some k \<Rightarrow> k | None \<Rightarrow> [])) (\<lambda>d.
     case d of [] \<Rightarrow> Panic | b # k \<Rightarrow> Ok (Plain_V4 (sym_alg_of_u8 b) k))"
| "skesk_decrypt C A (Skesk_V5 _ alg _ aead iv t ek) key =
     map_ok Plain_V5 (skesk_decrypt_aead A 0x05 alg aead iv t key ek)"
| "skesk_decrypt C A (Skesk_V6 _ alg _ aead iv t ek) key =
     map_ok Plain_V6 (skesk_decrypt_aead A 0x06 alg aead iv t key ek)"

definition skesk_encrypt ::
  "hash_lib \<Rightarrow> (nat \<Rightarrow> nat \<Rightarrow> nat \<Rightarrow> nat \<Rightarrow> bytes \<Rightarrow> bytes \<Rightarrow> bytes option) \<Rightarrow> ('s, 'z) cipher_lib_scheme
   \<Rightarrow> bytes \<Rightarrow> bytes \<Rightarrow> string_to_key \<Rightarrow> sym_alg \<Rightarrow> skesk res" where
  "skesk_encrypt H argon2 C pw session_key s2k alg =
     (if \<not> uses_salt s2k then Err (Message ''Can not use an s2k algorithm without a salt: {:?}'')
      else and_then (derive_key H argon2 s2k pw (key_size alg)) (\<lambda>key.
        and_then (encrypt_with_iv_regular C alg key (replicate (block_size alg) 0)
          (sym_alg_to_u8 alg # session_key)) (\<lambda>encrypted_key.
          Ok (Skesk_V4 version_default alg s2k (Some encrypted_key)))))"

definition decrypt_session_key_with_password ::
  "hash_lib \<Rightarrow> (nat \<Rightarrow> nat \<Rightarrow> nat \<Rightarrow> nat \<Rightarrow> bytes \<Rightarrow> bytes \<Rightarrow> bytes option) \<Rightarrow> ('s, 'z) cipher_lib_scheme
   \<Rightarrow> aead_lib \<Rightarrow> skesk \<Rightarrow> bytes \<Rightarrow> plain_session_key res" where
  "decrypt_session_key_with_password H argon2 C A packet pw =
     (let alg = skesk_sym_algorithm packet in
      if alg = Sym_Plaintext then
        Err (Message ''SKESK packet encryption algorithm cannot be plaintext'')
      else and_then (derive_key H argon2 (skesk_s2k packet) pw (key_size alg)) (\<lambda>key.
        if skesk_encrypted_key packet = None then Ok (Plain_V4 alg key)
        else skesk_decrypt C A packet key))"

section \<open>Integrity protected data\<close>

datatype seipd_data =
    Seipd_V1 bytes
  | Seipd_V2 sym_alg aead_alg u8 bytes bytes

record seipd =
  seipd_packet_version :: version
  seipd_data :: seipd_data

definition seipd_parse :: "wire \<Rightarrow> bytes \<Rightarrow> seipd_data parsed" where
  "seipd_parse W i = and_then (be_u8 W i) (\<lambda>(i, ver).
     if ver = 1 then Ok ([], Seipd_V1 i)
     else if ver = 2 then
       and_then (pmap sym_alg_of_u8 (be_u8 W i)) (\<lambda>(i, alg).
       and_then (pmap aead_alg_of_u8 (be_u8 W i)) (\<lambda>(i, aead).
       and_then (be_u8 W i) (\<lambda>(i, chunk_size).
       and_then (take_bytes W 32 i) (\<lambda>(i, salt).
         Ok ([], Seipd_V2 alg aead chunk_size salt i)))))
     else Err (NomError (Unsupported ''unknown SymEncryptedProtecedData version {}'')))"

definition seipd_from_slice :: "wire \<Rightarrow> version \<Rightarrow> bytes \<Rightarrow> seipd res" where
  "seipd_from_slice W v input =
     (if length input > 1 then
        and_then (run_parser (seipd_parse W input)) (\<lambda>d.
          Ok \<lparr>seipd_packet_version = v, seipd_data = d\<rparr>)
      else Err (Message ''invalid input length''))"

fun seipd_write_data :: "seipd_data \<Rightarrow> bytes" where
  "seipd_write_data (Seipd_V1 data) = [0x01] @ data"
| "seipd_write_data (Seipd_V2 alg aead chunk_size salt data) =
     [0x02] @ [sym_alg_to_u8 alg, aead_alg_to_u8 aead, chunk_size] @ salt @ data"

definition seipd_to_writer :: "seipd \<Rightarrow> bytes res" where
  "seipd_to_writer p = Ok (seipd_write_data (seipd_data p))"

fun seipd_data_ok :: "seipd_data \<Rightarrow> bool" where
  "seipd_data_ok (Seipd_V1 data) \<longleftrightarrow> data \<noteq> []"
| "seipd_data_ok (Seipd_V2 alg aead _ salt _) \<longleftrightarrow>
     canonical_sym_alg alg \<and> canonical_aead_alg aead \<and> length salt = 32"

definition seipd_encrypt_with_rng ::
  "('s, 'z) cipher_lib_scheme \<Rightarrow> (nat \<Rightarrow> bytes) \<Rightarrow> sym_alg \<Rightarrow> bytes \<Rightarrow> bytes \<Rightarrow> seipd res" where
  "seipd_encrypt_with_rng C rng alg key plaintext =
     and_then (encrypt_protected_with_rng C alg rng key plaintext) (\<lambda>d.
       Ok \<lparr>seipd_packet_version = version_default, seipd_data = Seipd_V1 d\<rparr>)"

text \<open>\<open>1u32 << (s as u32 + 6)\<close>, which overflows for \<open>s\<close> above 25.\<close>

definition expand_chunk_size :: "u8 \<Rightarrow> nat res" where
  "expand_chunk_size s = (if unat s + 6 < 32 then Ok (2 ^ (unat s + 6)) else Panic)"

text \<open>The loop over the chunks: each is split before its tag and decrypted under its index.\<close>

fun seipd_open_chunks ::
  "aead_lib \<Rightarrow> aead_alg \<Rightarrow> sym_alg \<Rightarrow> bytes \<Rightarrow> bytes \<Rightarrow> bytes \<Rightarrow> nat \<Rightarrow> bytes list \<Rightarrow> (bytes \<times> nat) res" where
  "seipd_open_chunks A aead alg key iv info idx [] = Ok ([], idx)"
| "seipd_open_chunks A aead alg key iv info idx (c # cs) =
     (if length c < tag_size aead then Panic
      else
        let off = length c - tag_size aead in
        and_then (aead_decrypt_in_place A aead alg key (iv @ be64 (of_nat idx)) info (drop off c)
          (take off c)) (\<lambda>d.
        and_then (seipd_open_chunks A aead alg key iv info (Suc idx) cs) (\<lambda>(ds, n).
          Ok (d @ ds, n))))"

definition seipd_info :: "sym_alg \<Rightarrow> aead_alg \<Rightarrow> u8 \<Rightarrow> bytes" where
  "seipd_info alg aead chunk_size =
     [tag_encode Tag_SymEncryptedProtectedData, 0x02, sym_alg_to_u8 alg, aead_alg_to_u8 aead,
      chunk_size]"

definition seipd_decrypt_v2 ::
  "aead_lib \<Rightarrow> sym_alg \<Rightarrow> aead_alg \<Rightarrow> u8 \<Rightarrow> bytes \<Rightarrow> bytes \<Rightarrow> bytes \<Rightarrow> bytes res" where
  "seipd_decrypt_v2 A alg aead chunk_size salt data session_key =
     (let info = seipd_info alg aead chunk_size in
      and_then (expand_chunk_size chunk_size) (\<lambda>cs.
      let okm = hkdf_sha256 A (Some salt) session_key info 42;
          message_key = take (key_size alg) okm
      in if nonce_size aead < 8 then Panic
         else
           let raw_iv_len = nonce_size aead - 8;
               iv = take raw_iv_len (drop (key_size alg) okm)
           in if length data < tag_size aead then Panic
              else
                let off = length data - tag_size aead in
                and_then (seipd_open_chunks A aead alg message_key iv info 0
                  (chunks (cs + tag_size aead) (take off data))) (\<lambda>(out, n).
                and_then (aead_decrypt_in_place A aead alg message_key (iv @ be64 (of_nat n))
                  (info @ be64 (of_nat (length out))) (drop off data) []) (\<lambda>_.
                  Ok out))))"

definition seipd_decrypt ::
  "('s, 'z) cipher_lib_scheme \<Rightarrow> aead_lib \<Rightarrow> seipd \<Rightarrow> bytes \<Rightarrow> sym_alg option \<Rightarrow> bytes res" where
  "seipd_decrypt C A p session_key sym_alg =
     (case seipd_data p of
        Seipd_V1 data \<Rightarrow>
          (case sym_alg of None \<Rightarrow> Panic | Some a \<Rightarrow> decrypt_protected C a session_key data)
      | Seipd_V2 alg aead chunk_size salt data \<Rightarrow>
          seipd_decrypt_v2 A alg aead chunk_size salt data session_key)"

section \<open>The codecs meet the contract\<close>

context wire_laws
begin

lemma mpi_parse_mpis_1: "mpi_ok m \<Longrightarrow> mpi_parse W (mpis_to_writer W [m] @ r) = Ok (r, m)"
  by (simp add: mpis_to_writer_def)

lemma list_3: "length ms = 3 \<longleftrightarrow> (\<exists>a b c. ms = [a, b, c])"
  by (auto simp: length_Suc_conv numeral_3_eq_3)

lemma pkesk_mpis_roundtrip:
  assumes "pkesk_mpis_fit a ms"
  shows "\<exists>b. pkesk_write_mpis W a ms = Ok b \<and> pkesk_parse_mpis W a b = Ok ([], ms)"
proof (cases "a = Pk_ECDH")
  case True
  with assms obtain x c where ms: "ms = [x, [of_nat (length c)], c]" "mpi_ok x" "length c < 256"
    by (auto simp: pkesk_mpis_fit_def list_3)
  then show ?thesis
    by (simp add: True pkesk_write_mpis_def pkesk_write_ecdh_def pkesk_parse_mpis_def mpi_from_slice_def)
next
  case False
  have [simp]: "mpi_ok m \<Longrightarrow> mpi_parse W (mpi_to_writer W m) = Ok ([], m)" for m
    using mpi_parse_to_writer [of m "[]"] by simp
  from False assms show ?thesis
    by (auto simp: pkesk_write_mpis_def pkesk_mpis_fit_def pkesk_parse_mpis_def mpi_list_1 mpi_list_2 mpis_to_writer_def
        split: if_splits)
qed

lemma pkesk_roundtrip:
  assumes "pkesk_ok p"
  shows "\<exists>b. pkesk_to_writer W p = Ok b \<and> pkesk_from_slice W (pkesk_packet_version p) b = Ok p"
proof -
  have "canonical_pk_alg (pkesk_algorithm p)"
    using assms by (auto simp: pkesk_ok_def pkesk_mpis_fit_def canonical_def pk_alg_of_u8_def
        split: if_splits)
  then show ?thesis
    using assms pkesk_mpis_roundtrip [of "pkesk_algorithm p" "pkesk_mpis p"]
    by (auto simp: pkesk_to_writer_def pkesk_from_slice_def pkesk_parse_def pkesk_ok_def
        canonical_def simp del: and_then_eq_Ok)
qed

lemma s2k_parser_delimited:
  "s2k_ok s \<Longrightarrow> s2k_delimited s \<Longrightarrow> s2k_parser W (s2k_to_writer s @ r) = Ok (r, s)"
  by (rule s2k_parser_to_writer) simp_all

lemma skesk_aead_roundtrip:
  assumes "skesk_aead_ok alg s2k aead iv t"
  shows "skesk_parse_aead W mk (tl (skesk_write_aead ver alg s2k aead iv t key))
    = Ok ([], mk alg s2k aead iv t key)"
  using assms s2k_parser_delimited [of s2k]
  by (simp add: skesk_aead_ok_def skesk_parse_aead_def skesk_write_aead_def canonical_def Let_def
      del: and_then_eq_Ok)

lemma skesk_roundtrip:
  assumes "skesk_ok p"
  shows "\<exists>b. skesk_to_writer p = Ok b \<and> skesk_from_slice W (skesk_packet_version p) b = Ok p"
proof (cases p)
  case (Skesk_V4 v alg s2k k)
  with assms s2k_parser_to_writer [of s2k "case k of Some key \<Rightarrow> key | None \<Rightarrow> []"] show ?thesis
    by (cases k) (auto simp: skesk_from_slice_def skesk_parse_def skesk_parse_v4_def canonical_def)
next
  case (Skesk_V5 v alg s2k aead iv t key)
  with assms skesk_aead_roundtrip [of alg s2k aead iv t "Skesk_V5 v" 5 key] show ?thesis
    by (simp add: skesk_from_slice_def skesk_parse_def skesk_write_aead_def Let_def
        del: and_then_eq_Ok)
next
  case (Skesk_V6 v alg s2k aead iv t key)
  with assms skesk_aead_roundtrip [of alg s2k aead iv t "Skesk_V6 v" 6 key] show ?thesis
    by (simp add: skesk_from_slice_def skesk_parse_def skesk_write_aead_def Let_def
        del: and_then_eq_Ok)
qed

lemma seipd_roundtrip:
  assumes "seipd_data_ok (seipd_data p)"
  shows "\<exists>b. seipd_to_writer p = Ok b \<and> seipd_from_slice W (seipd_packet_version p) b = Ok p"
  using assms
  by (cases p; cases "seipd_data p")
    (auto simp: seipd_to_writer_def seipd_from_slice_def seipd_parse_def canonical_def
      Suc_le_eq simp del: and_then_eq_Ok)

end

sublocale wire_laws \<subseteq> pkesk: packet_codec "pkesk_from_slice W" "pkesk_to_writer W"
  pkesk_packet_version pkesk_ok
  by unfold_locales (rule pkesk_roundtrip)

sublocale wire_laws \<subseteq> skesk: packet_codec "skesk_from_slice W" skesk_to_writer
  skesk_packet_version skesk_ok
  by unfold_locales (rule skesk_roundtrip)

sublocale wire_laws \<subseteq> seipd: packet_codec "seipd_from_slice W" seipd_to_writer
  seipd_packet_version "\<lambda>p. seipd_data_ok (seipd_data p)"
  by unfold_locales (rule seipd_roundtrip)

section \<open>Session keys survive\<close>

lemma session_key_data_Cons:
  "session_key_data k a = sym_alg_to_u8 a # k @ be16 (calculate_simple k)"
  by (simp add: session_key_data_def)

lemma simple_be16 [simp]: "simple (be16 (calculate_simple k)) k = Ok ()"
  using simple_ok_iff [of "be16 (calculate_simple k)" k] by auto

lemma repr_decrypt_session_key_data:
  assumes "dec mpis = Ok (session_key_data k a)" "canonical_sym_alg a" "a \<noteq> Sym_Plaintext"
    and "\<not> ecdh \<longrightarrow> length k = key_size a"
  shows "repr_decrypt ecdh dec mpis = Ok (k, a)"
proof -
  have "sym_alg_of_u8 (sym_alg_to_u8 a) = a" using assms(2) by (simp add: canonical_def)
  then show ?thesis
    using assms by (cases ecdh) (simp_all add: repr_decrypt_def session_key_data_Cons Let_def)
qed

text \<open>
  A session key encrypted to a public key is recovered by the secret key: whenever the
  asymmetric decryption inverts the encryption, decrypting the packet made by
  \<open>from_session_key\<close> returns the session key and its algorithm, with the checksum verified on the
  way. RSA keys need a session key of the size of the algorithm.
\<close>

theorem session_key_roundtrip:
  assumes "encrypt (session_key_data k a) = Ok ms" and "dec ms = Ok (session_key_data k a)"
    and "canonical_sym_alg a" and "a \<noteq> Sym_Plaintext" and "\<not> ecdh \<longrightarrow> length k = key_size a"
  shows "\<exists>p. from_session_key encrypt kid pa k a = Ok p
    \<and> decrypt_session_key ecdh dec (pkesk_mpis p) = Ok (Plain_V4 a k)"
  using assms
  by (simp add: from_session_key_def decrypt_session_key_def repr_decrypt_session_key_data)

theorem session_key_roundtrip_witness:
  "\<exists>p. from_session_key (\<lambda>d. Ok [rev d]) [1, 2, 3, 4, 5, 6, 7, 8] Pk_RSA (replicate 16 3) Sym_AES128 = Ok p
    \<and> decrypt_session_key False (\<lambda>ms. Ok (rev (hd ms))) (pkesk_mpis p)
      = Ok (Plain_V4 Sym_AES128 (replicate 16 3))"
  using session_key_roundtrip [of "\<lambda>d. Ok [rev d]" "replicate 16 3" Sym_AES128
      "[rev (session_key_data (replicate 16 3) Sym_AES128)]" "\<lambda>ms. Ok (rev (hd ms))" False
      "[1, 2, 3, 4, 5, 6, 7, 8]" Pk_RSA]
  by (simp add: canonical_sym sym_alg_of_u8_def)

lemma decrypt_regular_encrypt:
  assumes "cipher_laws C" "encrypt_with_iv_regular C a key iv d = Ok e"
  shows "decrypt_with_iv_regular C a key iv e = Ok d"
proof -
  have inv: "cfb_encrypt C a key iv d = Some e \<Longrightarrow> cfb_decrypt C a key iv e = Some d"
    using cipher_laws.cfb_inverse [OF assms(1)] by blast
  with assms(2) show ?thesis
    by (auto simp: encrypt_with_iv_regular_def decrypt_with_iv_regular_def
        split: if_splits option.splits)
qed

lemma skesk_password_decrypts:
  assumes "cipher_laws C" "skesk_encrypt H argon2 C pw k s2k a = Ok p" "canonical_sym_alg a" "a \<noteq> Sym_Plaintext"
  shows "decrypt_session_key_with_password H argon2 C A p pw = Ok (Plain_V4 a k)"
proof -
  from assms(2) obtain key e where e: "derive_key H argon2 s2k pw (key_size a) = Ok key"
    "encrypt_with_iv_regular C a key (replicate (block_size a) 0) (sym_alg_to_u8 a # k) = Ok e"
    "p = Skesk_V4 version_default a s2k (Some e)"
    by (auto simp: skesk_encrypt_def split: if_splits)
  from decrypt_regular_encrypt [OF assms(1) e(2)] e assms(3,4) show ?thesis
    by (simp add: decrypt_session_key_with_password_def canonical_def)
qed

text \<open>
  A session key encrypted under a passphrase is recovered with the same passphrase: decrypting
  the packet that \<open>SymKeyEncryptedSessionKey::encrypt\<close> made, with the key derived from the same
  passphrase, returns the session key and its algorithm.
\<close>

theorem skesk_password_roundtrip:
  assumes "cipher_laws C" and "skesk_encrypt H argon2 C pw k s2k a = Ok p"
    and "canonical_sym_alg a" and "a \<noteq> Sym_Plaintext"
  shows "decrypt_session_key_with_password H argon2 C A p pw = Ok (Plain_V4 a k)"
  using assms by (rule skesk_password_decrypts)

theorem skesk_password_roundtrip_witness:
  "\<exists>p. skesk_encrypt std_hash (\<lambda>_ _ _ _ _ _. None) std_cipher [0x70] (replicate 16 3)
      (Salted Hash_SHA2_256 [1, 2, 3, 4, 5, 6, 7, 8]) Sym_AES128 = Ok p
    \<and> decrypt_session_key_with_password std_hash (\<lambda>_ _ _ _ _ _. None) std_cipher std_aead p [0x70]
      = Ok (Plain_V4 Sym_AES128 (replicate 16 3))"
proof -
  let ?s = "Salted Hash_SHA2_256 [1, 2, 3, 4, 5, 6, 7, 8]"
  have ok: "s2k_ok ?s" by (simp add: canonical_hash hash_alg_of_u8_def)
  have "\<exists>key. derive_key std_hash (\<lambda>_ _ _ _ _ _. None) ?s [0x70] 16 = Ok key"
    using std_hash.derive_key_hashed [OF _ ok, of Hash_SHA2_256 16 "\<lambda>_ _ _ _ _ _. None" "[0x70]"]
    by (auto simp: hash_supported_def digest_size_def std_hash_def)
  then obtain key where key: "derive_key std_hash (\<lambda>_ _ _ _ _ _. None) ?s [0x70] 16 = Ok key" ..
  then obtain p where p: "skesk_encrypt std_hash (\<lambda>_ _ _ _ _ _. None) std_cipher [0x70]
      (replicate 16 3) ?s Sym_AES128 = Ok p"
    by (simp add: skesk_encrypt_def encrypt_with_iv_regular_def cipher_supported_def std_cipher_def)
  from skesk_password_roundtrip [OF std_cipher.cipher_laws_axioms p, of std_aead] p show ?thesis
    by (simp add: canonical_sym sym_alg_of_u8_def)
qed

section \<open>Version 2 encrypted data\<close>

text \<open>
  The specification of the chunked stream: each chunk of the plaintext is sealed under its index,
  and a last tag over the total length is sealed under the number of chunks.
\<close>

function seipd_seal_chunks ::
  "aead_lib \<Rightarrow> aead_alg \<Rightarrow> sym_alg \<Rightarrow> bytes \<Rightarrow> bytes \<Rightarrow> bytes \<Rightarrow> nat \<Rightarrow> nat \<Rightarrow> bytes \<Rightarrow> (bytes \<times> nat) res" where
  "seipd_seal_chunks A aead alg key iv info cs idx pt =
     (if pt = [] \<or> cs = 0 then Ok ([], idx)
      else and_then (aead_encrypt_in_place A aead alg key (iv @ be64 (of_nat idx)) info (take cs pt)) (\<lambda>(c, t).
        and_then (seipd_seal_chunks A aead alg key iv info cs (Suc idx) (drop cs pt)) (\<lambda>(r, n).
          Ok (c @ t @ r, n))))"
  by pat_completeness auto
termination
  by (relation "measure (\<lambda>(A, aead, alg, key, iv, info, cs, idx, pt). length pt)") auto

declare seipd_seal_chunks.simps [simp del]

definition seipd_seal_v2 ::
  "aead_lib \<Rightarrow> sym_alg \<Rightarrow> aead_alg \<Rightarrow> u8 \<Rightarrow> bytes \<Rightarrow> bytes \<Rightarrow> bytes \<Rightarrow> bytes res" where
  "seipd_seal_v2 A alg aead chunk_size salt pt session_key =
     (let info = seipd_info alg aead chunk_size;
          okm = hkdf_sha256 A (Some salt) session_key info 42;
          key = take (key_size alg) okm;
          iv = take (nonce_size aead - 8) (drop (key_size alg) okm)
      in and_then (seipd_seal_chunks A aead alg key iv info (2 ^ (unat chunk_size + 6)) 0 pt) (\<lambda>(body, n).
         and_then (aead_encrypt_in_place A aead alg key (iv @ be64 (of_nat n))
           (info @ be64 (of_nat (length pt))) []) (\<lambda>(_, t). Ok (body @ t))))"

lemma aead_supported_tag: "aead_encrypt_in_place A aead alg key nonce ad x = Ok y \<Longrightarrow> tag_size aead = 16"
  by (auto simp: aead_encrypt_in_place_def aead_supported_def split: if_splits)

context aead_laws
begin

lemma seal_chunks_Nil:
  "seipd_seal_chunks A aead alg key iv info cs idx [] = Ok ([], idx)"
  by (simp add: seipd_seal_chunks.simps)

lemma open_seal_chunks:
  assumes "0 < cs" "tag_size aead = 16"
  shows "seipd_seal_chunks A aead alg key iv info cs idx pt = Ok (out, n)
    \<Longrightarrow> seipd_open_chunks A aead alg key iv info idx (chunks (cs + 16) out) = Ok (pt, n)"
proof (induction "length pt" arbitrary: pt idx out rule: less_induct)
  case less
  show ?case
  proof (cases "pt = []")
    case True
    with less.prems show ?thesis by (simp add: seal_chunks_Nil)
  next
    case False
    with less.prems assms(1) obtain c t r where ct:
      "aead_encrypt_in_place A aead alg key (iv @ be64 (of_nat idx)) info (take cs pt) = Ok (c, t)"
      "seipd_seal_chunks A aead alg key iv info cs (Suc idx) (drop cs pt) = Ok (r, n)"
      "out = c @ t @ r"
      by (subst (asm) seipd_seal_chunks.simps) auto
    note d = decrypt_encrypt [OF ct(1)]
    have "length (drop cs pt) < length pt" using False assms(1) by simp
    note ih = less.hyps [OF this ct(2)]
    have "length (c @ t) = cs + 16 \<or> (length (c @ t) \<le> cs + 16 \<and> r = [])"
    proof (cases "cs \<le> length pt")
      case False
      then have "r = []" using ct(2) by (simp add: seal_chunks_Nil)
      with d False show ?thesis by simp
    qed (use d in simp)
    moreover have "c @ t \<noteq> []" using d by auto
    ultimately have "chunks (cs + 16) ((c @ t) @ r) = (c @ t) # chunks (cs + 16) r"
      using assms(1) by (intro chunks_Cons) auto
    then show ?thesis
      using ct(3) d ih assms(2) by simp
  qed
qed

lemma decrypt_seal_v2:
  assumes "seipd_seal_v2 A alg aead chunk_size salt pt k = Ok data" "unat chunk_size < 26"
  shows "seipd_decrypt_v2 A alg aead chunk_size salt data k = Ok pt"
proof -
  define info where "info = seipd_info alg aead chunk_size"
  define okm where "okm = hkdf_sha256 A (Some salt) k info 42"
  define key where "key = take (key_size alg) okm"
  define iv where "iv = take (nonce_size aead - 8) (drop (key_size alg) okm)"
  define cs where "cs = (2 :: nat) ^ (unat chunk_size + 6)"
  from assms(1) obtain body n c t where b:
    "seipd_seal_chunks A aead alg key iv info cs 0 pt = Ok (body, n)"
    "aead_encrypt_in_place A aead alg key (iv @ be64 (of_nat n)) (info @ be64 (of_nat (length pt))) []
      = Ok (c, t)" "data = body @ t"
    by (auto simp: seipd_seal_v2_def Let_def info_def okm_def key_def iv_def cs_def)
  note d = decrypt_encrypt [OF b(2)] and tag = aead_supported_tag [OF b(2)]
  have "0 < cs" by (simp add: cs_def)
  note o = open_seal_chunks [OF this tag b(1)]
  have ns: "\<not> nonce_size aead < 8" using tag by (cases aead) auto
  have "expand_chunk_size chunk_size = Ok cs"
    using assms(2) by (simp add: expand_chunk_size_def cs_def)
  with ns o d tag show ?thesis
    unfolding seipd_decrypt_v2_def Let_def info_def [symmetric] okm_def [symmetric] b(3)
    by (auto simp: key_def [symmetric] iv_def [symmetric])
qed

end

text \<open>
  C34. Decryption of version 2 protected data inverts the chunked AEAD encryption: a stream made of
  sealed chunks and the final tag, under the keys derived from the session key and salt, is
  decrypted to exactly the plaintext, for every chunk size octet below 26.
\<close>

theorem seipd_v2_decrypt_correct:
  assumes "aead_laws A" and "seipd_seal_v2 A alg aead chunk_size salt pt k = Ok data"
    and "unat chunk_size < 26"
  shows "seipd_decrypt C A \<lparr>seipd_packet_version = v,
      seipd_data = Seipd_V2 alg aead chunk_size salt data\<rparr> k sym_alg = Ok pt"
  using aead_laws.decrypt_seal_v2 [OF assms] by (simp add: seipd_decrypt_def)

theorem seipd_v2_decrypt_correct_witness:
  "\<exists>data. seipd_seal_v2 std_aead Sym_AES128 Aead_Ocb 0 (replicate 32 1) (replicate 70 5) (replicate 16 9)
      = Ok data \<and> length data = 118
    \<and> seipd_decrypt std_cipher std_aead \<lparr>seipd_packet_version = New,
        seipd_data = Seipd_V2 Sym_AES128 Aead_Ocb 0 (replicate 32 1) data\<rparr> (replicate 16 9) None
      = Ok (replicate 70 5)"
proof -
  obtain data where d: "seipd_seal_v2 std_aead Sym_AES128 Aead_Ocb 0 (replicate 32 1) (replicate 70 5)
      (replicate 16 9) = Ok data" "length data = 118"
    by (simp add: seipd_seal_v2_def Let_def seipd_seal_chunks.simps aead_encrypt_in_place_def
        aead_supported_def aead_key_len_def std_aead_def std_tag_def)
  with seipd_v2_decrypt_correct [OF std_aead.aead_laws_axioms d(1), of std_cipher New None] show ?thesis
    by simp
qed

text \<open>
  Well-formed but hostile protected data panics instead of failing: version 2 data with a chunk
  size octet of 26 or more, with an AEAD algorithm the library does not know, or shorter than an
  authentication tag, and version 1 data when the session key carries no algorithm.
\<close>

theorem seipd_decrypt_panics:
  assumes "26 \<le> unat chunk_size \<or> nonce_size aead < 8 \<or> length data < tag_size aead"
  shows "seipd_decrypt C A \<lparr>seipd_packet_version = v,
      seipd_data = Seipd_V2 alg aead chunk_size salt data\<rparr> k sym_alg = Panic
    \<and> seipd_decrypt C A \<lparr>seipd_packet_version = v, seipd_data = Seipd_V1 data\<rparr> k None = Panic"
proof -
  have "seipd_decrypt_v2 A alg aead chunk_size salt data k = Panic"
    using assms by (auto simp: seipd_decrypt_v2_def Let_def expand_chunk_size_def and_then_eq_Panic)
  then show ?thesis by (simp add: seipd_decrypt_def)
qed

theorem seipd_decrypt_panics_witness:
  "seipd_decrypt std_cipher std_aead \<lparr>seipd_packet_version = New,
      seipd_data = Seipd_V2 Sym_AES128 Aead_Gcm 26 (replicate 32 1) (replicate 16 5)\<rparr> [] None = Panic"
  using seipd_decrypt_panics [of 26 Aead_Gcm "replicate 16 5" std_cipher std_aead New Sym_AES128
      "replicate 32 1" "[]" None] by simp

context wire_laws
begin

lemma pkesk_from_slice_no_mpis:
  assumes "length k = 8"
    and "pk_alg_of_u8 a \<in> {Pk_DSA, Pk_ECDSA, Pk_DiffieHellman} \<union> range Pk_Unknown"
  shows "pkesk_from_slice W v (3 # k @ a # data) =
    Ok \<lparr>pkesk_packet_version = v, pkesk_version = 3, pkesk_id = k,
        pkesk_algorithm = pk_alg_of_u8 a, pkesk_mpis = []\<rparr>"
proof -
  have "pkesk_parse_mpis W (pk_alg_of_u8 a) data = Ok (data, [])"
    using assms(2) by (auto simp: pkesk_parse_mpis_def)
  with assms(1) show ?thesis
    by (simp add: pkesk_from_slice_def pkesk_parse_def del: and_then_eq_Ok)
qed

lemma skesk_short_tag_panics:
  assumes "s2k_ok s2k" "s2k_delimited s2k" "length iv = iv_size (aead_alg_of_u8 a)"
    "length r < tag_size (aead_alg_of_u8 a)"
  shows "skesk_from_slice W v ([5, n, s, a, m] @ s2k_to_writer s2k @ iv @ r) = Panic"
  using assms s2k_parser_delimited [OF assms(1,2)]
  by (simp add: skesk_from_slice_def skesk_parse_def skesk_parse_aead_def Let_def)

end

text \<open>
  Some packets can be read but not written: a version 3 public-key encrypted session key of
  algorithm DSA, ECDSA, Diffie-Hellman or an unknown one parses, with its data dropped, and writing
  it back is an error.
\<close>

theorem pkesk_unwritable:
  assumes "wire_laws W" and "length k = 8"
    and "pk_alg_of_u8 a \<in> {Pk_DSA, Pk_ECDSA, Pk_DiffieHellman} \<union> range Pk_Unknown"
  shows "\<exists>p. pkesk_from_slice W v (3 # k @ a # data) = Ok p \<and> pkesk_mpis p = []
    \<and> pkesk_to_writer W p = Err (Unimplemented ''writing {:?}'')"
  using wire_laws.pkesk_from_slice_no_mpis [OF assms] assms(3)
  by (auto simp: pkesk_to_writer_def pkesk_write_mpis_def)

theorem pkesk_unwritable_witness:
  "\<exists>p. pkesk_from_slice std_wire New (3 # [1, 2, 3, 4, 5, 6, 7, 8] @ 17 # [0, 8, 255]) = Ok p
    \<and> pkesk_mpis p = [] \<and> pkesk_to_writer std_wire p = Err (Unimplemented ''writing {:?}'')"
  by (rule pkesk_unwritable [OF std.wire_laws_axioms]) (simp_all add: pk_alg_of_u8_def)

text \<open>
  A version 5 symmetric-key encrypted session key that ends before its authentication tag is
  complete makes the parser panic: the remaining length minus the tag size underflows.
\<close>

theorem skesk_truncated_tag_panics:
  assumes "wire_laws W" and "s2k_ok s2k" and "s2k_delimited s2k"
    and "length iv = iv_size (aead_alg_of_u8 a)" and "length r < tag_size (aead_alg_of_u8 a)"
  shows "skesk_from_slice W v ([5, n, s, a, m] @ s2k_to_writer s2k @ iv @ r) = Panic"
  using assms by (rule wire_laws.skesk_short_tag_panics)

theorem skesk_truncated_tag_panics_witness:
  "skesk_from_slice std_wire New ([5, 0, 7, 3, 0] @ s2k_to_writer (Simple Hash_SHA1)
     @ replicate 12 1 @ [9]) = Panic"
  by (rule skesk_truncated_tag_panics [OF std.wire_laws_axioms])
    (simp_all add: canonical_hash hash_alg_of_u8_def aead_alg_of_u8_def)

end
