(* ===== verification/Pgp_Public_Key.thy ===== *)
theory Pgp_Public_Key
  imports Pgp_Packets
begin

text \<open>
  Public keys: the curve registry and its object identifiers (\<open>src/src/crypto/ecc_curve.rs\<close>), the
  public parameters of the algorithms (\<open>src/src/types/params/public.rs\<close>), the parser of public key
  packets (\<open>src/src/packet/public_key_parser.rs\<close>) and the packet, fingerprint and key id of
  \<open>src/src/packet/public_key_macro.rs\<close>, one model for keys and subkeys. The object identifier crate
  and the point decoding of the curve crates are parameters; an \<open>ObjectIdentifier\<close> is its bytes, a
  public key of a curve crate the bytes of its point.
\<close>

section \<open>Curves\<close>

datatype ecc_curve =
    Curve25519
  | Ed25519
  | P256
  | P384
  | P521
  | BrainpoolP256r1
  | BrainpoolP384r1
  | BrainpoolP512r1
  | Secp256k1
  | Curve_Unknown bytes

record curve_lib =
  oid_valid :: "bytes \<Rightarrow> bool"
  oid_to_string :: "bytes \<Rightarrow> string"
  sec1_key :: "ecc_curve \<Rightarrow> bytes \<Rightarrow> bytes option"

fun curve_name :: "ecc_curve \<Rightarrow> string" where
  "curve_name Curve25519 = ''Curve25519''"
| "curve_name Ed25519 = ''Ed25519''"
| "curve_name P256 = ''NIST P-256''"
| "curve_name P384 = ''NIST P-384''"
| "curve_name P521 = ''NIST P-521''"
| "curve_name BrainpoolP256r1 = ''brainpoolP256r1''"
| "curve_name BrainpoolP384r1 = ''brainpoolP384r1''"
| "curve_name BrainpoolP512r1 = ''brainpoolP512r1''"
| "curve_name Secp256k1 = ''secp256k1''"
| "curve_name (Curve_Unknown _) = ''unknown''"

fun oid_str :: "('a) curve_lib_scheme \<Rightarrow> ecc_curve \<Rightarrow> string" where
  "oid_str L Curve25519 = ''1.3.6.1.4.1.3029.1.5.1''"
| "oid_str L Ed25519 = ''1.3.6.1.4.1.11591.15.1''"
| "oid_str L P256 = ''1.2.840.10045.3.1.7''"
| "oid_str L P384 = ''1.3.132.0.34''"
| "oid_str L P521 = ''1.3.132.0.35''"
| "oid_str L BrainpoolP256r1 = ''1.3.36.3.3.2.8.1.1.7''"
| "oid_str L BrainpoolP384r1 = ''1.3.36.3.3.2.8.1.1.11''"
| "oid_str L BrainpoolP512r1 = ''1.3.36.3.3.2.8.1.1.13''"
| "oid_str L Secp256k1 = ''1.3.132.0.10''"
| "oid_str L (Curve_Unknown oid) = oid_to_string L oid"

fun nbits :: "ecc_curve \<Rightarrow> u16" where
  "nbits Curve25519 = 255"
| "nbits Ed25519 = 255"
| "nbits P256 = 256"
| "nbits P384 = 384"
| "nbits P521 = 521"
| "nbits BrainpoolP256r1 = 256"
| "nbits BrainpoolP384r1 = 384"
| "nbits BrainpoolP512r1 = 512"
| "nbits Secp256k1 = 256"
| "nbits (Curve_Unknown _) = 0"

fun secret_key_length :: "ecc_curve \<Rightarrow> nat" where
  "secret_key_length Curve25519 = 32"
| "secret_key_length Ed25519 = 32"
| "secret_key_length P256 = 32"
| "secret_key_length P384 = 48"
| "secret_key_length P521 = 66"
| "secret_key_length BrainpoolP256r1 = 32"
| "secret_key_length BrainpoolP384r1 = 48"
| "secret_key_length BrainpoolP512r1 = 64"
| "secret_key_length Secp256k1 = 32"
| "secret_key_length (Curve_Unknown _) = 0"

fun curve_alias :: "ecc_curve \<Rightarrow> string option" where
  "curve_alias Curve25519 = Some ''cv25519''"
| "curve_alias Ed25519 = Some ''ed25519''"
| "curve_alias P256 = Some ''nistp256''"
| "curve_alias P384 = Some ''nistp384''"
| "curve_alias P521 = Some ''nistp521''"
| "curve_alias _ = None"

fun pubkey_algo :: "ecc_curve \<Rightarrow> pk_alg option" where
  "pubkey_algo Curve25519 = Some Pk_ECDH"
| "pubkey_algo Ed25519 = Some Pk_EdDSA"
| "pubkey_algo _ = None"

fun curve_hash_algo :: "ecc_curve \<Rightarrow> hash_alg res" where
  "curve_hash_algo P384 = Ok Hash_SHA2_384"
| "curve_hash_algo BrainpoolP384r1 = Ok Hash_SHA2_384"
| "curve_hash_algo P521 = Ok Hash_SHA2_512"
| "curve_hash_algo BrainpoolP512r1 = Ok Hash_SHA2_512"
| "curve_hash_algo (Curve_Unknown _) = Err (Unsupported ''no default hash_algo for curve {:?}'')"
| "curve_hash_algo _ = Ok Hash_SHA2_256"

fun curve_sym_algo :: "ecc_curve \<Rightarrow> sym_alg res" where
  "curve_sym_algo P384 = Ok Sym_AES192"
| "curve_sym_algo BrainpoolP384r1 = Ok Sym_AES192"
| "curve_sym_algo P521 = Ok Sym_AES256"
| "curve_sym_algo BrainpoolP512r1 = Ok Sym_AES256"
| "curve_sym_algo (Curve_Unknown _) = Err (Unsupported ''no default sym_algo for curve {:?}'')"
| "curve_sym_algo _ = Ok Sym_AES128"

section \<open>Object identifiers\<close>

text \<open>\<open>str::split('.')\<close> and \<open>str::parse::<u32>\<close> of the standard library.\<close>

fun split_dot :: "string \<Rightarrow> string list" where
  "split_dot [] = [[]]"
| "split_dot (c # s) =
     (if c = CHR ''.'' then [] # split_dot s
      else case split_dot s of [] \<Rightarrow> [[c]] | w # ws \<Rightarrow> (c # w) # ws)"

definition digit_value :: "char \<Rightarrow> nat option" where
  "digit_value c = (let n = of_char c in if 48 \<le> n \<and> n \<le> 57 then Some (n - 48) else None)"

fun parse_digits :: "nat \<Rightarrow> string \<Rightarrow> nat option" where
  "parse_digits acc [] = Some acc"
| "parse_digits acc (c # s) =
     (case digit_value c of None \<Rightarrow> None | Some d \<Rightarrow>
        if acc * 10 + d < 2 ^ 32 then parse_digits (acc * 10 + d) s else None)"

definition parse_u32 :: "string \<Rightarrow> u32 option" where
  "parse_u32 s = (if s = [] then None else map_option of_nat (parse_digits 0 s))"

fun parse_all :: "string list \<Rightarrow> u32 list res" where
  "parse_all [] = Ok []"
| "parse_all (w # ws) =
     (case parse_u32 w of None \<Rightarrow> Panic | Some n \<Rightarrow> map_ok ((#) n) (parse_all ws))"

text \<open>The loop prepends base-128 digits, all but the last with the high bit set.\<close>

function asn1_loop :: "u32 \<Rightarrow> bytes \<Rightarrow> bytes" where
  "asn1_loop v acc =
     (if v = 0 then acc else asn1_loop (drop_bit 7 v) (ucast (0x80 OR (v AND 0x7f)) # acc))"
  by pat_completeness auto
termination
proof (relation "measure (\<lambda>(v, acc). unat v)")
  fix v :: u32 and acc :: bytes
  assume "v \<noteq> 0"
  then have "0 < unat v" by (simp add: unat_gt_0)
  then show "((drop_bit 7 v, ucast (0x80 OR (v AND 0x7f)) # acc), v, acc) \<in> measure (\<lambda>(v, acc). unat v)"
    by (simp add: drop_bit_eq_div unat_div)
qed simp

declare asn1_loop.simps [simp del]

definition asn1_der_object_id_val_enc :: "u32 \<Rightarrow> bytes" where
  "asn1_der_object_id_val_enc v = asn1_loop (drop_bit 7 v) [ucast (v AND 0x7f)]"

text \<open>\<open>id.remove(0) * 40 + id.remove(0)\<close>: missing components and an overflow panic.\<close>

definition curve_oid :: "('a) curve_lib_scheme \<Rightarrow> ecc_curve \<Rightarrow> bytes res" where
  "curve_oid L c = and_then (parse_all (split_dot (oid_str L c))) (\<lambda>ids.
     case ids of
       a # b # r \<Rightarrow>
         if unat a * 40 + unat b < 2 ^ 32 then
           Ok (concat (map asn1_der_object_id_val_enc ((a * 40 + b) # r)))
         else Panic
     | _ \<Rightarrow> Panic)"

definition known_curves :: "ecc_curve list" where
  "known_curves = [Curve25519, Ed25519, P256, P384, P521, BrainpoolP256r1, BrainpoolP384r1,
     BrainpoolP512r1, Secp256k1]"

text \<open>The comparisons of \<open>ecc_curve_from_oid\<close> in the order of the source.\<close>

definition ecc_curve_from_oid :: "('a) curve_lib_scheme \<Rightarrow> bytes \<Rightarrow> ecc_curve option" where
  "ecc_curve_from_oid L oid =
     (case filter (\<lambda>c. curve_oid L c = Ok oid) known_curves of
        c # _ \<Rightarrow> Some c
      | [] \<Rightarrow> if oid_valid L oid then Some (Curve_Unknown oid) else None)"

text \<open>The encodings of the components that occur.\<close>

lemma asn1_enc_components:
  "asn1_der_object_id_val_enc 0 = [0]"
  "asn1_der_object_id_val_enc 1 = [1]"
  "asn1_der_object_id_val_enc 2 = [2]"
  "asn1_der_object_id_val_enc 3 = [3]"
  "asn1_der_object_id_val_enc 4 = [4]"
  "asn1_der_object_id_val_enc 5 = [5]"
  "asn1_der_object_id_val_enc 6 = [6]"
  "asn1_der_object_id_val_enc 7 = [7]"
  "asn1_der_object_id_val_enc 8 = [8]"
  "asn1_der_object_id_val_enc 10 = [10]"
  "asn1_der_object_id_val_enc 11 = [11]"
  "asn1_der_object_id_val_enc 13 = [13]"
  "asn1_der_object_id_val_enc 15 = [15]"
  "asn1_der_object_id_val_enc 34 = [34]"
  "asn1_der_object_id_val_enc 35 = [35]"
  "asn1_der_object_id_val_enc 36 = [36]"
  "asn1_der_object_id_val_enc 42 = [42]"
  "asn1_der_object_id_val_enc 43 = [43]"
  "asn1_der_object_id_val_enc 132 = [129, 4]"
  "asn1_der_object_id_val_enc 840 = [134, 72]"
  "asn1_der_object_id_val_enc 3029 = [151, 85]"
  "asn1_der_object_id_val_enc 10045 = [206, 61]"
  "asn1_der_object_id_val_enc 11591 = [218, 71]"
  by code_simp+

lemma parse_components:
  "parse_u32 ''0'' = Some 0"
  "parse_u32 ''1'' = Some 1"
  "parse_u32 ''2'' = Some 2"
  "parse_u32 ''3'' = Some 3"
  "parse_u32 ''4'' = Some 4"
  "parse_u32 ''5'' = Some 5"
  "parse_u32 ''6'' = Some 6"
  "parse_u32 ''7'' = Some 7"
  "parse_u32 ''8'' = Some 8"
  "parse_u32 ''10'' = Some 10"
  "parse_u32 ''11'' = Some 11"
  "parse_u32 ''13'' = Some 13"
  "parse_u32 ''15'' = Some 15"
  "parse_u32 ''34'' = Some 34"
  "parse_u32 ''35'' = Some 35"
  "parse_u32 ''36'' = Some 36"
  "parse_u32 ''132'' = Some 132"
  "parse_u32 ''840'' = Some 840"
  "parse_u32 ''3029'' = Some 3029"
  "parse_u32 ''10045'' = Some 10045"
  "parse_u32 ''11591'' = Some 11591"
  by (simp_all add: parse_u32_def digit_value_def)

lemma split_dot_known:
  "split_dot ''1.3.6.1.4.1.3029.1.5.1'' = [''1'', ''3'', ''6'', ''1'', ''4'', ''1'', ''3029'', ''1'', ''5'', ''1'']"
  "split_dot ''1.3.6.1.4.1.11591.15.1'' = [''1'', ''3'', ''6'', ''1'', ''4'', ''1'', ''11591'', ''15'', ''1'']"
  "split_dot ''1.2.840.10045.3.1.7'' = [''1'', ''2'', ''840'', ''10045'', ''3'', ''1'', ''7'']"
  "split_dot ''1.3.132.0.34'' = [''1'', ''3'', ''132'', ''0'', ''34'']"
  "split_dot ''1.3.132.0.35'' = [''1'', ''3'', ''132'', ''0'', ''35'']"
  "split_dot ''1.3.36.3.3.2.8.1.1.7'' = [''1'', ''3'', ''36'', ''3'', ''3'', ''2'', ''8'', ''1'', ''1'', ''7'']"
  "split_dot ''1.3.36.3.3.2.8.1.1.11'' = [''1'', ''3'', ''36'', ''3'', ''3'', ''2'', ''8'', ''1'', ''1'', ''11'']"
  "split_dot ''1.3.36.3.3.2.8.1.1.13'' = [''1'', ''3'', ''36'', ''3'', ''3'', ''2'', ''8'', ''1'', ''1'', ''13'']"
  "split_dot ''1.3.132.0.10'' = [''1'', ''3'', ''132'', ''0'', ''10'']"
  by simp_all

lemma parse_known:
  "parse_all (split_dot (oid_str L Curve25519)) = Ok [1, 3, 6, 1, 4, 1, 3029, 1, 5, 1]"
  "parse_all (split_dot (oid_str L Ed25519)) = Ok [1, 3, 6, 1, 4, 1, 11591, 15, 1]"
  "parse_all (split_dot (oid_str L P256)) = Ok [1, 2, 840, 10045, 3, 1, 7]"
  "parse_all (split_dot (oid_str L P384)) = Ok [1, 3, 132, 0, 34]"
  "parse_all (split_dot (oid_str L P521)) = Ok [1, 3, 132, 0, 35]"
  "parse_all (split_dot (oid_str L BrainpoolP256r1)) = Ok [1, 3, 36, 3, 3, 2, 8, 1, 1, 7]"
  "parse_all (split_dot (oid_str L BrainpoolP384r1)) = Ok [1, 3, 36, 3, 3, 2, 8, 1, 1, 11]"
  "parse_all (split_dot (oid_str L BrainpoolP512r1)) = Ok [1, 3, 36, 3, 3, 2, 8, 1, 1, 13]"
  "parse_all (split_dot (oid_str L Secp256k1)) = Ok [1, 3, 132, 0, 10]"
  by (simp_all only: oid_str.simps split_dot_known parse_all.simps parse_components option.case
      map_ok.simps)

lemma curve_oid_known:
  "curve_oid L Curve25519 = Ok [0x2B, 0x06, 0x01, 0x04, 0x01, 0x97, 0x55, 0x01, 0x05, 0x01]"
  "curve_oid L Ed25519 = Ok [0x2B, 0x06, 0x01, 0x04, 0x01, 0xDA, 0x47, 0x0F, 0x01]"
  "curve_oid L P256 = Ok [0x2A, 0x86, 0x48, 0xCE, 0x3D, 0x03, 0x01, 0x07]"
  "curve_oid L P384 = Ok [0x2B, 0x81, 0x04, 0x00, 0x22]"
  "curve_oid L P521 = Ok [0x2B, 0x81, 0x04, 0x00, 0x23]"
  "curve_oid L BrainpoolP256r1 = Ok [0x2B, 0x24, 0x03, 0x03, 0x02, 0x08, 0x01, 0x01, 0x07]"
  "curve_oid L BrainpoolP384r1 = Ok [0x2B, 0x24, 0x03, 0x03, 0x02, 0x08, 0x01, 0x01, 0x0B]"
  "curve_oid L BrainpoolP512r1 = Ok [0x2B, 0x24, 0x03, 0x03, 0x02, 0x08, 0x01, 0x01, 0x0D]"
  "curve_oid L Secp256k1 = Ok [0x2B, 0x81, 0x04, 0x00, 0x0A]"
  unfolding curve_oid_def parse_known by (simp_all add: asn1_enc_components)

lemma from_oid_known:
  "ecc_curve_from_oid L [0x2B, 0x06, 0x01, 0x04, 0x01, 0x97, 0x55, 0x01, 0x05, 0x01] = Some Curve25519"
  "ecc_curve_from_oid L [0x2B, 0x06, 0x01, 0x04, 0x01, 0xDA, 0x47, 0x0F, 0x01] = Some Ed25519"
  "ecc_curve_from_oid L [0x2A, 0x86, 0x48, 0xCE, 0x3D, 0x03, 0x01, 0x07] = Some P256"
  "ecc_curve_from_oid L [0x2B, 0x81, 0x04, 0x00, 0x22] = Some P384"
  "ecc_curve_from_oid L [0x2B, 0x81, 0x04, 0x00, 0x23] = Some P521"
  "ecc_curve_from_oid L [0x2B, 0x24, 0x03, 0x03, 0x02, 0x08, 0x01, 0x01, 0x07] = Some BrainpoolP256r1"
  "ecc_curve_from_oid L [0x2B, 0x24, 0x03, 0x03, 0x02, 0x08, 0x01, 0x01, 0x0B] = Some BrainpoolP384r1"
  "ecc_curve_from_oid L [0x2B, 0x24, 0x03, 0x03, 0x02, 0x08, 0x01, 0x01, 0x0D] = Some BrainpoolP512r1"
  "ecc_curve_from_oid L [0x2B, 0x81, 0x04, 0x00, 0x0A] = Some Secp256k1"
  unfolding ecc_curve_from_oid_def known_curves_def filter.simps curve_oid_known by simp_all

lemma ecc_curve_from_oid_known:
  assumes "c \<in> set known_curves"
  shows "\<exists>oid. curve_oid L c = Ok oid \<and> length oid < 256 \<and> ecc_curve_from_oid L oid = Some c"
proof -
  from assms have "c = Curve25519 \<or> c = Ed25519 \<or> c = P256 \<or> c = P384 \<or> c = P521
    \<or> c = BrainpoolP256r1 \<or> c = BrainpoolP384r1 \<or> c = BrainpoolP512r1 \<or> c = Secp256k1"
    by (simp add: known_curves_def)
  then show ?thesis by (elim disjE) (simp_all add: curve_oid_known from_oid_known)
qed

section \<open>Public parameters\<close>

datatype ecdsa_public_params =
    Ecdsa_P256 bytes mpi
  | Ecdsa_P384 bytes mpi
  | Ecdsa_P521 bytes mpi
  | Ecdsa_Secp256k1 bytes mpi
  | Ecdsa_Unsupported ecc_curve mpi

datatype public_params =
    Pub_RSA mpi mpi
  | Pub_DSA mpi mpi mpi mpi
  | Pub_ECDSA ecdsa_public_params
  | Pub_ECDH ecc_curve mpi hash_alg sym_alg
  | Pub_Elgamal mpi mpi mpi
  | Pub_EdDSA ecc_curve mpi
  | Pub_Unknown bytes

text \<open>
  The point is padded with zeros on the right to the size of an uncompressed point before it is
  decoded.
\<close>

definition ecdsa_point ::
  "('a) curve_lib_scheme \<Rightarrow> ecc_curve \<Rightarrow> nat \<Rightarrow> (bytes \<Rightarrow> mpi \<Rightarrow> ecdsa_public_params) \<Rightarrow> mpi
   \<Rightarrow> ecdsa_public_params res" where
  "ecdsa_point L c n mk p =
     (if length p \<le> n then
        (case sec1_key L c (p @ replicate (n - length p) 0) of
           None \<Rightarrow> Err EllipticCurve | Some key \<Rightarrow> Ok (mk key p))
      else Err (Message ''invalid public key length''))"

definition ecdsa_try_from_mpi ::
  "('a) curve_lib_scheme \<Rightarrow> mpi \<Rightarrow> ecc_curve \<Rightarrow> ecdsa_public_params res" where
  "ecdsa_try_from_mpi L p c =
     (case c of
        P256 \<Rightarrow> ecdsa_point L P256 65 Ecdsa_P256 p
      | P384 \<Rightarrow> ecdsa_point L P384 97 Ecdsa_P384 p
      | P521 \<Rightarrow> ecdsa_point L P521 133 Ecdsa_P521 p
      | Secp256k1 \<Rightarrow> ecdsa_point L Secp256k1 65 Ecdsa_Secp256k1 p
      | _ \<Rightarrow> Ok (Ecdsa_Unsupported c p))"

fun ecdsa_secret_key_length :: "ecdsa_public_params \<Rightarrow> nat option" where
  "ecdsa_secret_key_length (Ecdsa_P256 _ _) = Some 32"
| "ecdsa_secret_key_length (Ecdsa_P384 _ _) = Some 48"
| "ecdsa_secret_key_length (Ecdsa_P521 _ _) = Some 66"
| "ecdsa_secret_key_length (Ecdsa_Secp256k1 _ _) = Some 32"
| "ecdsa_secret_key_length (Ecdsa_Unsupported _ _) = None"

fun ecdsa_curve :: "ecdsa_public_params \<Rightarrow> ecc_curve" where
  "ecdsa_curve (Ecdsa_P256 _ _) = P256"
| "ecdsa_curve (Ecdsa_P384 _ _) = P384"
| "ecdsa_curve (Ecdsa_P521 _ _) = P521"
| "ecdsa_curve (Ecdsa_Secp256k1 _ _) = Secp256k1"
| "ecdsa_curve (Ecdsa_Unsupported c _) = c"

fun ecdsa_mpi :: "ecdsa_public_params \<Rightarrow> mpi" where
  "ecdsa_mpi (Ecdsa_P256 _ p) = p"
| "ecdsa_mpi (Ecdsa_P384 _ p) = p"
| "ecdsa_mpi (Ecdsa_P521 _ p) = p"
| "ecdsa_mpi (Ecdsa_Secp256k1 _ p) = p"
| "ecdsa_mpi (Ecdsa_Unsupported _ p) = p"

text \<open>A curve identifier and a point, as three of the algorithms write them.\<close>

definition write_curve_point :: "wire \<Rightarrow> ('a) curve_lib_scheme \<Rightarrow> ecc_curve \<Rightarrow> mpi \<Rightarrow> bytes res" where
  "write_curve_point W L c p = and_then (curve_oid L c) (\<lambda>oid.
     Ok ([of_nat (length oid)] @ oid @ mpi_to_writer W p))"

definition ecdsa_to_writer :: "wire \<Rightarrow> ('a) curve_lib_scheme \<Rightarrow> ecdsa_public_params \<Rightarrow> bytes res" where
  "ecdsa_to_writer W L e = write_curve_point W L (ecdsa_curve e) (ecdsa_mpi e)"

fun public_params_to_writer :: "wire \<Rightarrow> ('a) curve_lib_scheme \<Rightarrow> public_params \<Rightarrow> bytes res" where
  "public_params_to_writer W L (Pub_RSA n e) = Ok (mpis_to_writer W [n, e])"
| "public_params_to_writer W L (Pub_DSA p q g y) = Ok (mpis_to_writer W [p, q, g, y])"
| "public_params_to_writer W L (Pub_ECDSA e) = ecdsa_to_writer W L e"
| "public_params_to_writer W L (Pub_ECDH c p h a) =
     and_then (write_curve_point W L c p) (\<lambda>b.
       Ok (b @ [0x03, 0x01, hash_alg_to_u8 h, sym_alg_to_u8 a]))"
| "public_params_to_writer W L (Pub_Elgamal p g y) = Ok (mpis_to_writer W [p, g, y])"
| "public_params_to_writer W L (Pub_EdDSA c q) = write_curve_point W L c q"
| "public_params_to_writer W L (Pub_Unknown data) = Ok data"

section \<open>Parsing public keys\<close>

definition parse_curve :: "wire \<Rightarrow> ('a) curve_lib_scheme \<Rightarrow> bytes \<Rightarrow> ecc_curve parsed" where
  "parse_curve W L i = pmap_opt (ecc_curve_from_oid L) (length_data8 W i)"

definition pub_ecdsa :: "wire \<Rightarrow> ('a) curve_lib_scheme \<Rightarrow> bytes \<Rightarrow> public_params parsed" where
  "pub_ecdsa W L i =
     and_then (parse_curve W L i) (\<lambda>(i, c).
     and_then (mpi_parse W i) (\<lambda>(i, p).
     and_then (map_err nom_of_error (ecdsa_try_from_mpi L p c)) (\<lambda>e. Ok (i, Pub_ECDSA e))))"

definition pub_eddsa :: "wire \<Rightarrow> ('a) curve_lib_scheme \<Rightarrow> bytes \<Rightarrow> public_params parsed" where
  "pub_eddsa W L i =
     and_then (parse_curve W L i) (\<lambda>(i, c). pmap (Pub_EdDSA c) (mpi_parse W i))"

definition pub_ecdh :: "wire \<Rightarrow> ('a) curve_lib_scheme \<Rightarrow> bytes \<Rightarrow> public_params parsed" where
  "pub_ecdh W L i =
     and_then (parse_curve W L i) (\<lambda>(i, c).
     and_then (mpi_parse W i) (\<lambda>(i, p).
     and_then (be_u8 W i) (\<lambda>(i, len2).
     and_then (tag_bytes W [1] i) (\<lambda>(i, _).
     and_then (pmap hash_alg_of_u8 (be_u8 W i)) (\<lambda>(i, h).
     and_then (pmap sym_alg_of_u8 (be_u8 W i)) (\<lambda>(i, a). Ok (i, Pub_ECDH c p h a)))))))"

definition pub_elgamal :: "wire \<Rightarrow> bytes \<Rightarrow> public_params parsed" where
  "pub_elgamal W i =
     and_then (mpi_parse W i) (\<lambda>(i, p). and_then (mpi_parse W i) (\<lambda>(i, g).
     pmap (Pub_Elgamal p g) (mpi_parse W i)))"

definition pub_dsa :: "wire \<Rightarrow> bytes \<Rightarrow> public_params parsed" where
  "pub_dsa W i =
     and_then (mpi_parse W i) (\<lambda>(i, p). and_then (mpi_parse W i) (\<lambda>(i, q).
     and_then (mpi_parse W i) (\<lambda>(i, g). pmap (Pub_DSA p q g) (mpi_parse W i))))"

definition pub_rsa :: "wire \<Rightarrow> bytes \<Rightarrow> public_params parsed" where
  "pub_rsa W i = and_then (mpi_parse W i) (\<lambda>(i, n). pmap (Pub_RSA n) (mpi_parse W i))"

definition pub_unknown :: "bytes \<Rightarrow> public_params parsed" where
  "pub_unknown i = Ok (i, Pub_Unknown [])"

definition parse_pub_fields :: "wire \<Rightarrow> ('a) curve_lib_scheme \<Rightarrow> pk_alg \<Rightarrow> bytes \<Rightarrow> public_params parsed" where
  "parse_pub_fields W L alg i =
     (case alg of
        Pk_RSA \<Rightarrow> pub_rsa W i
      | Pk_RSAEncrypt \<Rightarrow> pub_rsa W i
      | Pk_RSASign \<Rightarrow> pub_rsa W i
      | Pk_DSA \<Rightarrow> pub_dsa W i
      | Pk_ECDSA \<Rightarrow> pub_ecdsa W L i
      | Pk_ECDH \<Rightarrow> pub_ecdh W L i
      | Pk_Elgamal \<Rightarrow> pub_elgamal W i
      | Pk_ElgamalSign \<Rightarrow> pub_elgamal W i
      | Pk_EdDSA \<Rightarrow> pub_eddsa W L i
      | _ \<Rightarrow> pub_unknown i)"

record public_key =
  key_packet_version :: version
  key_version :: key_version
  key_algorithm :: pk_alg
  key_created_at :: int
  key_expiration :: "u16 option"
  key_public_params :: public_params

definition new_public_key_parser ::
  "wire \<Rightarrow> ('a) curve_lib_scheme \<Rightarrow> key_version \<Rightarrow> bytes
   \<Rightarrow> (key_version \<times> pk_alg \<times> int \<times> u16 option \<times> public_params) parsed" where
  "new_public_key_parser W L kv i =
     and_then (pmap_opt (datetime_from_timestamp W) (be_u32 W i)) (\<lambda>(i, created).
     and_then (pmap pk_alg_of_u8 (be_u8 W i)) (\<lambda>(i, alg).
     and_then (parse_pub_fields W L alg i) (\<lambda>(i, params).
       Ok (i, (kv, alg, created, None, params)))))"

definition old_public_key_parser ::
  "wire \<Rightarrow> ('a) curve_lib_scheme \<Rightarrow> key_version \<Rightarrow> bytes
   \<Rightarrow> (key_version \<times> pk_alg \<times> int \<times> u16 option \<times> public_params) parsed" where
  "old_public_key_parser W L kv i =
     and_then (pmap_opt (datetime_from_timestamp W) (be_u32 W i)) (\<lambda>(i, created).
     and_then (be_u16 W i) (\<lambda>(i, exp).
     and_then (pmap pk_alg_of_u8 (be_u8 W i)) (\<lambda>(i, alg).
     and_then (parse_pub_fields W L alg i) (\<lambda>(i, params).
       Ok (i, (kv, alg, created, Some exp, params))))))"

definition public_key_parse ::
  "wire \<Rightarrow> ('a) curve_lib_scheme \<Rightarrow> bytes
   \<Rightarrow> (key_version \<times> pk_alg \<times> int \<times> u16 option \<times> public_params) parsed" where
  "public_key_parse W L i =
     and_then (pmap key_version_of_u8 (be_u8 W i)) (\<lambda>(i, kv).
       if kv = KV2 \<or> kv = KV3 then old_public_key_parser W L kv i
       else if kv = KV4 then new_public_key_parser W L kv i
       else Err (NomError (Unsupported ''Unsupported key version {}'')))"

definition public_key_new ::
  "version \<Rightarrow> key_version \<Rightarrow> pk_alg \<Rightarrow> int \<Rightarrow> u16 option \<Rightarrow> public_params \<Rightarrow> public_key res" where
  "public_key_new pv v alg created expiration params =
     (if (v = KV2 \<or> v = KV3) \<and> alg \<notin> {Pk_RSA, Pk_RSAEncrypt, Pk_RSASign} then
        Err (Unsupported ''Invalid algorithm {:?} for key version: {:?}'')
      else Ok \<lparr>key_packet_version = pv, key_version = v, key_algorithm = alg,
              key_created_at = created, key_expiration = expiration, key_public_params = params\<rparr>)"

definition public_key_from_slice :: "wire \<Rightarrow> ('a) curve_lib_scheme \<Rightarrow> version \<Rightarrow> bytes \<Rightarrow> public_key res" where
  "public_key_from_slice W L pv i =
     and_then (run_parser (public_key_parse W L i)) (\<lambda>(v, alg, created, expiration, params).
       public_key_new pv v alg created expiration params)"

section \<open>Writing public keys\<close>

definition key_to_writer_old :: "wire \<Rightarrow> ('a) curve_lib_scheme \<Rightarrow> public_key \<Rightarrow> bytes res" where
  "key_to_writer_old W L k =
     (case key_expiration k of None \<Rightarrow> Panic | Some exp \<Rightarrow>
        and_then (public_params_to_writer W L (key_public_params k)) (\<lambda>b.
          Ok (write_u32 W (word_of_int (key_created_at k)) @ write_u16 W exp
              @ [pk_alg_to_u8 (key_algorithm k)] @ b)))"

definition key_to_writer_new :: "wire \<Rightarrow> ('a) curve_lib_scheme \<Rightarrow> public_key \<Rightarrow> bytes res" where
  "key_to_writer_new W L k =
     and_then (public_params_to_writer W L (key_public_params k)) (\<lambda>b.
       Ok (write_u32 W (word_of_int (key_created_at k)) @ [pk_alg_to_u8 (key_algorithm k)] @ b))"

definition public_key_to_writer :: "wire \<Rightarrow> ('a) curve_lib_scheme \<Rightarrow> public_key \<Rightarrow> bytes res" where
  "public_key_to_writer W L k =
     (case key_version k of
        KV2 \<Rightarrow> map_ok (\<lambda>b. key_version_to_u8 (key_version k) # b) (key_to_writer_old W L k)
      | KV3 \<Rightarrow> map_ok (\<lambda>b. key_version_to_u8 (key_version k) # b) (key_to_writer_old W L k)
      | KV4 \<Rightarrow> map_ok (\<lambda>b. key_version_to_u8 (key_version k) # b) (key_to_writer_new W L k)
      | KV5 \<Rightarrow> Err (Unimplemented ''V5 keys'')
      | KVOther _ \<Rightarrow> Err (Unimplemented ''Unsupported key version {}''))"

section \<open>Fingerprint and key id\<close>

definition fingerprint :: "hash_lib \<Rightarrow> wire \<Rightarrow> ('a) curve_lib_scheme \<Rightarrow> public_key \<Rightarrow> bytes res" where
  "fingerprint H W L k =
     (case public_params_to_writer W L (key_public_params k) of
        Ok params \<Rightarrow>
          (case key_version k of
             KV2 \<Rightarrow> Ok (hash_fun H Hash_MD5 params)
           | KV3 \<Rightarrow> Ok (hash_fun H Hash_MD5 params)
           | KV4 \<Rightarrow>
               (let packet = [4] @ be32 (word_of_int (key_created_at k))
                      @ [pk_alg_to_u8 (key_algorithm k)] @ params
                in Ok (hash_fun H Hash_SHA1 ([0x99] @ write_u16 W (of_nat (length packet)) @ packet)))
           | _ \<Rightarrow> Panic)
      | _ \<Rightarrow> Panic)"

definition key_id :: "hash_lib \<Rightarrow> wire \<Rightarrow> ('a) curve_lib_scheme \<Rightarrow> public_key \<Rightarrow> key_id res" where
  "key_id H W L k =
     (case key_version k of
        KV4 \<Rightarrow> and_then (fingerprint H W L k) (\<lambda>f.
          if length f < 8 then Panic else Ok (drop (length f - 8) f))
      | KV5 \<Rightarrow> Panic
      | KVOther _ \<Rightarrow> Panic
      | _ \<Rightarrow>
          (case key_public_params k of
             Pub_RSA n _ \<Rightarrow> if length n < 8 then Panic else Ok (drop (length n - 8) n)
           | _ \<Rightarrow> Panic))"

text \<open>\<open>PublicKeyTrait::to_writer_old\<close>: the form in which a key is hashed into signatures.\<close>

definition key_hash_form :: "wire \<Rightarrow> ('a) curve_lib_scheme \<Rightarrow> public_key \<Rightarrow> bytes res" where
  "key_hash_form W L k = and_then (public_key_to_writer W L k) (\<lambda>b.
     Ok ([0x99, of_nat (length b div 256), of_nat (length b)] @ b))"

section \<open>Which keys survive a round trip\<close>

definition known_curve :: "ecc_curve \<Rightarrow> bool" where
  "known_curve c \<longleftrightarrow> c \<in> set known_curves"

definition ecdsa_ok :: "('a) curve_lib_scheme \<Rightarrow> ecdsa_public_params \<Rightarrow> bool" where
  "ecdsa_ok L e \<longleftrightarrow> known_curve (ecdsa_curve e) \<and> mpi_ok (ecdsa_mpi e)
     \<and> ecdsa_try_from_mpi L (ecdsa_mpi e) (ecdsa_curve e) = Ok e"

fun params_ok :: "('a) curve_lib_scheme \<Rightarrow> pk_alg \<Rightarrow> public_params \<Rightarrow> bool" where
  "params_ok L a (Pub_RSA n e) \<longleftrightarrow>
     a \<in> {Pk_RSA, Pk_RSAEncrypt, Pk_RSASign} \<and> list_all mpi_ok [n, e]"
| "params_ok L a (Pub_DSA p q g y) \<longleftrightarrow> a = Pk_DSA \<and> list_all mpi_ok [p, q, g, y]"
| "params_ok L a (Pub_ECDSA e) \<longleftrightarrow> a = Pk_ECDSA \<and> ecdsa_ok L e"
| "params_ok L a (Pub_ECDH c p h s) \<longleftrightarrow>
     a = Pk_ECDH \<and> known_curve c \<and> mpi_ok p \<and> canonical_hash_alg h \<and> canonical_sym_alg s"
| "params_ok L a (Pub_Elgamal p g y) \<longleftrightarrow> a \<in> {Pk_Elgamal, Pk_ElgamalSign} \<and> list_all mpi_ok [p, g, y]"
| "params_ok L a (Pub_EdDSA c q) \<longleftrightarrow> a = Pk_EdDSA \<and> known_curve c \<and> mpi_ok q"
| "params_ok L a (Pub_Unknown data) \<longleftrightarrow> data = [] \<and> canonical_pk_alg a
     \<and> a \<notin> {Pk_RSA, Pk_RSAEncrypt, Pk_RSASign, Pk_DSA, Pk_ECDSA, Pk_ECDH, Pk_Elgamal, Pk_ElgamalSign,
         Pk_EdDSA}"

definition public_key_ok :: "('a) curve_lib_scheme \<Rightarrow> public_key \<Rightarrow> bool" where
  "public_key_ok L k \<longleftrightarrow> in_u32 (key_created_at k)
     \<and> params_ok L (key_algorithm k) (key_public_params k)
     \<and> (case key_version k of
          KV2 \<Rightarrow> key_expiration k \<noteq> None \<and> key_algorithm k \<in> {Pk_RSA, Pk_RSAEncrypt, Pk_RSASign}
        | KV3 \<Rightarrow> key_expiration k \<noteq> None \<and> key_algorithm k \<in> {Pk_RSA, Pk_RSAEncrypt, Pk_RSASign}
        | KV4 \<Rightarrow> key_expiration k = None
        | _ \<Rightarrow> False)"

lemma params_ok_canonical: "params_ok L a p \<Longrightarrow> canonical_pk_alg a"
  by (cases p) (auto simp: canonical_def pk_alg_of_u8_def)

context wire_laws
begin

lemma parse_curve_point:
  assumes "known_curve c" "mpi_ok p" "write_curve_point W L c p = Ok b"
  shows "parse_curve W L (b @ r) = Ok (mpi_to_writer W p @ r, c)"
proof -
  from ecc_curve_from_oid_known [of c L] assms obtain oid where "curve_oid L c = Ok oid"
    "length oid < 256" "ecc_curve_from_oid L oid = Some c" by (auto simp: known_curve_def)
  with assms(3) show ?thesis by (auto simp: write_curve_point_def parse_curve_def)
qed

lemma write_curve_point_Ok: "known_curve c \<Longrightarrow> \<exists>b. write_curve_point W L c p = Ok b"
  using ecc_curve_from_oid_known [of c L] by (auto simp: write_curve_point_def known_curve_def)

lemma params_roundtrip:
  assumes "params_ok L a p"
  shows "\<exists>b. public_params_to_writer W L p = Ok b
    \<and> (\<forall>r. parse_pub_fields W L a (b @ r) = Ok (r, p))"
proof (cases p)
  case (Pub_ECDSA e)
  with assms obtain b where b: "write_curve_point W L (ecdsa_curve e) (ecdsa_mpi e) = Ok b"
    using write_curve_point_Ok [of "ecdsa_curve e" L "ecdsa_mpi e"] by (auto simp: ecdsa_ok_def)
  with Pub_ECDSA assms parse_curve_point [OF _ _ b] show ?thesis
    by (auto simp: ecdsa_ok_def ecdsa_to_writer_def parse_pub_fields_def pub_ecdsa_def
        simp del: and_then_eq_Ok)
next
  case (Pub_ECDH c q h s)
  with assms obtain b where b: "write_curve_point W L c q = Ok b"
    using write_curve_point_Ok [of c L q] by auto
  have "tag_bytes W [1] (1 # r) = Ok (r, [1])" for r using tag_match [of "[1]" r] by simp
  with Pub_ECDH assms parse_curve_point [OF _ _ b] b show ?thesis
    by (auto simp: parse_pub_fields_def pub_ecdh_def canonical_def simp del: and_then_eq_Ok)
next
  case (Pub_EdDSA c q)
  with assms obtain b where b: "write_curve_point W L c q = Ok b"
    using write_curve_point_Ok [of c L q] by auto
  with Pub_EdDSA assms parse_curve_point [OF _ _ b] show ?thesis
    by (auto simp: parse_pub_fields_def pub_eddsa_def simp del: and_then_eq_Ok)
next
  case (Pub_Unknown data)
  with assms show ?thesis
    by (cases a) (auto simp: parse_pub_fields_def pub_unknown_def)
qed (use assms in \<open>auto simp: parse_pub_fields_def pub_rsa_def pub_dsa_def pub_elgamal_def
      mpis_to_writer_def simp del: and_then_eq_Ok\<close>)

lemma public_key_parse_roundtrip:
  assumes "public_key_ok L k"
  shows "\<exists>b. public_key_to_writer W L k = Ok b
    \<and> (\<forall>r. public_key_parse W L (b @ r) = Ok (r, (key_version k, key_algorithm k, key_created_at k,
         key_expiration k, key_public_params k)))"
proof -
  from assms have p: "params_ok L (key_algorithm k) (key_public_params k)" "in_u32 (key_created_at k)"
    by (auto simp: public_key_ok_def)
  from params_roundtrip [OF p(1)] obtain b where b:
    "public_params_to_writer W L (key_public_params k) = Ok b"
    "\<And>r. parse_pub_fields W L (key_algorithm k) (b @ r) = Ok (r, key_public_params k)" by blast
  note c = params_ok_canonical [OF p(1), unfolded canonical_def]
  show ?thesis
    using assms b p(2) c
    by (cases "key_version k")
      (auto simp: public_key_ok_def public_key_to_writer_def key_to_writer_old_def
        key_to_writer_new_def public_key_parse_def key_version_of_u8_def old_public_key_parser_def
        new_public_key_parser_def simp del: and_then_eq_Ok)
qed

lemma public_key_new_ok:
  "public_key_ok L k \<Longrightarrow> public_key_new (key_packet_version k) (key_version k) (key_algorithm k)
     (key_created_at k) (key_expiration k) (key_public_params k) = Ok k"
  by (cases "key_version k") (auto simp: public_key_ok_def public_key_new_def)

lemma public_key_codec_roundtrip:
  assumes "public_key_ok L k"
  shows "\<exists>b. public_key_to_writer W L k = Ok b
    \<and> public_key_from_slice W L (key_packet_version k) b = Ok k"
proof -
  from public_key_parse_roundtrip [OF assms] obtain b where b: "public_key_to_writer W L k = Ok b"
    "public_key_parse W L (b @ []) = Ok ([], (key_version k, key_algorithm k, key_created_at k,
         key_expiration k, key_public_params k))" by blast
  with public_key_new_ok [OF assms] show ?thesis
    by (simp add: public_key_from_slice_def del: and_then_eq_Ok)
qed

lemma be16_of_length: "[of_nat (n div 256), of_nat n] = be16 (of_nat n)"
proof -
  have "n div 256 = drop_bit 8 n" by (simp add: drop_bit_eq_div)
  then have "(ucast (drop_bit 8 (of_nat n :: u16)) :: u8) = of_nat (n div 256)"
    by (intro bit_word_eqI) (auto simp: bit_simps)
  moreover have "(ucast (of_nat n :: u16) :: u8) = of_nat n"
    by (rule bit_word_eqI) (simp add: bit_simps)
  ultimately show ?thesis by (simp add: be16_def)
qed

lemma fingerprint_v4:
  assumes "key_version k = KV4"
  shows "fingerprint H W L k = (case key_hash_form W L k of Ok b \<Rightarrow> Ok (hash_fun H Hash_SHA1 b) | _ \<Rightarrow> Panic)"
  using assms be16_of_length
  by (cases "public_params_to_writer W L (key_public_params k)")
    (simp_all add: fingerprint_def key_hash_form_def public_key_to_writer_def key_to_writer_new_def
      Let_def)

end

sublocale wire_laws \<subseteq> public_key: packet_codec "public_key_from_slice W L" "public_key_to_writer W L"
  key_packet_version "public_key_ok L" for L
  by unfold_locales (rule public_key_codec_roundtrip)

section \<open>Properties\<close>

text \<open>
  The curve registry round-trips: for each of the nine known curves, the object identifier
  computed from its dotted string is recognised as that curve, so that no two curves share an
  identifier.
\<close>

theorem curve_oid_roundtrip:
  assumes "c \<in> set known_curves"
  shows "\<exists>oid. curve_oid L c = Ok oid \<and> ecc_curve_from_oid L oid = Some c"
  using ecc_curve_from_oid_known [OF assms, of L] by blast

theorem curve_oid_roundtrip_witness:
  "\<exists>oid. curve_oid \<lparr>oid_valid = (\<lambda>_. True), oid_to_string = (\<lambda>_. []), sec1_key = (\<lambda>_ _. None)\<rparr> P384 = Ok oid
    \<and> ecc_curve_from_oid \<lparr>oid_valid = (\<lambda>_. True), oid_to_string = (\<lambda>_. []), sec1_key = (\<lambda>_ _. None)\<rparr> oid
      = Some P384"
  by (rule curve_oid_roundtrip) (simp add: known_curves_def)

text \<open>
  Public key packets round-trip: a well-formed key of version 2, 3 or 4 and of any algorithm is
  written without an error and read back as the same key.
\<close>

theorem public_key_roundtrip:
  assumes "wire_laws W" and "public_key_ok L k"
  shows "\<exists>b. public_key_to_writer W L k = Ok b
    \<and> public_key_from_slice W L (key_packet_version k) b = Ok k"
  using assms by (rule wire_laws.public_key_codec_roundtrip)

definition std_curves :: curve_lib where
  "std_curves = \<lparr>oid_valid = (\<lambda>_. True), oid_to_string = (\<lambda>_. ''1.3.6''),
     sec1_key = (\<lambda>c p. if hd p = 4 then Some p else None)\<rparr>"

definition sample_key :: public_key where
  "sample_key = \<lparr>key_packet_version = New, key_version = KV4, key_algorithm = Pk_EdDSA,
     key_created_at = 1000, key_expiration = None, key_public_params = Pub_EdDSA Ed25519 [0x40, 1, 2]\<rparr>"

theorem public_key_roundtrip_witness:
  "\<exists>b. public_key_to_writer std_wire std_curves sample_key = Ok b
    \<and> public_key_from_slice std_wire std_curves New b = Ok sample_key"
  using public_key_roundtrip [OF std.wire_laws_axioms, of std_curves sample_key]
  by (simp add: sample_key_def public_key_ok_def in_u32_def known_curve_def known_curves_def
      mpi_ok_def bit_size_def leading_zeros8_def)

text \<open>
  The fingerprint of a version 4 key is the SHA-1 digest of exactly the bytes with which the key
  is hashed into signatures: the two code paths that build the prefix, the length and the
  packet body agree for every key.
\<close>

theorem fingerprint_is_hash_form:
  assumes "wire_laws W" and "key_version k = KV4" and "key_hash_form W L k = Ok b"
  shows "fingerprint H W L k = Ok (hash_fun H Hash_SHA1 b)"
  using wire_laws.fingerprint_v4 [OF assms(1,2), of H L] assms(3) by simp

theorem fingerprint_is_hash_form_witness:
  "\<exists>b. key_hash_form std_wire std_curves sample_key = Ok b
    \<and> fingerprint std_hash std_wire std_curves sample_key = Ok (hash_fun std_hash Hash_SHA1 b)"
proof -
  obtain b where b: "key_hash_form std_wire std_curves sample_key = Ok b"
    by (simp add: key_hash_form_def public_key_to_writer_def key_to_writer_new_def sample_key_def
        write_curve_point_def curve_oid_known)
  from fingerprint_is_hash_form [OF std.wire_laws_axioms _ this, of std_hash] b show ?thesis
    by (simp add: sample_key_def)
qed

text \<open>
  The key id of a version 2 or 3 RSA key with a modulus of fewer than 8 bytes cannot be computed:
  \<open>n.len() - 8\<close> underflows and the call panics, although such a key packet is accepted by the parser.
\<close>

theorem key_id_short_modulus_panics:
  assumes "wire_laws W" and "list_all mpi_ok [n, e]" and "length n < 8" and "v \<in> {KV2, KV3}"
    and "in_u32 t"
  shows "\<exists>k b. public_key_from_slice W L pv b = Ok k \<and> key_version k = v
    \<and> key_public_params k = Pub_RSA n e \<and> key_id H W L k = Panic"
proof -
  let ?k = "\<lparr>key_packet_version = pv, key_version = v, key_algorithm = Pk_RSA, key_created_at = t,
    key_expiration = Some 0, key_public_params = Pub_RSA n e\<rparr>"
  have "public_key_ok L ?k" using assms by (auto simp: public_key_ok_def)
  with wire_laws.public_key_codec_roundtrip [OF assms(1)] obtain b where
    "public_key_from_slice W L pv b = Ok ?k" by fastforce
  moreover have "key_id H W L ?k = Panic" using assms(3,4) by (auto simp: key_id_def)
  ultimately show ?thesis by force
qed

theorem key_id_short_modulus_panics_witness:
  "\<exists>k b. public_key_from_slice std_wire std_curves Old b = Ok k \<and> key_version k = KV3
    \<and> key_public_params k = Pub_RSA [5] [3] \<and> key_id std_hash std_wire std_curves k = Panic"
  by (rule key_id_short_modulus_panics [OF std.wire_laws_axioms, of "[5]" "[3]" KV3 7])
    (simp_all add: mpi_ok_def bit_size_def leading_zeros8_def in_u32_def)

end
