(* ===== verification/Pgp_Secret_Key.thy ===== *)
theory Pgp_Secret_Key
  imports Pgp_Public_Key Pgp_Session_Keys
begin

text \<open>
  Secret keys: the plain and the encrypted secret parameters (\<open>plain_secret.rs\<close>,
  \<open>encrypted_secret.rs\<close>, \<open>secret.rs\<close> under \<open>src/src/types/params/\<close>), their parser
  (\<open>src/src/packet/secret_key_parser.rs\<close>) and the secret key packet of
  \<open>src/src/packet/secret_key_macro.rs\<close>. A secret key is its public key and its parameters. Locking a key
  with a passphrase and unlocking it gives back the parameters; the two ways in which the parser
  departs from the format are shown.
\<close>

section \<open>Plain parameters\<close>

datatype plain_secret_params =
    Sec_RSA mpi mpi mpi mpi
  | Sec_DSA mpi
  | Sec_ECDSA mpi
  | Sec_ECDH mpi
  | Sec_Elgamal mpi
  | Sec_EdDSA mpi

fun plain_to_writer_raw :: "wire \<Rightarrow> plain_secret_params \<Rightarrow> bytes" where
  "plain_to_writer_raw W (Sec_RSA d p q u) = mpis_to_writer W [d, p, q, u]"
| "plain_to_writer_raw W (Sec_DSA x) = mpi_to_writer W x"
| "plain_to_writer_raw W (Sec_ECDSA x) = mpi_to_writer W x"
| "plain_to_writer_raw W (Sec_ECDH x) = mpi_to_writer W x"
| "plain_to_writer_raw W (Sec_Elgamal d) = mpi_to_writer W d"
| "plain_to_writer_raw W (Sec_EdDSA x) = mpi_to_writer W x"

definition compare_checksum_simple :: "wire \<Rightarrow> plain_secret_params \<Rightarrow> bytes option \<Rightarrow> unit res" where
  "compare_checksum_simple W s other =
     (case other of
        None \<Rightarrow> Err (Message ''Missing checksum'')
      | Some cs \<Rightarrow>
          if length cs < 2 then Panic
          else if of_be16 (cs ! 0) (cs ! 1) = calculate_simple (plain_to_writer_raw W s) then Ok ()
          else Err (Message ''Invalid checksum''))"

definition checksum_simple :: "wire \<Rightarrow> plain_secret_params \<Rightarrow> bytes" where
  "checksum_simple W s = checksum_finalize W (checksum_write checksum_default (plain_to_writer_raw W s))"

definition checksum_sha1 :: "wire \<Rightarrow> hash_lib \<Rightarrow> plain_secret_params \<Rightarrow> bytes res" where
  "checksum_sha1 W H s = calculate_sha1 H [plain_to_writer_raw W s]"

definition rsa_secret_params :: "wire \<Rightarrow> bytes \<Rightarrow> plain_secret_params parsed" where
  "rsa_secret_params W i =
     and_then (mpi_parse W i) (\<lambda>(i, d). and_then (mpi_parse W i) (\<lambda>(i, p).
     and_then (mpi_parse W i) (\<lambda>(i, q). pmap (Sec_RSA d p q) (mpi_parse W i))))"

definition parse_secret_params :: "wire \<Rightarrow> pk_alg \<Rightarrow> bytes \<Rightarrow> plain_secret_params parsed" where
  "parse_secret_params W alg i =
     (case alg of
        Pk_RSA \<Rightarrow> rsa_secret_params W i
      | Pk_RSAEncrypt \<Rightarrow> rsa_secret_params W i
      | Pk_RSASign \<Rightarrow> rsa_secret_params W i
      | Pk_DSA \<Rightarrow> pmap Sec_DSA (mpi_parse W i)
      | Pk_Elgamal \<Rightarrow> pmap Sec_Elgamal (mpi_parse W i)
      | Pk_ECDH \<Rightarrow> pmap Sec_ECDH (mpi_parse W i)
      | Pk_ECDSA \<Rightarrow> pmap Sec_ECDSA (mpi_parse W i)
      | Pk_EdDSA \<Rightarrow> pmap Sec_EdDSA (mpi_parse W i)
      | _ \<Rightarrow> Err (NomError (ParsingError KSwitch)))"

definition plain_from_slice :: "wire \<Rightarrow> bytes \<Rightarrow> pk_alg \<Rightarrow> plain_secret_params res" where
  "plain_from_slice W data alg = run_parser (parse_secret_params W alg data)"

text \<open>\<open>to_writer\<close>: the usage octet 0, the parameters, the checksum of the parameters.\<close>

definition plain_to_writer :: "wire \<Rightarrow> plain_secret_params \<Rightarrow> bytes" where
  "plain_to_writer W s =
     [0] @ plain_to_writer_raw W s
     @ checksum_to_writer W (checksum_write checksum_default (plain_to_writer_raw W s))"

definition pad_key :: "nat \<Rightarrow> bytes \<Rightarrow> bytes res" where
  "pad_key n v = (if length v \<le> n then Ok (replicate (n - length v) 0 @ v)
     else Err (Message ''invalid secret key size''))"

section \<open>Encrypted parameters\<close>

record encrypted_secret_params =
  enc_data :: bytes
  enc_s2k_params :: s2k_params

text \<open>\<open>EncryptedSecretParams::new\<close> asserts that the parameters are protected.\<close>

definition encrypted_new :: "bytes \<Rightarrow> s2k_params \<Rightarrow> encrypted_secret_params res" where
  "encrypted_new data p =
     (if p = Params_Unprotected then Panic else Ok \<lparr>enc_data = data, enc_s2k_params = p\<rparr>)"

definition encrypted_checksum :: "encrypted_secret_params \<Rightarrow> bytes res" where
  "encrypted_checksum e =
     (let tail = (\<lambda>n. if length (enc_data e) < n then Panic
                      else Ok (drop (length (enc_data e) - n) (enc_data e))) in
      case enc_s2k_params e of
        Params_Unprotected \<Rightarrow> Panic
      | Params_Cfb _ _ _ \<Rightarrow> tail 20
      | _ \<Rightarrow> tail 2)"

text \<open>The trailing two-octet checksum, as the legacy and the malleable modes verify it.\<close>

definition unlock_checksummed :: "wire \<Rightarrow> bytes \<Rightarrow> pk_alg \<Rightarrow> plain_secret_params res" where
  "unlock_checksummed W plaintext alg =
     (if length plaintext < 2 then Err InvalidInput
      else
        let body = take (length plaintext - 2) plaintext; cs = drop (length plaintext - 2) plaintext in
        if calculate_simple body \<noteq> of_be16 (cs ! 0) (cs ! 1) then Err InvalidInput
        else plain_from_slice W body alg)"

definition unlock ::
  "wire \<Rightarrow> hash_lib \<Rightarrow> (nat \<Rightarrow> nat \<Rightarrow> nat \<Rightarrow> nat \<Rightarrow> bytes \<Rightarrow> bytes \<Rightarrow> bytes option) \<Rightarrow> ('s, 'z) cipher_lib_scheme
   \<Rightarrow> encrypted_secret_params \<Rightarrow> bytes \<Rightarrow> pk_alg \<Rightarrow> plain_secret_params res" where
  "unlock W H argon2 C e pw alg =
     (case enc_s2k_params e of
        Params_Unprotected \<Rightarrow> Panic
      | Params_LegacyCfb a iv \<Rightarrow>
          and_then (decrypt_with_iv_regular C a (hash_fun H Hash_MD5 pw) iv (enc_data e)) (\<lambda>pt.
            unlock_checksummed W pt alg)
      | Params_Aead _ _ _ _ \<Rightarrow> Err (Unimplemented ''s2k AEAD'')
      | Params_Cfb a s2k iv \<Rightarrow>
          and_then (derive_key H argon2 s2k pw (key_size a)) (\<lambda>key.
          and_then (decrypt_with_iv_regular C a key iv (enc_data e)) (\<lambda>pt.
          if length pt < 20 then Err InvalidInput
          else
            let body = take (length pt - 20) pt; expected = drop (length pt - 20) pt in
            and_then (calculate_sha1 H [body]) (\<lambda>sha.
            if expected \<noteq> sha then Err InvalidInput else plain_from_slice W body alg)))
      | Params_MaleableCfb a s2k iv \<Rightarrow>
          and_then (derive_key H argon2 s2k pw (key_size a)) (\<lambda>key.
          and_then (decrypt_with_iv_regular C a key iv (enc_data e)) (\<lambda>pt.
            unlock_checksummed W pt alg)))"

definition plain_encrypt ::
  "wire \<Rightarrow> hash_lib \<Rightarrow> (nat \<Rightarrow> nat \<Rightarrow> nat \<Rightarrow> nat \<Rightarrow> bytes \<Rightarrow> bytes \<Rightarrow> bytes option) \<Rightarrow> ('s, 'z) cipher_lib_scheme
   \<Rightarrow> plain_secret_params \<Rightarrow> bytes \<Rightarrow> s2k_params \<Rightarrow> key_version \<Rightarrow> encrypted_secret_params res" where
  "plain_encrypt W H argon2 C s pw p v =
     (case p of
        Params_Unprotected \<Rightarrow> Err (Message ''cannot encrypt to uprotected'')
      | Params_Cfb a s2k iv \<Rightarrow>
          and_then (derive_key H argon2 s2k pw (key_size a)) (\<lambda>key.
          and_then
            (case v of
               KV2 \<Rightarrow> Err (Unsupported ''Encryption for V2 keys is not available'')
             | KV3 \<Rightarrow> Err (Unimplemented ''v3 encryption'')
             | KV4 \<Rightarrow>
                 and_then (checksum_sha1 W H s) (\<lambda>sha.
                 encrypt_with_iv_regular C a key iv (plain_to_writer_raw W s @ sha))
             | KV5 \<Rightarrow> Err (Unimplemented ''v5 encryption'')
             | KVOther _ \<Rightarrow> Err (Unimplemented ''encryption for key version {}''))
            (\<lambda>data. encrypted_new data p))
      | _ \<Rightarrow> Err (Unimplemented ''{:?} not implemented yet''))"

definition encrypted_to_writer :: "encrypted_secret_params \<Rightarrow> bytes res" where
  "encrypted_to_writer e =
     (let p = enc_s2k_params e in
      and_then
        (case p of
           Params_Unprotected \<Rightarrow> Panic
         | Params_LegacyCfb _ iv \<Rightarrow> Ok iv
         | Params_Aead a m s2k nonce \<Rightarrow>
             Ok ([sym_alg_to_u8 a] @ [aead_alg_to_u8 m] @ s2k_to_writer s2k @ nonce)
         | Params_Cfb a s2k iv \<Rightarrow> Ok ([sym_alg_to_u8 a] @ s2k_to_writer s2k @ iv)
         | Params_MaleableCfb a s2k iv \<Rightarrow> Ok ([sym_alg_to_u8 a] @ s2k_to_writer s2k @ iv))
        (\<lambda>b. Ok ([s2k_params_to_u8 p] @ b @ enc_data e)))"

section \<open>Secret parameters and their parser\<close>

datatype secret_params = Plain plain_secret_params | Encrypted encrypted_secret_params

fun is_encrypted :: "secret_params \<Rightarrow> bool" where
  "is_encrypted (Plain _) = False"
| "is_encrypted (Encrypted _) = True"

fun string_to_key_id :: "secret_params \<Rightarrow> u8" where
  "string_to_key_id (Plain _) = 0"
| "string_to_key_id (Encrypted e) = s2k_params_to_u8 (enc_s2k_params e)"

fun secret_params_to_writer :: "wire \<Rightarrow> secret_params \<Rightarrow> bytes res" where
  "secret_params_to_writer W (Plain s) = Ok (plain_to_writer W s)"
| "secret_params_to_writer W (Encrypted e) = encrypted_to_writer e"

text \<open>
  \<open>parse_secret_fields\<close>: the protection parameters for each usage octet, then the rest is the data.
  The arm of the malleable mode builds the parameters of the other one.
\<close>

definition parse_s2k_params :: "wire \<Rightarrow> s2k_usage \<Rightarrow> bytes \<Rightarrow> s2k_params parsed" where
  "parse_s2k_params W usage i =
     (case usage of
        Usage_Unprotected \<Rightarrow> Ok (i, Params_Unprotected)
      | Usage_LegacyCfb a \<Rightarrow>
          and_then (take_bytes W (block_size a) i) (\<lambda>(i, iv). Ok (i, Params_LegacyCfb a iv))
      | Usage_Aead \<Rightarrow>
          and_then (pmap sym_alg_of_u8 (be_u8 W i)) (\<lambda>(i, a).
          and_then (pmap aead_alg_of_u8 (be_u8 W i)) (\<lambda>(i, m).
          and_then (s2k_parser W i) (\<lambda>(i, s2k).
          and_then (take_bytes W (nonce_size m) i) (\<lambda>(i, nonce).
            Ok (i, Params_Aead a m s2k nonce)))))
      | Usage_Cfb \<Rightarrow>
          and_then (pmap sym_alg_of_u8 (be_u8 W i)) (\<lambda>(i, a).
          and_then (s2k_parser W i) (\<lambda>(i, s2k).
          and_then (take_bytes W (block_size a) i) (\<lambda>(i, iv). Ok (i, Params_Cfb a s2k iv))))
      | Usage_MalleableCfb \<Rightarrow>
          and_then (pmap sym_alg_of_u8 (be_u8 W i)) (\<lambda>(i, a).
          and_then (s2k_parser W i) (\<lambda>(i, s2k).
          and_then (take_bytes W (block_size a) i) (\<lambda>(i, iv). Ok (i, Params_Cfb a s2k iv)))))"

definition parse_secret_fields :: "wire \<Rightarrow> pk_alg \<Rightarrow> bytes \<Rightarrow> secret_params parsed" where
  "parse_secret_fields W alg i =
     and_then (pmap s2k_usage_of_u8 (be_u8 W i)) (\<lambda>(i, usage).
     and_then (parse_s2k_params W usage i) (\<lambda>(i, p).
     and_then (take_bytes W (length i) i) (\<lambda>(i, data).
     if usage = Usage_Unprotected then
       and_then (map_err nom_of_error (plain_from_slice W data alg)) (\<lambda>s. Ok (i, Plain s))
     else map_ok (\<lambda>e. (i, Encrypted e)) (map_err nom_of_error (encrypted_new data p)))))"

definition secret_params_from_slice :: "wire \<Rightarrow> bytes \<Rightarrow> pk_alg \<Rightarrow> secret_params res" where
  "secret_params_from_slice W data alg = run_parser (parse_secret_fields W alg data)"

definition parse_pub_priv_fields ::
  "wire \<Rightarrow> ('a) curve_lib_scheme \<Rightarrow> pk_alg \<Rightarrow> bytes \<Rightarrow> (public_params \<times> secret_params) parsed" where
  "parse_pub_priv_fields W L alg i =
     pmap_res (\<lambda>(pp, v). and_then (secret_params_from_slice W v alg) (\<lambda>sp. Ok (pp, sp)))
       (and_then (parse_pub_fields W L alg i) (\<lambda>(i, pp). pmap (\<lambda>v. (pp, v)) (rest_bytes i)))"

definition new_private_key_parser ::
  "wire \<Rightarrow> ('a) curve_lib_scheme \<Rightarrow> key_version \<Rightarrow> bytes
   \<Rightarrow> (key_version \<times> pk_alg \<times> int \<times> u16 option \<times> public_params \<times> secret_params) parsed" where
  "new_private_key_parser W L kv i =
     and_then (pmap_opt (datetime_from_timestamp W) (be_u32 W i)) (\<lambda>(i, created).
     and_then (pmap pk_alg_of_u8 (be_u8 W i)) (\<lambda>(i, alg).
     and_then (parse_pub_priv_fields W L alg i) (\<lambda>(i, params).
       Ok (i, (kv, alg, created, None, fst params, snd params)))))"

definition old_private_key_parser ::
  "wire \<Rightarrow> ('a) curve_lib_scheme \<Rightarrow> key_version \<Rightarrow> bytes
   \<Rightarrow> (key_version \<times> pk_alg \<times> int \<times> u16 option \<times> public_params \<times> secret_params) parsed" where
  "old_private_key_parser W L kv i =
     and_then (pmap_opt (datetime_from_timestamp W) (be_u32 W i)) (\<lambda>(i, created).
     and_then (be_u16 W i) (\<lambda>(i, exp).
     and_then (pmap pk_alg_of_u8 (be_u8 W i)) (\<lambda>(i, alg).
     and_then (parse_pub_priv_fields W L alg i) (\<lambda>(i, params).
       Ok (i, (kv, alg, created, Some exp, fst params, snd params))))))"

definition secret_key_parse ::
  "wire \<Rightarrow> ('a) curve_lib_scheme \<Rightarrow> bytes
   \<Rightarrow> (key_version \<times> pk_alg \<times> int \<times> u16 option \<times> public_params \<times> secret_params) parsed" where
  "secret_key_parse W L i =
     and_then (pmap key_version_of_u8 (be_u8 W i)) (\<lambda>(i, kv).
       if kv = KV2 \<or> kv = KV3 then old_private_key_parser W L kv i
       else if kv = KV4 then new_private_key_parser W L kv i
       else Err (NomError (Unsupported ''Unsupported key version {}'')))"

section \<open>Secret key packets\<close>

record secret_key =
  sk_details :: public_key
  sk_secret_params :: secret_params

definition secret_key_from_slice :: "wire \<Rightarrow> ('a) curve_lib_scheme \<Rightarrow> version \<Rightarrow> bytes \<Rightarrow> secret_key res" where
  "secret_key_from_slice W L pv i =
     and_then (run_parser (secret_key_parse W L i)) (\<lambda>(v, alg, created, expiration, pp, sp).
       Ok \<lparr>sk_details = \<lparr>key_packet_version = pv, key_version = v, key_algorithm = alg,
             key_created_at = created, key_expiration = expiration, key_public_params = pp\<rparr>,
           sk_secret_params = sp\<rparr>)"

definition has_sha1_checksum :: "secret_key \<Rightarrow> bool" where
  "has_sha1_checksum k \<longleftrightarrow> string_to_key_id (sk_secret_params k) = 254"

definition secret_key_to_writer :: "wire \<Rightarrow> ('a) curve_lib_scheme \<Rightarrow> secret_key \<Rightarrow> bytes res" where
  "secret_key_to_writer W L k =
     (let d = sk_details k; write = (\<lambda>f. and_then (f W L d) (\<lambda>b.
            and_then (secret_params_to_writer W (sk_secret_params k)) (\<lambda>s.
              Ok (key_version_to_u8 (key_version d) # b @ s)))) in
      case key_version d of
        KV2 \<Rightarrow> write key_to_writer_old
      | KV3 \<Rightarrow> write key_to_writer_old
      | KV4 \<Rightarrow> write key_to_writer_new
      | KV5 \<Rightarrow> Err (Unimplemented ''V5 keys'')
      | KVOther _ \<Rightarrow> Err (Unimplemented ''Unsupported key version {}''))"

section \<open>Which keys survive a round trip\<close>

fun plain_ok :: "pk_alg \<Rightarrow> plain_secret_params \<Rightarrow> bool" where
  "plain_ok a (Sec_RSA d p q u) \<longleftrightarrow>
     a \<in> {Pk_RSA, Pk_RSAEncrypt, Pk_RSASign} \<and> list_all mpi_ok [d, p, q, u]"
| "plain_ok a (Sec_DSA x) \<longleftrightarrow> a = Pk_DSA \<and> mpi_ok x"
| "plain_ok a (Sec_ECDSA x) \<longleftrightarrow> a = Pk_ECDSA \<and> mpi_ok x"
| "plain_ok a (Sec_ECDH x) \<longleftrightarrow> a = Pk_ECDH \<and> mpi_ok x"
| "plain_ok a (Sec_Elgamal x) \<longleftrightarrow> a = Pk_Elgamal \<and> mpi_ok x"
| "plain_ok a (Sec_EdDSA x) \<longleftrightarrow> a = Pk_EdDSA \<and> mpi_ok x"

fun s2k_params_ok :: "s2k_params \<Rightarrow> bool" where
  "s2k_params_ok Params_Unprotected \<longleftrightarrow> False"
| "s2k_params_ok (Params_LegacyCfb a iv) \<longleftrightarrow> canonical_sym_alg a \<and> 1 \<le> sym_alg_to_u8 a
     \<and> sym_alg_to_u8 a \<le> 252 \<and> length iv = block_size a"
| "s2k_params_ok (Params_Aead a m s2k nonce) \<longleftrightarrow> canonical_sym_alg a \<and> canonical_aead_alg m
     \<and> s2k_ok s2k \<and> s2k_delimited s2k \<and> length nonce = nonce_size m"
| "s2k_params_ok (Params_Cfb a s2k iv) \<longleftrightarrow> canonical_sym_alg a \<and> s2k_ok s2k \<and> s2k_delimited s2k
     \<and> length iv = block_size a"
| "s2k_params_ok (Params_MaleableCfb a s2k iv) \<longleftrightarrow> False"

fun secret_params_ok :: "pk_alg \<Rightarrow> secret_params \<Rightarrow> bool" where
  "secret_params_ok a (Plain s) \<longleftrightarrow> plain_ok a s"
| "secret_params_ok a (Encrypted e) \<longleftrightarrow> s2k_params_ok (enc_s2k_params e)"

definition secret_key_ok :: "('a) curve_lib_scheme \<Rightarrow> secret_key \<Rightarrow> bool" where
  "secret_key_ok L k \<longleftrightarrow> public_key_ok L (sk_details k)
     \<and> secret_params_ok (key_algorithm (sk_details k)) (sk_secret_params k)"

context wire_laws
begin

lemma parse_secret_params_raw:
  "plain_ok a s \<Longrightarrow> parse_secret_params W a (plain_to_writer_raw W s @ r) = Ok (r, s)"
  by (cases s) (auto simp: parse_secret_params_def rsa_secret_params_def mpis_to_writer_def
      simp del: and_then_eq_Ok)

lemma plain_from_slice_raw:
  "plain_ok a s \<Longrightarrow> plain_from_slice W (plain_to_writer_raw W s @ r) a = Ok s"
  using parse_secret_params_raw [of a s r] by (simp add: plain_from_slice_def)

lemma plain_any_checksum:
  assumes "plain_ok a s"
  shows "secret_params_from_slice W (0 # plain_to_writer_raw W s @ cs) a = Ok (Plain s)"
  using plain_from_slice_raw [OF assms, of cs]
  by (simp add: secret_params_from_slice_def parse_secret_fields_def s2k_usage_of_u8_def
      parse_s2k_params_def del: and_then_eq_Ok)

lemma parse_s2k_params_written:
  assumes "s2k_params_ok p" "encrypted_to_writer \<lparr>enc_data = data, enc_s2k_params = p\<rparr> = Ok b"
  shows "\<exists>i usage. b = s2k_params_to_u8 p # i \<and> s2k_usage_of_u8 (s2k_params_to_u8 p) = usage
    \<and> usage \<noteq> Usage_Unprotected \<and> p \<noteq> Params_Unprotected \<and> parse_s2k_params W usage i = Ok (data, p)"
proof (cases p)
  case (Params_LegacyCfb a iv)
  with assms show ?thesis
    by (auto simp: encrypted_to_writer_def Let_def s2k_usage_of_u8_def parse_s2k_params_def
        canonical_def)
next
  case (Params_Aead a m s2k nonce)
  with assms show ?thesis
    using s2k_parser_delimited [of s2k]
    by (auto simp: encrypted_to_writer_def Let_def s2k_usage_of_u8_def parse_s2k_params_def
        canonical_def simp del: and_then_eq_Ok)
next
  case (Params_Cfb a s2k iv)
  with assms show ?thesis
    using s2k_parser_delimited [of s2k]
    by (auto simp: encrypted_to_writer_def Let_def s2k_usage_of_u8_def parse_s2k_params_def
        canonical_def simp del: and_then_eq_Ok)
qed (use assms in auto)

lemma secret_params_roundtrip:
  assumes "secret_params_ok a sp"
  shows "\<exists>b. secret_params_to_writer W sp = Ok b \<and> secret_params_from_slice W b a = Ok sp"
proof (cases sp)
  case (Plain s)
  with assms plain_any_checksum [of a s] show ?thesis by (simp add: plain_to_writer_def)
next
  case (Encrypted e)
  obtain data p where e: "e = \<lparr>enc_data = data, enc_s2k_params = p\<rparr>" by (cases e)
  with Encrypted assms have ok: "s2k_params_ok p" by simp
  then obtain b where b: "encrypted_to_writer \<lparr>enc_data = data, enc_s2k_params = p\<rparr> = Ok b"
    by (cases p) (auto simp: encrypted_to_writer_def)
  from parse_s2k_params_written [OF ok b] b Encrypted e show ?thesis
    by (auto simp: secret_params_from_slice_def parse_secret_fields_def encrypted_new_def
        simp del: and_then_eq_Ok)
qed

lemma secret_key_parse_roundtrip:
  assumes "secret_key_ok L k"
  shows "\<exists>b. secret_key_to_writer W L k = Ok b
    \<and> secret_key_from_slice W L (key_packet_version (sk_details k)) b = Ok k"
proof -
  obtain d sp where k: "k = \<lparr>sk_details = d, sk_secret_params = sp\<rparr>" by (cases k)
  with assms have ok: "public_key_ok L d" "secret_params_ok (key_algorithm d) sp"
    by (auto simp: secret_key_ok_def)
  then have p: "params_ok L (key_algorithm d) (key_public_params d)" "in_u32 (key_created_at d)"
    by (auto simp: public_key_ok_def)
  from params_roundtrip [OF p(1)] obtain b where b:
    "public_params_to_writer W L (key_public_params d) = Ok b"
    "\<And>r. parse_pub_fields W L (key_algorithm d) (b @ r) = Ok (r, key_public_params d)" by blast
  from secret_params_roundtrip [OF ok(2)] obtain c where c: "secret_params_to_writer W sp = Ok c"
    "secret_params_from_slice W c (key_algorithm d) = Ok sp" by blast
  have pp: "parse_pub_priv_fields W L (key_algorithm d) (b @ c) = Ok ([], (key_public_params d, sp))"
    using b(2) [of c] c(2) by (simp add: parse_pub_priv_fields_def rest_bytes_def pmap_res_def)
  note can = params_ok_canonical [OF p(1), unfolded canonical_def]
  show ?thesis
    using ok(1) b(1) p(2) can pp c(1) k
    by (cases d; cases "key_version d")
      (auto simp: public_key_ok_def secret_key_to_writer_def key_to_writer_old_def
        key_to_writer_new_def secret_key_parse_def secret_key_from_slice_def key_version_of_u8_def
        old_private_key_parser_def new_private_key_parser_def simp del: and_then_eq_Ok)
qed

lemma malleable_parsed_as_cfb:
  assumes "canonical_sym_alg a" "s2k_ok s2k" "s2k_delimited s2k" "length iv = block_size a"
  shows "secret_params_from_slice W ([255, sym_alg_to_u8 a] @ s2k_to_writer s2k @ iv @ data) alg
    = Ok (Encrypted \<lparr>enc_data = data, enc_s2k_params = Params_Cfb a s2k iv\<rparr>)"
  using assms s2k_parser_delimited [of s2k]
  by (simp add: secret_params_from_slice_def parse_secret_fields_def s2k_usage_of_u8_def
      parse_s2k_params_def encrypted_new_def canonical_def del: and_then_eq_Ok)

end

sublocale wire_laws \<subseteq> secret_key: packet_codec "secret_key_from_slice W L" "secret_key_to_writer W L"
  "\<lambda>k. key_packet_version (sk_details k)" "secret_key_ok L" for L
  by unfold_locales (rule secret_key_parse_roundtrip)

section \<open>Properties\<close>

text \<open>
  Secret key packets round-trip: a well-formed secret key, plain or protected with any of the
  supported usages, is written without an error and read back as the same key.
\<close>

theorem secret_key_roundtrip:
  assumes "wire_laws W" and "secret_key_ok L k"
  shows "\<exists>b. secret_key_to_writer W L k = Ok b
    \<and> secret_key_from_slice W L (key_packet_version (sk_details k)) b = Ok k"
  using assms by (rule wire_laws.secret_key_parse_roundtrip)

definition sample_secret_key :: secret_key where
  "sample_secret_key = \<lparr>sk_details = sample_key,
     sk_secret_params = Encrypted \<lparr>enc_data = [1, 2, 3],
       enc_s2k_params = Params_Cfb Sym_AES256 (Salted Hash_SHA2_256 [1, 2, 3, 4, 5, 6, 7, 8])
         (replicate 16 9)\<rparr>\<rparr>"

theorem secret_key_roundtrip_witness:
  "\<exists>b. secret_key_to_writer std_wire std_curves sample_secret_key = Ok b
    \<and> secret_key_from_slice std_wire std_curves New b = Ok sample_secret_key"
  using secret_key_roundtrip [OF std.wire_laws_axioms, of std_curves sample_secret_key]
  by (simp add: sample_secret_key_def secret_key_ok_def sample_key_def public_key_ok_def in_u32_def
      known_curve_def known_curves_def mpi_ok_def bit_size_def leading_zeros8_def canonical_def
      sym_alg_of_u8_def hash_alg_of_u8_def)

lemma unlock_plain_encrypt:
  assumes "wire_laws W" and "cipher_laws C" and "\<And>x. length (hash_fun H Hash_SHA1 x) = 20"
    and "plain_ok alg s" and "plain_encrypt W H argon2 C s pw p KV4 = Ok e"
  shows "unlock W H argon2 C e pw alg = Ok s"
proof -
  from assms(5) obtain a s2k iv key sha d where e: "p = Params_Cfb a s2k iv"
    "derive_key H argon2 s2k pw (key_size a) = Ok key" "checksum_sha1 W H s = Ok sha"
    "encrypt_with_iv_regular C a key iv (plain_to_writer_raw W s @ sha) = Ok d"
    "e = \<lparr>enc_data = d, enc_s2k_params = p\<rparr>"
    by (auto simp: plain_encrypt_def encrypted_new_def split: s2k_params.splits)
  have sha: "calculate_sha1 H [plain_to_writer_raw W s] = Ok sha" "length sha = 20"
    using e(3) assms(3) by (auto simp: checksum_sha1_def calculate_sha1_def split: if_splits)
  from decrypt_regular_encrypt [OF assms(2) e(4)] sha e(1,2,5)
    wire_laws.plain_from_slice_raw [OF assms(1,4), of "[]"]
  show ?thesis by (simp add: unlock_def)
qed

text \<open>
  C18. A locked key opens with its passphrase: encrypting the secret parameters of a version 4 key and
  unlocking the result with the same passphrase returns the same parameters, the SHA-1 digest
  being recomputed over exactly the bytes that were hashed when locking.
\<close>

theorem lock_unlock:
  assumes "wire_laws W" and "cipher_laws C" and "\<And>x. length (hash_fun H Hash_SHA1 x) = 20"
    and "plain_ok alg s" and "plain_encrypt W H argon2 C s pw p KV4 = Ok e"
  shows "unlock W H argon2 C e pw alg = Ok s"
  using unlock_plain_encrypt [OF assms] .

theorem lock_unlock_witness:
  "\<exists>e. plain_encrypt std_wire std_hash (\<lambda>_ _ _ _ _ _. None) std_cipher (Sec_EdDSA [7, 7]) [0x70]
      (Params_Cfb Sym_AES128 (Salted Hash_SHA2_256 [1, 2, 3, 4, 5, 6, 7, 8]) (replicate 16 9)) KV4 = Ok e
    \<and> unlock std_wire std_hash (\<lambda>_ _ _ _ _ _. None) std_cipher e [0x70] Pk_EdDSA = Ok (Sec_EdDSA [7, 7])"
proof -
  let ?s = "Salted Hash_SHA2_256 [1, 2, 3, 4, 5, 6, 7, 8]"
  have ok: "s2k_ok ?s" by (simp add: canonical_hash hash_alg_of_u8_def)
  have "\<exists>key. derive_key std_hash (\<lambda>_ _ _ _ _ _. None) ?s [0x70] 16 = Ok key"
    using std_hash.derive_key_hashed [OF _ ok, of Hash_SHA2_256 16 "\<lambda>_ _ _ _ _ _. None" "[0x70]"]
    by (auto simp: hash_supported_def digest_size_def std_hash_def)
  then obtain e where e: "plain_encrypt std_wire std_hash (\<lambda>_ _ _ _ _ _. None) std_cipher
      (Sec_EdDSA [7, 7]) [0x70] (Params_Cfb Sym_AES128 ?s (replicate 16 9)) KV4 = Ok e"
    by (auto simp: plain_encrypt_def checksum_sha1_def calculate_sha1_def std_hash_def
        encrypt_with_iv_regular_def cipher_supported_def std_cipher_def encrypted_new_def)
  have "length (hash_fun std_hash Hash_SHA1 x) = 20" for x by (simp add: std_hash_def)
  from lock_unlock [OF std.wire_laws_axioms std_cipher.cipher_laws_axioms this _ e, of Pk_EdDSA] e
  show ?thesis by (simp add: mpi_ok_def bit_size_def leading_zeros8_def)
qed

text \<open>
  Keys protected in the malleable mode are misread: a block with usage octet 255 is parsed into the
  parameters of usage 254, so that unlocking demands a SHA-1 digest the block does not have, and
  writing the key back changes the octet and thereby the packet.
\<close>

theorem malleable_keys_misread:
  assumes "wire_laws W" and "canonical_sym_alg a" and "s2k_ok s2k" and "s2k_delimited s2k"
    and "length iv = block_size a"
  shows "\<exists>e. secret_params_from_slice W ([255, sym_alg_to_u8 a] @ s2k_to_writer s2k @ iv @ data) alg
      = Ok (Encrypted e)
    \<and> enc_s2k_params e = Params_Cfb a s2k iv \<and> has_sha1_checksum \<lparr>sk_details = d, sk_secret_params = Encrypted e\<rparr>
    \<and> secret_params_to_writer W (Encrypted e)
      = Ok ([254, sym_alg_to_u8 a] @ s2k_to_writer s2k @ iv @ data)"
  using wire_laws.malleable_parsed_as_cfb [OF assms]
  by (simp add: encrypted_to_writer_def has_sha1_checksum_def)

theorem malleable_keys_misread_witness:
  "\<exists>e. secret_params_from_slice std_wire ([255, 7, 0, 8] @ replicate 16 1 @ [5]) Pk_RSA = Ok (Encrypted e)
    \<and> secret_params_to_writer std_wire (Encrypted e) = Ok ([254, 7, 0, 8] @ replicate 16 1 @ [5])"
  using malleable_keys_misread [OF std.wire_laws_axioms, of Sym_AES128 "Simple Hash_SHA2_256"
      "replicate 16 1" "[5]" Pk_RSA sample_key]
  by (auto simp: canonical_def sym_alg_of_u8_def hash_alg_of_u8_def)

text \<open>
  The checksum of unprotected secret parameters is written but never verified: whatever bytes
  follow the parameters, the block is accepted with the same result.
\<close>

theorem plain_checksum_ignored:
  assumes "wire_laws W" and "plain_ok a s"
  shows "secret_params_from_slice W (0 # plain_to_writer_raw W s @ cs) a = Ok (Plain s)"
  using assms by (rule wire_laws.plain_any_checksum)

theorem plain_checksum_ignored_witness:
  "secret_params_from_slice std_wire (0 # [0, 3, 5] @ [0xBA, 0xD0]) Pk_EdDSA = Ok (Plain (Sec_EdDSA [5]))
   \<and> plain_to_writer std_wire (Sec_EdDSA [5]) = [0, 0, 3, 5, 0, 8]"
  using plain_checksum_ignored [OF std.wire_laws_axioms, of Pk_EdDSA "Sec_EdDSA [5]" "[0xBA, 0xD0]"]
  by (simp add: mpi_ok_def bit_size_def leading_zeros8_def mpi_to_writer_def be16_def
      plain_to_writer_def checksum_to_writer_def checksum_write_eq checksum_default_def)

end
