(* ===== verification/Pgp_Packet.thy ===== *)
theory Pgp_Packet
  imports Pgp_Session_Keys Pgp_Secret_Key
begin

text \<open>
  Whole packets: the sum of the packet types with their tags and format versions, framing on
  writing (\<open>src/src/packet/packet_sum.rs\<close>) and the dispatch on the tag on reading
  (\<open>body_parser\<close> of \<open>src/src/packet/single.rs\<close>). Every packet type is an instance of the
  \<open>packet_codec\<close> contract, so a framed packet of any type is read back.
\<close>

section \<open>The sum of the packet types\<close>

datatype packet =
    P_CompressedData compressed_data
  | P_PublicKey public_key
  | P_PublicSubkey public_key
  | P_SecretKey secret_key
  | P_SecretSubkey secret_key
  | P_LiteralData literal_data
  | P_Marker marker
  | P_ModDetectionCode mod_detection_code
  | P_OnePassSignature one_pass_signature
  | P_PublicKeyEncryptedSessionKey pkesk
  | P_Signature signature
  | P_SymEncryptedData sym_encrypted_data
  | P_SymEncryptedProtectedData seipd
  | P_SymKeyEncryptedSessionKey skesk
  | P_Trust trust
  | P_UserAttribute user_attribute
  | P_UserId user_id
  | P_Padding padding

fun packet_tag :: "packet \<Rightarrow> tag" where
  "packet_tag (P_CompressedData _) = Tag_CompressedData"
| "packet_tag (P_PublicKey _) = Tag_PublicKey"
| "packet_tag (P_PublicSubkey _) = Tag_PublicSubkey"
| "packet_tag (P_SecretKey _) = Tag_SecretKey"
| "packet_tag (P_SecretSubkey _) = Tag_SecretSubkey"
| "packet_tag (P_LiteralData _) = Tag_LiteralData"
| "packet_tag (P_Marker _) = Tag_Marker"
| "packet_tag (P_ModDetectionCode _) = Tag_ModDetectionCode"
| "packet_tag (P_OnePassSignature _) = Tag_OnePassSignature"
| "packet_tag (P_PublicKeyEncryptedSessionKey _) = Tag_PublicKeyEncryptedSessionKey"
| "packet_tag (P_Signature _) = Tag_Signature"
| "packet_tag (P_SymEncryptedData _) = Tag_SymEncryptedData"
| "packet_tag (P_SymEncryptedProtectedData _) = Tag_SymEncryptedProtectedData"
| "packet_tag (P_SymKeyEncryptedSessionKey _) = Tag_SymKeyEncryptedSessionKey"
| "packet_tag (P_Trust _) = Tag_Trust"
| "packet_tag (P_UserAttribute _) = Tag_UserAttribute"
| "packet_tag (P_UserId _) = Tag_UserId"
| "packet_tag (P_Padding _) = Tag_Padding"

fun packet_version :: "packet \<Rightarrow> version" where
  "packet_version (P_CompressedData p) = cd_packet_version p"
| "packet_version (P_PublicKey p) = key_packet_version p"
| "packet_version (P_PublicSubkey p) = key_packet_version p"
| "packet_version (P_SecretKey p) = key_packet_version (sk_details p)"
| "packet_version (P_SecretSubkey p) = key_packet_version (sk_details p)"
| "packet_version (P_LiteralData p) = lit_packet_version p"
| "packet_version (P_Marker p) = marker_packet_version p"
| "packet_version (P_ModDetectionCode p) = mdc_packet_version p"
| "packet_version (P_OnePassSignature p) = ops_packet_version p"
| "packet_version (P_PublicKeyEncryptedSessionKey p) = pkesk_packet_version p"
| "packet_version (P_Signature p) = sig_packet_version p"
| "packet_version (P_SymEncryptedData p) = sed_packet_version p"
| "packet_version (P_SymEncryptedProtectedData p) = seipd_packet_version p"
| "packet_version (P_SymKeyEncryptedSessionKey p) = skesk_packet_version p"
| "packet_version (P_Trust p) = trust_packet_version p"
| "packet_version (P_UserAttribute p) = attr_packet_version p"
| "packet_version (P_UserId p) = uid_packet_version p"
| "packet_version (P_Padding p) = padding_packet_version p"

text \<open>The body of a packet, \<open>to_writer\<close> of its type.\<close>

fun packet_body :: "wire \<Rightarrow> ('a) curve_lib_scheme \<Rightarrow> packet \<Rightarrow> bytes res" where
  "packet_body W L (P_CompressedData p) = compressed_to_writer p"
| "packet_body W L (P_PublicKey p) = public_key_to_writer W L p"
| "packet_body W L (P_PublicSubkey p) = public_key_to_writer W L p"
| "packet_body W L (P_SecretKey p) = secret_key_to_writer W L p"
| "packet_body W L (P_SecretSubkey p) = secret_key_to_writer W L p"
| "packet_body W L (P_LiteralData p) = literal_to_writer W p"
| "packet_body W L (P_Marker p) = marker_to_writer p"
| "packet_body W L (P_ModDetectionCode p) = mdc_to_writer p"
| "packet_body W L (P_OnePassSignature p) = ops_to_writer p"
| "packet_body W L (P_PublicKeyEncryptedSessionKey p) = pkesk_to_writer W p"
| "packet_body W L (P_Signature p) = signature_to_writer W p"
| "packet_body W L (P_SymEncryptedData p) = sed_to_writer p"
| "packet_body W L (P_SymEncryptedProtectedData p) = seipd_to_writer p"
| "packet_body W L (P_SymKeyEncryptedSessionKey p) = skesk_to_writer p"
| "packet_body W L (P_Trust p) = trust_to_writer p"
| "packet_body W L (P_UserAttribute p) = attr_to_writer W p"
| "packet_body W L (P_UserId p) = user_id_to_writer p"
| "packet_body W L (P_Padding p) = padding_to_writer p"

definition write_packet :: "wire \<Rightarrow> version \<Rightarrow> tag \<Rightarrow> bytes res \<Rightarrow> bytes res" where
  "write_packet W v t body = and_then body (\<lambda>buf.
     Ok (write_header W v (tag_to_u8 t) (length buf) @ buf))"

definition packet_to_writer :: "wire \<Rightarrow> ('a) curve_lib_scheme \<Rightarrow> packet \<Rightarrow> bytes res" where
  "packet_to_writer W L p = write_packet W (packet_version p) (packet_tag p) (packet_body W L p)"

fun parse_by_tag :: "wire \<Rightarrow> ('a) curve_lib_scheme \<Rightarrow> version \<Rightarrow> tag \<Rightarrow> bytes \<Rightarrow> packet res" where
  "parse_by_tag W L v Tag_CompressedData body = map_ok P_CompressedData (compressed_from_slice v body)"
| "parse_by_tag W L v Tag_PublicKey body = map_ok P_PublicKey (public_key_from_slice W L v body)"
| "parse_by_tag W L v Tag_PublicSubkey body = map_ok P_PublicSubkey (public_key_from_slice W L v body)"
| "parse_by_tag W L v Tag_SecretKey body = map_ok P_SecretKey (secret_key_from_slice W L v body)"
| "parse_by_tag W L v Tag_SecretSubkey body = map_ok P_SecretSubkey (secret_key_from_slice W L v body)"
| "parse_by_tag W L v Tag_LiteralData body = map_ok P_LiteralData (literal_from_slice W v body)"
| "parse_by_tag W L v Tag_Marker body = map_ok P_Marker (marker_from_slice v body)"
| "parse_by_tag W L v Tag_ModDetectionCode body = map_ok P_ModDetectionCode (mdc_from_slice v body)"
| "parse_by_tag W L v Tag_OnePassSignature body = map_ok P_OnePassSignature (ops_from_slice W v body)"
| "parse_by_tag W L v Tag_PublicKeyEncryptedSessionKey body = map_ok P_PublicKeyEncryptedSessionKey (pkesk_from_slice W v body)"
| "parse_by_tag W L v Tag_Signature body = map_ok P_Signature (signature_from_slice W v body)"
| "parse_by_tag W L v Tag_SymEncryptedData body = map_ok P_SymEncryptedData (sed_from_slice v body)"
| "parse_by_tag W L v Tag_SymEncryptedProtectedData body = map_ok P_SymEncryptedProtectedData (seipd_from_slice W v body)"
| "parse_by_tag W L v Tag_SymKeyEncryptedSessionKey body = map_ok P_SymKeyEncryptedSessionKey (skesk_from_slice W v body)"
| "parse_by_tag W L v Tag_Trust body = map_ok P_Trust (trust_from_slice v body)"
| "parse_by_tag W L v Tag_UserAttribute body = map_ok P_UserAttribute (attr_from_slice W v body)"
| "parse_by_tag W L v Tag_UserId body = map_ok P_UserId (user_id_from_slice v body)"
| "parse_by_tag W L v Tag_Padding body = map_ok P_Padding (padding_from_slice v body)"
| "parse_by_tag W L v (Tag_Other other) body = Err (Unimplemented ''Unknown packet typ: {}'')"

text \<open>
  \<open>body_parser\<close>: errors other than \<open>Incomplete\<close> are wrapped; the arm of an unknown tag returns from the function
  before that.
\<close>

definition body_parser :: "wire \<Rightarrow> ('a) curve_lib_scheme \<Rightarrow> version \<Rightarrow> tag \<Rightarrow> bytes \<Rightarrow> packet res" where
  "body_parser W L v t body =
     (case parse_by_tag W L v t body of
        Ok p \<Rightarrow> Ok p
      | Err (Incomplete n) \<Rightarrow> Err (Incomplete n)
      | Err e \<Rightarrow> Err (case t of Tag_Other _ \<Rightarrow> e | _ \<Rightarrow> InvalidPacketContent e)
      | Panic \<Rightarrow> Panic)"

section \<open>Framed packets are read back\<close>

fun packet_body_ok :: "wire \<Rightarrow> ('a) curve_lib_scheme \<Rightarrow> packet \<Rightarrow> bool" where
  "packet_body_ok W L (P_CompressedData p) \<longleftrightarrow> compressed_ok p"
| "packet_body_ok W L (P_PublicKey p) \<longleftrightarrow> public_key_ok L p"
| "packet_body_ok W L (P_PublicSubkey p) \<longleftrightarrow> public_key_ok L p"
| "packet_body_ok W L (P_SecretKey p) \<longleftrightarrow> secret_key_ok L p"
| "packet_body_ok W L (P_SecretSubkey p) \<longleftrightarrow> secret_key_ok L p"
| "packet_body_ok W L (P_LiteralData p) \<longleftrightarrow> literal_ok p"
| "packet_body_ok W L (P_Marker p) \<longleftrightarrow> True"
| "packet_body_ok W L (P_ModDetectionCode p) \<longleftrightarrow> length (mdc_hash p) = 20"
| "packet_body_ok W L (P_OnePassSignature p) \<longleftrightarrow> ops_ok p"
| "packet_body_ok W L (P_PublicKeyEncryptedSessionKey p) \<longleftrightarrow> pkesk_ok p"
| "packet_body_ok W L (P_Signature p) \<longleftrightarrow> sig_ok W p"
| "packet_body_ok W L (P_SymEncryptedData p) \<longleftrightarrow> True"
| "packet_body_ok W L (P_SymEncryptedProtectedData p) \<longleftrightarrow> seipd_data_ok (seipd_data p)"
| "packet_body_ok W L (P_SymKeyEncryptedSessionKey p) \<longleftrightarrow> skesk_ok p"
| "packet_body_ok W L (P_Trust p) \<longleftrightarrow> True"
| "packet_body_ok W L (P_UserAttribute p) \<longleftrightarrow> attr_ok p"
| "packet_body_ok W L (P_UserId p) \<longleftrightarrow> True"
| "packet_body_ok W L (P_Padding p) \<longleftrightarrow> True"

text \<open>A packet survives framing when its body does, its body is short enough and its tag fits the format.\<close>

definition packet_ok :: "wire \<Rightarrow> ('a) curve_lib_scheme \<Rightarrow> packet \<Rightarrow> bool" where
  "packet_ok W L p \<longleftrightarrow> packet_body_ok W L p \<and> header_fits (packet_version p) (packet_tag p)
     \<and> (case packet_body W L p of Ok b \<Rightarrow> length b < 2 ^ 32 | _ \<Rightarrow> False)"

context wire_laws
begin

lemma packet_body_roundtrip:
  assumes "packet_body_ok W L p"
  shows "\<exists>b. packet_body W L p = Ok b \<and> parse_by_tag W L (packet_version p) (packet_tag p) b = Ok p"
  using assms compressed.codec_roundtrip public_key.codec_roundtrip secret_key.codec_roundtrip
    literal.codec_roundtrip marker.codec_roundtrip mdc.codec_roundtrip ops.codec_roundtrip
    pkesk.codec_roundtrip sig.codec_roundtrip sed.codec_roundtrip seipd.codec_roundtrip
    skesk.codec_roundtrip trust.codec_roundtrip attr.codec_roundtrip uid.codec_roundtrip padding.codec_roundtrip
  by (cases p) (simp_all, blast+)

lemma packet_framed_roundtrip:
  assumes "packet_ok W L p"
  shows "\<exists>b. packet_body W L p = Ok b \<and> length b < 2 ^ 32
    \<and> packet_to_writer W L p = Ok (write_header W (packet_version p) (tag_to_u8 (packet_tag p)) (length b) @ b)
    \<and> body_parser W L (packet_version p) (packet_tag p) b = Ok p"
  using packet_body_roundtrip [of L p] assms
  by (auto simp: packet_ok_def packet_to_writer_def write_packet_def body_parser_def)

end

text \<open>
  C3. Packets of all 18 types round-trip through their framing: writing a well-formed packet and
  parsing the header gives back the format version, the tag and the exact length of the body, and
  parsing that many following bytes under this version and tag gives back the packet.
\<close>

theorem packet_roundtrip:
  assumes "wire_laws W" and "packet_ok W L p"
  shows "\<exists>out b. packet_to_writer W L p = Ok out
    \<and> (\<forall>r. header_parser W (out @ r) = Ok (b @ r, (packet_version p, packet_tag p, Fixed (length b))))
    \<and> body_parser W L (packet_version p) (packet_tag p) b = Ok p"
proof -
  from wire_laws.packet_framed_roundtrip [OF assms] obtain b where b: "length b < 2 ^ 32"
    "packet_to_writer W L p = Ok (write_header W (packet_version p) (tag_to_u8 (packet_tag p)) (length b) @ b)"
    "body_parser W L (packet_version p) (packet_tag p) b = Ok p" by blast
  moreover have "header_fits (packet_version p) (packet_tag p)"
    using assms(2) by (simp add: packet_ok_def)
  note wire_laws.header_parser_write_header [OF assms(1) this b(1)]
  ultimately show ?thesis by auto
qed

theorem packet_roundtrip_witness:
  "\<exists>out b. packet_to_writer std_wire std_curves (P_PublicKey sample_key) = Ok out
    \<and> header_parser std_wire (out @ [1]) = Ok (b @ [1], (New, Tag_PublicKey, Fixed (length b)))
    \<and> body_parser std_wire std_curves New Tag_PublicKey b = Ok (P_PublicKey sample_key)"
proof -
  have "packet_ok std_wire std_curves (P_PublicKey sample_key)"
    by (simp add: packet_ok_def sample_key_def public_key_ok_def in_u32_def known_curve_def
        known_curves_def mpi_ok_def bit_size_def leading_zeros8_def header_fits_def canonical_tag_def
        tag_of_u8_def public_key_to_writer_def key_to_writer_new_def write_curve_point_def
        curve_oid_known mpi_to_writer_def)
  from packet_roundtrip [OF std.wire_laws_axioms this] show ?thesis
    by (auto simp: sample_key_def)
qed

section \<open>Parsed packets are well-typed\<close>

text \<open>What every packet that was read satisfies, whatever its bytes: sizes and versions that its type demands.\<close>

fun packet_typed :: "packet \<Rightarrow> bool" where
  "packet_typed (P_PublicKey k) \<longleftrightarrow> key_version k \<in> {KV2, KV3} \<longrightarrow> key_algorithm k \<in> {Pk_RSA, Pk_RSAEncrypt, Pk_RSASign}"
| "packet_typed (P_PublicSubkey k) \<longleftrightarrow> key_version k \<in> {KV2, KV3} \<longrightarrow> key_algorithm k \<in> {Pk_RSA, Pk_RSAEncrypt, Pk_RSASign}"
| "packet_typed (P_ModDetectionCode p) \<longleftrightarrow> length (mdc_hash p) = 20"
| "packet_typed (P_OnePassSignature p) \<longleftrightarrow> ops_version p \<in> {2, 3, 4, 5} \<and> length (ops_key_id p) = 8"
| "packet_typed (P_PublicKeyEncryptedSessionKey p) \<longleftrightarrow> pkesk_version p = 3 \<and> length (pkesk_id p) = 8"
| "packet_typed (P_Signature s) \<longleftrightarrow> cfg_version (config s) \<in> {SigV2, SigV3, SigV4, SigV5}
     \<and> (cfg_version (config s) \<in> {SigV4, SigV5} \<longrightarrow> cfg_created (config s) = None \<and> cfg_issuer (config s) = None)"
| "packet_typed _ \<longleftrightarrow> True"

lemmas body_parsers =
  compressed_from_slice_def public_key_from_slice_def public_key_new_def secret_key_from_slice_def
  literal_from_slice_def literal_parse_def marker_from_slice_def mdc_from_slice_def
  ops_from_slice_def ops_parse_def pkesk_from_slice_def pkesk_parse_def sed_from_slice_def
  seipd_from_slice_def skesk_from_slice_def skesk_parse_def skesk_parse_v4_def skesk_parse_aead_def
  trust_from_slice_def attr_from_slice_def attr_parse_def attr_image_def user_id_from_slice_def padding_from_slice_def

lemma signature_parse_typed:
  assumes "signature_parse W pv b = Ok (i, s)"
  shows "sig_packet_version s = pv \<and> packet_typed (P_Signature s)"
  using assms
  by (auto simp: signature_parse_def signature_step_def v3_parser_def v4_parser_def invalid_version_def
      signature_new_def new_v4_def split: if_splits)

lemma key_id_length: "key_id_from_slice i = Ok k \<Longrightarrow> length k = 8"
  by (simp add: key_id_from_slice_def split: if_splits)

lemma parse_by_tag_typed:
  assumes "parse_by_tag W L v t b = Ok p"
  shows "packet_tag p = t \<and> packet_version p = v \<and> packet_typed p"
  using assms
  by (cases t) (auto simp: body_parsers pmap_parser_def pmap_eq_Ok pmap_res_eq_Ok signature_from_slice_def
      Let_def split: if_splits dest: signature_parse_typed key_id_length)
lemma body_parser_Ok: "body_parser W L v t b = Ok p \<Longrightarrow> parse_by_tag W L v t b = Ok p"
  by (cases "parse_by_tag W L v t b") (auto simp: body_parser_def split: error.splits)

text \<open>
  C26. Every packet that is read is well-typed, whatever the bytes of its body: it is the variant of the
  tag it was read under, carries the format version of its header, and obeys the rules of its type
  (a version 2 or 3 public key is an RSA key, a detection code has 20 bytes, key ids have 8 bytes,
  one-pass signatures have a version from 2 to 5, encrypted session keys version 3, and signatures of
  version 4 and 5 have no fields of version 3).
\<close>

theorem parsed_packet_typed:
  assumes "body_parser W L v t b = Ok p"
  shows "packet_tag p = t \<and> packet_version p = v \<and> packet_typed p"
  using assms by (intro parse_by_tag_typed) (auto dest: body_parser_Ok)

theorem parsed_packet_typed_witness:
  "\<exists>p. body_parser std_wire std_curves Old Tag_OnePassSignature ([3, 0, 8, 1] @ replicate 8 7 @ [1]) = Ok p
    \<and> packet_tag p = Tag_OnePassSignature \<and> packet_version p = Old \<and> packet_typed p"
proof -
  have "\<exists>p. body_parser std_wire std_curves Old Tag_OnePassSignature ([3, 0, 8, 1] @ replicate 8 7 @ [1]) = Ok p"
    unfolding is_ok_iff [symmetric] by code_simp
  with parsed_packet_typed [of std_wire std_curves Old Tag_OnePassSignature "[3, 0, 8, 1] @ replicate 8 7 @ [1]"]
  show ?thesis by blast
qed

end
