(* ===== verification/Pgp_Packet_Stream.thy ===== *)
theory Pgp_Packet_Stream
  imports Pgp_Packet
begin

text \<open>
  Reading a stream of packets: the iterator \<open>PacketParser\<close> of \<open>src/src/packet/many.rs\<close> over a source of
  bytes that ends, or fails behind its last byte, as a decoder or the armor reader does. The buffered reader is
  a crate of its own, so how much of the remaining input its buffer shows at a time is a parameter,
  \<open>reader_lib\<close>, with the guarantee of its \<open>MinBuffered(1024)\<close> policy as the law: at least 1024 bytes, or
  everything that is left. The loop that joins partial bodies need not end for an arbitrary length parser, so it is a partial
  function whose value \<open>None\<close> is not returning; that it does return is proved.
\<close>

section \<open>The buffered reader\<close>

text \<open>
  How the source ends behind the bytes it delivers: with an end of file, an error or a panic. The buffer asks the
  source for more as long as it holds less than 1024 bytes, so a request for \<open>n\<close> bytes may run into a failing
  end before they are used up: always when fewer are left, never when 1023 more are left.
\<close>

datatype source_end = Src_Eof | Src_Fails | Src_Panics

record reader_lib =
  fill_len :: "bytes \<Rightarrow> nat"
  read_len :: "bytes \<Rightarrow> nat"
  hits_end :: "nat \<Rightarrow> bytes \<Rightarrow> bool"
  src_end :: source_end

locale reader_buffer =
  fixes R :: "('r) reader_lib_scheme"
  assumes fill_min: "min 1024 (length src) \<le> fill_len R src"
    and read_some: "src \<noteq> [] \<Longrightarrow> 0 < read_len R src"
    and read_at_most: "read_len R src \<le> 1024"
    and hits_end_short: "length src < n \<Longrightarrow> hits_end R n src"
    and hits_end_only: "0 < n \<Longrightarrow> hits_end R n src \<Longrightarrow> length src < n + 1023"

locale reader_laws = reader_buffer R for R :: "('r) reader_lib_scheme" +
  assumes reads_to_eof: "src_end R = Src_Eof"

text \<open>The laws of the buffer do not depend on how the source ends.\<close>

lemma reader_buffer_ended: "reader_buffer R \<Longrightarrow> reader_buffer (R\<lparr>src_end := e\<rparr>)"
  by (simp add: reader_buffer_def)

text \<open>A reader over a slice with the default buffer of 16 KiB.\<close>

definition DEFAULT_CAPACITY :: nat where
  "DEFAULT_CAPACITY = 1024 * 16"

definition std_reader :: reader_lib where
  "std_reader = \<lparr>fill_len = (\<lambda>src. min DEFAULT_CAPACITY (length src)),
     read_len = (\<lambda>src. min 1024 (length src)), hits_end = (\<lambda>n src. length src < max n 1024), src_end = Src_Eof\<rparr>"

interpretation std_reader: reader_laws std_reader
  by unfold_locales (auto simp: std_reader_def DEFAULT_CAPACITY_def)

section \<open>The packet parser\<close>

definition MAX_CAPACITY :: nat where
  "MAX_CAPACITY = 1024 * 1024 * 1024"

definition READER_POLICY :: nat where
  "READER_POLICY = 1024"

record packet_parser =
  pp_rest :: bytes
  pp_done :: bool

definition packet_parser_new :: "bytes \<Rightarrow> packet_parser" where
  "packet_parser_new inner = \<lparr>pp_rest = inner, pp_done = False\<rparr>"

text \<open>
  What the source uses of the reader: \<open>fill_buf\<close> with the buffered window, \<open>consume\<close> and \<open>read_exact\<close>.
\<close>

definition window :: "('r) reader_lib_scheme \<Rightarrow> packet_parser \<Rightarrow> bytes" where
  "window R s = take (fill_len R (pp_rest s)) (pp_rest s)"

definition at_end :: "('r) reader_lib_scheme \<Rightarrow> nat \<Rightarrow> packet_parser \<Rightarrow> bool" where
  "at_end R n s \<longleftrightarrow> 0 < n \<and> src_end R \<noteq> Src_Eof \<and> hits_end R n (pp_rest s)"

definition end_result :: "('r) reader_lib_scheme \<Rightarrow> 'a res" where
  "end_result R = (case src_end R of Src_Panics \<Rightarrow> Panic | _ \<Rightarrow> Err IOError)"

definition fill_buf :: "('r) reader_lib_scheme \<Rightarrow> packet_parser \<Rightarrow> bytes res" where
  "fill_buf R s = (if at_end R 1 s then end_result R else Ok (window R s))"

definition consume :: "nat \<Rightarrow> packet_parser \<Rightarrow> packet_parser" where
  "consume n s = s\<lparr>pp_rest := drop n (pp_rest s)\<rparr>"

definition read_exact :: "('r) reader_lib_scheme \<Rightarrow> nat \<Rightarrow> packet_parser \<Rightarrow> (bytes \<times> packet_parser) res" where
  "read_exact R n s =
     (if at_end R n s then end_result R
      else if n \<le> length (pp_rest s) then Ok (take n (pp_rest s), consume n s) else Err IOError)"

definition stop :: "packet_parser \<Rightarrow> packet_parser" where
  "stop s = s\<lparr>pp_done := True\<rparr>"

text \<open>The limited \<open>read_to_end\<close> of a packet of indeterminate length.\<close>

function read_limited :: "('r) reader_lib_scheme \<Rightarrow> packet_parser \<Rightarrow> bytes \<Rightarrow> (bytes \<times> packet_parser) res" where
  "read_limited R s body =
     (let buf = take (read_len R (pp_rest s)) (pp_rest s) in
      if at_end R 1 s then end_result R
      else if buf = [] then Ok (body, s)
      else if MAX_CAPACITY \<le> length (body @ buf) then Err (Message ''Indeterminate packet too large'')
      else read_limited R (consume (length buf) s) (body @ buf))"
  by pat_completeness auto
termination
  by (relation "measure (\<lambda>(R, s, body). length (pp_rest s))") (auto simp: consume_def)

declare read_limited.simps [simp del]

definition indeterminate_packet ::
  "wire \<Rightarrow> ('a) curve_lib_scheme \<Rightarrow> ('r) reader_lib_scheme \<Rightarrow> version \<Rightarrow> tag \<Rightarrow> packet_parser
     \<Rightarrow> packet res \<times> packet_parser" where
  "indeterminate_packet W L R v t s =
     (case read_limited R s [] of
        Err e \<Rightarrow> (Err e, stop s)
      | Panic \<Rightarrow> (Panic, s)
      | Ok (body, s1) \<Rightarrow>
          (case body_parser W L v t body of
             Ok p \<Rightarrow> (Ok p, s1) | Err e \<Rightarrow> (Err e, stop s1) | Panic \<Rightarrow> (Panic, s1)))"

text \<open>The pattern \<open>Err(Error::Incomplete(_))\<close>: the body ended too early.\<close>

fun is_incomplete :: "error \<Rightarrow> bool" where
  "is_incomplete (Incomplete _) = True"
| "is_incomplete _ = False"

text \<open>
  A packet of known length. A body within the buffer policy is sliced out of the window, which
  panics when the window is shorter; a longer one is read into a buffer of its own.
\<close>

definition fixed_packet ::
  "wire \<Rightarrow> ('a) curve_lib_scheme \<Rightarrow> ('r) reader_lib_scheme \<Rightarrow> version \<Rightarrow> tag \<Rightarrow> nat \<Rightarrow> packet_parser
     \<Rightarrow> packet res \<times> packet_parser" where
  "fixed_packet W L R v t len s =
     (case (if len \<le> READER_POLICY then
              and_then (fill_buf R s) (\<lambda>body.
                if len \<le> length body then Ok (take len body, consume len s) else Panic)
            else read_exact R len s) of
        Err e \<Rightarrow> (Err e, stop s)
      | Panic \<Rightarrow> (Panic, s)
      | Ok (body, s1) \<Rightarrow>
          (case body_parser W L v t body of
             Ok p \<Rightarrow> (Ok p, s1)
           | Err e \<Rightarrow> (Err (if is_incomplete e then PacketIncomplete else e), s1)
           | Panic \<Rightarrow> (Panic, s1)))"

text \<open>\<open>read_fixed\<close> appends a chunk; the loop reads any number of partial chunks and a final one.\<close>

definition read_fixed :: "('r) reader_lib_scheme \<Rightarrow> nat \<Rightarrow> packet_parser \<Rightarrow> bytes \<Rightarrow> (bytes \<times> packet_parser) res" where
  "read_fixed R len s out = map_ok (\<lambda>(chunk, s1). (out @ chunk, s1)) (read_exact R len s)"

partial_function (option) read_partials ::
  "wire \<Rightarrow> ('r) reader_lib_scheme \<Rightarrow> packet_parser \<Rightarrow> bytes \<Rightarrow> (bytes \<times> packet_parser) res option" where
  "read_partials W R s body =
     (case fill_buf R s of
        Err e \<Rightarrow> Some (Err e)
      | Panic \<Rightarrow> Some Panic
      | Ok buf \<Rightarrow>
          (case read_packet_len W buf of
             Ok (rest, Partial len) \<Rightarrow>
               (case read_fixed R len (consume (length buf - length rest) s) body of
                  Ok (body1, s1) \<Rightarrow> read_partials W R s1 body1
                | Err e \<Rightarrow> Some (Err e)
                | Panic \<Rightarrow> Some Panic)
           | Ok (rest, Fixed len) \<Rightarrow> Some (read_fixed R len (consume (length buf - length rest) s) body)
           | Ok (_, Indeterminate) \<Rightarrow> Some (Err InvalidInput)
           | Err e \<Rightarrow> Some (Err (error_of_nom e))
           | Panic \<Rightarrow> Some Panic))"

text \<open>The part of the partial arm after the first chunk, and the arm itself.\<close>

definition partial_rest ::
  "wire \<Rightarrow> ('a) curve_lib_scheme \<Rightarrow> ('r) reader_lib_scheme \<Rightarrow> version \<Rightarrow> tag \<Rightarrow> bytes \<Rightarrow> packet_parser
     \<Rightarrow> (packet res \<times> packet_parser) option" where
  "partial_rest W L R v t first s =
     (case read_partials W R s first of
        None \<Rightarrow> None
      | Some (Err e) \<Rightarrow> Some (Err e, stop s)
      | Some Panic \<Rightarrow> Some (Panic, s)
      | Some (Ok (body, s1)) \<Rightarrow>
          (case body_parser W L v t body of
             Ok p \<Rightarrow> Some (Ok p, s1)
           | Err e \<Rightarrow>
               if is_incomplete e then Some (Err PacketIncomplete, s1) else Some (Err e, stop s1)
           | Panic \<Rightarrow> Some (Panic, s1)))"

definition partial_packet ::
  "wire \<Rightarrow> ('a) curve_lib_scheme \<Rightarrow> ('r) reader_lib_scheme \<Rightarrow> version \<Rightarrow> tag \<Rightarrow> nat \<Rightarrow> packet_parser
     \<Rightarrow> (packet res \<times> packet_parser) option" where
  "partial_packet W L R v t len s =
     (if t \<notin> {Tag_LiteralData, Tag_CompressedData, Tag_SymEncryptedData, Tag_SymEncryptedProtectedData}
      then Some (Err (Message ''Partial body length is not allowed for packet type {:?}''), stop s)
      else if len < 512
      then Some (Err (Message ''Illegal first partial body length {} (shorter than 512 bytes)''), stop s)
      else case read_exact R len s of
        Err e \<Rightarrow> Some (Err e, stop s)
      | Panic \<Rightarrow> Some (Panic, s)
      | Ok (body, s1) \<Rightarrow> partial_rest W L R v t body s1)"

text \<open>\<open>Iterator::next\<close>: the item, if there is one, and the parser after the call.\<close>

definition packet_of_len ::
  "wire \<Rightarrow> ('a) curve_lib_scheme \<Rightarrow> ('r) reader_lib_scheme \<Rightarrow> version \<Rightarrow> tag \<Rightarrow> packet_len
     \<Rightarrow> packet_parser \<Rightarrow> (packet res \<times> packet_parser) option" where
  "packet_of_len W L R v t l s =
     (case l of
        Indeterminate \<Rightarrow> Some (indeterminate_packet W L R v t s)
      | Fixed len \<Rightarrow> Some (fixed_packet W L R v t len s)
      | Partial len \<Rightarrow> partial_packet W L R v t len s)"

definition next_packet ::
  "wire \<Rightarrow> ('a) curve_lib_scheme \<Rightarrow> ('r) reader_lib_scheme \<Rightarrow> packet_parser
     \<Rightarrow> (packet res option \<times> packet_parser) option" where
  "next_packet W L R s =
     (if pp_done s then Some (None, s)
      else case fill_buf R s of
        Err _ \<Rightarrow> Some (None, stop s)
      | Panic \<Rightarrow> Some (Some Panic, s)
      | Ok buf \<Rightarrow>
          if buf = [] then Some (None, stop s)
          else case header_parser W buf of
            Ok (rest, (v, t, l)) \<Rightarrow>
              map_option (\<lambda>(item, s1). (Some item, s1))
                (packet_of_len W L R v t l (consume (length buf - length rest) s))
          | Err (NomIncomplete _) \<Rightarrow> Some (Some (Err PacketIncomplete), stop s)
          | Err e \<Rightarrow> Some (Some (Err (error_of_nom e)), stop s)
          | Panic \<Rightarrow> Some (Some Panic, s))"

text \<open>
  The caller's loop over the iterator: \<open>next\<close> until it returns \<open>None\<close> or panics, at most \<open>n\<close>
  times.
\<close>

fun drain :: "nat \<Rightarrow> wire \<Rightarrow> ('a) curve_lib_scheme \<Rightarrow> ('r) reader_lib_scheme \<Rightarrow> packet_parser
    \<Rightarrow> packet res list option" where
  "drain 0 W L R s = None"
| "drain (Suc n) W L R s =
     (case next_packet W L R s of
        None \<Rightarrow> None
      | Some (None, _) \<Rightarrow> Some []
      | Some (Some Panic, _) \<Rightarrow> Some [Panic]
      | Some (Some x, s1) \<Rightarrow> map_option ((#) x) (drain n W L R s1))"

text \<open>
  The encoding of a body in partial chunks, for the statements: each chunk of \<open>2^k\<close> bytes follows
  its octet \<open>224 + k\<close>, the final one an ordinary new-format length.
\<close>

fun partial_encode :: "wire \<Rightarrow> (nat \<times> bytes) list \<Rightarrow> bytes \<Rightarrow> bytes" where
  "partial_encode W [] fin = tl (write_header W New 0 (length fin)) @ fin"
| "partial_encode W ((k, c) # cs) fin = of_nat (224 + k) # c @ partial_encode W cs fin"

definition chunk_ok :: "nat \<times> bytes \<Rightarrow> bool" where
  "chunk_ok kc \<longleftrightarrow> fst kc \<le> 30 \<and> length (snd kc) = 2 ^ fst kc"

section \<open>Reading\<close>

locale packet_source = wire_laws W + reader_buffer R
  for W :: wire and R :: "('r) reader_lib_scheme"
begin

lemma window_split: "\<exists>k. window R s = take k (pp_rest s) \<and> min 1024 (length (pp_rest s)) \<le> k"
  using fill_min [of "pp_rest s"] by (auto simp: window_def)

lemma window_Nil_iff: "window R s = [] \<longleftrightarrow> pp_rest s = []"
  using fill_min [of "pp_rest s"] by (auto simp: window_def) (cases "pp_rest s"; simp)

text \<open>A prefix of at most 1024 bytes is in the window.\<close>

lemma window_prefix:
  assumes "pp_rest s = h @ r" "length h \<le> 1024"
  shows "\<exists>k. window R s = h @ take k r"
proof -
  obtain k where k: "window R s = take k (h @ r)" "min 1024 (length h + length r) \<le> k"
    using window_split [of s] assms(1) by auto
  then show ?thesis using assms(2) by (cases "length h \<le> k") auto
qed

lemma consume_prefix:
  assumes "pp_rest s = h @ r" "length h \<le> 1024" "window R s = h @ q"
  shows "consume (length (window R s) - length q) s = s\<lparr>pp_rest := r\<rparr>"
  using assms by (simp add: consume_def)

text \<open>What a parser leaves of the window is a suffix of the input, shorter by what it read.\<close>

lemma consume_suffix:
  assumes "window R s = h @ q" "h \<noteq> []"
  shows "length (pp_rest (consume (length (window R s) - length q) s)) < length (pp_rest s)"
proof -
  have "length (h @ q) \<le> length (pp_rest s)"
    using assms(1) by (metis window_def length_take min.cobounded1)
  then show ?thesis using assms by (cases h) (auto simp: consume_def)
qed

lemma read_exact_Ok: "read_exact R n s = Ok (b, s1) \<Longrightarrow> length (pp_rest s1) \<le> length (pp_rest s)"
  by (auto simp: read_exact_def end_result_def consume_def split: if_splits source_end.splits)

lemma fill_buf_Ok: "fill_buf R s = Ok buf \<Longrightarrow> buf = window R s"
  by (auto simp: fill_buf_def end_result_def split: if_splits source_end.splits)

lemma read_fixed_Ok: "read_fixed R n s out = Ok (b, s1) \<Longrightarrow> length (pp_rest s1) \<le> length (pp_rest s)"
  by (auto simp: read_fixed_def dest: read_exact_Ok)

subsection \<open>Every call returns and makes progress\<close>

lemma read_limited_Ok:
  "read_limited R s body = Ok (b, s1) \<Longrightarrow> length (pp_rest s1) \<le> length (pp_rest s)"
proof (induction R s body rule: read_limited.induct)
  case (1 R s body)
  then show ?case
    by (subst (asm) (2) read_limited.simps)
      (fastforce simp: Let_def consume_def end_result_def split: if_splits source_end.splits)
qed

lemma read_partials_returns:
  "\<exists>r. read_partials W R s body = Some r \<and>
     (\<forall>b s1. r = Ok (b, s1) \<longrightarrow> length (pp_rest s1) \<le> length (pp_rest s))"
proof (induction "length (pp_rest s)" arbitrary: s body rule: less_induct)
  case less
  show ?case
  proof (cases "fill_buf R s")
    case (Ok w)
    then have w: "fill_buf R s = Ok (window R s)" using fill_buf_Ok by simp
    show ?thesis
    proof (cases "read_packet_len W (window R s)")
      case (Ok p)
      obtain q l where p: "p = (q, l)" by (cases p)
      let ?s = "consume (length (window R s) - length q) s"
      from read_packet_len_suffix [of "window R s" q l] Ok p
      obtain h where "h \<noteq> []" "window R s = h @ q" by auto
      then have lt: "length (pp_rest ?s) < length (pp_rest s)" by (intro consume_suffix)
      have step: "read_partials W R s body =
          (case l of Partial n \<Rightarrow> (case read_fixed R n ?s body of
               Ok (b1, s1) \<Rightarrow> read_partials W R s1 b1 | Err e \<Rightarrow> Some (Err e) | Panic \<Rightarrow> Some Panic)
           | Fixed n \<Rightarrow> Some (read_fixed R n ?s body) | Indeterminate \<Rightarrow> Some (Err InvalidInput))"
        using w Ok p by (subst read_partials.simps) (simp split: packet_len.splits)
      have IH: "\<exists>r. read_partials W R s1 b1 = Some r \<and>
          (\<forall>b s2. r = Ok (b, s2) \<longrightarrow> length (pp_rest s2) \<le> length (pp_rest s))"
        if "read_fixed R n ?s body = Ok (b1, s1)" for n b1 s1
        using less.hyps [of s1 b1] read_fixed_Ok [OF that] lt by fastforce
      show ?thesis
        using IH lt unfolding step
        by (cases l) (fastforce split: result.splits dest: read_fixed_Ok)+
    qed (use w in \<open>subst read_partials.simps, simp\<close>)+
  qed (subst read_partials.simps, simp)+
qed

lemma partial_rest_returns:
  "\<exists>item s1. partial_rest W L R v t first s = Some (item, s1)
     \<and> (item = Panic \<or> length (pp_rest s1) \<le> length (pp_rest s))"
  using read_partials_returns [of s first]
  by (auto simp: partial_rest_def stop_def split: result.splits)

lemma partial_packet_returns:
  "\<exists>item s1. partial_packet W L R v t n s = Some (item, s1)
     \<and> (item = Panic \<or> length (pp_rest s1) \<le> length (pp_rest s))"
proof (cases "read_exact R n s")
  case (Ok x)
  then show ?thesis
    using partial_rest_returns [of L v t "fst x" "snd x"] read_exact_Ok [of n s "fst x" "snd x"]
    by (cases x) (fastforce simp: partial_packet_def stop_def)
qed (auto simp: partial_packet_def stop_def)

lemma packet_of_len_returns:
  "\<exists>item s1. packet_of_len W L R v t l s = Some (item, s1)
     \<and> (item = Panic \<or> length (pp_rest s1) \<le> length (pp_rest s))"
proof (cases l)
  case (Fixed n)
  then show ?thesis
    by (auto simp: packet_of_len_def fixed_packet_def consume_def stop_def
        split: result.splits if_splits dest: read_exact_Ok)
next
  case Indeterminate
  then show ?thesis
    by (auto simp: packet_of_len_def indeterminate_packet_def stop_def
        split: result.splits dest: read_limited_Ok)
qed (simp add: packet_of_len_def partial_packet_returns)

text \<open>
  A call ends the iteration, or yields an item and either is the last one to do so or has consumed
  input.
\<close>

lemma next_packet_progress:
  "\<exists>item s1. next_packet W L R s = Some (item, s1)
     \<and> (item = None \<or> item = Some Panic \<and> (pp_rest s \<noteq> [] \<or> src_end R = Src_Panics)
         \<or> pp_rest s \<noteq> [] \<and> (pp_done s1 \<or> length (pp_rest s1) < length (pp_rest s)))"
proof (cases "pp_done s \<or> (\<exists>e. fill_buf R s = Err e) \<or> fill_buf R s = Ok []")
  case True
  then show ?thesis by (auto simp: next_packet_def)
next
  case False
  show ?thesis
  proof (cases "fill_buf R s")
    case (Ok buf)
    then have w: "buf = window R s" by (rule fill_buf_Ok)
    then have ne: "pp_rest s \<noteq> []" using False Ok by (auto simp: window_Nil_iff)
    show ?thesis
    proof (cases "header_parser W (window R s)")
      case (Ok x)
      obtain q v t l where x: "x = (q, (v, t, l))" by (cases x)
      from header_parser_suffix [of "window R s"] Ok x
      obtain h where "h \<noteq> []" "window R s = h @ q" by auto
      then have "length (pp_rest (consume (length (window R s) - length q) s)) < length (pp_rest s)"
        by (intro consume_suffix)
      with packet_of_len_returns [of L v t l "consume (length (window R s) - length q) s"]
      show ?thesis using False ne Ok x w \<open>fill_buf R s = Ok buf\<close>
        by (fastforce simp: next_packet_def)
    next
      case (Err e)
      then show ?thesis using False ne w \<open>fill_buf R s = Ok buf\<close>
        by (cases e) (auto simp: next_packet_def stop_def)
    qed (use False in \<open>simp add: next_packet_def header_parser_no_panic\<close>)
  next
    case Panic
    then have "src_end R = Src_Panics"
      by (auto simp: fill_buf_def end_result_def split: if_splits source_end.splits)
    then show ?thesis using False Panic by (simp add: next_packet_def)
  qed (use False in auto)
qed

lemma next_packet_done: "pp_done s \<Longrightarrow> next_packet W L R s = Some (None, s)"
  by (simp add: next_packet_def)

lemma drain_done: "pp_done s \<Longrightarrow> drain (Suc n) W L R s = Some []"
  by (simp add: next_packet_done)

lemma drain_returns:
  assumes "length (pp_rest s) + 2 \<le> n"
  shows "\<exists>items. drain n W L R s = Some items
    \<and> length items \<le> length (pp_rest s) + (if src_end R = Src_Panics then 1 else 0)"
  using assms
proof (induction n arbitrary: s)
  case (Suc n)
  obtain item s1 where n: "next_packet W L R s = Some (item, s1)"
    and p: "item = None \<or> item = Some Panic \<and> (pp_rest s \<noteq> [] \<or> src_end R = Src_Panics)
      \<or> pp_rest s \<noteq> [] \<and> (pp_done s1 \<or> length (pp_rest s1) < length (pp_rest s))"
    using next_packet_progress [of L s] by blast
  consider "item = None" | "item = Some Panic" "pp_rest s \<noteq> [] \<or> src_end R = Src_Panics"
    | x where "item = Some x" "x \<noteq> Panic" "pp_rest s \<noteq> []"
        "pp_done s1 \<or> length (pp_rest s1) < length (pp_rest s)"
    using p by (cases item) auto
  then show ?case
  proof cases
    case (3 x)
    from Suc.prems \<open>pp_rest s \<noteq> []\<close> obtain n' where n': "n = Suc n'" by (cases n) auto
    have "\<exists>items. drain n W L R s1 = Some items
      \<and> Suc (length items) \<le> length (pp_rest s) + (if src_end R = Src_Panics then 1 else 0)"
    proof (cases "pp_done s1")
      case True
      then show ?thesis using n' drain_done [of s1 n' L] \<open>pp_rest s \<noteq> []\<close> by (simp add: Suc_leI)
    next
      case False
      with 3 Suc.prems Suc.IH [of s1] show ?thesis by fastforce
    qed
    with n 3 show ?thesis by (cases x) auto
  qed (use n in \<open>auto simp: Suc_leI\<close>)
qed simp

subsection \<open>Written packets are read\<close>

text \<open>What is in front of enough further bytes is read whether or not the source fails behind them.\<close>

definition enough :: "bytes \<Rightarrow> bool" where
  "enough r \<longleftrightarrow> src_end R = Src_Eof \<or> 1024 \<le> length r"

lemma not_at_end: "enough r \<Longrightarrow> pp_rest s = h @ r \<Longrightarrow> n \<le> length h + 1 \<Longrightarrow> \<not> at_end R n s"
  using hits_end_only [of n "h @ r"] by (auto simp: enough_def at_end_def)

lemma fill_buf_enough: "enough r \<Longrightarrow> pp_rest s = h @ r \<Longrightarrow> fill_buf R s = Ok (window R s)"
  using not_at_end [of r s h 1] by (simp add: fill_buf_def)

lemma fixed_packet_body:
  assumes "pp_rest s = b @ r" "body_parser W L v t b = Ok p" "enough r"
  shows "fixed_packet W L R v t (length b) s = (Ok p, s\<lparr>pp_rest := r\<rparr>)"
proof (cases "length b \<le> READER_POLICY")
  case True
  then obtain k where "window R s = b @ take k r"
    using window_prefix [OF assms(1)] by (auto simp: READER_POLICY_def)
  with True assms fill_buf_enough [OF assms(3,1)] show ?thesis by (simp add: fixed_packet_def consume_def)
qed (use assms not_at_end [OF assms(3,1), of "length b"] in \<open>simp add: fixed_packet_def read_exact_def consume_def\<close>)

lemma next_packet_header:
  assumes "\<not> pp_done s" "pp_rest s = h @ r" "h \<noteq> []" "length h \<le> 1024"
    and "\<And>q. header_parser W (h @ q) = Ok (q, (v, t, l))" "enough r"
  shows "next_packet W L R s =
    map_option (\<lambda>(item, s1). (Some item, s1)) (packet_of_len W L R v t l (s\<lparr>pp_rest := r\<rparr>))"
proof -
  obtain k where "window R s = h @ take k r" using window_prefix [OF assms(2,4)] by blast
  moreover from this have "consume (length (window R s) - length (take k r)) s = s\<lparr>pp_rest := r\<rparr>"
    using consume_prefix [OF assms(2,4)] by blast
  ultimately show ?thesis using assms(1,3,5) fill_buf_enough [OF assms(6,2)] by (simp add: next_packet_def)
qed

lemma length_write_header: "write_header W v t n \<noteq> []" "length (write_header W v t n) \<le> 6"
  by (cases v; simp)+

lemma next_packet_written:
  assumes "packet_ok W L p" "packet_to_writer W L p = Ok out" "\<not> pp_done s" "pp_rest s = out @ r" "enough r"
  shows "next_packet W L R s = Some (Some (Ok p), s\<lparr>pp_rest := r\<rparr>)"
proof -
  from packet_framed_roundtrip [OF assms(1)] obtain b where b: "length b < 2 ^ 32"
    "packet_to_writer W L p = Ok (write_header W (packet_version p) (tag_to_u8 (packet_tag p)) (length b) @ b)"
    "body_parser W L (packet_version p) (packet_tag p) b = Ok p" by blast
  let ?h = "write_header W (packet_version p) (tag_to_u8 (packet_tag p)) (length b)"
  have "header_fits (packet_version p) (packet_tag p)"
    using assms(1) by (simp add: packet_ok_def)
  from header_parser_write_header [OF this b(1)]
  have "next_packet W L R s = map_option (\<lambda>(item, s1). (Some item, s1))
      (packet_of_len W L R (packet_version p) (packet_tag p) (Fixed (length b)) (s\<lparr>pp_rest := b @ r\<rparr>))"
    using assms(2-4) b(2) length_write_header(2) [of "packet_version p" "tag_to_u8 (packet_tag p)" "length b"]
    using assms(5) by (intro next_packet_header [of s ?h]) (auto simp: length_write_header(1) enough_def)
  then show ?thesis using b(3) assms(5) by (simp add: packet_of_len_def fixed_packet_body)
qed

lemma drain_written_prefix:
  assumes "list_all2 (\<lambda>p out. packet_ok W L p \<and> packet_to_writer W L p = Ok out) ps outs"
    and "\<not> pp_done s" "pp_rest s = concat outs @ r" "enough r" "drain n W L R s = Some items"
  shows "\<exists>rest. items = map Ok ps @ rest"
  using assms
proof (induction ps outs arbitrary: s n items rule: list_all2_induct)
  case (Cons p ps out outs)
  then obtain m where m: "n = Suc m" by (cases n) auto
  have "enough (concat outs @ r)" using Cons.prems(3) by (auto simp: enough_def)
  with Cons have "next_packet W L R s = Some (Some (Ok p), s\<lparr>pp_rest := concat outs @ r\<rparr>)"
    by (intro next_packet_written) auto
  then obtain xs where xs: "drain m W L R (s\<lparr>pp_rest := concat outs @ r\<rparr>) = Some xs" "items = Ok p # xs"
    using Cons.prems(4) m by auto
  from Cons.IH [OF _ _ Cons.prems(3) xs(1)] Cons.prems(1) xs(2) show ?case by auto
qed simp

subsection \<open>A source that fails\<close>

text \<open>The same source, with an end of file where it fails: each operation does the same, or meets the failure.\<close>

abbreviation R0 :: "('r) reader_lib_scheme" where
  "R0 \<equiv> R\<lparr>src_end := Src_Eof\<rparr>"

lemma eof_reader [simp]: "window R0 s = window R s" "\<not> at_end R0 n s" "fill_buf R0 s = Ok (window R s)"
  by (simp_all add: window_def at_end_def fill_buf_def)

lemma fill_buf_fails: "fill_buf R s = Ok (window R s) \<or> fill_buf R s = end_result R"
  by (simp add: fill_buf_def)

lemma read_exact_fails: "read_exact R n s = read_exact R0 n s \<or> read_exact R n s = end_result R"
  by (simp add: read_exact_def)

lemma end_result_cases: "(end_result R :: 'x res) = Err IOError \<or> (end_result R :: 'x res) = Panic"
  by (cases "src_end R") (simp_all add: end_result_def)

lemma map_ok_end_result [simp]: "map_ok f (end_result R) = end_result R"
  by (cases "src_end R") (simp_all add: end_result_def)

lemma read_limited_fails: "read_limited R s body = read_limited R0 s body \<or> read_limited R s body = end_result R"
proof (induction "length (pp_rest s)" arbitrary: s body rule: less_induct)
  case less
  let ?buf = "take (read_len R (pp_rest s)) (pp_rest s)"
  show ?case
  proof (cases "at_end R 1 s \<or> ?buf = [] \<or> MAX_CAPACITY \<le> length (body @ ?buf)")
    case True
    then show ?thesis by (subst (1 3) read_limited.simps, subst (2) read_limited.simps) (auto simp: Let_def)
  next
    case False
    then have "length (pp_rest (consume (length ?buf) s)) < length (pp_rest s)" by (auto simp: consume_def)
    from less [OF this, of "body @ ?buf"] False show ?thesis
      by (subst (1 3) read_limited.simps, subst (2) read_limited.simps) (simp add: Let_def)
  qed
qed

lemma read_fixed_fails: "read_fixed R n s out = read_fixed R0 n s out \<or> read_fixed R n s out = end_result R"
  using read_exact_fails [of n s] by (auto simp: read_fixed_def)

lemma read_partials_fails:
  "read_partials W R s body = read_partials W R0 s body \<or> read_partials W R s body = Some (end_result R)"
proof (induction "length (pp_rest s)" arbitrary: s body rule: less_induct)
  case less
  show ?case
  proof (cases "fill_buf R s = Ok (window R s)")
    case w: True
    show ?thesis
    proof (cases "read_packet_len W (window R s)")
      case (Ok p)
      obtain q l where p: "p = (q, l)" by (cases p)
      let ?s = "consume (length (window R s) - length q) s"
      from read_packet_len_suffix [of "window R s" q l] Ok p
      obtain h where "h \<noteq> []" "window R s = h @ q" by auto
      then have lt: "length (pp_rest ?s) < length (pp_rest s)" by (intro consume_suffix)
      show ?thesis
      proof (cases l)
        case (Partial n)
        note sub = read_partials.simps [of W R s body] read_partials.simps [of W R0 s body]
        from read_fixed_fails [of n ?s body] show ?thesis
        proof
          assume f: "read_fixed R n ?s body = read_fixed R0 n ?s body"
          show ?thesis
          proof (cases "read_fixed R n ?s body")
            case (Ok x)
            then obtain b1 s1 where x: "read_fixed R n ?s body = Ok (b1, s1)" by (cases x) auto
            with lt have "length (pp_rest s1) < length (pp_rest s)" using read_fixed_Ok by fastforce
            from less [OF this, of b1] show ?thesis
              unfolding sub using w \<open>read_packet_len W (window R s) = Ok p\<close> p Partial x f by simp
          qed (use w Ok p Partial f in \<open>simp_all add: sub\<close>)
        next
          assume "read_fixed R n ?s body = end_result R"
          then show ?thesis
            unfolding sub using w Ok p Partial end_result_cases [where ?'x = "bytes \<times> packet_parser"]
            by auto
        qed
      qed (use w Ok p read_fixed_fails in \<open>simp_all add: read_partials.simps [of W R s] read_partials.simps [of W R0 s]\<close>)
    qed (use w in \<open>simp_all add: read_partials.simps [of W R s] read_partials.simps [of W R0 s]\<close>)
  next
    case False
    then have "fill_buf R s = end_result R" using fill_buf_fails by blast
    with end_result_cases [where ?'x = bytes] end_result_cases [where ?'x = "bytes \<times> packet_parser"] show ?thesis
      by (auto simp: read_partials.simps [of W R s] end_result_def split: source_end.splits)
  qed
qed

text \<open>The item is the same, or the failure, which is the last item.\<close>

definition fails_to :: "(packet res \<times> packet_parser) option \<Rightarrow> bool" where
  "fails_to x \<longleftrightarrow> (\<exists>s1. x = Some (end_result R, s1) \<and> (pp_done s1 \<or> (end_result R :: packet res) = Panic))"

lemma indeterminate_fails:
  "indeterminate_packet W L R v t s = indeterminate_packet W L R0 v t s \<or> fails_to (Some (indeterminate_packet W L R v t s))"
  using read_limited_fails [of s "[]"]
  by (cases "src_end R") (auto simp: indeterminate_packet_def fails_to_def end_result_def stop_def)

lemma fixed_fails: "fixed_packet W L R v t n s = fixed_packet W L R0 v t n s \<or> fails_to (Some (fixed_packet W L R v t n s))"
  using read_exact_fails [of n s] fill_buf_fails [of s]
  by (cases "src_end R") (auto simp: fixed_packet_def fails_to_def end_result_def stop_def)

lemma partial_rest_fails: "partial_rest W L R v t x s = partial_rest W L R0 v t x s \<or> fails_to (partial_rest W L R v t x s)"
  using read_partials_fails [of s x]
  by (cases "src_end R") (auto simp: partial_rest_def fails_to_def end_result_def stop_def)

lemma partial_fails: "partial_packet W L R v t n s = partial_packet W L R0 v t n s \<or> fails_to (partial_packet W L R v t n s)"
proof (cases "read_exact R n s = end_result R")
  case True
  then show ?thesis
    by (cases "src_end R") (auto simp: partial_packet_def fails_to_def end_result_def stop_def)
next
  case False
  then have "read_exact R n s = read_exact R0 n s" using read_exact_fails by blast
  then show ?thesis
    using partial_rest_fails [of L v t] by (cases "read_exact R0 n s") (auto simp: partial_packet_def)
qed

lemma packet_of_len_fails:
  "packet_of_len W L R v t l s = packet_of_len W L R0 v t l s \<or> fails_to (packet_of_len W L R v t l s)"
  using indeterminate_fails fixed_fails partial_fails by (cases l) (simp_all add: packet_of_len_def)

lemma next_packet_fails:
  "next_packet W L R s = next_packet W L R0 s \<or> next_packet W L R s = Some (None, stop s)
   \<or> (\<exists>s1. next_packet W L R s = Some (Some (end_result R), s1) \<and> (pp_done s1 \<or> (end_result R :: packet res) = Panic))"
proof (cases "pp_done s")
  case False
  show ?thesis
  proof (cases "fill_buf R s = Ok (window R s)")
    case w: True
    show ?thesis
    proof (cases "header_parser W (window R s)")
      case (Ok x)
      obtain q v t l where x: "x = (q, (v, t, l))" by (cases x)
      from packet_of_len_fails [of L v t l "consume (length (window R s) - length q) s"] False w Ok x
      show ?thesis by (auto simp: next_packet_def fails_to_def)
    qed (use False w in \<open>simp_all add: next_packet_def\<close>)
  next
    case e: False
    then have "fill_buf R s = end_result R" using fill_buf_fails by blast
    with False show ?thesis
      by (cases "src_end R") (auto simp: next_packet_def end_result_def)
  qed
qed (simp add: next_packet_def)

lemma drain_fails:
  assumes "drain n W L R s = Some xs" "drain n W L R0 s = Some ys"
  shows "\<exists>k. xs = take k ys \<or> xs = take k ys @ [end_result R]"
  using assms
proof (induction n arbitrary: s xs ys)
  case (Suc n)
  from next_packet_fails [of L s] consider "next_packet W L R s = next_packet W L R0 s"
    | "next_packet W L R s = Some (None, stop s)"
    | s1 where "next_packet W L R s = Some (Some (end_result R), s1)" "pp_done s1 \<or> (end_result R :: packet res) = Panic"
    by blast
  then show ?case
  proof cases
    case 1
    obtain x s1 where x: "next_packet W L R0 s = Some (x, s1)" using Suc.prems(2) by (auto split: option.splits)
    show ?thesis
    proof (cases "\<exists>y. x = Some y \<and> y \<noteq> Panic")
      case True
      then obtain y where y: "x = Some y" "y \<noteq> Panic" by blast
      with 1 x Suc.prems obtain us vs where u: "drain n W L R s1 = Some us" "drain n W L R0 s1 = Some vs"
        "xs = y # us" "ys = y # vs" by (cases y) auto
      from Suc.IH [OF u(1,2)] obtain k where "us = take k vs \<or> us = take k vs @ [end_result R]" by blast
      with u(3,4) show ?thesis by (intro exI [of _ "Suc k"]) auto
    next
      case False
      with 1 x Suc.prems have "xs = ys" by (cases x) auto
      then show ?thesis by (intro exI [of _ "length ys"]) simp
    qed
  next
    case 2
    with Suc.prems(1) show ?thesis by (intro exI [of _ 0]) simp
  next
    case (3 s1)
    have "xs = [end_result R]"
    proof (cases "(end_result R :: packet res) = Panic")
      case True
      with 3 Suc.prems(1) show ?thesis by simp
    next
      case False
      then have "(end_result R :: packet res) = Err IOError" using end_result_cases by blast
      moreover obtain n' where "n = Suc n'" using 3 False Suc.prems(1) calculation by (cases n) auto
      ultimately show ?thesis using 3 False Suc.prems(1) drain_done [of s1 n' L] by auto
    qed
    then show ?thesis by (intro exI [of _ 0]) simp
  qed
qed simp

end

text \<open>A source that ends never fails.\<close>

locale packet_stream = wire_laws W + reader_laws R
  for W :: wire and R :: "('r) reader_lib_scheme"

sublocale packet_stream \<subseteq> packet_source ..

context packet_stream
begin

lemma enough_eof [simp]: "enough r"
  by (simp add: enough_def reads_to_eof)

lemma eof [simp]: "\<not> at_end R n s" "fill_buf R s = Ok (window R s)"
  by (simp_all add: fill_buf_def at_end_def reads_to_eof)

lemma drain_written:
  assumes "list_all2 (\<lambda>p out. packet_ok W L p \<and> packet_to_writer W L p = Ok out) ps outs"
    and "\<not> pp_done s" "pp_rest s = concat outs" "length ps < n"
  shows "drain n W L R s = Some (map Ok ps)"
  using assms
proof (induction ps outs arbitrary: s n rule: list_all2_induct)
  case Nil
  then show ?case by (cases n) (simp_all add: next_packet_def window_Nil_iff)
next
  case (Cons p ps out outs)
  then obtain m where "n = Suc m" by (cases n) auto
  with Cons show ?case
    using next_packet_written [of L p out s "concat outs"] by auto
qed

subsection \<open>Partial bodies\<close>

lemma read_packet_len_partial:
  assumes "k \<le> 30"
  shows "read_packet_len W (of_nat (224 + k) # r) = Ok (r, Partial (2 ^ k))"
proof -
  let ?b = "of_nat (224 + k) :: u8"
  have b: "unat ?b = 224 + k" using assms by (simp add: unat_of_nat_small del: of_nat_add)
  have "unat (?b AND 0x1F) = unat ?b mod 32"
    using unat_and_mask [of ?b 5] by (simp add: mask_eq_exp_minus_1)
  also have "\<dots> = k" using b assms mod_mult_self1 [of k 7 32] by (simp add: add.commute)
  finally show ?thesis
    using b assms by (simp add: read_packet_len_def word_le_nat_alt del: of_nat_add)
qed

lemma read_partials_step:
  assumes "pp_rest s = h @ r" "h \<noteq> []" "length h \<le> 1024"
    and "\<And>q. read_packet_len W (h @ q) = Ok (q, l)"
  shows "read_partials W R s body =
     (case l of
        Partial len \<Rightarrow>
          (case read_fixed R len (s\<lparr>pp_rest := r\<rparr>) body of
             Ok (body1, s1) \<Rightarrow> read_partials W R s1 body1
           | Err e \<Rightarrow> Some (Err e)
           | Panic \<Rightarrow> Some Panic)
      | Fixed len \<Rightarrow> Some (read_fixed R len (s\<lparr>pp_rest := r\<rparr>) body)
      | Indeterminate \<Rightarrow> Some (Err InvalidInput))"
proof -
  obtain k where "window R s = h @ take k r" using window_prefix [OF assms(1,3)] by blast
  moreover from this have "consume (length (window R s) - length (take k r)) s = s\<lparr>pp_rest := r\<rparr>"
    using consume_prefix [OF assms(1,3)] by blast
  ultimately show ?thesis using assms(4)
    by (subst read_partials.simps) (simp add: Let_def split: packet_len.splits)
qed

lemma read_partials_encode:
  assumes "list_all chunk_ok cs" "length fin < 2 ^ 32" "pp_rest s = partial_encode W cs fin @ r"
  shows "read_partials W R s body =
    Some (Ok (body @ concat (map snd cs) @ fin, s\<lparr>pp_rest := r\<rparr>))"
  using assms
proof (induction cs arbitrary: s body)
  case Nil
  let ?h = "tl (write_header W New 0 (length fin))"
  have "pp_rest s = ?h @ fin @ r" using Nil by simp
  moreover have "?h \<noteq> []" "length ?h \<le> 1024" by simp_all
  ultimately have "read_partials W R s body = Some (read_fixed R (length fin) (s\<lparr>pp_rest := fin @ r\<rparr>) body)"
    using read_partials_step [of s ?h "fin @ r" "Fixed (length fin)" body] read_packet_len_new [OF assms(2)]
    by simp
  then show ?case by (simp add: read_fixed_def read_exact_def consume_def)
next
  case (Cons kc cs)
  obtain k c where kc: "kc = (k, c)" by (cases kc)
  with Cons.prems have c: "k \<le> 30" "length c = 2 ^ k" by (simp_all add: chunk_ok_def)
  let ?r = "c @ partial_encode W cs fin @ r"
  have "pp_rest s = [of_nat (224 + k)] @ ?r" using Cons.prems kc by simp
  then have "read_partials W R s body = (case read_fixed R (2 ^ k) (s\<lparr>pp_rest := ?r\<rparr>) body of
      Ok (body1, s1) \<Rightarrow> read_partials W R s1 body1 | Err e \<Rightarrow> Some (Err e) | Panic \<Rightarrow> Some Panic)"
    using read_partials_step [of s "[of_nat (224 + k)]" ?r "Partial (2 ^ k)" body]
      read_packet_len_partial [OF c(1)] by (simp del: of_nat_add)
  also have "read_fixed R (2 ^ k) (s\<lparr>pp_rest := ?r\<rparr>) body =
      Ok (body @ c, s\<lparr>pp_rest := partial_encode W cs fin @ r\<rparr>)"
    using c(2) by (simp add: read_fixed_def read_exact_def consume_def)
  finally show ?case
    using Cons.IH [of "s\<lparr>pp_rest := partial_encode W cs fin @ r\<rparr>" "body @ c"] Cons.prems kc by simp
qed

lemma header_parser_partial:
  assumes "t \<in> {Tag_LiteralData, Tag_CompressedData, Tag_SymEncryptedData, Tag_SymEncryptedProtectedData}"
    and "k \<le> 30"
  shows "header_parser W (tag_encode t # of_nat (224 + k) # q) = Ok (q, (New, t, Partial (2 ^ k)))"
proof -
  have t: "unat (tag_to_u8 t) < 64" "tag_of_u8 (tag_to_u8 t) = t"
    using assms(1) by (auto simp: tag_of_u8_def)
  then have b: "unat (tag_encode t) = 192 + unat (tag_to_u8 t)"
    by (simp add: tag_encode_def header_byte_new)
  then have "of_nat (unat (tag_encode t) mod 64) = tag_to_u8 t"
    using t(1) mod_mult_self2 [of "unat (tag_to_u8 t)" 64 3] by (simp add: add.commute)
  with b t assms(2) read_packet_len_partial show ?thesis
    by (simp add: header_parser_def new_packet_header_Cons del: of_nat_add)
qed

lemma next_packet_partial:
  assumes "t \<in> {Tag_LiteralData, Tag_CompressedData, Tag_SymEncryptedData, Tag_SymEncryptedProtectedData}"
    and "9 \<le> k" "list_all chunk_ok ((k, c) # cs)" "length fin < 2 ^ 32"
    and "\<not> pp_done s" "pp_rest s = tag_encode t # partial_encode W ((k, c) # cs) fin @ r"
    and "body_parser W L New t (c @ concat (map snd cs) @ fin) = Ok p"
  shows "next_packet W L R s = Some (Some (Ok p), s\<lparr>pp_rest := r\<rparr>)"
proof -
  let ?r = "c @ partial_encode W cs fin @ r"
  have c: "k \<le> 30" "length c = 2 ^ k" using assms(3) by (simp_all add: chunk_ok_def)
  have len: "512 \<le> length c" using c(2) power_increasing [OF assms(2), of "2::nat"] by simp
  have "next_packet W L R s = map_option (\<lambda>(item, s1). (Some item, s1))
      (packet_of_len W L R New t (Partial (length c)) (s\<lparr>pp_rest := ?r\<rparr>))"
    using assms(5,6) header_parser_partial [OF assms(1) c(1)] c(2)
    by (intro next_packet_header [of s "[tag_encode t, of_nat (224 + k)]"]) (simp_all del: of_nat_add)
  moreover have "packet_of_len W L R New t (Partial (length c)) (s\<lparr>pp_rest := ?r\<rparr>) =
      partial_rest W L R New t c (s\<lparr>pp_rest := partial_encode W cs fin @ r\<rparr>)"
    using assms(1) len by (auto simp: packet_of_len_def partial_packet_def read_exact_def consume_def)
  moreover have "partial_rest W L R New t c (s\<lparr>pp_rest := partial_encode W cs fin @ r\<rparr>) =
      Some (Ok p, s\<lparr>pp_rest := r\<rparr>)"
    using assms(3,4,7) read_partials_encode [of cs fin "s\<lparr>pp_rest := partial_encode W cs fin @ r\<rparr>" r c]
    by (simp add: partial_rest_def)
  ultimately show ?thesis by simp
qed

lemma next_packet_truncated:
  assumes "header_fits v t" "len < 2 ^ 32" "length b < len" "\<not> pp_done s"
    and "pp_rest s = write_header W v (tag_to_u8 t) len @ b"
  shows "next_packet W L R s =
    Some (if len \<le> 1024 then (Some Panic, s\<lparr>pp_rest := b\<rparr>)
          else (Some (Err IOError), s\<lparr>pp_rest := b, pp_done := True\<rparr>))"
proof -
  have "next_packet W L R s = map_option (\<lambda>(item, s1). (Some item, s1))
      (packet_of_len W L R v t (Fixed len) (s\<lparr>pp_rest := b\<rparr>))"
    using assms(4,5) header_parser_write_header [OF assms(1,2)]
      length_write_header(2) [of v "tag_to_u8 t" len]
    by (intro next_packet_header [of s "write_header W v (tag_to_u8 t) len"])
      (auto simp: length_write_header(1))
  then show ?thesis using assms(3)
    by (auto simp: packet_of_len_def fixed_packet_def READER_POLICY_def window_def read_exact_def stop_def)
qed

end

interpretation std_stream: packet_stream std_wire std_reader ..

section \<open>Streams of packets\<close>

text \<open>
  C1. A stream of written packets is read back: for any buffering that keeps at least 1024 bytes in
  view, iterating over the concatenation of well-formed packets written one after the other yields
  exactly these packets, in order and without an error, and then ends.
\<close>

theorem packet_stream_roundtrip:
  assumes "wire_laws W" and "reader_laws R"
    and "list_all2 (\<lambda>p out. packet_ok W L p \<and> packet_to_writer W L p = Ok out) ps outs"
  shows "drain (Suc (length ps)) W L R (packet_parser_new (concat outs)) = Some (map Ok ps)"
  using packet_stream.drain_written [OF packet_stream.intro [OF assms(1,2)] assms(3)]
  by (simp add: packet_parser_new_def del: drain.simps)

theorem packet_stream_roundtrip_witness:
  "drain 3 std_wire std_curves std_reader
     (packet_parser_new ([0xCA, 3, 0x50, 0x47, 0x50] @ [0xCD, 2, 0x61, 0x62]))
   = Some [Ok (P_Marker \<lparr>marker_packet_version = New\<rparr>),
           Ok (P_UserId \<lparr>uid_packet_version = New, uid_id = [0x61, 0x62]\<rparr>)]"
proof -
  let ?ps = "[P_Marker \<lparr>marker_packet_version = New\<rparr>,
    P_UserId \<lparr>uid_packet_version = New, uid_id = [0x61, 0x62]\<rparr>]"
  have "list_all2 (\<lambda>p out. packet_ok std_wire std_curves p \<and> packet_to_writer std_wire std_curves p = Ok out)
    ?ps [[0xCA, 3, 0x50, 0x47, 0x50], [0xCD, 2, 0x61, 0x62]]"
    by (simp add: packet_ok_def header_fits_def canonical_tag_def tag_of_u8_def marker_to_writer_def
        user_id_to_writer_def packet_to_writer_def write_packet_def PGP_def)
  from packet_stream_roundtrip [OF std.wire_laws_axioms std_reader.reader_laws_axioms this]
  show ?thesis by (simp add: numeral_3_eq_3 del: drain.simps)
qed

text \<open>
  C30. Reading packets terminates and is bounded: for every input, every call of \<open>next\<close> returns, and
  the iteration yields at most as many items as there are input bytes before it ends or panics.
\<close>

theorem packet_stream_terminates:
  assumes "wire_laws W" and "reader_laws R"
  shows "\<exists>items. drain (length input + 2) W L R (packet_parser_new input) = Some items
    \<and> length items \<le> length input"
  using packet_source.drain_returns [OF packet_source.intro [OF assms(1) reader_laws.axioms(1) [OF assms(2)]], of "packet_parser_new input"
      "length input + 2" L] reader_laws.reads_to_eof [OF assms(2)]
  by (simp add: packet_parser_new_def del: drain.simps)

theorem packet_stream_terminates_witness:
  "\<exists>items. drain 5 std_wire std_curves std_reader (packet_parser_new [0xCA, 0xFF, 1]) = Some items
    \<and> length items \<le> 3"
  using packet_stream_terminates [OF std.wire_laws_axioms std_reader.reader_laws_axioms,
      where input = "[0xCA, 0xFF, 1]" and L = std_curves]
  by (simp add: eval_nat_numeral del: drain.simps)



text \<open>
  C33. Partial bodies are reassembled: a data packet sent in any number of partial chunks, the first of
  at least 512 bytes, and a final chunk is parsed from the concatenation of the chunks, and the
  parser then stands right behind the packet.
\<close>

theorem partial_body_reassembled:
  assumes "wire_laws W" and "reader_laws R"
    and "t \<in> {Tag_LiteralData, Tag_CompressedData, Tag_SymEncryptedData, Tag_SymEncryptedProtectedData}"
    and "9 \<le> k" and "list_all chunk_ok ((k, c) # cs)" and "length fin < 2 ^ 32"
    and "\<not> pp_done s" and "pp_rest s = tag_encode t # partial_encode W ((k, c) # cs) fin @ r"
    and "body_parser W L New t (c @ concat (map snd cs) @ fin) = Ok p"
  shows "next_packet W L R s = Some (Some (Ok p), s\<lparr>pp_rest := r\<rparr>)"
  using packet_stream.next_packet_partial [OF packet_stream.intro [OF assms(1,2)] assms(3-)] .

theorem partial_body_reassembled_witness:
  "next_packet std_wire std_curves std_reader
     \<lparr>pp_rest = 0xC9 # 0xE9 # replicate 512 7 @ [1, 8, 0xCA], pp_done = False\<rparr>
   = Some (Some (Ok (P_SymEncryptedData \<lparr>sed_packet_version = New, sed_data = replicate 512 7 @ [8]\<rparr>)),
       \<lparr>pp_rest = [0xCA], pp_done = False\<rparr>)"
  using partial_body_reassembled [OF std.wire_laws_axioms std_reader.reader_laws_axioms,
      of Tag_SymEncryptedData 9 "replicate 512 7" "[]" "[8]"
        "\<lparr>pp_rest = 0xC9 # 0xE9 # replicate 512 7 @ [1, 8, 0xCA], pp_done = False\<rparr>" "[0xCA]" std_curves
        "P_SymEncryptedData \<lparr>sed_packet_version = New, sed_data = replicate 512 7 @ [8]\<rparr>"]
  by (simp add: chunk_ok_def tag_encode_def body_parser_def sed_from_slice_def)

text \<open>
  A truncated packet is an I/O error only when its announced length exceeds the 1024 bytes of the
  buffer policy; a shorter announced length slices the window out of range and panics.
\<close>

theorem truncated_packet:
  assumes "wire_laws W" and "reader_laws R"
    and "header_fits v t" and "len < 2 ^ 32" and "length b < len"
  shows "next_packet W L R (packet_parser_new (write_header W v (tag_to_u8 t) len @ b)) =
    Some (if len \<le> 1024 then (Some Panic, \<lparr>pp_rest = b, pp_done = False\<rparr>)
          else (Some (Err IOError), \<lparr>pp_rest = b, pp_done = True\<rparr>))"
  using packet_stream.next_packet_truncated [OF packet_stream.intro [OF assms(1,2)] assms(3-),
      where s = "packet_parser_new (write_header W v (tag_to_u8 t) len @ b)" and L = L]
  by (simp add: packet_parser_new_def)

theorem truncated_packet_witness:
  "next_packet std_wire std_curves std_reader (packet_parser_new [0xCD, 5, 0x61]) =
     Some (Some Panic, \<lparr>pp_rest = [0x61], pp_done = False\<rparr>)"
proof -
  have "header_fits New Tag_UserId"
    by (simp add: header_fits_def canonical_tag_def tag_of_u8_def)
  from truncated_packet [OF std.wire_laws_axioms std_reader.reader_laws_axioms this, of 5 "[0x61]" std_curves]
  show ?thesis by simp
qed

end
