(* ===== verification/Pgp_Signing.thy ===== *)
theory Pgp_Signing
  imports Pgp_Signature_Codec Pgp_Public_Key Pgp_Lines
begin

text \<open>
  Making and checking signatures: the hashing, signing and query methods of \<open>SignatureConfig\<close>
  (\<open>src/src/packet/signature/config.rs\<close>) and of \<open>Signature\<close> (\<open>src/src/packet/signature/types.rs\<close>).
  Both are generic over the key traits (\<open>src/src/types/key.rs\<close>, \<open>public_key.rs\<close>, \<open>secret_key.rs\<close>): a key
  is a record of the trait's methods, and the locale \<open>signing_key\<close> is the contract that the key
  verifies what it signs. Every kind of signature the library makes is then accepted by the
  matching verification, and what is hashed determines what is signed.
\<close>

section \<open>The key traits\<close>

record public_key_trait =
  pkt_fingerprint :: "bytes res"
  pkt_key_id :: "key_id res"
  pkt_algorithm :: pk_alg
  pkt_verify_signature :: "hash_alg \<Rightarrow> bytes \<Rightarrow> mpi list \<Rightarrow> unit res"
  pkt_encrypt :: "bytes \<Rightarrow> mpi list res"
  pkt_to_writer_old :: "bytes res"

record secret_key_trait = public_key_trait +
  skt_create_signature :: "bytes \<Rightarrow> hash_alg \<Rightarrow> bytes \<Rightarrow> mpi list res"
  skt_public_params :: public_params

definition is_signing_key :: "('k) public_key_trait_scheme \<Rightarrow> bool" where
  "is_signing_key k \<longleftrightarrow>
     pkt_algorithm k \<in> {Pk_RSA, Pk_RSASign, Pk_ElgamalSign, Pk_DSA, Pk_ECDSA, Pk_EdDSA}"

definition is_encryption_key :: "('k) public_key_trait_scheme \<Rightarrow> bool" where
  "is_encryption_key k \<longleftrightarrow>
     pkt_algorithm k \<in> {Pk_RSA, Pk_RSAEncrypt, Pk_ECDH, Pk_DiffieHellman, Pk_Elgamal}"

text \<open>\<open>SecretKeyTrait::hash_alg\<close>, the hash suggested for a key.\<close>

definition suggested_hash_alg :: "('k) secret_key_trait_scheme \<Rightarrow> hash_alg" where
  "suggested_hash_alg k =
     (case skt_public_params k of
        Pub_ECDSA (Ecdsa_P384 _ _) \<Rightarrow> Hash_SHA2_384
      | Pub_ECDSA (Ecdsa_P521 _ _) \<Rightarrow> Hash_SHA2_512
      | _ \<Rightarrow> hash_alg_default)"

section \<open>Subpackets of a signature\<close>

fun find_map :: "('a \<Rightarrow> 'b option) \<Rightarrow> 'a list \<Rightarrow> 'b option" where
  "find_map f [] = None"
| "find_map f (x # xs) = (case f x of Some y \<Rightarrow> Some y | None \<Rightarrow> find_map f xs)"

definition filter_map :: "('a \<Rightarrow> 'b option) \<Rightarrow> 'a list \<Rightarrow> 'b list" where
  "filter_map f xs = map (the \<circ> f) (filter (\<lambda>x. f x \<noteq> None) xs)"

definition unwrap_or :: "'a \<Rightarrow> 'a option \<Rightarrow> 'a" where
  "unwrap_or d x = (case x of Some y \<Rightarrow> y | None \<Rightarrow> d)"

definition config_is_certification :: "signature_config \<Rightarrow> bool" where
  "config_is_certification c \<longleftrightarrow>
     cfg_typ c \<in> {Sig_CertGeneric, Sig_CertPersona, Sig_CertCasual, Sig_CertPositive, Sig_CertRevocation}"

definition config_created :: "signature_config \<Rightarrow> int option" where
  "config_created c =
     (if cfg_created c \<noteq> None then cfg_created c
      else find_map (\<lambda>p. case sp_data p of Sp_SignatureCreationTime d \<Rightarrow> Some d | _ \<Rightarrow> None)
        (hashed_subpackets c))"

definition config_issuer :: "signature_config \<Rightarrow> key_id list" where
  "config_issuer c =
     (case cfg_issuer c of
        Some i \<Rightarrow> [i]
      | None \<Rightarrow> filter_map (\<lambda>p. case sp_data p of Sp_Issuer i \<Rightarrow> Some i | _ \<Rightarrow> None)
          (hashed_subpackets c @ unhashed_subpackets c))"

definition config_issuer_fingerprint :: "signature_config \<Rightarrow> bytes list" where
  "config_issuer_fingerprint c =
     filter_map (\<lambda>p. case sp_data p of Sp_IssuerFingerprint _ fp \<Rightarrow> Some fp | _ \<Rightarrow> None)
       (hashed_subpackets c @ unhashed_subpackets c)"

definition sig_embedded_signature :: "signature \<Rightarrow> signature option" where
  "sig_embedded_signature s =
     find_map (\<lambda>p. case sp_data p of Sp_EmbeddedSignature d \<Rightarrow> Some d | _ \<Rightarrow> None)
       (hashed_subpackets (config s) @ unhashed_subpackets (config s))"

definition sig_key_expiration_time :: "signature \<Rightarrow> int option" where
  "sig_key_expiration_time s = find_map (\<lambda>p. case sp_data p of Sp_KeyExpirationTime d \<Rightarrow> Some d | _ \<Rightarrow> None)
     (hashed_subpackets (config s))"

definition sig_signature_expiration_time :: "signature \<Rightarrow> int option" where
  "sig_signature_expiration_time s = find_map (\<lambda>p. case sp_data p of Sp_SignatureExpirationTime d \<Rightarrow> Some d | _ \<Rightarrow> None)
     (hashed_subpackets (config s))"

definition sig_preferred_symmetric_algs :: "signature \<Rightarrow> sym_alg list" where
  "sig_preferred_symmetric_algs s = unwrap_or [] (find_map (\<lambda>p. case sp_data p of Sp_PreferredSymmetricAlgorithms d \<Rightarrow> Some d | _ \<Rightarrow> None)
     (hashed_subpackets (config s)))"

definition sig_preferred_hash_algs :: "signature \<Rightarrow> hash_alg list" where
  "sig_preferred_hash_algs s = unwrap_or [] (find_map (\<lambda>p. case sp_data p of Sp_PreferredHashAlgorithms d \<Rightarrow> Some d | _ \<Rightarrow> None)
     (hashed_subpackets (config s)))"

definition sig_preferred_compression_algs :: "signature \<Rightarrow> compression_alg list" where
  "sig_preferred_compression_algs s = unwrap_or [] (find_map (\<lambda>p. case sp_data p of Sp_PreferredCompressionAlgorithms d \<Rightarrow> Some d | _ \<Rightarrow> None)
     (hashed_subpackets (config s)))"

definition sig_key_server_prefs :: "signature \<Rightarrow> bytes" where
  "sig_key_server_prefs s = unwrap_or [] (find_map (\<lambda>p. case sp_data p of Sp_KeyServerPreferences d \<Rightarrow> Some d | _ \<Rightarrow> None)
     (hashed_subpackets (config s)))"

definition sig_key_flags :: "signature \<Rightarrow> key_flags" where
  "sig_key_flags s = unwrap_or 0 (find_map (\<lambda>p. case sp_data p of Sp_KeyFlags d \<Rightarrow> Some (key_flags_from d) | _ \<Rightarrow> None)
     (hashed_subpackets (config s)))"

definition sig_features :: "signature \<Rightarrow> bytes" where
  "sig_features s = unwrap_or [] (find_map (\<lambda>p. case sp_data p of Sp_Features d \<Rightarrow> Some d | _ \<Rightarrow> None)
     (hashed_subpackets (config s)))"

definition sig_revocation_reason_code :: "signature \<Rightarrow> revocation_code option" where
  "sig_revocation_reason_code s = find_map (\<lambda>p. case sp_data p of Sp_RevocationReason code _ \<Rightarrow> Some code | _ \<Rightarrow> None)
     (hashed_subpackets (config s))"

definition sig_revocation_reason_string :: "signature \<Rightarrow> bytes option" where
  "sig_revocation_reason_string s = find_map (\<lambda>p. case sp_data p of Sp_RevocationReason _ reason \<Rightarrow> Some reason | _ \<Rightarrow> None)
     (hashed_subpackets (config s))"

definition sig_is_primary :: "signature \<Rightarrow> bool" where
  "sig_is_primary s = unwrap_or False (find_map (\<lambda>p. case sp_data p of Sp_IsPrimary d \<Rightarrow> Some d | _ \<Rightarrow> None)
     (hashed_subpackets (config s)))"

definition sig_is_revocable :: "signature \<Rightarrow> bool" where
  "sig_is_revocable s = unwrap_or True (find_map (\<lambda>p. case sp_data p of Sp_Revocable d \<Rightarrow> Some d | _ \<Rightarrow> None)
     (hashed_subpackets (config s)))"

definition sig_preferred_key_server :: "signature \<Rightarrow> bytes option" where
  "sig_preferred_key_server s = find_map (\<lambda>p. case sp_data p of Sp_PreferredKeyServer d \<Rightarrow> Some d | _ \<Rightarrow> None)
     (hashed_subpackets (config s))"

definition sig_notations :: "signature \<Rightarrow> notation_data list" where
  "sig_notations s = filter_map (\<lambda>p. case sp_data p of Sp_Notation d \<Rightarrow> Some d | _ \<Rightarrow> None)
     (hashed_subpackets (config s))"

definition sig_revocation_key :: "signature \<Rightarrow> revocation_key option" where
  "sig_revocation_key s = find_map (\<lambda>p. case sp_data p of Sp_RevocationKey d \<Rightarrow> Some d | _ \<Rightarrow> None)
     (hashed_subpackets (config s))"

definition sig_signers_userid :: "signature \<Rightarrow> bytes option" where
  "sig_signers_userid s = find_map (\<lambda>p. case sp_data p of Sp_SignersUserID d \<Rightarrow> Some d | _ \<Rightarrow> None)
     (hashed_subpackets (config s))"

definition sig_policy_uri :: "signature \<Rightarrow> bytes option" where
  "sig_policy_uri s = find_map (\<lambda>p. case sp_data p of Sp_PolicyURI d \<Rightarrow> Some d | _ \<Rightarrow> None)
     (hashed_subpackets (config s))"

definition sig_trust_signature :: "signature \<Rightarrow> (u8 \<times> u8) option" where
  "sig_trust_signature s = find_map (\<lambda>p. case sp_data p of Sp_TrustSignature depth val \<Rightarrow> Some (depth, val) | _ \<Rightarrow> None)
     (hashed_subpackets (config s))"

definition sig_regular_expression :: "signature \<Rightarrow> bytes option" where
  "sig_regular_expression s = find_map (\<lambda>p. case sp_data p of Sp_RegularExpression d \<Rightarrow> Some d | _ \<Rightarrow> None)
     (hashed_subpackets (config s))"

definition sig_exportable_certification :: "signature \<Rightarrow> bool" where
  "sig_exportable_certification s = unwrap_or True (find_map (\<lambda>p. case sp_data p of Sp_ExportableCertification d \<Rightarrow> Some d | _ \<Rightarrow> None)
     (hashed_subpackets (config s)))"

section \<open>What is hashed\<close>

text \<open>
  \<open>hash_data_to_sign\<close>: text is taken to be normalized already; a timestamp or standalone signature
  covers one byte of its input.
\<close>

definition hash_data_to_sign :: "signature_config \<Rightarrow> hasher \<Rightarrow> bytes \<Rightarrow> hasher res" where
  "hash_data_to_sign c h data =
     (if cfg_typ c \<in> {Sig_Text, Sig_Binary} then Ok (hasher_update h data)
      else if cfg_typ c \<in> {Sig_Timestamp, Sig_Standalone} then
        (case data of [] \<Rightarrow> Err IOError | b # _ \<Rightarrow> Ok (hasher_update h [b]))
      else Err (Unimplemented ''{:?}''))"

definition hash_signature_data :: "wire \<Rightarrow> signature_config \<Rightarrow> hasher \<Rightarrow> (hasher \<times> nat) res" where
  "hash_signature_data W c h =
     (case cfg_version c of
        SigVOther _ \<Rightarrow> Err (Message ''unsupported signature version {}'')
      | v \<Rightarrow>
          if v \<in> {SigV2, SigV3} then
            (case cfg_created c of None \<Rightarrow> Panic | Some t \<Rightarrow>
              Ok (hasher_update h ([signature_type_to_u8 (cfg_typ c)] @ write_u32 W (word_of_int t)), 0))
          else
            and_then (subpackets_to_writer W (hashed_subpackets c)) (\<lambda>hs.
              if length hs < 2 ^ 16 then
                let res = [signature_version_to_u8 v, signature_type_to_u8 (cfg_typ c),
                        pk_alg_to_u8 (pub_alg c), hash_alg_to_u8 (hash_alg c)]
                      @ write_u16 W (of_nat (length hs)) @ hs
                in Ok (hasher_update h res, length res)
              else Err TryFromInt))"

definition trailer :: "wire \<Rightarrow> signature_config \<Rightarrow> nat \<Rightarrow> bytes res" where
  "trailer W c len =
     (case cfg_version c of
        SigVOther _ \<Rightarrow> Err (Message ''unsupported signature version {}'')
      | v \<Rightarrow> if v \<in> {SigV2, SigV3} then Ok [] else Ok ([0x04, 0xFF] @ write_u32 W (of_nat len)))"

text \<open>The last two steps before every \<open>finish\<close>, and the prefix of a certified packet.\<close>

definition hash_config :: "wire \<Rightarrow> signature_config \<Rightarrow> hasher \<Rightarrow> hasher res" where
  "hash_config W c h = and_then (hash_signature_data W c h) (\<lambda>(h, len).
     and_then (trailer W c len) (\<lambda>t. Ok (hasher_update h t)))"

definition certification_prefix :: "wire \<Rightarrow> signature_config \<Rightarrow> tag \<Rightarrow> nat \<Rightarrow> bytes res" where
  "certification_prefix W c t n =
     (case cfg_version c of
        SigVOther _ \<Rightarrow> Err (Message ''unsupported signature version {}'')
      | v \<Rightarrow>
          if v \<in> {SigV2, SigV3} then Ok []
          else if t = Tag_UserId then Ok ([0xB4] @ write_u32 W (of_nat n))
          else if t = Tag_UserAttribute then Ok ([0xD1] @ write_u32 W (of_nat n))
          else Err (Message ''invalid tag for certification validation: {:?}''))"

section \<open>Signing\<close>

definition from_config :: "signature_config \<Rightarrow> bytes \<Rightarrow> mpi list \<Rightarrow> signature" where
  "from_config c shv sig = Signature version_default c shv sig"

text \<open>The end of every signing method: finish the hash, sign it, keep its first two bytes.\<close>

definition sign_hashed ::
  "wire \<Rightarrow> hash_lib \<Rightarrow> signature_config \<Rightarrow> ('k) secret_key_trait_scheme \<Rightarrow> bytes \<Rightarrow> hasher \<Rightarrow> signature res" where
  "sign_hashed W H c key pw h = and_then (hash_config W c h) (\<lambda>h.
     let hash = hasher_finish H h in
     if length hash < 2 then Panic
     else and_then (skt_create_signature key pw (hash_alg c) hash) (\<lambda>sig.
       Ok (from_config c [hash ! 0, hash ! 1] sig)))"

definition sign ::
  "wire \<Rightarrow> hash_lib \<Rightarrow> signature_config \<Rightarrow> ('k) secret_key_trait_scheme \<Rightarrow> bytes \<Rightarrow> bytes \<Rightarrow> signature res" where
  "sign W H c key pw data = and_then (new_hasher (hash_alg c)) (\<lambda>h.
     and_then (hash_data_to_sign c h data) (sign_hashed W H c key pw))"

definition sign_certification_third_party ::
  "wire \<Rightarrow> hash_lib \<Rightarrow> signature_config \<Rightarrow> ('k) secret_key_trait_scheme \<Rightarrow> bytes \<Rightarrow> ('l) public_key_trait_scheme
     \<Rightarrow> tag \<Rightarrow> bytes res \<Rightarrow> signature res" where
  "sign_certification_third_party W H c signer pw signee t ident =
     (if \<not> config_is_certification c then
        Err (Message ''can not sign non certification as certification'')
      else
        and_then (new_hasher (hash_alg c)) (\<lambda>h.
        and_then (pkt_to_writer_old signee) (\<lambda>key_buf.
        and_then ident (\<lambda>packet_buf.
        and_then (certification_prefix W c t (length packet_buf)) (\<lambda>prefix.
          sign_hashed W H c signer pw
            (hasher_update (hasher_update (hasher_update h key_buf) prefix) packet_buf))))))"

definition sign_certification ::
  "wire \<Rightarrow> hash_lib \<Rightarrow> signature_config \<Rightarrow> ('k) secret_key_trait_scheme \<Rightarrow> bytes \<Rightarrow> tag \<Rightarrow> bytes res \<Rightarrow> signature res" where
  "sign_certification W H c key pw t ident = sign_certification_third_party W H c key pw key t ident"

definition sign_key_binding ::
  "wire \<Rightarrow> hash_lib \<Rightarrow> signature_config \<Rightarrow> ('k) secret_key_trait_scheme \<Rightarrow> bytes \<Rightarrow> ('l) public_key_trait_scheme
     \<Rightarrow> signature res" where
  "sign_key_binding W H c signing_key pw key =
     and_then (new_hasher (hash_alg c)) (\<lambda>h.
     and_then (pkt_to_writer_old signing_key) (\<lambda>a.
     and_then (pkt_to_writer_old key) (\<lambda>b.
       sign_hashed W H c signing_key pw (hasher_update (hasher_update h a) b))))"

definition sign_key ::
  "wire \<Rightarrow> hash_lib \<Rightarrow> signature_config \<Rightarrow> ('k) secret_key_trait_scheme \<Rightarrow> bytes \<Rightarrow> ('l) public_key_trait_scheme
     \<Rightarrow> signature res" where
  "sign_key W H c signing_key pw key =
     and_then (new_hasher (hash_alg c)) (\<lambda>h.
     and_then (pkt_to_writer_old key) (\<lambda>a.
       sign_hashed W H c signing_key pw (hasher_update h a)))"

section \<open>Verifying\<close>

text \<open>\<open>match_identity\<close>; the key id and the fingerprint are computed only when they are compared.\<close>

definition match_identity :: "signature \<Rightarrow> ('k) public_key_trait_scheme \<Rightarrow> bool res" where
  "match_identity sig key =
     (let issuers = config_issuer (config sig); issuer_fps = config_issuer_fingerprint (config sig) in
      if issuers = [] \<and> issuer_fps = [] then Ok True
      else and_then (if issuers = [] then Ok False
                     else map_ok (\<lambda>k. k \<in> set issuers) (pkt_key_id key)) (\<lambda>m.
        if m then Ok True
        else if issuer_fps = [] then Ok False
        else map_ok (\<lambda>f. f \<in> set issuer_fps) (pkt_fingerprint key)))"

definition ensure_identity :: "signature \<Rightarrow> ('k) public_key_trait_scheme \<Rightarrow> string \<Rightarrow> unit res" where
  "ensure_identity sig key msg = and_then (match_identity sig key) (\<lambda>m.
     if m then Ok () else Err (Message msg))"

text \<open>The end of every verification method.\<close>

definition verify_hashed ::
  "wire \<Rightarrow> hash_lib \<Rightarrow> signature \<Rightarrow> ('k) public_key_trait_scheme \<Rightarrow> hasher \<Rightarrow> unit res" where
  "verify_hashed W H sig key h = and_then (hash_config W (config sig) h) (\<lambda>h.
     let hash = hasher_finish H h in
     if length hash < 2 then Panic
     else if signed_hash_value sig \<noteq> take 2 hash then Err (Message ''invalid signed hash value'')
     else pkt_verify_signature key (hash_alg (config sig)) hash (sig_mpis sig))"

definition verify ::
  "wire \<Rightarrow> hash_lib \<Rightarrow> signature \<Rightarrow> ('k) public_key_trait_scheme \<Rightarrow> bytes \<Rightarrow> unit res" where
  "verify W H sig key data =
     and_then (ensure_identity sig key
       ''verify: No matching issuer or issuer_fingerprint for Key ID: {:?}'') (\<lambda>_.
     and_then (new_hasher (hash_alg (config sig))) (\<lambda>h.
     and_then (hash_data_to_sign (config sig) h
         (if cfg_typ (config sig) = Sig_Text then normalize_lines Crlf data else data))
       (verify_hashed W H sig key)))"

definition verify_third_party_certification ::
  "wire \<Rightarrow> hash_lib \<Rightarrow> signature \<Rightarrow> ('l) public_key_trait_scheme \<Rightarrow> ('k) public_key_trait_scheme
     \<Rightarrow> tag \<Rightarrow> bytes res \<Rightarrow> unit res" where
  "verify_third_party_certification W H sig signee signer t ident =
     and_then (pkt_key_id signee) (\<lambda>_.
     and_then (ensure_identity sig signer
       ''verify_certification: No matching issuer or issuer_fingerprint for Key ID: {:?}'') (\<lambda>_.
     and_then (new_hasher (hash_alg (config sig))) (\<lambda>h.
     and_then (pkt_to_writer_old signee) (\<lambda>key_buf.
     and_then ident (\<lambda>packet_buf.
     and_then (certification_prefix W (config sig) t (length packet_buf)) (\<lambda>prefix.
       verify_hashed W H sig signer
         (hasher_update (hasher_update (hasher_update h key_buf) prefix) packet_buf)))))))"

definition verify_certification ::
  "wire \<Rightarrow> hash_lib \<Rightarrow> signature \<Rightarrow> ('k) public_key_trait_scheme \<Rightarrow> tag \<Rightarrow> bytes res \<Rightarrow> unit res" where
  "verify_certification W H sig key t ident = verify_third_party_certification W H sig key key t ident"

definition verify_key_binding_internal ::
  "wire \<Rightarrow> hash_lib \<Rightarrow> signature \<Rightarrow> ('k) public_key_trait_scheme \<Rightarrow> ('l) public_key_trait_scheme \<Rightarrow> bool \<Rightarrow> unit res" where
  "verify_key_binding_internal W H sig signer signee backsig =
     and_then (new_hasher (hash_alg (config sig))) (\<lambda>h.
     and_then (if backsig then pkt_to_writer_old signee else pkt_to_writer_old signer) (\<lambda>a.
     and_then (if backsig then pkt_to_writer_old signer else pkt_to_writer_old signee) (\<lambda>b.
       verify_hashed W H sig signer (hasher_update (hasher_update h a) b))))"

definition verify_key_binding ::
  "wire \<Rightarrow> hash_lib \<Rightarrow> signature \<Rightarrow> ('k) public_key_trait_scheme \<Rightarrow> ('l) public_key_trait_scheme \<Rightarrow> unit res" where
  "verify_key_binding W H sig signing_key key = verify_key_binding_internal W H sig signing_key key False"

definition verify_backwards_key_binding ::
  "wire \<Rightarrow> hash_lib \<Rightarrow> signature \<Rightarrow> ('k) public_key_trait_scheme \<Rightarrow> ('l) public_key_trait_scheme \<Rightarrow> unit res" where
  "verify_backwards_key_binding W H sig signing_key key =
     verify_key_binding_internal W H sig signing_key key True"

definition verify_key ::
  "wire \<Rightarrow> hash_lib \<Rightarrow> signature \<Rightarrow> ('k) public_key_trait_scheme \<Rightarrow> unit res" where
  "verify_key W H sig key =
     and_then (ensure_identity sig key
       ''verify_key: No matching issuer or issuer_fingerprint for Key ID: {:?}'') (\<lambda>_.
     and_then (new_hasher (hash_alg (config sig))) (\<lambda>h.
     and_then (pkt_to_writer_old key) (\<lambda>a.
       verify_hashed W H sig key (hasher_update h a))))"

section \<open>Signatures that were made are accepted\<close>

text \<open>
  The contract of a key pair: the public part verifies what the secret part, unlocked with the
  password, signs.
\<close>

locale signing_key =
  fixes K :: "('k) secret_key_trait_scheme" and pw :: bytes
  assumes create_verify:
    "skt_create_signature K pw h d = Ok sig \<Longrightarrow> pkt_verify_signature K h d sig = Ok ()"
begin

lemma verify_sign_hashed:
  assumes "sign_hashed W H c K pw h = Ok sig"
  shows "config sig = c \<and> verify_hashed W H sig K h = Ok ()"
proof -
  obtain h' m where h': "hash_config W c h = Ok h'" "2 \<le> length (hasher_finish H h')"
    and m: "skt_create_signature K pw (hash_alg c) (hasher_finish H h') = Ok m"
    and sig: "sig = from_config c [hasher_finish H h' ! 0, hasher_finish H h' ! 1] m"
    using assms by (auto simp: sign_hashed_def Let_def split: if_splits)
  have "take 2 (hasher_finish H h') = [hasher_finish H h' ! 0, hasher_finish H h' ! 1]"
    using h'(2) by (cases "hasher_finish H h'"; cases "tl (hasher_finish H h')") auto
  then show ?thesis
    using h' create_verify [OF m] by (simp add: verify_hashed_def sig from_config_def Let_def)
qed

lemma verify_sign:
  assumes "sign W H c K pw data = Ok sig"
    and "data = (if cfg_typ c = Sig_Text then normalize_lines Crlf doc else doc)"
    and "match_identity sig K = Ok True"
  shows "verify W H sig K doc = Ok ()"
proof -
  obtain h h' where h: "new_hasher (hash_alg c) = Ok h" "hash_data_to_sign c h data = Ok h'"
    and s: "sign_hashed W H c K pw h' = Ok sig"
    using assms(1) by (auto simp: sign_def)
  from verify_sign_hashed [OF s] have "config sig = c" "verify_hashed W H sig K h' = Ok ()" by simp_all
  with h assms(2,3) show ?thesis by (simp add: verify_def ensure_identity_def)
qed

lemma verify_sign_certification:
  assumes "sign_certification_third_party W H c K pw signee t ident = Ok sig"
    and "match_identity sig K = Ok True" and "pkt_key_id signee = Ok i"
  shows "verify_third_party_certification W H sig signee K t ident = Ok ()"
proof -
  obtain h a b p where h: "new_hasher (hash_alg c) = Ok h" "pkt_to_writer_old signee = Ok a"
      "ident = Ok b" "certification_prefix W c t (length b) = Ok p"
    and s: "sign_hashed W H c K pw (hasher_update (hasher_update (hasher_update h a) p) b) = Ok sig"
    using assms(1) by (auto simp: sign_certification_third_party_def split: if_splits)
  from verify_sign_hashed [OF s] h assms(2,3) show ?thesis
    by (simp add: verify_third_party_certification_def ensure_identity_def)
qed

lemma verify_sign_key_binding:
  assumes "sign_key_binding W H c K pw key = Ok sig"
  shows "verify_key_binding W H sig K key = Ok ()"
proof -
  obtain h a b where h: "new_hasher (hash_alg c) = Ok h" "pkt_to_writer_old K = Ok a"
      "pkt_to_writer_old key = Ok b"
    and s: "sign_hashed W H c K pw (hasher_update (hasher_update h a) b) = Ok sig"
    using assms by (auto simp: sign_key_binding_def)
  from verify_sign_hashed [OF s] h show ?thesis
    by (simp add: verify_key_binding_def verify_key_binding_internal_def)
qed

lemma verify_sign_key:
  assumes "sign_key W H c K pw K = Ok sig" and "match_identity sig K = Ok True"
  shows "verify_key W H sig K = Ok ()"
proof -
  obtain h a where h: "new_hasher (hash_alg c) = Ok h" "pkt_to_writer_old K = Ok a"
    and s: "sign_hashed W H c K pw (hasher_update h a) = Ok sig"
    using assms(1) by (auto simp: sign_key_def)
  from verify_sign_hashed [OF s] h assms(2) show ?thesis
    by (simp add: verify_key_def ensure_identity_def)
qed

end

section \<open>What is hashed determines what is signed\<close>

text \<open>The bytes that follow the signed data in the digest of a version 4 or 5 signature.\<close>

definition signed_fields :: "wire \<Rightarrow> signature_config \<Rightarrow> bytes \<Rightarrow> bytes" where
  "signed_fields W c hs = [signature_version_to_u8 (cfg_version c), signature_type_to_u8 (cfg_typ c),
     pk_alg_to_u8 (pub_alg c), hash_alg_to_u8 (hash_alg c)] @ write_u16 W (of_nat (length hs)) @ hs"

lemma inj_signature_type: "signature_type_to_u8 a = signature_type_to_u8 b \<longleftrightarrow> a = b"
  by (metis result.inject(1) signature_type_try_from_to_u8)

lemma inj_be32: "be32 a = be32 b \<Longrightarrow> a = b"
proof -
  have r: "of_be32 (be32 x ! 0) (be32 x ! 1) (be32 x ! 2) (be32 x ! 3) = x" for x
    by (simp add: be32_def)
  show "be32 a = be32 b \<Longrightarrow> a = b" using r [of a] r [of b] by simp
qed

context wire_laws
begin

lemma hash_config_v4:
  assumes "cfg_version c \<in> {SigV4, SigV5}"
  shows "hash_config W c h = Ok h' \<longleftrightarrow> (\<exists>hs. subpackets_to_writer W (hashed_subpackets c) = Ok hs
    \<and> length hs < 2 ^ 16 \<and> h' = hasher_update h (signed_fields W c hs
        @ [0x04, 0xFF] @ be32 (of_nat (length (signed_fields W c hs)))))"
  using assms
  by (auto simp: hash_config_def hash_signature_data_def trailer_def signed_fields_def Let_def
      hasher_update_def split: if_splits)

lemma signed_fields_split:
  assumes "d1 @ signed_fields W c1 hs1 @ [0x04, 0xFF] @ be32 (of_nat (length (signed_fields W c1 hs1)))
      = d2 @ signed_fields W c2 hs2 @ [0x04, 0xFF] @ be32 (of_nat (length (signed_fields W c2 hs2)))"
    and "length hs1 < 2 ^ 16" "length hs2 < 2 ^ 16"
  shows "d1 = d2 \<and> signed_fields W c1 hs1 = signed_fields W c2 hs2"
proof -
  let ?f1 = "signed_fields W c1 hs1" and ?f2 = "signed_fields W c2 hs2"
  have l: "length ?f1 < 2 ^ 32" "length ?f2 < 2 ^ 32"
    using assms(2,3) by (simp_all add: signed_fields_def)
  have e: "(d1 @ ?f1 @ [0x04, 0xFF]) @ be32 (of_nat (length ?f1))
      = (d2 @ ?f2 @ [0x04, 0xFF]) @ be32 (of_nat (length ?f2))"
    using assms(1) by simp
  then have l32: "be32 (of_nat (length ?f1)) = be32 (of_nat (length ?f2))"
    and d: "d1 @ ?f1 = d2 @ ?f2" by (subst (asm) append_eq_append_conv; simp)+
  from l32 have n: "(of_nat (length ?f1) :: u32) = of_nat (length ?f2)"
    by (rule inj_be32)
  have "length ?f1 = length ?f2"
    using l arg_cong [OF n, of unat] by (simp add: unat_of_nat_small)
  with d show ?thesis by simp
qed

lemma signed_fields_inj:
  assumes "signed_fields W c1 hs1 = signed_fields W c2 hs2"
  shows "signature_version_to_u8 (cfg_version c1) = signature_version_to_u8 (cfg_version c2)
    \<and> cfg_typ c1 = cfg_typ c2 \<and> pk_alg_to_u8 (pub_alg c1) = pk_alg_to_u8 (pub_alg c2)
    \<and> hash_alg_to_u8 (hash_alg c1) = hash_alg_to_u8 (hash_alg c2) \<and> hs1 = hs2"
  using assms by (simp add: signed_fields_def inj_signature_type)

end

text \<open>Changing the unhashed area of a signature.\<close>

fun with_unhashed :: "subpacket list \<Rightarrow> signature \<Rightarrow> signature" where
  "with_unhashed u (Signature pv (SignatureConfig v t pa ha _ hs created iss) shv m) =
     Signature pv (SignatureConfig v t pa ha u hs created iss) shv m"

lemma with_unhashed_hashed [simp]:
  "hashed_subpackets (config (with_unhashed u s)) = hashed_subpackets (config s)"
  "cfg_created (config (with_unhashed u s)) = cfg_created (config s)"
  by (cases s; cases "config s"; simp)+

lemmas accessor_defs =
  sig_key_expiration_time_def sig_signature_expiration_time_def sig_preferred_symmetric_algs_def
  sig_preferred_hash_algs_def sig_preferred_compression_algs_def sig_key_server_prefs_def
  sig_key_flags_def sig_features_def sig_revocation_reason_code_def
  sig_revocation_reason_string_def sig_is_primary_def sig_is_revocable_def
  sig_preferred_key_server_def sig_notations_def sig_revocation_key_def
  sig_signers_userid_def sig_policy_uri_def sig_trust_signature_def
  sig_regular_expression_def sig_exportable_certification_def
  config_created_def

text \<open>A key for concrete runs, whose signature of a digest is the digest.\<close>

definition sample_signer :: secret_key_trait where
  "sample_signer = \<lparr>pkt_fingerprint = Ok (replicate 20 7), pkt_key_id = Ok (replicate 8 7),
     pkt_algorithm = Pk_EdDSA,
     pkt_verify_signature = (\<lambda>_ d sig. if sig = [d] then Ok () else Err SignatureError),
     pkt_encrypt = (\<lambda>_. Err (Message ''EdDSA is only used for signing'')),
     pkt_to_writer_old = Ok [0x99, 0, 1, 4], skt_create_signature = (\<lambda>_ _ d. Ok [d]),
     skt_public_params = Pub_Unknown []\<rparr>"

definition sample_config :: "signature_type \<Rightarrow> signature_config" where
  "sample_config t = new_v4 SigV4 t Pk_EdDSA Hash_SHA2_256 [Subpacket False (Sp_SignatureCreationTime 77)]
     [Subpacket False (Sp_Issuer (replicate 8 7))]"

interpretation sample_signer: signing_key sample_signer pw for pw
  by unfold_locales (auto simp: sample_signer_def)

lemmas sample_signer_ok = sample_signer.signing_key_axioms

lemmas sample_run = sample_config_def sample_signer_def new_v4_def new_hasher_def hash_supported_def
    sign_hashed_def hash_config_def hash_signature_data_def trailer_def
    hasher_update_def hasher_finish_def std_hash_def Let_def from_config_def std_wire_def be32_def
    be16_def write_packet_length_def write_packet_len_def

lemma sample_identity:
  "config sig = sample_config t \<Longrightarrow> match_identity sig sample_signer = Ok True"
  by (simp add: match_identity_def config_issuer_def config_issuer_fingerprint_def filter_map_def
      sample_config_def new_v4_def sample_signer_def Let_def)

section \<open>Properties\<close>

text \<open>
  C14. A signature over a document verifies: what \<open>SignatureConfig::sign\<close> makes over binary data, or
  over the CRLF form of a text, is accepted by \<open>Signature::verify\<close> for that data, or for the text with
  any line endings, under a key that verifies what it signs and whose identity the signature
  names.
\<close>

theorem sign_verify:
  assumes "signing_key K pw" and "sign W H c K pw data = Ok sig"
    and "data = (if cfg_typ c = Sig_Text then normalize_lines Crlf doc else doc)"
    and "match_identity sig K = Ok True"
  shows "verify W H sig K doc = Ok ()"
  using signing_key.verify_sign [OF assms] .

theorem sign_verify_witness:
  "\<exists>sig. sign std_wire std_hash (sample_config Sig_Text) sample_signer [] [0x61, 13, 10] = Ok sig
     \<and> verify std_wire std_hash sig sample_signer [0x61, 10] = Ok ()"
proof -
  have s: "\<exists>sig. sign std_wire std_hash (sample_config Sig_Text) sample_signer [] [0x61, 13, 10] = Ok sig
      \<and> config sig = sample_config Sig_Text"
    by (simp add: sign_def hash_data_to_sign_def sample_run)
  then obtain sig where s: "sign std_wire std_hash (sample_config Sig_Text) sample_signer [] [0x61, 13, 10] = Ok sig"
    and c: "config sig = sample_config Sig_Text" by blast
  from c have "match_identity sig sample_signer = Ok True" by (rule sample_identity)
  moreover have "normalize_lines Crlf [0x61, 10] = [0x61, 13, 10]"
    by (simp add: normalize_lines_def collect_Crlf)
  ultimately show ?thesis
    using sign_verify [OF sample_signer_ok s, of "[0x61, 10]"] s by (simp add: sample_config_def new_v4_def)
qed

text \<open>
  Certifications verify: a certification of a user id or attribute that
  \<open>sign_certification_third_party\<close> makes for any certified key is accepted by
  \<open>verify_third_party_certification\<close> for the same key and identity.
\<close>

theorem certification_verifies:
  assumes "signing_key K pw" and "sign_certification_third_party W H c K pw signee t ident = Ok sig"
    and "match_identity sig K = Ok True" and "pkt_key_id signee = Ok i"
  shows "verify_third_party_certification W H sig signee K t ident = Ok ()"
  using signing_key.verify_sign_certification [OF assms] .

theorem certification_verifies_witness:
  "\<exists>sig. sign_certification_third_party std_wire std_hash (sample_config Sig_CertGeneric) sample_signer []
       sample_signer Tag_UserId (Ok [0x61]) = Ok sig
     \<and> verify_third_party_certification std_wire std_hash sig sample_signer sample_signer Tag_UserId (Ok [0x61]) = Ok ()"
proof -
  have "\<exists>sig. sign_certification_third_party std_wire std_hash (sample_config Sig_CertGeneric) sample_signer []
      sample_signer Tag_UserId (Ok [0x61]) = Ok sig \<and> config sig = sample_config Sig_CertGeneric"
    by (simp add: sign_certification_third_party_def config_is_certification_def certification_prefix_def
        sample_run)
  then obtain sig where s: "sign_certification_third_party std_wire std_hash (sample_config Sig_CertGeneric)
      sample_signer [] sample_signer Tag_UserId (Ok [0x61]) = Ok sig" "config sig = sample_config Sig_CertGeneric"
    by blast
  then have "match_identity sig sample_signer = Ok True" by (intro sample_identity)
  moreover have "pkt_key_id sample_signer = Ok (replicate 8 7)" by (simp add: sample_signer_def)
  ultimately show ?thesis using certification_verifies [OF sample_signer_ok s(1)] s(1) by blast
qed

text \<open>
  Subkey bindings and direct key signatures verify: \<open>verify_key_binding\<close> accepts what
  \<open>sign_key_binding\<close> made for the same pair of keys, and \<open>verify_key\<close> what \<open>sign_key\<close> made for the
  signing key itself.
\<close>

theorem key_signatures_verify:
  assumes "signing_key K pw"
  shows "(sign_key_binding W H c K pw key = Ok sig \<longrightarrow> verify_key_binding W H sig K key = Ok ())
    \<and> (sign_key W H c K pw K = Ok sig \<and> match_identity sig K = Ok True
        \<longrightarrow> verify_key W H sig K = Ok ())"
  using signing_key.verify_sign_key_binding [OF assms] signing_key.verify_sign_key [OF assms] by blast

theorem key_signatures_verify_witness:
  "\<exists>sig. sign_key_binding std_wire std_hash (sample_config Sig_SubkeyBinding) sample_signer [] sample_signer = Ok sig
     \<and> verify_key_binding std_wire std_hash sig sample_signer sample_signer = Ok ()"
proof -
  have "\<exists>sig. sign_key_binding std_wire std_hash (sample_config Sig_SubkeyBinding) sample_signer []
      sample_signer = Ok sig"
    by (simp add: sign_key_binding_def sample_run)
  with key_signatures_verify [OF sample_signer_ok] show ?thesis by blast
qed

text \<open>
  C23. Verification accepts nothing else: if a version 4 or 5 document signature is accepted, then the
  signature names the key or nobody, and the key accepted the signature values for the digest of
  exactly the document (in CRLF form for a text), the signed fields and the trailer, whose first
  two bytes the signature carries.
\<close>

theorem verify_accepts_only:
  assumes "wire_laws W" and "verify W H sig key doc = Ok ()"
    and "cfg_version (config sig) \<in> {SigV4, SigV5}" and "cfg_typ (config sig) \<in> {Sig_Binary, Sig_Text}"
  shows "\<exists>hs m. subpackets_to_writer W (hashed_subpackets (config sig)) = Ok hs
    \<and> m = hash_fun H (hash_alg (config sig))
        ((if cfg_typ (config sig) = Sig_Text then normalize_lines Crlf doc else doc)
         @ signed_fields W (config sig) hs @ [0x04, 0xFF] @ be32 (of_nat (length (signed_fields W (config sig) hs))))
    \<and> signed_hash_value sig = take 2 m
    \<and> pkt_verify_signature key (hash_alg (config sig)) m (sig_mpis sig) = Ok ()
    \<and> match_identity sig key = Ok True"
proof -
  let ?c = "config sig" and ?d = "if cfg_typ (config sig) = Sig_Text then normalize_lines Crlf doc else doc"
  let ?h = "\<lparr>hasher_alg = hash_alg ?c, hasher_data = ?d\<rparr>"
  obtain h' where i: "match_identity sig key = Ok True" and h': "hash_config W ?c ?h = Ok h'"
    and v: "signed_hash_value sig = take 2 (hasher_finish H h')"
      "pkt_verify_signature key (hash_alg ?c) (hasher_finish H h') (sig_mpis sig) = Ok ()"
    using assms(2,4)
    by (auto simp: verify_def ensure_identity_def new_hasher_def hash_data_to_sign_def hasher_update_def
        verify_hashed_def Let_def split: if_splits)
  from h' [unfolded wire_laws.hash_config_v4 [OF assms(1,3)]] i v show ?thesis
    by (auto simp: hasher_update_def hasher_finish_def)
qed

theorem verify_accepts_only_witness:
  "\<exists>sig hs m. verify std_wire std_hash sig sample_signer [7] = Ok ()
    \<and> subpackets_to_writer std_wire (hashed_subpackets (sample_config Sig_Binary)) = Ok hs
    \<and> m = hash_fun std_hash Hash_SHA2_256
        ([7] @ signed_fields std_wire (sample_config Sig_Binary) hs
          @ [0x04, 0xFF] @ be32 (of_nat (length (signed_fields std_wire (sample_config Sig_Binary) hs))))
    \<and> signed_hash_value sig = take 2 m"
proof -
  have "\<exists>sig. sign std_wire std_hash (sample_config Sig_Binary) sample_signer [] [7] = Ok sig
      \<and> config sig = sample_config Sig_Binary"
    by (simp add: sign_def hash_data_to_sign_def sample_run)
  then have "\<exists>sig. verify std_wire std_hash sig sample_signer [7] = Ok () \<and> config sig = sample_config Sig_Binary"
    using signing_key.verify_sign [OF sample_signer_ok] sample_identity
    by (fastforce simp: sample_config_def new_v4_def)
  then obtain sig where s: "verify std_wire std_hash sig sample_signer [7] = Ok ()"
    "config sig = sample_config Sig_Binary" by blast
  with verify_accepts_only [OF std.wire_laws_axioms s(1)] show ?thesis
    by (fastforce simp: sample_config_def new_v4_def)
qed

text \<open>
  C24. A digest stands for one document and one set of signature fields: when the bytes hashed for
  two version 4 or 5 signatures are equal, the signed data, the signature version, type,
  algorithm octets and the whole hashed subpacket area are equal.
\<close>

theorem signed_bytes_unambiguous:
  assumes "wire_laws W"
    and "cfg_version c1 \<in> {SigV4, SigV5}" and "cfg_version c2 \<in> {SigV4, SigV5}"
    and "hash_config W c1 \<lparr>hasher_alg = a1, hasher_data = d1\<rparr> = Ok g1"
    and "hash_config W c2 \<lparr>hasher_alg = a2, hasher_data = d2\<rparr> = Ok g2"
    and "hasher_data g1 = hasher_data g2"
  shows "d1 = d2 \<and> cfg_version c1 = cfg_version c2 \<and> cfg_typ c1 = cfg_typ c2
    \<and> pk_alg_to_u8 (pub_alg c1) = pk_alg_to_u8 (pub_alg c2)
    \<and> hash_alg_to_u8 (hash_alg c1) = hash_alg_to_u8 (hash_alg c2)
    \<and> subpackets_to_writer W (hashed_subpackets c1) = subpackets_to_writer W (hashed_subpackets c2)"
proof -
  from assms(4) [unfolded wire_laws.hash_config_v4 [OF assms(1,2)]]
  obtain h1 where h1: "subpackets_to_writer W (hashed_subpackets c1) = Ok h1" "length h1 < 2 ^ 16"
    "hasher_data g1 = d1 @ signed_fields W c1 h1 @ [0x04, 0xFF] @ be32 (of_nat (length (signed_fields W c1 h1)))"
    by (auto simp: hasher_update_def)
  from assms(5) [unfolded wire_laws.hash_config_v4 [OF assms(1,3)]]
  obtain h2 where h2: "subpackets_to_writer W (hashed_subpackets c2) = Ok h2" "length h2 < 2 ^ 16"
    "hasher_data g2 = d2 @ signed_fields W c2 h2 @ [0x04, 0xFF] @ be32 (of_nat (length (signed_fields W c2 h2)))"
    by (auto simp: hasher_update_def)
  have "d1 = d2" "signed_fields W c1 h1 = signed_fields W c2 h2"
    using wire_laws.signed_fields_split [OF assms(1) _ h1(2) h2(2)] h1(3) h2(3) assms(6) by metis+
  with wire_laws.signed_fields_inj [OF assms(1) this(2)] h1 h2 assms(2,3) show ?thesis by auto
qed

theorem signed_bytes_unambiguous_witness:
  "\<exists>g. hash_config std_wire (sample_config Sig_Binary) \<lparr>hasher_alg = Hash_SHA2_256, hasher_data = [1]\<rparr> = Ok g
    \<and> (\<forall>d2. hash_config std_wire (sample_config Sig_Binary) \<lparr>hasher_alg = Hash_SHA2_256, hasher_data = d2\<rparr> = Ok g
          \<longrightarrow> d2 = [1])"
proof -
  have v: "cfg_version (sample_config Sig_Binary) \<in> {SigV4, SigV5}" by (simp add: sample_config_def new_v4_def)
  obtain g where g: "hash_config std_wire (sample_config Sig_Binary)
      \<lparr>hasher_alg = Hash_SHA2_256, hasher_data = [1]\<rparr> = Ok g"
    by (simp add: sample_run)
  from signed_bytes_unambiguous [OF std.wire_laws_axioms v v _ g] g show ?thesis by blast
qed

text \<open>
  C40. The unhashed area is not trusted: every query of a signature other than its issuers and its
  embedded signature gives the same answer whatever the unhashed area holds, so that an attacker
  who changes that area cannot change a preference, flag, expiration or revocation reason.
\<close>

theorem accessors_ignore_unhashed:
  "sig_key_expiration_time (with_unhashed u s) = sig_key_expiration_time s
   \<and> sig_signature_expiration_time (with_unhashed u s) = sig_signature_expiration_time s
   \<and> sig_preferred_symmetric_algs (with_unhashed u s) = sig_preferred_symmetric_algs s
   \<and> sig_preferred_hash_algs (with_unhashed u s) = sig_preferred_hash_algs s
   \<and> sig_preferred_compression_algs (with_unhashed u s) = sig_preferred_compression_algs s
   \<and> sig_key_server_prefs (with_unhashed u s) = sig_key_server_prefs s
   \<and> sig_key_flags (with_unhashed u s) = sig_key_flags s
   \<and> sig_features (with_unhashed u s) = sig_features s
   \<and> sig_revocation_reason_code (with_unhashed u s) = sig_revocation_reason_code s
   \<and> sig_revocation_reason_string (with_unhashed u s) = sig_revocation_reason_string s
   \<and> sig_is_primary (with_unhashed u s) = sig_is_primary s
   \<and> sig_is_revocable (with_unhashed u s) = sig_is_revocable s
   \<and> sig_preferred_key_server (with_unhashed u s) = sig_preferred_key_server s
   \<and> sig_notations (with_unhashed u s) = sig_notations s
   \<and> sig_revocation_key (with_unhashed u s) = sig_revocation_key s
   \<and> sig_signers_userid (with_unhashed u s) = sig_signers_userid s
   \<and> sig_policy_uri (with_unhashed u s) = sig_policy_uri s
   \<and> sig_trust_signature (with_unhashed u s) = sig_trust_signature s
   \<and> sig_regular_expression (with_unhashed u s) = sig_regular_expression s
   \<and> sig_exportable_certification (with_unhashed u s) = sig_exportable_certification s
   \<and> config_created (config (with_unhashed u s)) = config_created (config s)"
  by (simp add: accessor_defs)

end
