(* ===== verification/Pgp_Signed_Key.thy ===== *)
theory Pgp_Signed_Key
  imports Pgp_Packet_Stream Pgp_Signing
begin

text \<open>
  Transferable keys: the signed structures (\<open>src/src/types/user.rs\<close>, \<open>public.rs\<close>, \<open>secret.rs\<close> and
  \<open>shared.rs\<close> under \<open>src/src/composed/signed_key/\<close>), their verification and serialization, and the
  parsers that group a sequence of packets into keys (\<open>key_parser_macros.rs\<close>, \<open>parse.rs\<close>, and
  \<open>from_bytes\<close> of \<open>src/src/composed/shared.rs\<close>). A stream of packets is the list of the items the
  packet iterator yields; reaching the item of a panic panics.
\<close>

section \<open>Loops over results\<close>

text \<open>\<open>for x in xs { f(x)?; }\<close> and \<open>map(f).collect::<Result<Vec<_>>>()\<close>.\<close>

fun try_each :: "('a \<Rightarrow> (unit, 'e) result) \<Rightarrow> 'a list \<Rightarrow> (unit, 'e) result" where
  "try_each f [] = Ok ()"
| "try_each f (x # xs) = and_then (f x) (\<lambda>_. try_each f xs)"

fun try_map :: "('a \<Rightarrow> ('b, 'e) result) \<Rightarrow> 'a list \<Rightarrow> ('b list, 'e) result" where
  "try_map f [] = Ok []"
| "try_map f (x # xs) = and_then (f x) (\<lambda>y. map_ok ((#) y) (try_map f xs))"

lemma try_each_Ok_iff [simp]: "try_each f xs = Ok () \<longleftrightarrow> (\<forall>x \<in> set xs. f x = Ok ())"
  by (induction xs) auto

lemma try_map_Ok_iff: "try_map f xs = Ok ys \<longleftrightarrow> list_all2 (\<lambda>x y. f x = Ok y) xs ys"
  by (induction xs arbitrary: ys) (auto simp: list_all2_Cons1)

definition write_packets :: "wire \<Rightarrow> ('a) curve_lib_scheme \<Rightarrow> packet list \<Rightarrow> bytes res" where
  "write_packets W L ps = map_ok concat (try_map (packet_to_writer W L) ps)"

section \<open>Signed users\<close>

definition sig_is_certification :: "signature \<Rightarrow> bool" where
  "sig_is_certification s \<longleftrightarrow> config_is_certification (config s)"

abbreviation sig_typ :: "signature \<Rightarrow> signature_type" where
  "sig_typ s \<equiv> cfg_typ (config s)"

record signed_user =
  su_id :: user_id
  su_signatures :: "signature list"

definition signed_user_new :: "user_id \<Rightarrow> signature list \<Rightarrow> signed_user" where
  "signed_user_new i sigs = \<lparr>su_id = i, su_signatures = filter sig_is_certification sigs\<rparr>"

definition signed_user_verify_third_party ::
  "wire \<Rightarrow> hash_lib \<Rightarrow> signed_user \<Rightarrow> ('l) public_key_trait_scheme \<Rightarrow> ('k) public_key_trait_scheme \<Rightarrow> unit res" where
  "signed_user_verify_third_party W H u signee signer =
     (if su_signatures u = [] then Err (Message ''no signatures found'')
      else try_each (\<lambda>s. verify_third_party_certification W H s signee signer Tag_UserId
             (user_id_to_writer (su_id u))) (su_signatures u))"

definition signed_user_verify ::
  "wire \<Rightarrow> hash_lib \<Rightarrow> signed_user \<Rightarrow> ('k) public_key_trait_scheme \<Rightarrow> unit res" where
  "signed_user_verify W H u key =
     (if su_signatures u = [] then Err (Message ''no signatures found'')
      else try_each (\<lambda>s. verify_certification W H s key Tag_UserId (user_id_to_writer (su_id u)))
             (su_signatures u))"

definition signed_user_is_primary :: "signed_user \<Rightarrow> bool" where
  "signed_user_is_primary u \<longleftrightarrow> list_ex sig_is_primary (su_signatures u)"

definition signed_user_packets :: "signed_user \<Rightarrow> packet list" where
  "signed_user_packets u = P_UserId (su_id u) # map P_Signature (su_signatures u)"

record signed_user_attribute =
  sa_attr :: user_attribute
  sa_signatures :: "signature list"

definition signed_attr_new :: "user_attribute \<Rightarrow> signature list \<Rightarrow> signed_user_attribute" where
  "signed_attr_new a sigs = \<lparr>sa_attr = a, sa_signatures = filter sig_is_certification sigs\<rparr>"

definition signed_attr_verify_third_party ::
  "wire \<Rightarrow> hash_lib \<Rightarrow> signed_user_attribute \<Rightarrow> ('l) public_key_trait_scheme \<Rightarrow> ('k) public_key_trait_scheme
     \<Rightarrow> unit res" where
  "signed_attr_verify_third_party W H a signee signer =
     (if sa_signatures a = [] then Err (Message ''no signatures found'')
      else try_each (\<lambda>s. verify_third_party_certification W H s signee signer Tag_UserAttribute
             (attr_to_writer W (sa_attr a))) (sa_signatures a))"

definition signed_attr_verify ::
  "wire \<Rightarrow> hash_lib \<Rightarrow> signed_user_attribute \<Rightarrow> ('k) public_key_trait_scheme \<Rightarrow> unit res" where
  "signed_attr_verify W H a key =
     (if sa_signatures a = [] then Err (Message ''no signatures found'')
      else try_each (\<lambda>s. verify_certification W H s key Tag_UserAttribute (attr_to_writer W (sa_attr a)))
             (sa_signatures a))"

definition signed_attr_packets :: "signed_user_attribute \<Rightarrow> packet list" where
  "signed_attr_packets a = P_UserAttribute (sa_attr a) # map P_Signature (sa_signatures a)"

section \<open>Details of a key\<close>

record signed_key_details =
  skd_revocation_signatures :: "signature list"
  skd_direct_signatures :: "signature list"
  skd_users :: "signed_user list"
  skd_user_attributes :: "signed_user_attribute list"

definition signed_key_details_new ::
  "signature list \<Rightarrow> signature list \<Rightarrow> signed_user list \<Rightarrow> signed_user_attribute list \<Rightarrow> signed_key_details" where
  "signed_key_details_new rs ds us as =
     \<lparr>skd_revocation_signatures = rs, skd_direct_signatures = ds,
      skd_users = filter (\<lambda>u. su_signatures u \<noteq> []) us,
      skd_user_attributes = filter (\<lambda>a. sa_signatures a \<noteq> []) as\<rparr>"

definition iter_max :: "int list \<Rightarrow> int option" where
  "iter_max xs = (case xs of [] \<Rightarrow> None | x # xs \<Rightarrow> Some (fold max xs x))"

definition skd_key_expiration_time :: "signed_key_details \<Rightarrow> int option" where
  "skd_key_expiration_time d =
     iter_max (filter_map sig_key_expiration_time (concat (map su_signatures (skd_users d))))"

definition signed_key_details_verify ::
  "wire \<Rightarrow> hash_lib \<Rightarrow> signed_key_details \<Rightarrow> ('k) public_key_trait_scheme \<Rightarrow> unit res" where
  "signed_key_details_verify W H d key =
     and_then (try_each (\<lambda>u. signed_user_verify W H u key) (skd_users d)) (\<lambda>_.
     and_then (try_each (\<lambda>a. signed_attr_verify W H a key) (skd_user_attributes d)) (\<lambda>_.
     and_then (try_each (\<lambda>s. verify_key W H s key) (skd_revocation_signatures d)) (\<lambda>_.
       try_each (\<lambda>s. verify_key W H s key) (skd_direct_signatures d))))"

definition signed_key_details_packets :: "signed_key_details \<Rightarrow> packet list" where
  "signed_key_details_packets d =
     map P_Signature (skd_revocation_signatures d) @ map P_Signature (skd_direct_signatures d)
     @ concat (map signed_user_packets (skd_users d))
     @ concat (map signed_attr_packets (skd_user_attributes d))"

section \<open>Public and secret keys\<close>

definition binding_type :: "signature \<Rightarrow> bool" where
  "binding_type s \<longleftrightarrow> \<not> (sig_typ s \<noteq> Sig_SubkeyBinding \<and> sig_typ s \<noteq> Sig_SubkeyRevocation)"

record signed_public_subkey =
  psub_key :: public_key
  psub_signatures :: "signature list"

definition signed_public_subkey_new :: "public_key \<Rightarrow> signature list \<Rightarrow> signed_public_subkey" where
  "signed_public_subkey_new k sigs = \<lparr>psub_key = k, psub_signatures = filter binding_type sigs\<rparr>"

record signed_secret_subkey =
  ssub_key :: secret_key
  ssub_signatures :: "signature list"

definition signed_secret_subkey_new :: "secret_key \<Rightarrow> signature list \<Rightarrow> signed_secret_subkey" where
  "signed_secret_subkey_new k sigs = \<lparr>ssub_key = k, ssub_signatures = filter binding_type sigs\<rparr>"

text \<open>
  The key traits as the key packets implement them: for public keys and subkeys, and for secret
  keys and subkeys.
\<close>

record key_impl =
  ki_public :: "public_key \<Rightarrow> public_key_trait"
  ki_secret :: "secret_key \<Rightarrow> secret_key_trait"

text \<open>\<open>verify\<close> of a subkey against the primary key: no signature is an error.\<close>

definition subkey_verify ::
  "wire \<Rightarrow> hash_lib \<Rightarrow> ('l) public_key_trait_scheme \<Rightarrow> signature list \<Rightarrow> ('k) public_key_trait_scheme \<Rightarrow> unit res" where
  "subkey_verify W H sub sigs key =
     (if sigs = [] then Err (Message ''missing subkey bindings'')
      else try_each (\<lambda>s. verify_key_binding W H s key sub) sigs)"

definition signed_public_subkey_packets :: "signed_public_subkey \<Rightarrow> packet list" where
  "signed_public_subkey_packets k = P_PublicSubkey (psub_key k) # map P_Signature (psub_signatures k)"

definition signed_secret_subkey_packets :: "signed_secret_subkey \<Rightarrow> packet list" where
  "signed_secret_subkey_packets k = P_SecretSubkey (ssub_key k) # map P_Signature (ssub_signatures k)"

record signed_public_key =
  spk_primary_key :: public_key
  spk_details :: signed_key_details
  spk_public_subkeys :: "signed_public_subkey list"

definition signed_public_key_new ::
  "public_key \<Rightarrow> signed_key_details \<Rightarrow> signed_public_subkey list \<Rightarrow> signed_public_key" where
  "signed_public_key_new k d subs =
     \<lparr>spk_primary_key = k, spk_details = d, spk_public_subkeys = filter (\<lambda>s. psub_signatures s \<noteq> []) subs\<rparr>"

record signed_secret_key =
  ssk_primary_key :: secret_key
  ssk_details :: signed_key_details
  ssk_public_subkeys :: "signed_public_subkey list"
  ssk_secret_subkeys :: "signed_secret_subkey list"

definition signed_secret_key_new ::
  "secret_key \<Rightarrow> signed_key_details \<Rightarrow> signed_public_subkey list \<Rightarrow> signed_secret_subkey list \<Rightarrow> signed_secret_key" where
  "signed_secret_key_new k d ps ss =
     \<lparr>ssk_primary_key = k, ssk_details = d, ssk_public_subkeys = filter (\<lambda>s. psub_signatures s \<noteq> []) ps,
      ssk_secret_subkeys = filter (\<lambda>s. ssub_signatures s \<noteq> []) ss\<rparr>"

text \<open>\<open>expires_at\<close>: creation time plus the longest announced validity.\<close>

definition expires_at :: "public_key \<Rightarrow> signed_key_details \<Rightarrow> int option" where
  "expires_at k d = map_option (\<lambda>e. key_created_at k + e) (skd_key_expiration_time d)"

definition signed_public_key_verify :: "wire \<Rightarrow> hash_lib \<Rightarrow> key_impl \<Rightarrow> signed_public_key \<Rightarrow> unit res" where
  "signed_public_key_verify W H I k =
     (let key = ki_public I (spk_primary_key k) in
      and_then (signed_key_details_verify W H (spk_details k) key) (\<lambda>_.
        try_each (\<lambda>s. subkey_verify W H (ki_public I (psub_key s)) (psub_signatures s) key)
          (spk_public_subkeys k)))"

definition signed_secret_key_verify :: "wire \<Rightarrow> hash_lib \<Rightarrow> key_impl \<Rightarrow> signed_secret_key \<Rightarrow> unit res" where
  "signed_secret_key_verify W H I k =
     (let key = ki_secret I (ssk_primary_key k) in
      and_then (signed_key_details_verify W H (ssk_details k) key) (\<lambda>_.
      and_then (try_each (\<lambda>s. subkey_verify W H (ki_public I (psub_key s)) (psub_signatures s) key)
          (ssk_public_subkeys k)) (\<lambda>_.
        try_each (\<lambda>s. subkey_verify W H (ki_secret I (ssub_key s)) (ssub_signatures s) key)
          (ssk_secret_subkeys k))))"

definition signed_public_key_packets :: "signed_public_key \<Rightarrow> packet list" where
  "signed_public_key_packets k =
     P_PublicKey (spk_primary_key k) # signed_key_details_packets (spk_details k)
     @ concat (map signed_public_subkey_packets (spk_public_subkeys k))"

definition signed_secret_key_packets :: "signed_secret_key \<Rightarrow> packet list" where
  "signed_secret_key_packets k =
     P_SecretKey (ssk_primary_key k) # signed_key_details_packets (ssk_details k)
     @ concat (map signed_public_subkey_packets (ssk_public_subkeys k))
     @ concat (map signed_secret_subkey_packets (ssk_secret_subkeys k))"

definition signed_public_key_to_writer :: "wire \<Rightarrow> ('a) curve_lib_scheme \<Rightarrow> signed_public_key \<Rightarrow> bytes res" where
  "signed_public_key_to_writer W L k = write_packets W L (signed_public_key_packets k)"

definition signed_secret_key_to_writer :: "wire \<Rightarrow> ('a) curve_lib_scheme \<Rightarrow> signed_secret_key \<Rightarrow> bytes res" where
  "signed_secret_key_to_writer W L k = write_packets W L (signed_secret_key_packets k)"

text \<open>\<open>From<SignedSecretKey> for SignedPublicKey\<close>.\<close>

definition public_subkey_of_secret :: "signed_secret_subkey \<Rightarrow> signed_public_subkey" where
  "public_subkey_of_secret s = signed_public_subkey_new (sk_details (ssub_key s)) (ssub_signatures s)"

definition public_of_secret :: "signed_secret_key \<Rightarrow> signed_public_key" where
  "public_of_secret k = signed_public_key_new (sk_details (ssk_primary_key k)) (ssk_details k)
     (ssk_public_subkeys k @ map public_subkey_of_secret (ssk_secret_subkeys k))"

section \<open>Parsing keys from packets\<close>

text \<open>\<open>filter_parsed_packet_results\<close>: what is passed on of an item of the packet iterator.\<close>

definition filter_parsed_packet_results :: "packet res \<Rightarrow> packet res option" where
  "filter_parsed_packet_results p =
     (case p of
        Ok (P_Marker _) \<Rightarrow> None
      | Ok _ \<Rightarrow> Some p
      | Err e \<Rightarrow>
          if (case e of InvalidPacketContent b \<Rightarrow> (case b of Unsupported _ \<Rightarrow> True | EllipticCurve \<Rightarrow> True | _ \<Rightarrow> False)
              | PacketIncomplete \<Rightarrow> True | _ \<Rightarrow> False)
          then None
          else Some (Err (Message ''unexpected packet data: {e:?}''))
      | Panic \<Rightarrow> Some Panic)"

text \<open>
  The loops of the key parser. Each takes packets off the front while the next one has an
  expected tag; the conversion of the packet to the type of that tag cannot fail then.
\<close>

fun skip_until_key :: "tag \<Rightarrow> packet res list \<Rightarrow> packet res list" where
  "skip_until_key t (Ok p # ps) = (if packet_tag p \<noteq> t then skip_until_key t ps else Ok p # ps)"
| "skip_until_key t ps = ps"

fun sig_packets :: "packet res list \<Rightarrow> signature list \<times> packet res list" where
  "sig_packets (Ok p # ps) =
     (case p of P_Signature s \<Rightarrow> (let (ss, r) = sig_packets ps in (s # ss, r)) | _ \<Rightarrow> ([], Ok p # ps))"
| "sig_packets ps = ([], ps)"

lemma sig_packets_length: "sig_packets ps = (ss, r) \<Longrightarrow> length r \<le> length ps"
  by (induction ps arbitrary: ss r rule: sig_packets.induct)
    (auto split: packet.splits prod.splits simp: le_SucI)

function (sequential) user_packets ::
  "packet res list \<Rightarrow> signed_user list \<times> signed_user_attribute list \<times> packet res list" where
  "user_packets (Ok p # ps) =
     (case p of
        P_UserId i \<Rightarrow>
          (let (sigs, r) = sig_packets ps; (us, as, r') = user_packets r
           in (signed_user_new i sigs # us, as, r'))
      | P_UserAttribute a \<Rightarrow>
          (let (sigs, r) = sig_packets ps; (us, as, r') = user_packets r
           in (us, signed_attr_new a sigs # as, r'))
      | _ \<Rightarrow> ([], [], Ok p # ps))"
| "user_packets ps = ([], [], ps)"
  by pat_completeness auto
termination
  by (relation "measure length") (auto dest: sig_packets_length [OF sym])

text \<open>
  The loop over subkeys, for the tags a key may contain: \<open>push\<close> adds a subkey and its signatures to
  the containers.
\<close>

function subkey_packets ::
  "tag list \<Rightarrow> key_version \<Rightarrow> (packet \<Rightarrow> signature list \<Rightarrow> 'c \<Rightarrow> 'c) \<Rightarrow> 'c \<Rightarrow> packet res list
     \<Rightarrow> 'c res \<times> packet res list" where
  "subkey_packets tags v push c ps =
     (case ps of
        Ok p # rest \<Rightarrow>
          if packet_tag p \<in> set tags then
            if v \<noteq> KV4 then (Err (Message ''only V4 keys can have subkeys''), rest)
            else (let (sigs, r) = sig_packets rest in subkey_packets tags v push (push p sigs c) r)
          else (Ok c, ps)
      | _ \<Rightarrow> (Ok c, ps))"
  by pat_completeness auto
termination
  by (relation "measure (\<lambda>(_, _, _, _, ps). length ps)") (auto dest: sig_packets_length [OF sym])

declare subkey_packets.simps [simp del]

text \<open>The loops end by looking at the next item, which panics if producing it does.\<close>

fun peeked :: "packet res list \<Rightarrow> 'a \<Rightarrow> 'a res" where
  "peeked (Panic # _) x = Panic"
| "peeked _ x = Ok x"

lemma peeked_eq_Ok [simp]: "peeked r x = Ok y \<longleftrightarrow> y = x \<and> (\<forall>q. r \<noteq> Panic # q)"
  by (cases "(r, x)" rule: peeked.cases) auto

text \<open>
  \<open>next\<close> of a key parser, the body of the macro: the tag of the primary key, its conversion, its
  version, the subkey tags with their containers, and the constructor of the key.
\<close>

definition key_parser_next ::
  "tag \<Rightarrow> (packet \<Rightarrow> 'k option) \<Rightarrow> ('k \<Rightarrow> key_version) \<Rightarrow> tag list \<Rightarrow> (packet \<Rightarrow> signature list \<Rightarrow> 'c \<Rightarrow> 'c) \<Rightarrow> 'c
     \<Rightarrow> ('k \<Rightarrow> signed_key_details \<Rightarrow> 'c \<Rightarrow> 'r) \<Rightarrow> packet res list \<Rightarrow> ('r res \<times> packet res list) option" where
  "key_parser_next key_tag try_into version_of tags push c0 new ps =
     (case skip_until_key key_tag ps of
        [] \<Rightarrow> None
      | Err e # r \<Rightarrow> Some (Err e, r)
      | Panic # r \<Rightarrow> Some (Panic, r)
      | Ok p # r \<Rightarrow>
          (case try_into p of
             None \<Rightarrow> Some (Err (Message ''invalid packet type''), r)
           | Some k \<Rightarrow>
               (let (sigs, r1) = sig_packets r; (us, as, r2) = user_packets r1;
                    (c, r3) = subkey_packets tags (version_of k) push c0 r2
                in Some (and_then c (\<lambda>c. peeked r3 (new k (signed_key_details_new
                     (filter (\<lambda>s. sig_typ s = Sig_KeyRevocation) sigs)
                     (filter (\<lambda>s. sig_typ s \<noteq> Sig_KeyRevocation) sigs) us as) c)), r3))))"

definition push_public :: "packet \<Rightarrow> signature list \<Rightarrow> signed_public_subkey list \<Rightarrow> signed_public_subkey list" where
  "push_public p sigs c = (case p of P_PublicSubkey k \<Rightarrow> c @ [signed_public_subkey_new k sigs] | _ \<Rightarrow> c)"

definition push_secret ::
  "packet \<Rightarrow> signature list \<Rightarrow> signed_public_subkey list \<times> signed_secret_subkey list
     \<Rightarrow> signed_public_subkey list \<times> signed_secret_subkey list" where
  "push_secret p sigs c =
     (case p of
        P_PublicSubkey k \<Rightarrow> (fst c @ [signed_public_subkey_new k sigs], snd c)
      | P_SecretSubkey k \<Rightarrow> (fst c, snd c @ [signed_secret_subkey_new k sigs])
      | _ \<Rightarrow> c)"

definition into_public_key :: "packet \<Rightarrow> public_key option" where
  "into_public_key p = (case p of P_PublicKey k \<Rightarrow> Some k | _ \<Rightarrow> None)"

definition into_secret_key :: "packet \<Rightarrow> secret_key option" where
  "into_secret_key p = (case p of P_SecretKey k \<Rightarrow> Some k | _ \<Rightarrow> None)"

definition public_key_next :: "packet res list \<Rightarrow> (signed_public_key res \<times> packet res list) option" where
  "public_key_next = key_parser_next Tag_PublicKey into_public_key key_version [Tag_PublicSubkey]
     push_public [] signed_public_key_new"

definition secret_key_next :: "packet res list \<Rightarrow> (signed_secret_key res \<times> packet res list) option" where
  "secret_key_next = key_parser_next Tag_SecretKey into_secret_key (\<lambda>k. key_version (sk_details k))
     [Tag_PublicSubkey, Tag_SecretSubkey] push_secret ([], []) (\<lambda>k d (ps, ss). signed_secret_key_new k d ps ss)"

text \<open>
  \<open>PubPrivIterator\<close>: \<open>inner\<close> is taken while a key is read and not put back after an error or at the
  end; another packet where a key should start ends the iteration.
\<close>

datatype public_or_secret = PoS_Public signed_public_key | PoS_Secret signed_secret_key

definition pub_priv_next ::
  "packet res list option \<Rightarrow> public_or_secret res option \<times> packet res list option" where
  "pub_priv_next inner =
     (case inner of
        None \<Rightarrow> (None, None)
      | Some packets \<Rightarrow>
          (case packets of
             [] \<Rightarrow> (None, None)
           | Panic # _ \<Rightarrow> (Some Panic, None)
           | Err _ # _ \<Rightarrow> (Some (Err (Message ''{e}'')), None)
           | Ok p # _ \<Rightarrow>
               if packet_tag p = Tag_SecretKey then
                 (case secret_key_next packets of
                    None \<Rightarrow> (None, Some [])
                  | Some (k, r) \<Rightarrow> (Some (map_ok PoS_Secret k), Some r))
               else if packet_tag p = Tag_PublicKey then
                 (case public_key_next packets of
                    None \<Rightarrow> (None, Some [])
                  | Some (k, r) \<Rightarrow> (Some (map_ok PoS_Public k), Some r))
               else (None, Some packets)))"

fun public_or_secret_verify :: "wire \<Rightarrow> hash_lib \<Rightarrow> key_impl \<Rightarrow> public_or_secret \<Rightarrow> unit res" where
  "public_or_secret_verify W H I (PoS_Public k) = signed_public_key_verify W H I k"
| "public_or_secret_verify W H I (PoS_Secret k) = signed_secret_key_verify W H I k"

fun public_or_secret_packets :: "public_or_secret \<Rightarrow> packet list" where
  "public_or_secret_packets (PoS_Public k) = signed_public_key_packets k"
| "public_or_secret_packets (PoS_Secret k) = signed_secret_key_packets k"

definition public_or_secret_to_writer :: "wire \<Rightarrow> ('a) curve_lib_scheme \<Rightarrow> public_or_secret \<Rightarrow> bytes res" where
  "public_or_secret_to_writer W L k = write_packets W L (public_or_secret_packets k)"

fun into_secret :: "public_or_secret \<Rightarrow> signed_secret_key res" where
  "into_secret (PoS_Secret k) = Ok k"
| "into_secret (PoS_Public _) = Panic"

fun into_public :: "public_or_secret \<Rightarrow> signed_public_key res" where
  "into_public (PoS_Public k) = Ok k"
| "into_public (PoS_Secret _) = Panic"

text \<open>
  \<open>Deserializable::from_bytes\<close>: the packets of the input that pass the filter, and the first object
  that \<open>next\<close> makes of them. \<open>None\<close> would be an iteration that does not end.
\<close>

definition filtered_packets ::
  "wire \<Rightarrow> ('a) curve_lib_scheme \<Rightarrow> ('r) reader_lib_scheme \<Rightarrow> bytes \<Rightarrow> packet res list option" where
  "filtered_packets W L R input =
     map_option (filter_map filter_parsed_packet_results)
       (drain (length input + 2) W L R (packet_parser_new input))"

definition from_bytes ::
  "wire \<Rightarrow> ('a) curve_lib_scheme \<Rightarrow> ('r) reader_lib_scheme \<Rightarrow> (packet res list \<Rightarrow> ('k res \<times> packet res list) option)
     \<Rightarrow> bytes \<Rightarrow> 'k res option" where
  "from_bytes W L R next_item input =
     map_option (\<lambda>ps. case next_item ps of None \<Rightarrow> Err NoMatchingPacket | Some (k, _) \<Rightarrow> k)
       (filtered_packets W L R input)"

text \<open>\<open>is_binary\<close>: the top bit of the first byte.\<close>

definition is_binary :: "bytes \<Rightarrow> bool res" where
  "is_binary buf = (case buf of [] \<Rightarrow> Err (Message ''empty input'') | b # _ \<Rightarrow> Ok (b AND 0x80 \<noteq> 0))"

section \<open>Standalone signatures\<close>

text \<open>\<open>next\<close> of the parser of detached signatures (\<open>src/src/composed/signature.rs\<close>).\<close>

definition standalone_next :: "packet res list \<Rightarrow> (signature res \<times> packet res list) option" where
  "standalone_next ps =
     (case ps of
        [] \<Rightarrow> None
      | Ok p # r \<Rightarrow>
          Some (case p of P_Signature s \<Rightarrow> Ok s | _ \<Rightarrow> Err (Message ''unexpected packet {:?}''), r)
      | Err e # r \<Rightarrow> Some (Err e, r)
      | Panic # r \<Rightarrow> Some (Panic, r))"

definition standalone_to_writer :: "wire \<Rightarrow> ('a) curve_lib_scheme \<Rightarrow> signature \<Rightarrow> bytes res" where
  "standalone_to_writer W L s = packet_to_writer W L (P_Signature s)"

definition standalone_verify :: "wire \<Rightarrow> hash_lib \<Rightarrow> signature \<Rightarrow> ('k) public_key_trait_scheme \<Rightarrow> bytes \<Rightarrow> unit res" where
  "standalone_verify W H s key content = verify W H s key content"

section \<open>Well-formed keys\<close>

definition signed_user_ok :: "signed_user \<Rightarrow> bool" where
  "signed_user_ok u \<longleftrightarrow> su_signatures u \<noteq> [] \<and> list_all sig_is_certification (su_signatures u)"

definition signed_attr_ok :: "signed_user_attribute \<Rightarrow> bool" where
  "signed_attr_ok a \<longleftrightarrow> sa_signatures a \<noteq> [] \<and> list_all sig_is_certification (sa_signatures a)"

definition bindings_ok :: "signature list \<Rightarrow> bool" where
  "bindings_ok sigs \<longleftrightarrow> sigs \<noteq> [] \<and> list_all binding_type sigs"

definition signed_key_details_ok :: "signed_key_details \<Rightarrow> bool" where
  "signed_key_details_ok d \<longleftrightarrow>
     list_all (\<lambda>s. sig_typ s = Sig_KeyRevocation) (skd_revocation_signatures d)
     \<and> list_all (\<lambda>s. sig_typ s \<noteq> Sig_KeyRevocation) (skd_direct_signatures d)
     \<and> list_all signed_user_ok (skd_users d) \<and> list_all signed_attr_ok (skd_user_attributes d)"

definition signed_public_key_ok :: "signed_public_key \<Rightarrow> bool" where
  "signed_public_key_ok k \<longleftrightarrow> signed_key_details_ok (spk_details k)
     \<and> list_all (\<lambda>s. bindings_ok (psub_signatures s)) (spk_public_subkeys k)
     \<and> (spk_public_subkeys k \<noteq> [] \<longrightarrow> key_version (spk_primary_key k) = KV4)"

definition signed_secret_key_ok :: "signed_secret_key \<Rightarrow> bool" where
  "signed_secret_key_ok k \<longleftrightarrow> signed_key_details_ok (ssk_details k)
     \<and> list_all (\<lambda>s. bindings_ok (psub_signatures s)) (ssk_public_subkeys k)
     \<and> list_all (\<lambda>s. bindings_ok (ssub_signatures s)) (ssk_secret_subkeys k)
     \<and> (ssk_public_subkeys k \<noteq> [] \<or> ssk_secret_subkeys k \<noteq> [] \<longrightarrow>
          key_version (sk_details (ssk_primary_key k)) = KV4)"

section \<open>Packets of a key are grouped back\<close>

text \<open>The next packet has none of the given tags, and looking at it does not panic.\<close>

definition stops_at :: "tag set \<Rightarrow> packet res list \<Rightarrow> bool" where
  "stops_at T r \<longleftrightarrow> (case r of [] \<Rightarrow> True | Ok p # _ \<Rightarrow> packet_tag p \<notin> T | Err _ # _ \<Rightarrow> True | Panic # _ \<Rightarrow> False)"

lemma stops_at_simps [simp]:
  "stops_at T []" "stops_at T (Ok p # r) \<longleftrightarrow> packet_tag p \<notin> T"
  by (simp_all add: stops_at_def)

lemma stops_at_mono: "stops_at T r \<Longrightarrow> S \<subseteq> T \<Longrightarrow> stops_at S r"
  by (auto simp: stops_at_def split: list.splits result.splits)

lemma sig_packets_stop: "stops_at {Tag_Signature} r \<Longrightarrow> sig_packets r = ([], r)"
  by (cases r rule: sig_packets.cases) (auto split: packet.splits)

lemma sig_packets_written:
  "stops_at {Tag_Signature} r \<Longrightarrow> sig_packets (map (Ok \<circ> P_Signature) ss @ r) = (ss, r)"
  by (induction ss) (simp_all add: sig_packets_stop)

lemma user_packets_stop: "stops_at {Tag_UserId, Tag_UserAttribute} r \<Longrightarrow> user_packets r = ([], [], r)"
  by (cases r rule: user_packets.cases) (auto split: packet.splits)

lemma stops_at_concat:
  assumes "\<And>x. x \<in> set xs \<Longrightarrow> \<exists>p ps. f x = p # ps \<and> packet_tag p \<notin> T" "stops_at T r"
  shows "stops_at T (map Ok (concat (map f xs)) @ r)"
  using assms by (cases xs) fastforce+

lemma user_packets_attrs:
  assumes "list_all signed_attr_ok as" "stops_at {Tag_Signature, Tag_UserId, Tag_UserAttribute} r"
  shows "user_packets (map Ok (concat (map signed_attr_packets as)) @ r) = ([], as, r)"
  using assms
proof (induction as)
  case Nil
  then show ?case by (auto intro!: user_packets_stop elim: stops_at_mono)
next
  case (Cons a as)
  have "stops_at {Tag_Signature} (map Ok (concat (map signed_attr_packets as)) @ r)"
    using Cons.prems by (intro stops_at_concat) (auto simp: signed_attr_packets_def elim: stops_at_mono)
  from sig_packets_written [OF this, of "sa_signatures a"] Cons show ?case
    by (simp add: signed_attr_packets_def [of a] signed_attr_new_def signed_attr_ok_def list_all_iff)
qed

lemma user_packets_written:
  assumes "list_all signed_user_ok us" "list_all signed_attr_ok as"
    and "stops_at {Tag_Signature, Tag_UserId, Tag_UserAttribute} r"
  shows "user_packets (map Ok (concat (map signed_user_packets us)) @
    map Ok (concat (map signed_attr_packets as)) @ r) = (us, as, r)"
  using assms
proof (induction us)
  case Nil
  then show ?case by (simp add: user_packets_attrs)
next
  case (Cons u us)
  let ?as = "map Ok (concat (map signed_attr_packets as)) @ r"
  have "stops_at {Tag_Signature} ?as"
    using Cons.prems by (intro stops_at_concat) (auto simp: signed_attr_packets_def elim: stops_at_mono)
  then have "stops_at {Tag_Signature} (map Ok (concat (map signed_user_packets us)) @ ?as)"
    by (rule stops_at_concat [rotated]) (simp add: signed_user_packets_def)
  from sig_packets_written [OF this, of "su_signatures u"] Cons show ?case
    by (simp add: signed_user_packets_def [of u] signed_user_new_def signed_user_ok_def list_all_iff)
qed

lemma subkey_packets_fold:
  assumes "\<And>x. x \<in> set xs \<Longrightarrow> f x = p x # map P_Signature (sigs x) \<and> packet_tag (p x) \<in> set tags"
    and "stops_at {Tag_Signature} r" "Tag_Signature \<notin> set tags"
  shows "subkey_packets tags KV4 push c (map Ok (concat (map f xs)) @ r)
    = subkey_packets tags KV4 push (fold (\<lambda>x. push (p x) (sigs x)) xs c) r"
  using assms(1)
proof (induction xs arbitrary: c)
  case (Cons x xs)
  have "stops_at {Tag_Signature} (map Ok (concat (map f xs)) @ r)"
    using Cons.prems assms(2,3) by (intro stops_at_concat) force+
  from sig_packets_written [OF this, of "sigs x"] Cons show ?case
    by (subst subkey_packets.simps) simp
qed simp

lemma subkey_packets_stop: "stops_at (set tags) r \<Longrightarrow> subkey_packets tags v push c r = (Ok c, r)"
  by (subst subkey_packets.simps) (auto simp: stops_at_def split: list.splits result.splits)

lemma fold_push_public:
  "list_all (\<lambda>s. bindings_ok (psub_signatures s)) subs \<Longrightarrow>
   fold (\<lambda>s. push_public (P_PublicSubkey (psub_key s)) (psub_signatures s)) subs c = c @ subs"
  by (induction subs arbitrary: c) (simp_all add: push_public_def push_secret_def signed_public_subkey_new_def bindings_ok_def list_all_iff)

lemma fold_push_secret:
  "list_all (\<lambda>s. bindings_ok (psub_signatures s)) ps \<Longrightarrow>
   fold (\<lambda>s. push_secret (P_PublicSubkey (psub_key s)) (psub_signatures s)) ps (c, c') = (c @ ps, c')"
  "list_all (\<lambda>s. bindings_ok (ssub_signatures s)) ss \<Longrightarrow>
   fold (\<lambda>s. push_secret (P_SecretSubkey (ssub_key s)) (ssub_signatures s)) ss (c, c') = (c, c' @ ss)"
  by (induction ps arbitrary: c, simp_all add: push_public_def push_secret_def signed_public_subkey_new_def bindings_ok_def list_all_iff)
    (induction ss arbitrary: c', simp_all add: push_secret_def signed_secret_subkey_new_def bindings_ok_def list_all_iff)

text \<open>The signatures, users and attributes that follow a primary key, up to its subkeys.\<close>

lemma details_written:
  assumes "signed_key_details_ok d" "stops_at {Tag_Signature, Tag_UserId, Tag_UserAttribute} r"
  shows "\<exists>r1. sig_packets (map Ok (signed_key_details_packets d) @ r)
      = (skd_revocation_signatures d @ skd_direct_signatures d, r1)
    \<and> user_packets r1 = (skd_users d, skd_user_attributes d, r)"
proof -
  let ?as = "map Ok (concat (map signed_attr_packets (skd_user_attributes d))) @ r"
  let ?r1 = "map Ok (concat (map signed_user_packets (skd_users d))) @ ?as"
  have "stops_at {Tag_Signature} ?as"
    using assms(2) by (intro stops_at_concat) (auto simp: signed_attr_packets_def elim: stops_at_mono)
  then have "stops_at {Tag_Signature} ?r1"
    by (rule stops_at_concat [rotated]) (simp add: signed_user_packets_def)
  from sig_packets_written [OF this, of "skd_revocation_signatures d @ skd_direct_signatures d"]
  have "sig_packets (map Ok (signed_key_details_packets d) @ r)
      = (skd_revocation_signatures d @ skd_direct_signatures d, ?r1)"
    by (simp add: signed_key_details_packets_def)
  moreover have "user_packets ?r1 = (skd_users d, skd_user_attributes d, r)"
    using assms by (intro user_packets_written) (simp_all add: signed_key_details_ok_def)
  ultimately show ?thesis by blast
qed

lemma details_new_written:
  assumes "signed_key_details_ok d"
  shows "signed_key_details_new
      (filter (\<lambda>s. sig_typ s = Sig_KeyRevocation) (skd_revocation_signatures d @ skd_direct_signatures d))
      (filter (\<lambda>s. sig_typ s \<noteq> Sig_KeyRevocation) (skd_revocation_signatures d @ skd_direct_signatures d))
      (skd_users d) (skd_user_attributes d) = d"
proof -
  have "filter (\<lambda>s. sig_typ s = Sig_KeyRevocation) (skd_direct_signatures d) = []"
    "filter (\<lambda>s. sig_typ s \<noteq> Sig_KeyRevocation) (skd_revocation_signatures d) = []"
    "filter (\<lambda>s. sig_typ s = Sig_KeyRevocation) (skd_revocation_signatures d) = skd_revocation_signatures d"
    "filter (\<lambda>s. sig_typ s \<noteq> Sig_KeyRevocation) (skd_direct_signatures d) = skd_direct_signatures d"
    "filter (\<lambda>u. su_signatures u \<noteq> []) (skd_users d) = skd_users d"
    "filter (\<lambda>a. sa_signatures a \<noteq> []) (skd_user_attributes d) = skd_user_attributes d"
    using assms by (auto simp: signed_key_details_ok_def list_all_iff filter_empty_conv filter_id_conv
        signed_user_ok_def signed_attr_ok_def)
  then show ?thesis by (simp add: signed_key_details_new_def)
qed

lemma key_parser_next_written:
  assumes "signed_key_details_ok d" "try_into p = Some k" "packet_tag p = key_tag"
    and "stops_at {Tag_Signature, Tag_UserId, Tag_UserAttribute} q"
    and "subkey_packets tags (version_of k) push c0 q = (Ok c, r)" "\<And>x. r \<noteq> Panic # x"
  shows "key_parser_next key_tag try_into version_of tags push c0 new
    (Ok p # map Ok (signed_key_details_packets d) @ q) = Some (Ok (new k d c), r)"
proof -
  obtain r1 where r1: "sig_packets (map Ok (signed_key_details_packets d) @ q)
      = (skd_revocation_signatures d @ skd_direct_signatures d, r1)"
    "user_packets r1 = (skd_users d, skd_user_attributes d, q)"
    using details_written [OF assms(1,4)] by blast
  from assms(6) have "peeked r z = Ok z" for z :: 'e by simp
  then show ?thesis
    using assms(2,3,5) r1 details_new_written [OF assms(1)]
    by (simp add: key_parser_next_def del: filter_append)
qed

lemma stops_at_no_panic: "stops_at T r \<Longrightarrow> r \<noteq> Panic # x"
  by (auto simp: stops_at_def)

abbreviation key_end_tags :: "tag set" where
  "key_end_tags \<equiv> {Tag_Signature, Tag_UserId, Tag_UserAttribute, Tag_PublicSubkey, Tag_SecretSubkey}"

lemma public_key_next_written:
  assumes "signed_public_key_ok k" "stops_at key_end_tags r"
  shows "public_key_next (map Ok (signed_public_key_packets k) @ r) = Some (Ok k, r)"
proof -
  let ?q = "map Ok (concat (map signed_public_subkey_packets (spk_public_subkeys k))) @ r"
  have subs: "list_all (\<lambda>s. bindings_ok (psub_signatures s)) (spk_public_subkeys k)"
    using assms(1) by (simp add: signed_public_key_ok_def)
  have q: "stops_at {Tag_Signature, Tag_UserId, Tag_UserAttribute} ?q"
    using assms(2) by (intro stops_at_concat) (auto simp: signed_public_subkey_packets_def elim: stops_at_mono)
  have r: "stops_at {Tag_Signature} r" "stops_at (set [Tag_PublicSubkey]) r"
    using assms(2) by (auto elim: stops_at_mono)
  have "subkey_packets [Tag_PublicSubkey] (key_version (spk_primary_key k)) push_public [] ?q
      = (Ok (spk_public_subkeys k), r)"
  proof (cases "spk_public_subkeys k = []")
    case False
    with assms(1) have "key_version (spk_primary_key k) = KV4" by (simp add: signed_public_key_ok_def)
    then show ?thesis
      using subkey_packets_fold [where f = signed_public_subkey_packets and p = "\<lambda>s. P_PublicSubkey (psub_key s)"
          and sigs = psub_signatures and tags = "[Tag_PublicSubkey]" and push = push_public, OF _ r(1)]
        fold_push_public [OF subs] subkey_packets_stop [OF r(2)]
      by (simp add: signed_public_subkey_packets_def)
  qed (simp add: subkey_packets_stop [OF r(2)])
  then have "public_key_next (Ok (P_PublicKey (spk_primary_key k))
      # map Ok (signed_key_details_packets (spk_details k)) @ ?q)
    = Some (Ok (signed_public_key_new (spk_primary_key k) (spk_details k) (spk_public_subkeys k)), r)"
    unfolding public_key_next_def
    using assms(1) q stops_at_no_panic [OF assms(2)]
    by (intro key_parser_next_written) (simp_all add: signed_public_key_ok_def into_public_key_def)
  moreover have "filter (\<lambda>s. psub_signatures s \<noteq> []) (spk_public_subkeys k) = spk_public_subkeys k"
    using subs by (simp add: list_all_iff bindings_ok_def filter_id_conv)
  ultimately show ?thesis
    by (simp add: signed_public_key_packets_def signed_public_key_new_def)
qed

lemma secret_key_next_written:
  assumes "signed_secret_key_ok k" "stops_at key_end_tags r"
  shows "secret_key_next (map Ok (signed_secret_key_packets k) @ r) = Some (Ok k, r)"
proof -
  let ?s = "map Ok (concat (map signed_secret_subkey_packets (ssk_secret_subkeys k))) @ r"
  let ?q = "map Ok (concat (map signed_public_subkey_packets (ssk_public_subkeys k))) @ ?s"
  let ?T = "[Tag_PublicSubkey, Tag_SecretSubkey]"
  have subs: "list_all (\<lambda>s. bindings_ok (psub_signatures s)) (ssk_public_subkeys k)"
    "list_all (\<lambda>s. bindings_ok (ssub_signatures s)) (ssk_secret_subkeys k)"
    using assms(1) by (simp_all add: signed_secret_key_ok_def)
  have s: "stops_at {Tag_Signature, Tag_UserId, Tag_UserAttribute} ?s"
    using assms(2) by (intro stops_at_concat) (auto simp: signed_secret_subkey_packets_def elim: stops_at_mono)
  then have q: "stops_at {Tag_Signature, Tag_UserId, Tag_UserAttribute} ?q"
    by (rule stops_at_concat [rotated]) (simp add: signed_public_subkey_packets_def)
  have r: "stops_at {Tag_Signature} r" "stops_at (set ?T) r" and s': "stops_at {Tag_Signature} ?s"
    using assms(2) s by (auto elim: stops_at_mono)
  have "subkey_packets ?T (key_version (sk_details (ssk_primary_key k))) push_secret ([], []) ?q
      = (Ok (ssk_public_subkeys k, ssk_secret_subkeys k), r)"
  proof (cases "ssk_public_subkeys k = [] \<and> ssk_secret_subkeys k = []")
    case False
    with assms(1) have "key_version (sk_details (ssk_primary_key k)) = KV4" by (auto simp: signed_secret_key_ok_def)
    moreover have "subkey_packets ?T KV4 push_secret ([], []) ?q
        = subkey_packets ?T KV4 push_secret (ssk_public_subkeys k, []) ?s"
      using subkey_packets_fold [where f = signed_public_subkey_packets and p = "\<lambda>s. P_PublicSubkey (psub_key s)"
          and sigs = psub_signatures and tags = ?T and push = push_secret, OF _ s'] fold_push_secret(1) [OF subs(1)]
      by (simp add: signed_public_subkey_packets_def)
    moreover have "subkey_packets ?T KV4 push_secret (ssk_public_subkeys k, []) ?s
        = (Ok (ssk_public_subkeys k, ssk_secret_subkeys k), r)"
      using subkey_packets_fold [where f = signed_secret_subkey_packets and p = "\<lambda>s. P_SecretSubkey (ssub_key s)"
          and sigs = ssub_signatures and tags = ?T and push = push_secret, OF _ r(1)] fold_push_secret(2) [OF subs(2)]
        subkey_packets_stop [OF r(2)]
      by (simp add: signed_secret_subkey_packets_def)
    ultimately show ?thesis by simp
  qed (simp add: subkey_packets_stop [OF r(2)])
  then have "secret_key_next (Ok (P_SecretKey (ssk_primary_key k))
      # map Ok (signed_key_details_packets (ssk_details k)) @ ?q)
    = Some (Ok (case (ssk_public_subkeys k, ssk_secret_subkeys k) of (ps, ss) \<Rightarrow>
        signed_secret_key_new (ssk_primary_key k) (ssk_details k) ps ss), r)"
    unfolding secret_key_next_def
    using assms(1) q stops_at_no_panic [OF assms(2)]
    by (intro key_parser_next_written) (simp_all add: signed_secret_key_ok_def into_secret_key_def)
  moreover have "filter (\<lambda>s. psub_signatures s \<noteq> []) (ssk_public_subkeys k) = ssk_public_subkeys k"
    "filter (\<lambda>s. ssub_signatures s \<noteq> []) (ssk_secret_subkeys k) = ssk_secret_subkeys k"
    using subs by (simp_all add: list_all_iff bindings_ok_def filter_id_conv)
  ultimately show ?thesis
    by (simp add: signed_secret_key_packets_def signed_secret_key_new_def)
qed

section \<open>Parsed keys are well-formed\<close>

lemma user_packets_certifications:
  "user_packets ps = (us, as, r) \<Longrightarrow> (\<forall>u \<in> set us. list_all sig_is_certification (su_signatures u))
     \<and> (\<forall>a \<in> set as. list_all sig_is_certification (sa_signatures a))"
  by (induction ps arbitrary: us as r rule: user_packets.induct)
    (fastforce simp: signed_user_new_def signed_attr_new_def list_all_iff split: prod.splits packet.splits)+

lemma subkey_packets_inv:
  assumes "subkey_packets tags v push c ps = (Ok c', r)"
    and "Q c" "\<And>p s c. Q c \<Longrightarrow> Q (push p s c)"
  shows "Q c' \<and> (c' \<noteq> c \<longrightarrow> v = KV4)"
  using assms
proof (induction tags v push c ps arbitrary: c' r rule: subkey_packets.induct)
  case (1 tags v push c ps)
  then show ?case
    by (subst (asm) (2) subkey_packets.simps)
      (auto split: list.splits result.splits if_splits prod.splits)
qed

lemma signed_key_details_new_ok:
  assumes "user_packets ps = (us, as, r)"
  shows "signed_key_details_ok (signed_key_details_new
    (filter (\<lambda>s. sig_typ s = Sig_KeyRevocation) sigs) (filter (\<lambda>s. sig_typ s \<noteq> Sig_KeyRevocation) sigs) us as)"
  using user_packets_certifications [OF assms]
  by (auto simp: signed_key_details_ok_def signed_key_details_new_def list_all_iff signed_user_ok_def
      signed_attr_ok_def)

lemma key_parser_next_Ok:
  assumes "key_parser_next key_tag try_into version_of tags push c0 new ps = Some (Ok k, r)"
  obtains pk d c q where "k = new pk d c" "signed_key_details_ok d"
    "subkey_packets tags (version_of pk) push c0 q = (Ok c, r)"
proof -
  obtain p r0 where p: "skip_until_key key_tag ps = Ok p # r0"
    using assms by (auto simp: key_parser_next_def split: list.splits result.splits)
  obtain pk where pk: "try_into p = Some pk"
    using assms p by (auto simp: key_parser_next_def split: option.splits)
  obtain sigs r1 where s: "sig_packets r0 = (sigs, r1)" by fastforce
  obtain us as r2 where u: "user_packets r1 = (us, as, r2)" by (metis prod_cases3)
  obtain c r3 where c: "subkey_packets tags (version_of pk) push c0 r2 = (c, r3)" by fastforce
  obtain c' where "c = Ok c'" "r3 = r" "k = new pk (signed_key_details_new
      (filter (\<lambda>s. sig_typ s = Sig_KeyRevocation) sigs) (filter (\<lambda>s. sig_typ s \<noteq> Sig_KeyRevocation) sigs) us as) c'"
    using assms p pk s u c by (auto simp: key_parser_next_def)
  with c signed_key_details_new_ok [OF u] that show thesis by blast
qed

lemma push_public_ok:
  "list_all (\<lambda>s. list_all binding_type (psub_signatures s)) c \<Longrightarrow>
   list_all (\<lambda>s. list_all binding_type (psub_signatures s)) (push_public p sigs c)"
  by (cases p) (auto simp: push_public_def signed_public_subkey_new_def list_all_iff)

lemma push_secret_ok:
  "list_all (\<lambda>s. list_all binding_type (psub_signatures s)) (fst c)
     \<and> list_all (\<lambda>s. list_all binding_type (ssub_signatures s)) (snd c) \<Longrightarrow>
   list_all (\<lambda>s. list_all binding_type (psub_signatures s)) (fst (push_secret p sigs c))
     \<and> list_all (\<lambda>s. list_all binding_type (ssub_signatures s)) (snd (push_secret p sigs c))"
  by (cases p)
    (auto simp: push_secret_def signed_public_subkey_new_def signed_secret_subkey_new_def list_all_iff)

lemma public_key_next_ok: "public_key_next ps = Some (Ok k, r) \<Longrightarrow> signed_public_key_ok k"
proof -
  assume "public_key_next ps = Some (Ok k, r)"
  then obtain pk d c q where k: "k = signed_public_key_new pk d c" "signed_key_details_ok d"
    "subkey_packets [Tag_PublicSubkey] (key_version pk) push_public [] q = (Ok c, r)"
    unfolding public_key_next_def by (rule key_parser_next_Ok)
  from subkey_packets_inv [OF k(3), where Q = "list_all (\<lambda>s. list_all binding_type (psub_signatures s))"]
    push_public_ok k(1,2)
  show ?thesis by (auto simp: signed_public_key_ok_def signed_public_key_new_def bindings_ok_def list_all_iff)
qed

lemma secret_key_next_ok: "secret_key_next ps = Some (Ok k, r) \<Longrightarrow> signed_secret_key_ok k"
proof -
  assume "secret_key_next ps = Some (Ok k, r)"
  then obtain pk d c q where k: "k = (case c of (ps, ss) \<Rightarrow> signed_secret_key_new pk d ps ss)"
    "signed_key_details_ok d"
    "subkey_packets [Tag_PublicSubkey, Tag_SecretSubkey] (key_version (sk_details pk)) push_secret ([], []) q = (Ok c, r)"
    unfolding secret_key_next_def by (rule key_parser_next_Ok)
  obtain c1 c2 where c: "c = (c1, c2)" by fastforce
  have "(list_all (\<lambda>s. list_all binding_type (psub_signatures s)) (fst c)
      \<and> list_all (\<lambda>s. list_all binding_type (ssub_signatures s)) (snd c))
      \<and> (c \<noteq> ([], []) \<longrightarrow> key_version (sk_details pk) = KV4)"
    by (rule subkey_packets_inv [OF k(3)]) (simp, rule push_secret_ok, simp)
  with k(1,2) show ?thesis
    by (auto simp: c signed_secret_key_ok_def signed_secret_key_new_def bindings_ok_def list_all_iff)
qed

section \<open>Key rings\<close>

fun public_or_secret_ok :: "public_or_secret \<Rightarrow> bool" where
  "public_or_secret_ok (PoS_Public k) \<longleftrightarrow> signed_public_key_ok k"
| "public_or_secret_ok (PoS_Secret k) \<longleftrightarrow> signed_secret_key_ok k"

text \<open>The caller's loop over the key iterator, at most \<open>n\<close> calls.\<close>

fun pub_priv_all :: "nat \<Rightarrow> packet res list option \<Rightarrow> public_or_secret res list" where
  "pub_priv_all 0 inner = []"
| "pub_priv_all (Suc n) inner =
     (case pub_priv_next inner of
        (None, _) \<Rightarrow> []
      | (Some Panic, _) \<Rightarrow> [Panic]
      | (Some k, inner') \<Rightarrow> k # pub_priv_all n inner')"

lemma pub_priv_next_written:
  assumes "public_or_secret_ok k" "stops_at key_end_tags r"
  shows "pub_priv_next (Some (map Ok (public_or_secret_packets k) @ r)) = (Some (Ok k), Some r)"
proof (cases k)
  case (PoS_Public pk)
  with assms public_key_next_written [of pk r] show ?thesis
    by (simp add: pub_priv_next_def signed_public_key_packets_def)
next
  case (PoS_Secret sk)
  with assms secret_key_next_written [of sk r] show ?thesis
    by (simp add: pub_priv_next_def signed_secret_key_packets_def)
qed

lemma key_packets_hd: "\<exists>p ps. public_or_secret_packets k = p # ps \<and> packet_tag p \<in> {Tag_PublicKey, Tag_SecretKey}"
  by (cases k) (auto simp: signed_public_key_packets_def signed_secret_key_packets_def)

lemma pub_priv_all_written:
  "list_all public_or_secret_ok ks \<Longrightarrow> length ks < n \<Longrightarrow>
   pub_priv_all n (Some (map Ok (concat (map public_or_secret_packets ks)))) = map Ok ks"
proof (induction ks arbitrary: n)
  case Nil
  then obtain m where "n = Suc m" by (cases n) auto
  then show ?case by (simp add: pub_priv_next_def)
next
  case (Cons k ks)
  then obtain m where m: "n = Suc m" by (cases n) auto
  have "stops_at key_end_tags (map Ok (concat (map public_or_secret_packets ks)) @ [])"
    using key_packets_hd by (intro stops_at_concat) fastforce+
  with Cons m show ?case using pub_priv_next_written [of k] by simp
qed

text \<open>Packets other than markers pass the filter of the packet iterator.\<close>

definition passes_filter :: "packet \<Rightarrow> bool" where
  "passes_filter p \<longleftrightarrow> packet_tag p \<noteq> Tag_Marker"

lemma filter_key_packets:
  "list_all passes_filter ps \<Longrightarrow> filter_map filter_parsed_packet_results (map Ok ps) = map Ok ps"
proof (induction ps)
  case (Cons p ps)
  then show ?case
    by (cases p) (simp_all add: passes_filter_def filter_map_def filter_parsed_packet_results_def)
qed (simp add: filter_map_def)

lemma key_packets_are: "list_all passes_filter (public_or_secret_packets k)"
  by (cases k) (auto simp: passes_filter_def list_all_iff signed_public_key_packets_def signed_secret_key_packets_def
      signed_key_details_packets_def signed_user_packets_def signed_attr_packets_def
      signed_public_subkey_packets_def signed_secret_subkey_packets_def)

text \<open>Writing packets one after the other and reading the bytes back.\<close>

context packet_stream
begin

lemma write_packets_ok:
  assumes "list_all (packet_ok W L) ps"
  shows "\<exists>outs. try_map (packet_to_writer W L) ps = Ok outs
    \<and> list_all2 (\<lambda>p out. packet_ok W L p \<and> packet_to_writer W L p = Ok out) ps outs
    \<and> length ps \<le> length (concat outs)"
  using assms
proof (induction ps)
  case (Cons p ps)
  then obtain outs where o: "try_map (packet_to_writer W L) ps = Ok outs"
    "list_all2 (\<lambda>p out. packet_ok W L p \<and> packet_to_writer W L p = Ok out) ps outs"
    "length ps \<le> length (concat outs)"
    by auto
  from Cons.prems packet_framed_roundtrip [of L p] obtain b where
    b: "packet_to_writer W L p = Ok (write_header W (packet_version p) (tag_to_u8 (packet_tag p)) (length b) @ b)"
    by auto
  moreover have "write_header W (packet_version p) (tag_to_u8 (packet_tag p)) (length b) \<noteq> []"
    by (rule length_write_header(1))
  then have "1 \<le> length (write_header W (packet_version p) (tag_to_u8 (packet_tag p)) (length b))"
    by (simp add: Suc_le_eq)
  ultimately show ?case using o Cons.prems by auto
qed simp

lemma drained_written:
  assumes "list_all (packet_ok W L) ps"
  shows "\<exists>b. write_packets W L ps = Ok b \<and> drain (length b + 2) W L R (packet_parser_new b) = Some (map Ok ps)"
proof -
  obtain outs where o: "write_packets W L ps = Ok (concat outs)"
    "list_all2 (\<lambda>p out. packet_ok W L p \<and> packet_to_writer W L p = Ok out) ps outs"
    "length ps \<le> length (concat outs)"
    using write_packets_ok [OF assms] by (auto simp: write_packets_def)
  have "drain (length (concat outs) + 2) W L R (packet_parser_new (concat outs)) = Some (map Ok ps)"
    using o(3) by (intro drain_written [OF o(2)]) (simp_all add: packet_parser_new_def)
  with o(1) show ?thesis by blast
qed

lemma filtered_packets_written:
  assumes "list_all (packet_ok W L) ps" "list_all passes_filter ps"
  shows "\<exists>b. write_packets W L ps = Ok b \<and> filtered_packets W L R b = Some (map Ok ps)"
  using drained_written [OF assms(1)] filter_key_packets [OF assms(2)]
  by (auto simp: filtered_packets_def simp del: drain.simps)

end

section \<open>Properties\<close>

text \<open>
  C17. A key ring round-trips: the concatenation of the serialized forms of any number of well-formed
  public and secret transferable keys, with their users, attributes, subkeys and signatures, is
  read back by the key iterator as exactly these keys in this order, after which it ends.
\<close>

theorem key_ring_roundtrip:
  assumes "wire_laws W" and "reader_laws R" and "list_all public_or_secret_ok ks"
    and "list_all (packet_ok W L) (concat (map public_or_secret_packets ks))"
  shows "\<exists>b ps. write_packets W L (concat (map public_or_secret_packets ks)) = Ok b
    \<and> filtered_packets W L R b = Some ps \<and> pub_priv_all (Suc (length ks)) (Some ps) = map Ok ks"
proof -
  have "list_all passes_filter (concat (map public_or_secret_packets ks))"
    using key_packets_are by (auto simp: list_all_iff)
  from packet_stream.filtered_packets_written [OF packet_stream.intro [OF assms(1,2)] assms(4) this]
    pub_priv_all_written [OF assms(3), of "Suc (length ks)"]
  show ?thesis by (auto simp del: pub_priv_all.simps)
qed

definition bare_key :: signed_public_key where
  "bare_key = \<lparr>spk_primary_key = sample_key, spk_details = \<lparr>skd_revocation_signatures = [],
     skd_direct_signatures = [], skd_users = [], skd_user_attributes = []\<rparr>, spk_public_subkeys = []\<rparr>"

lemma bare_key_ok: "signed_public_key_ok bare_key"
  by (simp add: bare_key_def signed_public_key_ok_def signed_key_details_ok_def)

lemma bare_key_packets: "signed_public_key_packets bare_key = [P_PublicKey sample_key]"
  by (simp add: bare_key_def signed_public_key_packets_def signed_key_details_packets_def)

lemma bare_key_packet_ok: "packet_ok std_wire std_curves (P_PublicKey sample_key)"
  by (simp add: packet_ok_def sample_key_def public_key_ok_def in_u32_def known_curve_def
      known_curves_def mpi_ok_def bit_size_def leading_zeros8_def header_fits_def canonical_tag_def
      tag_of_u8_def public_key_to_writer_def key_to_writer_new_def write_curve_point_def
      curve_oid_known mpi_to_writer_def)

theorem key_ring_roundtrip_witness:
  "\<exists>b ps. write_packets std_wire std_curves [P_PublicKey sample_key, P_PublicKey sample_key] = Ok b
    \<and> filtered_packets std_wire std_curves std_reader b = Some ps
    \<and> pub_priv_all 3 (Some ps) = [Ok (PoS_Public bare_key), Ok (PoS_Public bare_key)]"
proof -
  show ?thesis
    using key_ring_roundtrip [OF std.wire_laws_axioms std_reader.reader_laws_axioms,
        of "[PoS_Public bare_key, PoS_Public bare_key]" std_curves] bare_key_ok bare_key_packet_ok
    by (simp add: bare_key_packets numeral_3_eq_3 del: pub_priv_all.simps)
qed

text \<open>
  C28. Grouping packets is idempotent: whatever sequence of packets a key was read from, with packets
  before it, signatures of the wrong type, unsigned users or subkeys in it, the key is well-formed,
  and the packets it is written as are read back as the same key.
\<close>

theorem parsed_key_reparses:
  "(public_key_next ps = Some (Ok k, r) \<longrightarrow> signed_public_key_ok k
      \<and> public_key_next (map Ok (signed_public_key_packets k)) = Some (Ok k, []))
   \<and> (secret_key_next ps = Some (Ok sk, r) \<longrightarrow> signed_secret_key_ok sk
      \<and> secret_key_next (map Ok (signed_secret_key_packets sk)) = Some (Ok sk, []))"
  using public_key_next_ok [of ps k r] secret_key_next_ok [of ps sk r]
    public_key_next_written [of k "[]"] secret_key_next_written [of sk "[]"] by auto

theorem parsed_key_reparses_witness:
  "public_key_next [Ok (P_Trust \<lparr>trust_packet_version = New\<rparr>), Ok (P_PublicKey sample_key),
       Ok (P_UserId \<lparr>uid_packet_version = New, uid_id = [0x61]\<rparr>), Err InvalidInput]
     = Some (Ok bare_key, [Err InvalidInput])
   \<and> public_key_next (map Ok (signed_public_key_packets bare_key)) = Some (Ok bare_key, [])"
proof -
  let ?ps = "[Ok (P_Trust \<lparr>trust_packet_version = New\<rparr>), Ok (P_PublicKey sample_key),
       Ok (P_UserId \<lparr>uid_packet_version = New, uid_id = [0x61]\<rparr>), Err InvalidInput]"
  have "public_key_next ?ps = Some (Ok bare_key, [Err InvalidInput])"
    by (simp add: public_key_next_def key_parser_next_def into_public_key_def signed_user_new_def
        subkey_packets.simps signed_public_key_new_def signed_key_details_new_def bare_key_def)
  with parsed_key_reparses [of ?ps bare_key "[Err InvalidInput]"] show ?thesis by blast
qed

end
