(* ===== verification/Pgp_Message.thy ===== *)
theory Pgp_Message
  imports Pgp_Signed_Key "HOL-Library.Multiset"
begin

text \<open>
  Composed messages: the nesting of literal, compressed, signed and encrypted messages with their
  serialization (the first part of \<open>src/src/composed/message/types.rs\<close>) and the parser that groups
  packets into messages (\<open>src/src/composed/message/parser.rs\<close>).
\<close>

section \<open>Session key packets and encrypted data packets of a message\<close>

datatype esk = Esk_Public pkesk | Esk_Sym skesk

fun esk_packet :: "esk \<Rightarrow> packet" where
  "esk_packet (Esk_Public k) = P_PublicKeyEncryptedSessionKey k"
| "esk_packet (Esk_Sym k) = P_SymKeyEncryptedSessionKey k"

definition esk_tag :: "esk \<Rightarrow> tag" where
  "esk_tag e = (case e of Esk_Public _ \<Rightarrow> Tag_PublicKeyEncryptedSessionKey | Esk_Sym _ \<Rightarrow> Tag_SymKeyEncryptedSessionKey)"

definition esk_try_from :: "packet \<Rightarrow> esk res" where
  "esk_try_from p =
     (case p of
        P_PublicKeyEncryptedSessionKey k \<Rightarrow> Ok (Esk_Public k)
      | P_SymKeyEncryptedSessionKey k \<Rightarrow> Ok (Esk_Sym k)
      | _ \<Rightarrow> Err (Message ''not a valid edata packet: {:?}''))"

datatype edata = Ed_Sym sym_encrypted_data | Ed_Protected seipd

fun edata_packet :: "edata \<Rightarrow> packet" where
  "edata_packet (Ed_Sym d) = P_SymEncryptedData d"
| "edata_packet (Ed_Protected d) = P_SymEncryptedProtectedData d"

definition edata_try_from :: "packet \<Rightarrow> edata res" where
  "edata_try_from p =
     (case p of
        P_SymEncryptedData d \<Rightarrow> Ok (Ed_Sym d)
      | P_SymEncryptedProtectedData d \<Rightarrow> Ok (Ed_Protected d)
      | _ \<Rightarrow> Err (Message ''not a valid edata packet: {:?}''))"

definition edata_tag :: "edata \<Rightarrow> tag" where
  "edata_tag d = (case d of Ed_Sym _ \<Rightarrow> Tag_SymEncryptedData | Ed_Protected _ \<Rightarrow> Tag_SymEncryptedProtectedData)"

definition edata_data :: "edata \<Rightarrow> bytes" where
  "edata_data d = (case d of Ed_Sym s \<Rightarrow> sed_data s | Ed_Protected p \<Rightarrow>
     (case seipd_data p of Seipd_V1 b \<Rightarrow> b | Seipd_V2 _ _ _ _ b \<Rightarrow> b))"

definition edata_version :: "edata \<Rightarrow> nat option" where
  "edata_version d = (case d of Ed_Sym _ \<Rightarrow> None | Ed_Protected p \<Rightarrow>
     Some (case seipd_data p of Seipd_V1 _ \<Rightarrow> 1 | Seipd_V2 _ _ _ _ _ \<Rightarrow> 2))"

lemma try_from_packet [simp]:
  "esk_try_from (esk_packet e) = Ok e" "edata_try_from (edata_packet d) = Ok d"
  by (cases e; simp add: esk_try_from_def) (cases d; simp add: edata_try_from_def)

section \<open>Messages\<close>

datatype message =
    Msg_Literal literal_data
  | Msg_Compressed compressed_data
  | Msg_Signed "message option" "one_pass_signature option" signature
  | Msg_Encrypted "esk list" edata

text \<open>The packets of a message in the order \<open>to_writer\<close> writes them.\<close>

fun message_packets :: "message \<Rightarrow> packet list" where
  "message_packets (Msg_Literal d) = [P_LiteralData d]"
| "message_packets (Msg_Compressed d) = [P_CompressedData d]"
| "message_packets (Msg_Signed m ops s) =
     (case ops of Some p \<Rightarrow> [P_OnePassSignature p] | None \<Rightarrow> [])
     @ (case m of Some n \<Rightarrow> message_packets n | None \<Rightarrow> []) @ [P_Signature s]"
| "message_packets (Msg_Encrypted es d) = map esk_packet es @ [edata_packet d]"

definition message_to_writer :: "wire \<Rightarrow> ('a) curve_lib_scheme \<Rightarrow> message \<Rightarrow> bytes res" where
  "message_to_writer W L m = write_packets W L (message_packets m)"

definition new_literal :: "int \<Rightarrow> bytes \<Rightarrow> bytes \<Rightarrow> message" where
  "new_literal now file_name data = Msg_Literal (literal_from_str now file_name data)"

definition new_literal_bytes :: "int \<Rightarrow> bytes \<Rightarrow> bytes \<Rightarrow> message" where
  "new_literal_bytes now file_name data = Msg_Literal (literal_from_bytes now file_name data)"

section \<open>Parsing\<close>

text \<open>The loop that takes session key packets.\<close>

fun esk_packets :: "packet res list \<Rightarrow> esk list \<times> packet res list" where
  "esk_packets (Ok p # ps) =
     (case esk_try_from p of
        Ok e \<Rightarrow> (let (es, r) = esk_packets ps in (e # es, r))
      | _ \<Rightarrow> ([], Ok p # ps))"
| "esk_packets ps = ([], ps)"

definition encrypted_next :: "esk \<Rightarrow> packet res list \<Rightarrow> message res \<times> packet res list" where
  "encrypted_next e ps =
     (let (es, r) = esk_packets ps in
      case r of
        [] \<Rightarrow> (Err (Message ''Missing encrypted data packet''), [])
      | Ok p # r' \<Rightarrow>
          (case edata_try_from p of
             Ok d \<Rightarrow> (Ok (Msg_Encrypted (e # es) d), r')
           | _ \<Rightarrow> (Err (Message ''Expected encrypted data packet, but found {:?}''), r'))
      | Err x # r' \<Rightarrow> (Err x, r')
      | Panic # r' \<Rightarrow> (Panic, r'))"

text \<open>The end of the one-pass arm: the signature that has to follow the nested message.\<close>

definition one_pass_end ::
  "one_pass_signature \<Rightarrow> message option \<Rightarrow> packet res list \<Rightarrow> message res \<times> packet res list" where
  "one_pass_end ops m ps =
     (case ps of
        Ok p # r \<Rightarrow>
          (case p of
             P_Signature s \<Rightarrow> (Ok (Msg_Signed m (Some ops) s), r)
           | _ \<Rightarrow> (Err (Message ''missing signature for, one pass signature''), ps))
      | Panic # r \<Rightarrow> (Panic, r)
      | _ \<Rightarrow> (Err (Message ''missing signature for, one pass signature''), ps))"

fun message_next :: "packet res list \<Rightarrow> (message res \<times> packet res list) option" where
  "message_next [] = None"
| "message_next (Err e # ps) = Some (Err e, ps)"
| "message_next (Panic # ps) = Some (Panic, ps)"
| "message_next (Ok p # ps) =
     (case p of
        P_LiteralData d \<Rightarrow> Some (Ok (Msg_Literal d), ps)
      | P_CompressedData d \<Rightarrow> Some (Ok (Msg_Compressed d), ps)
      | P_PublicKeyEncryptedSessionKey k \<Rightarrow> Some (encrypted_next (Esk_Public k) ps)
      | P_SymKeyEncryptedSessionKey k \<Rightarrow> Some (encrypted_next (Esk_Sym k) ps)
      | P_Signature s \<Rightarrow>
          (case message_next ps of
             None \<Rightarrow> Some (Ok (Msg_Signed None None s), [])
           | Some (m, r) \<Rightarrow> Some (map_ok (\<lambda>m. Msg_Signed (Some m) None s) m, r))
      | P_OnePassSignature ops \<Rightarrow>
          (case message_next ps of
             None \<Rightarrow> Some (one_pass_end ops None [])
           | Some (Ok m, r) \<Rightarrow> Some (one_pass_end ops (Some m) r)
           | Some (e, r) \<Rightarrow> Some (e, r))
      | P_Marker _ \<Rightarrow> message_next ps
      | P_Padding _ \<Rightarrow> message_next ps
      | _ \<Rightarrow> Some (Err (Message ''unexpected packet {:?}''), ps))"

text \<open>\<open>from_bytes\<close> of a message: the first message of the filtered packets.\<close>

definition message_from_items :: "packet res list \<Rightarrow> message res" where
  "message_from_items ps = (case message_next ps of None \<Rightarrow> Err NoMatchingPacket | Some (m, _) \<Rightarrow> m)"

definition message_from_bytes ::
  "wire \<Rightarrow> ('a) curve_lib_scheme \<Rightarrow> ('r) reader_lib_scheme \<Rightarrow> bytes \<Rightarrow> message res option" where
  "message_from_bytes W L R input = map_option message_from_items (filtered_packets W L R input)"

text \<open>The messages of an iteration, at most as many as there are packets.\<close>

fun messages :: "nat \<Rightarrow> packet res list \<Rightarrow> message res list" where
  "messages 0 ps = []"
| "messages (Suc n) ps = (case message_next ps of None \<Rightarrow> [] | Some (m, r) \<Rightarrow> m # messages n r)"

section \<open>Reading back what was written\<close>

text \<open>
  The messages that are delimited in a stream of packets: signatures are one-pass and enclose a
  message, and an encrypted message has a session key packet.
\<close>

fun message_ok :: "message \<Rightarrow> bool" where
  "message_ok (Msg_Literal _) \<longleftrightarrow> True"
| "message_ok (Msg_Compressed _) \<longleftrightarrow> True"
| "message_ok (Msg_Signed m ops s) \<longleftrightarrow> ops \<noteq> None \<and> (case m of Some n \<Rightarrow> message_ok n | None \<Rightarrow> False)"
| "message_ok (Msg_Encrypted es d) \<longleftrightarrow> es \<noteq> []"

lemma esk_packets_written [simp]:
  "esk_packets (map Ok (map esk_packet es) @ Ok (edata_packet d) # r) = (es, Ok (edata_packet d) # r)"
proof (induction es)
  case Nil
  show ?case by (cases d) (simp_all add: esk_try_from_def)
qed simp

lemma encrypted_next_written [simp]:
  "encrypted_next e (map Ok (map esk_packet es) @ Ok (edata_packet d) # r) = (Ok (Msg_Encrypted (e # es) d), r)"
  using esk_packets_written [of es d r] by (simp add: encrypted_next_def del: map_map esk_packets_written)

lemma message_next_esk: "message_next (Ok (esk_packet e) # ps) = Some (encrypted_next e ps)"
  by (cases e) simp_all

lemma message_next_written:
  "message_ok m \<Longrightarrow> message_next (map Ok (message_packets m) @ r) = Some (Ok m, r)"
proof (induction m arbitrary: r rule: message_packets.induct)
  case (3 m ops s)
  then obtain n p where n: "m = Some n" "ops = Some p" "message_ok n" by (auto split: option.splits)
  with "3.IH" [OF n(1)] show ?case by (simp add: one_pass_end_def)
next
  case (4 es d)
  then obtain e es' where es: "es = e # es'" by (cases es) auto
  with encrypted_next_written [of e es' d r] show ?case
    by (simp add: message_next_esk del: message_next.simps encrypted_next_written)
qed simp_all

lemma message_packets_filter: "list_all passes_filter (message_packets m)"
proof (induction m rule: message_packets.induct)
  case (3 m ops s)
  then show ?case by (cases m; cases ops) (auto simp: passes_filter_def)
next
  case (4 es d)
  have "passes_filter (esk_packet e)" "passes_filter (edata_packet d)" for e
    by (cases e; simp add: passes_filter_def) (cases d; simp add: passes_filter_def)
  then show ?case by (simp add: list_all_iff)
qed (simp_all add: passes_filter_def)

text \<open>Reading a message comes to an end, also from a source that fails.\<close>

context packet_source
begin

lemma message_from_bytes_returns: "\<exists>r. message_from_bytes W L R input = Some r"
  using drain_returns [of "packet_parser_new input" "length input + 2" L]
  by (auto simp: message_from_bytes_def filtered_packets_def packet_parser_new_def simp del: drain.simps)

end

context packet_stream
begin

lemma message_written:
  assumes "message_ok m" "list_all (packet_ok W L) (message_packets m)"
  shows "\<exists>b. message_to_writer W L m = Ok b \<and> message_from_bytes W L R b = Some (Ok m)"
  using filtered_packets_written [OF assms(2) message_packets_filter] message_next_written [OF assms(1), of "[]"]
  by (auto simp: message_to_writer_def message_from_bytes_def message_from_items_def)

lemma message_read:
  assumes "message_ok m" "list_all (packet_ok W L) (message_packets m)" "message_to_writer W L m = Ok b"
  shows "message_from_bytes W L R b = Some (Ok m)"
  using message_written [OF assms(1,2)] assms(3) by auto

end

lemma messages_written:
  "list_all message_ok ms \<Longrightarrow> length ms < n \<Longrightarrow> messages n (map Ok (concat (map message_packets ms))) = map Ok ms"
proof (induction ms arbitrary: n)
  case Nil
  then show ?case by (cases n) simp_all
next
  case (Cons m ms)
  then obtain k where "n = Suc k" by (cases n) auto
  with Cons message_next_written [of m] show ?case by simp
qed

section \<open>What a parsed message holds\<close>

text \<open>Packets the parser passes over.\<close>

definition ignorable :: "packet \<Rightarrow> bool" where
  "ignorable p \<longleftrightarrow> packet_tag p \<in> {Tag_Marker, Tag_Padding}"

lemma esk_try_from_Ok: "esk_try_from p = Ok e \<longleftrightarrow> p = esk_packet e"
  by (cases p; cases e) (auto simp: esk_try_from_def)

lemma edata_try_from_Ok: "edata_try_from p = Ok d \<longleftrightarrow> p = edata_packet d"
  by (cases p; cases d) (auto simp: edata_try_from_def)

lemma ignorable_simps [simp]:
  "\<not> ignorable (esk_packet e)" "\<not> ignorable (edata_packet d)" "\<not> ignorable (P_LiteralData l)"
  "\<not> ignorable (P_CompressedData c)" "\<not> ignorable (P_Signature s)" "\<not> ignorable (P_OnePassSignature ops)"
  "\<not> ignorable (P_PublicKeyEncryptedSessionKey k)" "\<not> ignorable (P_SymKeyEncryptedSessionKey k')"
  "ignorable (P_Marker m)" "ignorable (P_Padding q)"
  by (cases e; simp add: ignorable_def) (cases d; simp add: ignorable_def; simp add: ignorable_def)+

abbreviation relevant :: "packet list \<Rightarrow> packet list" where
  "relevant ps \<equiv> filter (\<lambda>p. \<not> ignorable p) ps"

lemma esk_packets_Ok: "esk_packets ps = (es, r) \<Longrightarrow> ps = map Ok (map esk_packet es) @ r"
proof (induction ps arbitrary: es r rule: esk_packets.induct)
  case (1 p ps)
  show ?case
  proof (cases "esk_try_from p")
    case (Ok e)
    with 1 show ?thesis by (auto simp: esk_try_from_Ok split: prod.splits)
  qed (use 1 in auto)
qed auto

lemma encrypted_next_Ok:
  assumes "encrypted_next e ps = (Ok m, r)"
  shows "\<exists>es d. m = Msg_Encrypted (e # es) d \<and> ps = map Ok (map esk_packet es @ [edata_packet d]) @ r"
proof -
  obtain es r' where e: "esk_packets ps = (es, r')" by (cases "esk_packets ps")
  with assms obtain p d where p: "r' = Ok p # r" "edata_try_from p = Ok d" "m = Msg_Encrypted (e # es) d"
    by (auto simp: encrypted_next_def split: list.splits result.splits)
  with esk_packets_Ok [OF e] show ?thesis by (auto simp: edata_try_from_Ok)
qed

lemma one_pass_end_Ok:
  "one_pass_end ops m ps = (Ok x, r) \<longleftrightarrow> (\<exists>s. ps = Ok (P_Signature s) # r \<and> x = Msg_Signed m (Some ops) s)"
  by (auto simp: one_pass_end_def split: list.splits result.splits packet.splits)

lemma message_next_None: "message_next ps = None \<Longrightarrow> \<exists>used. ps = map Ok used \<and> list_all ignorable used"
proof (induction ps)
  case (Cons x ps)
  then obtain p where x: "x = Ok p" by (cases x) auto
  with Cons.prems have i: "ignorable p" "message_next ps = None"
    by (auto simp: ignorable_def split: packet.splits option.splits prod.splits result.splits)
  from Cons.IH [OF i(2)] obtain used where "ps = map Ok used" "list_all ignorable used" by blast
  with x i(1) show ?case by (intro exI [of _ "p # used"]) simp
qed simp

lemma message_next_cases:
  assumes "message_next (Ok p # ps) = Some (Ok m, r)"
  obtains (literal) d where "p = P_LiteralData d" "m = Msg_Literal d" "r = ps"
  | (compressed) d where "p = P_CompressedData d" "m = Msg_Compressed d" "r = ps"
  | (encrypted) e where "p = esk_packet e" "encrypted_next e ps = (Ok m, r)"
  | (signature) s where "p = P_Signature s" "message_next ps = None" "m = Msg_Signed None None s" "r = []"
  | (signed) s n where "p = P_Signature s" "message_next ps = Some (Ok n, r)" "m = Msg_Signed (Some n) None s"
  | (one_pass) ops n q s where "p = P_OnePassSignature ops" "message_next ps = Some (Ok n, q)"
      "q = Ok (P_Signature s) # r" "m = Msg_Signed (Some n) (Some ops) s"
  | (skipped) "ignorable p" "message_next ps = Some (Ok m, r)"
proof (cases p)
  case (P_OnePassSignature ops)
  with assms show ?thesis
    by (auto split: option.splits prod.splits result.splits simp: one_pass_end_Ok intro: one_pass)
next
  case (P_PublicKeyEncryptedSessionKey k)
  with assms encrypted [of "Esk_Public k"] show ?thesis by simp
next
  case (P_SymKeyEncryptedSessionKey k)
  with assms encrypted [of "Esk_Sym k"] show ?thesis by simp
next
  case (P_Signature s)
  with assms show ?thesis
    by (auto split: option.splits prod.splits intro: signature signed)
qed (use assms literal compressed skipped in \<open>auto simp: ignorable_def\<close>)

lemma message_next_accounts:
  "message_next ps = Some (Ok m, r) \<Longrightarrow> \<exists>used. ps = map Ok used @ r
    \<and> mset (relevant used) = mset (message_packets m)
    \<and> (message_ok m \<longrightarrow> relevant used = message_packets m)"
proof (induction ps arbitrary: m r)
  case (Cons x ps)
  then obtain p where x: "x = Ok p" by (cases x) auto
  from Cons.prems [unfolded x] show ?case
  proof (cases rule: message_next_cases)
    case (encrypted e)
    from encrypted_next_Ok [OF encrypted(2)] obtain es d where
      "m = Msg_Encrypted (e # es) d" "ps = map Ok (map esk_packet es @ [edata_packet d]) @ r" by blast
    moreover from this have "relevant (map esk_packet (e # es) @ [edata_packet d]) = message_packets m"
      by (simp add: filter_id_conv)
    ultimately show ?thesis
      using x encrypted(1) by (intro exI [of _ "map esk_packet (e # es) @ [edata_packet d]"]) simp
  next
    case (signature s)
    from message_next_None [OF signature(2)] obtain used where
      u: "ps = map Ok used" "list_all ignorable used" by blast
    then have "relevant used = []" by (simp add: list_all_iff filter_empty_conv)
    with x signature u show ?thesis by (intro exI [of _ "p # used"]) simp
  next
    case (signed s n)
    from Cons.IH [OF signed(2)] obtain used where
      "ps = map Ok used @ r" "mset (relevant used) = mset (message_packets n)" by blast
    with x signed show ?thesis by (intro exI [of _ "p # used"]) simp
  next
    case (one_pass ops n q s)
    from Cons.IH [OF one_pass(2)] obtain used where
      "ps = map Ok used @ q" "mset (relevant used) = mset (message_packets n)"
      "message_ok n \<longrightarrow> relevant used = message_packets n" by blast
    with x one_pass show ?thesis by (intro exI [of _ "p # used @ [P_Signature s]"]) simp
  next
    case skipped
    from Cons.IH [OF skipped(2)] obtain used where
      "ps = map Ok used @ r" "mset (relevant used) = mset (message_packets m)"
      "message_ok m \<longrightarrow> relevant used = message_packets m" by blast
    with x skipped(1) show ?thesis by (intro exI [of _ "p # used"]) simp
  qed (use x in \<open>auto intro: exI [of _ "[p]"]\<close>)
qed simp

section \<open>Properties\<close>


definition sample_literal :: literal_data where
  "sample_literal = \<lparr>lit_packet_version = New, lit_mode = Mode_Utf8, lit_file_name = [0x61], lit_created = 5,
     lit_data = [0x68, 0x69]\<rparr>"

lemma sample_literal_ok: "packet_ok std_wire std_curves (P_LiteralData sample_literal)"
  by (simp add: packet_ok_def sample_literal_def literal_ok_def canonical_def data_mode_of_u8_def in_u32_def
      header_fits_def canonical_tag_def tag_of_u8_def literal_to_writer_def std_wire_def be32_def)


text \<open>
  A parsed message accounts for every packet: whatever message the parser returns from any sequence of
  packets, the packets it consumed are, without markers and padding, a rearrangement of the packets
  of the message, and they are in the same order when the message is delimited. Nothing that was
  read is dropped, duplicated or invented.
\<close>

theorem message_parse_accounts:
  assumes "message_next ps = Some (Ok m, r)"
  shows "\<exists>used. ps = map Ok used @ r
    \<and> mset (filter (\<lambda>p. packet_tag p \<notin> {Tag_Marker, Tag_Padding}) used) = mset (message_packets m)
    \<and> (message_ok m \<longrightarrow> filter (\<lambda>p. packet_tag p \<notin> {Tag_Marker, Tag_Padding}) used = message_packets m)"
  using message_next_accounts [OF assms] unfolding ignorable_def .

theorem message_parse_accounts_witness:
  "\<exists>used. [Ok (P_Padding \<lparr>padding_packet_version = New, padding_data = [1]\<rparr>), Ok (P_LiteralData sample_literal),
      Err InvalidInput] = map Ok used @ [Err InvalidInput]
    \<and> mset (filter (\<lambda>p. packet_tag p \<notin> {Tag_Marker, Tag_Padding}) used) = mset [P_LiteralData sample_literal]
    \<and> filter (\<lambda>p. packet_tag p \<notin> {Tag_Marker, Tag_Padding}) used = [P_LiteralData sample_literal]"
  using message_parse_accounts [of "[Ok (P_Padding \<lparr>padding_packet_version = New, padding_data = [1]\<rparr>),
      Ok (P_LiteralData sample_literal), Err InvalidInput]" "Msg_Literal sample_literal" "[Err InvalidInput]"]
  by simp

text \<open>
  Two shapes of messages are not read back: a message with a signature in front is written with the
  signature behind it, so that reading stops before the signature; and encrypted data without a
  session key packet, as encrypting to no recipient makes it, is rejected.
\<close>

lemma prefix_signature_lost:
  "message_ok m \<Longrightarrow> message_next (map Ok (message_packets (Msg_Signed (Some m) None s)))
     = Some (Ok m, [Ok (P_Signature s)])"
  using message_next_written [of m "[Ok (P_Signature s)]"] by simp

lemma no_recipient_unreadable:
  "\<exists>e. message_next (map Ok (message_packets (Msg_Encrypted [] d))) = Some (Err e, [])"
  by (cases d) simp_all

end
