(* ===== verification/Pgp_Key_Build.thy ===== *)
theory Pgp_Key_Build
  imports Pgp_Signed_Key
begin

text \<open>
  Keys before and after they are signed: \<open>KeyDetails\<close>, \<open>PublicKey\<close>, \<open>SecretKey\<close> and their subkeys
  under \<open>src/src/composed/key/\<close>, signing of user ids and attributes (\<open>src/src/packet/user_id.rs\<close>,
  \<open>user_attribute.rs\<close>) and of key packets, and \<open>as_unsigned\<close> and \<open>public_key\<close> back. A key that was
  signed verifies, and unsigning returns what was signed. The clock is the argument \<open>now\<close>, taken
  not to advance during a call.
\<close>

section \<open>Certifications\<close>

text \<open>
  The configuration every signature of a key is made with: \<open>SignatureConfigBuilder\<close> with the
  algorithms and the key id of the signing key.
\<close>

definition signature_config_build ::
  "signature_type \<Rightarrow> ('k) secret_key_trait_scheme \<Rightarrow> subpacket list \<Rightarrow> signature_config res" where
  "signature_config_build t key hashed = and_then (pkt_key_id key) (\<lambda>i.
     Ok (new_v4 SigV4 t (pkt_algorithm key) (suggested_hash_alg key) hashed
           [subpacket_regular (Sp_Issuer i)]))"

definition user_id_sign_third_party ::
  "wire \<Rightarrow> hash_lib \<Rightarrow> int \<Rightarrow> user_id \<Rightarrow> ('k) secret_key_trait_scheme \<Rightarrow> bytes \<Rightarrow> ('l) public_key_trait_scheme
     \<Rightarrow> signed_user res" where
  "user_id_sign_third_party W H now i signer pw signee =
     and_then (signature_config_build Sig_CertGeneric signer
         [subpacket_regular (Sp_SignatureCreationTime now)]) (\<lambda>c.
     map_ok (\<lambda>s. signed_user_new i [s])
       (sign_certification_third_party W H c signer pw signee Tag_UserId (user_id_to_writer i)))"

definition user_id_sign ::
  "wire \<Rightarrow> hash_lib \<Rightarrow> int \<Rightarrow> user_id \<Rightarrow> ('k) secret_key_trait_scheme \<Rightarrow> bytes \<Rightarrow> signed_user res" where
  "user_id_sign W H now i key pw = user_id_sign_third_party W H now i key pw key"

definition user_attr_sign_third_party ::
  "wire \<Rightarrow> hash_lib \<Rightarrow> int \<Rightarrow> user_attribute \<Rightarrow> ('k) secret_key_trait_scheme \<Rightarrow> bytes \<Rightarrow> ('l) public_key_trait_scheme
     \<Rightarrow> signed_user_attribute res" where
  "user_attr_sign_third_party W H now a signer pw signee =
     and_then (signature_config_build Sig_CertGeneric signer
         [subpacket_regular (Sp_SignatureCreationTime now)]) (\<lambda>c.
     map_ok (\<lambda>s. signed_attr_new a [s])
       (sign_certification_third_party W H c signer pw signee Tag_UserAttribute (attr_to_writer W a)))"

definition user_attr_sign ::
  "wire \<Rightarrow> hash_lib \<Rightarrow> int \<Rightarrow> user_attribute \<Rightarrow> ('k) secret_key_trait_scheme \<Rightarrow> bytes \<Rightarrow> signed_user_attribute res" where
  "user_attr_sign W H now a key pw = user_attr_sign_third_party W H now a key pw key"

text \<open>\<open>sign\<close> of a key packet: the type of the signature depends on whether it is a subkey.\<close>

definition key_packet_sign ::
  "wire \<Rightarrow> hash_lib \<Rightarrow> int \<Rightarrow> bool \<Rightarrow> ('l) public_key_trait_scheme \<Rightarrow> ('k) secret_key_trait_scheme \<Rightarrow> bytes \<Rightarrow> signature res" where
  "key_packet_sign W H now is_subkey self key pw =
     and_then (signature_config_build (if is_subkey then Sig_SubkeyBinding else Sig_KeyBinding) key
         [subpacket_regular (Sp_SignatureCreationTime now)]) (\<lambda>c. sign_key W H c key pw self)"

section \<open>Details of a key\<close>

record key_details =
  kd_primary_user_id :: user_id
  kd_user_ids :: "user_id list"
  kd_user_attributes :: "user_attribute list"
  kd_keyflags :: key_flags
  kd_preferred_symmetric_algorithms :: "sym_alg list"
  kd_preferred_hash_algorithms :: "hash_alg list"
  kd_preferred_compression_algorithms :: "compression_alg list"
  kd_revocation_key :: "Pgp_Signature_Types.revocation_key option"

text \<open>The subpackets every user id is certified with, and those of the primary user id.\<close>

definition user_subpackets :: "key_details \<Rightarrow> int \<Rightarrow> bytes \<Rightarrow> subpacket list" where
  "user_subpackets d now fp =
     [subpacket_regular (Sp_SignatureCreationTime now),
      subpacket_regular (Sp_KeyFlags [kd_keyflags d]),
      subpacket_regular (Sp_PreferredSymmetricAlgorithms (kd_preferred_symmetric_algorithms d)),
      subpacket_regular (Sp_PreferredHashAlgorithms (kd_preferred_hash_algorithms d)),
      subpacket_regular (Sp_PreferredCompressionAlgorithms (kd_preferred_compression_algorithms d)),
      subpacket_regular (Sp_IssuerFingerprint KV4 fp)]"

definition primary_subpackets :: "key_details \<Rightarrow> int \<Rightarrow> bytes \<Rightarrow> subpacket list" where
  "primary_subpackets d now fp =
     subpacket_regular (Sp_IsPrimary True) # user_subpackets d now fp
     @ (case kd_revocation_key d of None \<Rightarrow> [] | Some r \<Rightarrow> [subpacket_regular (Sp_RevocationKey r)])"

definition certify_user ::
  "wire \<Rightarrow> hash_lib \<Rightarrow> ('k) secret_key_trait_scheme \<Rightarrow> bytes \<Rightarrow> subpacket list \<Rightarrow> user_id \<Rightarrow> signed_user res" where
  "certify_user W H key pw hashed i =
     and_then (signature_config_build Sig_CertGeneric key hashed) (\<lambda>c.
     map_ok (\<lambda>s. signed_user_new i [s])
       (sign_certification W H c key pw Tag_UserId (user_id_to_writer i)))"

definition key_details_sign ::
  "wire \<Rightarrow> hash_lib \<Rightarrow> int \<Rightarrow> key_details \<Rightarrow> ('k) secret_key_trait_scheme \<Rightarrow> bytes \<Rightarrow> signed_key_details res" where
  "key_details_sign W H now d key pw =
     and_then (pkt_fingerprint key) (\<lambda>fp.
     and_then (certify_user W H key pw (primary_subpackets d now fp) (kd_primary_user_id d)) (\<lambda>u.
     and_then (try_map (certify_user W H key pw (user_subpackets d now fp)) (kd_user_ids d)) (\<lambda>us.
     and_then (try_map (\<lambda>a. user_attr_sign W H now a key pw) (kd_user_attributes d)) (\<lambda>as.
       Ok \<lparr>skd_revocation_signatures = [], skd_direct_signatures = [], skd_users = u # us,
           skd_user_attributes = as\<rparr>))))"

section \<open>Subkeys and keys\<close>

record unsigned_public_subkey =
  ups_key :: public_key
  ups_keyflags :: key_flags

record unsigned_secret_subkey =
  uss_key :: secret_key
  uss_keyflags :: key_flags

definition subkey_bind ::
  "wire \<Rightarrow> hash_lib \<Rightarrow> int \<Rightarrow> key_flags \<Rightarrow> ('l) public_key_trait_scheme \<Rightarrow> ('k) secret_key_trait_scheme \<Rightarrow> bytes \<Rightarrow> signature res" where
  "subkey_bind W H now flags key sec_key pw =
     and_then (pkt_fingerprint sec_key) (\<lambda>fp.
     and_then (signature_config_build Sig_SubkeyBinding sec_key
         [subpacket_regular (Sp_SignatureCreationTime now), subpacket_regular (Sp_KeyFlags [flags]),
          subpacket_regular (Sp_IssuerFingerprint KV4 fp)]) (\<lambda>c.
       sign_key_binding W H c sec_key pw key))"

definition public_subkey_sign ::
  "wire \<Rightarrow> hash_lib \<Rightarrow> key_impl \<Rightarrow> int \<Rightarrow> unsigned_public_subkey \<Rightarrow> ('k) secret_key_trait_scheme \<Rightarrow> bytes
     \<Rightarrow> signed_public_subkey res" where
  "public_subkey_sign W H I now k sec_key pw =
     map_ok (\<lambda>s. \<lparr>psub_key = ups_key k, psub_signatures = [s]\<rparr>)
       (subkey_bind W H now (ups_keyflags k) (ki_public I (ups_key k)) sec_key pw)"

definition secret_subkey_sign ::
  "wire \<Rightarrow> hash_lib \<Rightarrow> key_impl \<Rightarrow> int \<Rightarrow> unsigned_secret_subkey \<Rightarrow> ('k) secret_key_trait_scheme \<Rightarrow> bytes
     \<Rightarrow> signed_secret_subkey res" where
  "secret_subkey_sign W H I now k sec_key pw =
     map_ok (\<lambda>s. \<lparr>ssub_key = uss_key k, ssub_signatures = [s]\<rparr>)
       (subkey_bind W H now (uss_keyflags k) (ki_secret I (uss_key k)) sec_key pw)"

record unsigned_public_key =
  upk_primary_key :: public_key
  upk_details :: key_details
  upk_public_subkeys :: "unsigned_public_subkey list"

record unsigned_secret_key =
  usk_primary_key :: secret_key
  usk_details :: key_details
  usk_public_subkeys :: "unsigned_public_subkey list"
  usk_secret_subkeys :: "unsigned_secret_subkey list"

definition unsigned_public_key_sign ::
  "wire \<Rightarrow> hash_lib \<Rightarrow> key_impl \<Rightarrow> int \<Rightarrow> unsigned_public_key \<Rightarrow> ('k) secret_key_trait_scheme \<Rightarrow> bytes
     \<Rightarrow> signed_public_key res" where
  "unsigned_public_key_sign W H I now k sec_key pw =
     and_then (key_details_sign W H now (upk_details k) sec_key pw) (\<lambda>d.
     and_then (try_map (\<lambda>s. public_subkey_sign W H I now s sec_key pw) (upk_public_subkeys k)) (\<lambda>subs.
       Ok \<lparr>spk_primary_key = upk_primary_key k, spk_details = d, spk_public_subkeys = subs\<rparr>))"

definition unsigned_secret_key_sign ::
  "wire \<Rightarrow> hash_lib \<Rightarrow> key_impl \<Rightarrow> int \<Rightarrow> unsigned_secret_key \<Rightarrow> bytes \<Rightarrow> signed_secret_key res" where
  "unsigned_secret_key_sign W H I now k pw =
     (let primary = ki_secret I (usk_primary_key k) in
      and_then (key_details_sign W H now (usk_details k) primary pw) (\<lambda>d.
      and_then (try_map (\<lambda>s. public_subkey_sign W H I now s primary pw) (usk_public_subkeys k)) (\<lambda>ps.
      and_then (try_map (\<lambda>s. secret_subkey_sign W H I now s primary pw) (usk_secret_subkeys k)) (\<lambda>ss.
        Ok \<lparr>ssk_primary_key = usk_primary_key k, ssk_details = d, ssk_public_subkeys = ps,
            ssk_secret_subkeys = ss\<rparr>))))"

section \<open>Removing signatures\<close>

text \<open>
  \<open>as_unsigned\<close> reads the details off the first signature of the primary user, or of the first
  user when none is marked; a key without users makes it panic.
\<close>

definition key_details_as_unsigned :: "signed_key_details \<Rightarrow> key_details res" where
  "key_details_as_unsigned d =
     (case (case find signed_user_is_primary (skd_users d) of
              Some u \<Rightarrow> [u] | None \<Rightarrow> take 1 (skd_users d)) of
        [] \<Rightarrow> Panic
      | u # _ \<Rightarrow>
          (case su_signatures u of
             [] \<Rightarrow> Panic
           | s # _ \<Rightarrow>
               Ok \<lparr>kd_primary_user_id = su_id u,
                   kd_user_ids = map su_id (filter (\<lambda>u. \<not> signed_user_is_primary u) (skd_users d)),
                   kd_user_attributes = map sa_attr (skd_user_attributes d),
                   kd_keyflags = sig_key_flags s,
                   kd_preferred_symmetric_algorithms = sig_preferred_symmetric_algs s,
                   kd_preferred_hash_algorithms = sig_preferred_hash_algs s,
                   kd_preferred_compression_algorithms = sig_preferred_compression_algs s,
                   kd_revocation_key = sig_revocation_key s\<rparr>))"

definition first_key_flags :: "signature list \<Rightarrow> key_flags res" where
  "first_key_flags sigs = (case sigs of [] \<Rightarrow> Panic | s # _ \<Rightarrow> Ok (sig_key_flags s))"

definition public_subkey_as_unsigned :: "signed_public_subkey \<Rightarrow> unsigned_public_subkey res" where
  "public_subkey_as_unsigned k = map_ok (\<lambda>f. \<lparr>ups_key = psub_key k, ups_keyflags = f\<rparr>)
     (first_key_flags (psub_signatures k))"

definition secret_subkey_public_key :: "signed_secret_subkey \<Rightarrow> unsigned_public_subkey res" where
  "secret_subkey_public_key k = map_ok (\<lambda>f. \<lparr>ups_key = sk_details (ssub_key k), ups_keyflags = f\<rparr>)
     (first_key_flags (ssub_signatures k))"

definition signed_public_key_as_unsigned :: "signed_public_key \<Rightarrow> unsigned_public_key res" where
  "signed_public_key_as_unsigned k =
     and_then (key_details_as_unsigned (spk_details k)) (\<lambda>d.
     map_ok (\<lambda>subs. \<lparr>upk_primary_key = spk_primary_key k, upk_details = d, upk_public_subkeys = subs\<rparr>)
       (try_map public_subkey_as_unsigned (spk_public_subkeys k)))"

definition signed_secret_key_public_key :: "signed_secret_key \<Rightarrow> unsigned_public_key res" where
  "signed_secret_key_public_key k =
     and_then (try_map public_subkey_as_unsigned (ssk_public_subkeys k)) (\<lambda>ps.
     and_then (try_map secret_subkey_public_key (ssk_secret_subkeys k)) (\<lambda>ss.
     map_ok (\<lambda>d. \<lparr>upk_primary_key = sk_details (ssk_primary_key k), upk_details = d,
                  upk_public_subkeys = ps @ ss\<rparr>) (key_details_as_unsigned (ssk_details k))))"

section \<open>Signatures name their configuration and their maker\<close>

lemma set_filter_map: "set (filter_map f xs) = {y. \<exists>x \<in> set xs. f x = Some y}"
  by (force simp: filter_map_def image_iff)

lemma sign_hashed_config: "sign_hashed W H c key pw h = Ok sig \<Longrightarrow> config sig = c"
  by (auto simp: sign_hashed_def from_config_def Let_def split: if_splits)

lemma sign_config:
  "sign_certification_third_party W H c signer pw signee t ident = Ok sig \<Longrightarrow> config sig = c"
  "sign_certification W H c key pw t ident = Ok sig \<Longrightarrow> config sig = c"
  "sign_key_binding W H c key pw sub = Ok sig \<Longrightarrow> config sig = c"
  "sign_key W H c key pw sub = Ok sig \<Longrightarrow> config sig = c"
  by (auto simp: sign_certification_third_party_def sign_certification_def sign_key_binding_def sign_key_def
      split: if_splits dest: sign_hashed_config)

lemma config_build_Ok:
  assumes "signature_config_build t key hashed = Ok c"
  obtains i where "pkt_key_id key = Ok i" "c = new_v4 SigV4 t (pkt_algorithm key) (suggested_hash_alg key) hashed
    [subpacket_regular (Sp_Issuer i)]"
  using assms by (auto simp: signature_config_build_def)

lemma config_build_identity:
  assumes "signature_config_build t key hashed = Ok c" "config sig = c"
  shows "match_identity sig key = Ok True \<and> (\<exists>i. pkt_key_id key = Ok i) \<and> sig_typ sig = t
    \<and> hashed_subpackets (config sig) = hashed"
proof -
  obtain i where i: "pkt_key_id key = Ok i" "c = new_v4 SigV4 t (pkt_algorithm key) (suggested_hash_alg key) hashed
      [subpacket_regular (Sp_Issuer i)]"
    using assms(1) by (rule config_build_Ok)
  have "i \<in> set (config_issuer c)"
    by (simp add: i(2) config_issuer_def new_v4_def set_filter_map subpacket_regular_def)
  then show ?thesis
    using i assms(2) by (auto simp: match_identity_def Let_def new_v4_def)
qed

lemma cert_generic: "sig_typ s = Sig_CertGeneric \<Longrightarrow> sig_is_certification s"
  by (simp add: sig_is_certification_def config_is_certification_def)

lemma certify_user_config:
  assumes "certify_user W H key pw hashed i = Ok u"
  shows "su_id u = i \<and> (\<exists>s. su_signatures u = [s] \<and> hashed_subpackets (config s) = hashed)"
proof -
  obtain c s where c: "signature_config_build Sig_CertGeneric key hashed = Ok c"
    and s: "sign_certification W H c key pw Tag_UserId (user_id_to_writer i) = Ok s" "u = signed_user_new i [s]"
    using assms by (auto simp: certify_user_def)
  from config_build_identity [OF c sign_config(2) [OF s(1)]] s(2) cert_generic show ?thesis
    by (auto simp: signed_user_new_def)
qed

lemma subkey_bind_flags:
  assumes "subkey_bind W H now flags sub key pw = Ok s"
  shows "sig_key_flags s = flags \<and> sig_typ s = Sig_SubkeyBinding"
proof -
  obtain c hashed where c: "signature_config_build Sig_SubkeyBinding key hashed = Ok c"
      "sign_key_binding W H c key pw sub = Ok s"
    and h: "\<exists>fp. hashed = [subpacket_regular (Sp_SignatureCreationTime now), subpacket_regular (Sp_KeyFlags [flags]),
          subpacket_regular (Sp_IssuerFingerprint KV4 fp)]"
    using assms by (auto simp: subkey_bind_def)
  from config_build_identity [OF c(1) sign_config(3) [OF c(2)]] h show ?thesis
    by (auto simp: sig_key_flags_def subpacket_regular_def key_flags_from_def unwrap_or_def)
qed

lemma key_details_sign_Ok:
  assumes "key_details_sign W H now d key pw = Ok sd"
  obtains fp u us as where "pkt_fingerprint key = Ok fp"
    "certify_user W H key pw (primary_subpackets d now fp) (kd_primary_user_id d) = Ok u"
    "list_all2 (\<lambda>i u. certify_user W H key pw (user_subpackets d now fp) i = Ok u) (kd_user_ids d) us"
    "list_all2 (\<lambda>a s. user_attr_sign W H now a key pw = Ok s) (kd_user_attributes d) as"
    "sd = \<lparr>skd_revocation_signatures = [], skd_direct_signatures = [], skd_users = u # us,
           skd_user_attributes = as\<rparr>"
  using assms by (auto simp: key_details_sign_def try_map_Ok_iff)

context signing_key
begin

lemma certification_made:
  assumes "signature_config_build Sig_CertGeneric K hashed = Ok c"
    and "sign_certification_third_party W H c K pw signee t ident = Ok s" "pkt_key_id signee = Ok j"
  shows "verify_third_party_certification W H s signee K t ident = Ok () \<and> sig_is_certification s
    \<and> hashed_subpackets (config s) = hashed"
  using config_build_identity [OF assms(1) sign_config(1) [OF assms(2)]]
    verify_sign_certification [OF assms(2) _ assms(3)] cert_generic by blast

lemma certify_user_made:
  assumes "certify_user W H K pw hashed i = Ok u"
  shows "signed_user_verify W H u K = Ok () \<and> signed_user_ok u"
proof -
  obtain c s where c: "signature_config_build Sig_CertGeneric K hashed = Ok c"
    and s: "sign_certification_third_party W H c K pw K Tag_UserId (user_id_to_writer i) = Ok s"
      "u = signed_user_new i [s]"
    using assms by (auto simp: certify_user_def sign_certification_def)
  obtain j where "pkt_key_id K = Ok j" using c by (rule config_build_Ok)
  from certification_made [OF c s(1) this] s(2) show ?thesis
    by (simp add: signed_user_new_def signed_user_ok_def signed_user_verify_def verify_certification_def)
qed

lemma user_attr_made:
  assumes "user_attr_sign_third_party W H now a K pw signee = Ok u" "pkt_key_id signee = Ok j"
  shows "signed_attr_verify_third_party W H u signee K = Ok () \<and> signed_attr_ok u \<and> sa_attr u = a"
proof -
  obtain c s where c: "signature_config_build Sig_CertGeneric K [subpacket_regular (Sp_SignatureCreationTime now)] = Ok c"
    and s: "sign_certification_third_party W H c K pw signee Tag_UserAttribute (attr_to_writer W a) = Ok s"
      "u = signed_attr_new a [s]"
    using assms(1) by (auto simp: user_attr_sign_third_party_def)
  from certification_made [OF c s(1) assms(2)] s(2) show ?thesis
    by (simp add: signed_attr_new_def signed_attr_ok_def signed_attr_verify_third_party_def)
qed

lemma user_id_made:
  assumes "user_id_sign_third_party W H now i K pw signee = Ok u" "pkt_key_id signee = Ok j"
  shows "signed_user_verify_third_party W H u signee K = Ok () \<and> signed_user_ok u \<and> su_id u = i"
proof -
  obtain c s where c: "signature_config_build Sig_CertGeneric K [subpacket_regular (Sp_SignatureCreationTime now)] = Ok c"
    and s: "sign_certification_third_party W H c K pw signee Tag_UserId (user_id_to_writer i) = Ok s"
      "u = signed_user_new i [s]"
    using assms(1) by (auto simp: user_id_sign_third_party_def)
  from certification_made [OF c s(1) assms(2)] s(2) show ?thesis
    by (simp add: signed_user_new_def signed_user_ok_def signed_user_verify_third_party_def)
qed

lemma subkey_bind_made:
  assumes "subkey_bind W H now flags sub K pw = Ok s"
  shows "subkey_verify W H sub [s] K = Ok () \<and> bindings_ok [s]"
proof -
  obtain c where "sign_key_binding W H c K pw sub = Ok s"
    using assms by (auto simp: subkey_bind_def)
  from verify_sign_key_binding [OF this] subkey_bind_flags [OF assms] show ?thesis
    by (simp add: subkey_verify_def bindings_ok_def binding_type_def)
qed

lemma key_details_made:
  assumes "key_details_sign W H now d K pw = Ok sd"
  shows "signed_key_details_verify W H sd K = Ok () \<and> signed_key_details_ok sd"
proof -
  from assms obtain fp u us as where k: "pkt_fingerprint K = Ok fp"
      "certify_user W H K pw (primary_subpackets d now fp) (kd_primary_user_id d) = Ok u"
    and us: "list_all2 (\<lambda>i u. certify_user W H K pw (user_subpackets d now fp) i = Ok u) (kd_user_ids d) us"
    and as: "list_all2 (\<lambda>a s. user_attr_sign W H now a K pw = Ok s) (kd_user_attributes d) as"
    and sd: "sd = \<lparr>skd_revocation_signatures = [], skd_direct_signatures = [], skd_users = u # us,
           skd_user_attributes = as\<rparr>"
    by (rule key_details_sign_Ok)
  obtain j where j: "pkt_key_id K = Ok j"
    using k(2) by (auto simp: certify_user_def elim: config_build_Ok)
  have "\<forall>v \<in> set us. signed_user_verify W H v K = Ok () \<and> signed_user_ok v"
    using us certify_user_made by (fastforce simp: list_all2_conv_all_nth in_set_conv_nth)
  moreover have "signed_attr_verify W H v K = Ok () \<and> signed_attr_ok v" if v: "v \<in> set as" for v
  proof -
    obtain a where "user_attr_sign W H now a K pw = Ok v"
      using as v by (auto simp: list_all2_conv_all_nth in_set_conv_nth)
    from user_attr_made [OF this [unfolded user_attr_sign_def] j] show ?thesis
      by (auto simp: signed_attr_verify_def signed_attr_verify_third_party_def verify_certification_def
          split: if_splits)
  qed
  ultimately show ?thesis
    using certify_user_made [OF k(2)]
    by (simp add: sd signed_key_details_verify_def signed_key_details_ok_def list_all_iff)
qed

lemma public_subkey_made:
  assumes "public_subkey_sign W H I now k K pw = Ok s"
  shows "subkey_verify W H (ki_public I (psub_key s)) (psub_signatures s) K = Ok () \<and> bindings_ok (psub_signatures s)"
  using assms by (auto simp: public_subkey_sign_def dest: subkey_bind_made)

lemma secret_subkey_made:
  assumes "secret_subkey_sign W H I now k K pw = Ok s"
  shows "subkey_verify W H (ki_secret I (ssub_key s)) (ssub_signatures s) K = Ok () \<and> bindings_ok (ssub_signatures s)"
  using assms by (auto simp: secret_subkey_sign_def dest: subkey_bind_made)

end

lemma list_all2_set2: "list_all2 Q xs ys \<Longrightarrow> y \<in> set ys \<Longrightarrow> \<exists>x \<in> set xs. Q x y"
  by (induction rule: list_all2_induct) auto

lemma secret_key_made:
  assumes "signing_key (ki_secret I (usk_primary_key k)) pw" "unsigned_secret_key_sign W H I now k pw = Ok sk"
  shows "signed_secret_key_verify W H I sk = Ok ()
    \<and> (key_version (sk_details (usk_primary_key k)) = KV4 \<longrightarrow> signed_secret_key_ok sk)"
proof -
  let ?K = "ki_secret I (usk_primary_key k)"
  obtain d ps ss where d: "key_details_sign W H now (usk_details k) ?K pw = Ok d"
    and ps: "list_all2 (\<lambda>x s. public_subkey_sign W H I now x ?K pw = Ok s) (usk_public_subkeys k) ps"
    and ss: "list_all2 (\<lambda>x s. secret_subkey_sign W H I now x ?K pw = Ok s) (usk_secret_subkeys k) ss"
    and sk: "sk = \<lparr>ssk_primary_key = usk_primary_key k, ssk_details = d, ssk_public_subkeys = ps, ssk_secret_subkeys = ss\<rparr>"
    using assms(2) by (auto simp: unsigned_secret_key_sign_def Let_def try_map_Ok_iff)
  have "subkey_verify W H (ki_public I (psub_key s)) (psub_signatures s) ?K = Ok () \<and> bindings_ok (psub_signatures s)"
    if "s \<in> set ps" for s
    using list_all2_set2 [OF ps that] signing_key.public_subkey_made [OF assms(1)] by blast
  moreover have "subkey_verify W H (ki_secret I (ssub_key s)) (ssub_signatures s) ?K = Ok () \<and> bindings_ok (ssub_signatures s)"
    if "s \<in> set ss" for s
    using list_all2_set2 [OF ss that] signing_key.secret_subkey_made [OF assms(1)] by blast
  ultimately show ?thesis
    using signing_key.key_details_made [OF assms(1) d]
    by (simp add: sk signed_secret_key_verify_def signed_secret_key_ok_def Let_def list_all_iff)
qed

section \<open>Unsigning\<close>

lemma primary_user_facts:
  assumes "certify_user W H key pw (primary_subpackets d now fp) i = Ok u"
  shows "signed_user_is_primary u \<and> su_id u = i \<and> (\<exists>s. su_signatures u = [s] \<and> sig_key_flags s = kd_keyflags d
    \<and> sig_preferred_symmetric_algs s = kd_preferred_symmetric_algorithms d
    \<and> sig_preferred_hash_algs s = kd_preferred_hash_algorithms d
    \<and> sig_preferred_compression_algs s = kd_preferred_compression_algorithms d
    \<and> sig_revocation_key s = kd_revocation_key d)"
proof -
  obtain s where s: "su_signatures u = [s]" "hashed_subpackets (config s) = primary_subpackets d now fp" "su_id u = i"
    using certify_user_config [OF assms] by blast
  then show ?thesis
    by (simp add: signed_user_is_primary_def accessor_defs primary_subpackets_def user_subpackets_def
        subpacket_regular_def key_flags_from_def unwrap_or_def split: option.splits)
qed

lemma other_user_facts:
  assumes "certify_user W H key pw (user_subpackets d now fp) i = Ok u"
  shows "\<not> signed_user_is_primary u \<and> su_id u = i"
  using certify_user_config [OF assms]
  by (auto simp: signed_user_is_primary_def sig_is_primary_def user_subpackets_def subpacket_regular_def unwrap_or_def)

lemma key_details_unsign_sign:
  assumes "key_details_sign W H now d key pw = Ok sd"
  shows "key_details_as_unsigned sd = Ok d"
proof -
  from assms obtain fp u us as where
      u: "certify_user W H key pw (primary_subpackets d now fp) (kd_primary_user_id d) = Ok u"
    and us: "list_all2 (\<lambda>i u. certify_user W H key pw (user_subpackets d now fp) i = Ok u) (kd_user_ids d) us"
    and as: "list_all2 (\<lambda>a s. user_attr_sign W H now a key pw = Ok s) (kd_user_attributes d) as"
    and sd: "sd = \<lparr>skd_revocation_signatures = [], skd_direct_signatures = [], skd_users = u # us,
           skd_user_attributes = as\<rparr>"
    by (rule key_details_sign_Ok)
  have "filter (\<lambda>u. \<not> signed_user_is_primary u) us = us" "map su_id us = kd_user_ids d"
    using us by (induction rule: list_all2_induct) (auto dest: other_user_facts)
  moreover have "map sa_attr as = kd_user_attributes d"
    using as by (induction rule: list_all2_induct)
      (auto simp: user_attr_sign_def user_attr_sign_third_party_def signed_attr_new_def)
  ultimately show ?thesis
    using primary_user_facts [OF u] by (auto simp: sd key_details_as_unsigned_def)
qed

lemma public_subkeys_unsign_sign:
  "list_all2 (\<lambda>x s. public_subkey_sign W H I now x key pw = Ok s) xs ps \<Longrightarrow>
     try_map public_subkey_as_unsigned ps = Ok xs"
  by (induction rule: list_all2_induct)
    (auto simp: public_subkey_sign_def public_subkey_as_unsigned_def first_key_flags_def dest!: subkey_bind_flags)

lemma secret_subkeys_unsign_sign:
  "list_all2 (\<lambda>x s. secret_subkey_sign W H I now x key pw = Ok s) xs ss \<Longrightarrow>
     try_map secret_subkey_public_key ss
       = Ok (map (\<lambda>s. \<lparr>ups_key = sk_details (uss_key s), ups_keyflags = uss_keyflags s\<rparr>) xs)"
  by (induction rule: list_all2_induct)
    (auto simp: secret_subkey_sign_def secret_subkey_public_key_def first_key_flags_def dest!: subkey_bind_flags)

section \<open>Verification reads the public part\<close>

text \<open>The traits of a secret key and of its public part agree.\<close>

locale key_impl_laws =
  fixes I :: key_impl
  assumes public_part: "ki_public I (sk_details k) = public_key_trait.truncate (ki_secret I k)"

lemma truncate_sel [simp]:
  "pkt_fingerprint (public_key_trait.truncate K) = pkt_fingerprint K"
  "pkt_key_id (public_key_trait.truncate K) = pkt_key_id K"
  "pkt_verify_signature (public_key_trait.truncate K) = pkt_verify_signature K"
  "pkt_to_writer_old (public_key_trait.truncate K) = pkt_to_writer_old K"
  by (simp_all add: public_key_trait.truncate_def)

lemma match_identity_truncate [simp]: "match_identity sig (public_key_trait.truncate K) = match_identity sig K"
  unfolding match_identity_def truncate_sel by (rule refl)

lemma verify_hashed_truncate [simp]:
  "verify_hashed W H sig (public_key_trait.truncate K) = verify_hashed W H sig K"
  unfolding verify_hashed_def truncate_sel by (rule refl)

lemma verify_truncate [simp]:
  "verify_certification W H sig (public_key_trait.truncate K) t ident = verify_certification W H sig K t ident"
  "verify_key W H sig (public_key_trait.truncate K) = verify_key W H sig K"
  "verify_key_binding W H sig (public_key_trait.truncate K) sub = verify_key_binding W H sig K sub"
  "verify_key_binding W H sig key (public_key_trait.truncate S) = verify_key_binding W H sig key S"
  unfolding verify_certification_def verify_third_party_certification_def ensure_identity_def verify_key_def
    verify_key_binding_def verify_key_binding_internal_def verify_hashed_truncate match_identity_truncate truncate_sel
  by (rule refl)+

lemma details_verify_truncate [simp]:
  "signed_key_details_verify W H d (public_key_trait.truncate K) = signed_key_details_verify W H d K"
  unfolding signed_key_details_verify_def signed_user_verify_def signed_attr_verify_def verify_truncate by (rule refl)

lemma subkey_verify_truncate [simp]:
  "subkey_verify W H sub sigs (public_key_trait.truncate K) = subkey_verify W H sub sigs K"
  "subkey_verify W H (public_key_trait.truncate S) sigs key = subkey_verify W H S sigs key"
  unfolding subkey_verify_def verify_truncate by (rule refl)+

context key_impl_laws
begin

lemma public_of_secret_verify:
  assumes "signed_secret_key_ok k" "signed_secret_key_verify W H I k = Ok ()"
  shows "signed_public_key_verify W H I (public_of_secret k) = Ok () \<and> signed_public_key_ok (public_of_secret k)"
proof -
  have s: "public_subkey_of_secret s = \<lparr>psub_key = sk_details (ssub_key s), psub_signatures = ssub_signatures s\<rparr>"
    if "s \<in> set (ssk_secret_subkeys k)" for s
    using assms(1) that by (simp add: public_subkey_of_secret_def signed_public_subkey_new_def
        signed_secret_key_ok_def list_all_iff bindings_ok_def)
  with assms show ?thesis
    by (auto simp: signed_secret_key_verify_def signed_public_key_verify_def public_of_secret_def
        signed_public_key_new_def public_part signed_public_key_ok_def signed_secret_key_ok_def list_all_iff Let_def)
qed

end

section \<open>Concrete runs\<close>

definition sample_impl :: key_impl where
  "sample_impl = \<lparr>ki_public = (\<lambda>_. public_key_trait.truncate sample_signer), ki_secret = (\<lambda>_. sample_signer)\<rparr>"

interpretation sample_impl: key_impl_laws sample_impl
  by unfold_locales (simp add: sample_impl_def)

definition sample_details :: key_details where
  "sample_details = \<lparr>kd_primary_user_id = \<lparr>uid_packet_version = New, uid_id = [0x61]\<rparr>,
     kd_user_ids = [\<lparr>uid_packet_version = New, uid_id = [0x62]\<rparr>], kd_user_attributes = [], kd_keyflags = 3,
     kd_preferred_symmetric_algorithms = [Sym_AES256], kd_preferred_hash_algorithms = [Hash_SHA2_256],
     kd_preferred_compression_algorithms = [], kd_revocation_key = None\<rparr>"

definition sample_unsigned :: unsigned_secret_key where
  "sample_unsigned = \<lparr>usk_primary_key = sample_secret_key, usk_details = sample_details, usk_public_subkeys = [],
     usk_secret_subkeys = [\<lparr>uss_key = sample_secret_key, uss_keyflags = 12\<rparr>]\<rparr>"

lemma sample_writes:
  "\<exists>b. subpackets_to_writer std_wire (primary_subpackets sample_details 5 (replicate 20 7)) = Ok b \<and> length b < 2 ^ 16"
  "\<exists>b. subpackets_to_writer std_wire (user_subpackets sample_details 5 (replicate 20 7)) = Ok b \<and> length b < 2 ^ 16"
  "\<exists>b. subpackets_to_writer std_wire [subpacket_regular (Sp_SignatureCreationTime 5), subpacket_regular (Sp_KeyFlags [12]),
          subpacket_regular (Sp_IssuerFingerprint KV4 (replicate 20 7))] = Ok b \<and> length b < 2 ^ 16"
  by (simp_all add: primary_subpackets_def user_subpackets_def sample_details_def subpacket_regular_def
      std_wire_def be32_def write_packet_length_def write_packet_len_def)

text \<open>A key that can always be used signs whatever it is asked to.\<close>

definition usable :: "('k) secret_key_trait_scheme \<Rightarrow> bytes \<Rightarrow> bool" where
  "usable key pw \<longleftrightarrow> (\<exists>i. pkt_key_id key = Ok i) \<and> (\<exists>b. pkt_to_writer_old key = Ok b)
     \<and> hash_supported (suggested_hash_alg key)
     \<and> (\<forall>d. \<exists>m. skt_create_signature key pw (suggested_hash_alg key) d = Ok m)"

lemma usable_config_build:
  assumes "usable key pw"
  shows "\<exists>i. signature_config_build t key hashed
    = Ok (new_v4 SigV4 t (pkt_algorithm key) (suggested_hash_alg key) hashed [subpacket_regular (Sp_Issuer i)])"
  using assms by (auto simp: usable_def signature_config_build_def)

lemma usable_sign_hashed:
  assumes "usable key pw" "\<exists>b. subpackets_to_writer std_wire (hashed_subpackets c) = Ok b \<and> length b < 2 ^ 16"
    and "cfg_version c = SigV4" "hash_alg c = suggested_hash_alg key"
  shows "\<exists>sig. sign_hashed std_wire std_hash c key pw h = Ok sig"
proof -
  obtain b where "subpackets_to_writer std_wire (hashed_subpackets c) = Ok b" "length b < 2 ^ 16"
    using assms(2) by blast
  then obtain h' where h': "hash_config std_wire c h = Ok h'"
    using assms(3) by (simp add: hash_config_def hash_signature_data_def trailer_def Let_def)
  obtain m where "skt_create_signature key pw (suggested_hash_alg key) (hasher_finish std_hash h') = Ok m"
    using assms(1) by (auto simp: usable_def)
  with h' assms(4) show ?thesis
    by (simp add: sign_hashed_def Let_def hasher_finish_def std_hash_def)
qed

lemma usable_certify:
  assumes "usable key pw" "\<exists>b. subpackets_to_writer std_wire hashed = Ok b \<and> length b < 2 ^ 16"
  shows "\<exists>u. certify_user std_wire std_hash key pw hashed i = Ok u"
proof -
  obtain j where j: "signature_config_build Sig_CertGeneric key hashed = Ok (new_v4 SigV4 Sig_CertGeneric
      (pkt_algorithm key) (suggested_hash_alg key) hashed [subpacket_regular (Sp_Issuer j)])"
    using usable_config_build [OF assms(1)] by blast
  let ?c = "new_v4 SigV4 Sig_CertGeneric (pkt_algorithm key) (suggested_hash_alg key) hashed
    [subpacket_regular (Sp_Issuer j)]"
  have "\<exists>s. sign_hashed std_wire std_hash ?c key pw h = Ok s" for h
    using assms by (intro usable_sign_hashed) (simp_all add: new_v4_def)
  with j assms(1) show ?thesis
    by (auto simp: certify_user_def sign_certification_def sign_certification_third_party_def usable_def
        user_id_to_writer_def config_is_certification_def certification_prefix_def new_v4_def new_hasher_def)
qed

lemma usable_bind:
  assumes "usable key pw" "pkt_fingerprint key = Ok fp" "\<exists>b. pkt_to_writer_old sub = Ok b"
    and "\<exists>b. subpackets_to_writer std_wire [subpacket_regular (Sp_SignatureCreationTime now),
      subpacket_regular (Sp_KeyFlags [f]), subpacket_regular (Sp_IssuerFingerprint KV4 fp)] = Ok b \<and> length b < 2 ^ 16"
  shows "\<exists>s. subkey_bind std_wire std_hash now f sub key pw = Ok s"
proof -
  let ?h = "[subpacket_regular (Sp_SignatureCreationTime now), subpacket_regular (Sp_KeyFlags [f]),
    subpacket_regular (Sp_IssuerFingerprint KV4 fp)]"
  obtain j where j: "signature_config_build Sig_SubkeyBinding key ?h = Ok (new_v4 SigV4 Sig_SubkeyBinding
      (pkt_algorithm key) (suggested_hash_alg key) ?h [subpacket_regular (Sp_Issuer j)])"
    using usable_config_build [OF assms(1)] by blast
  let ?c = "new_v4 SigV4 Sig_SubkeyBinding (pkt_algorithm key) (suggested_hash_alg key) ?h
    [subpacket_regular (Sp_Issuer j)]"
  have "\<exists>s. sign_hashed std_wire std_hash ?c key pw h = Ok s" for h
    using assms by (intro usable_sign_hashed) (simp_all add: new_v4_def)
  with j assms(1-3) show ?thesis
    by (auto simp: subkey_bind_def sign_key_binding_def usable_def new_v4_def new_hasher_def)
qed

lemma sample_usable: "usable sample_signer pw"
  by (simp add: usable_def sample_signer_def suggested_hash_alg_def hash_alg_default_def hash_supported_def)

lemma sample_signs: "\<exists>sk. unsigned_secret_key_sign std_wire std_hash sample_impl 5 sample_unsigned [] = Ok sk"
proof -
  have fp: "pkt_fingerprint sample_signer = Ok (replicate 20 7)" "\<exists>b. pkt_to_writer_old sample_signer = Ok b"
    by (simp_all add: sample_signer_def)
  with usable_certify [OF sample_usable sample_writes(1), of "[]" "kd_primary_user_id sample_details"]
    usable_certify [OF sample_usable sample_writes(2), of "[]" "hd (kd_user_ids sample_details)"]
  have "\<exists>d. key_details_sign std_wire std_hash 5 sample_details sample_signer [] = Ok d"
    by (auto simp: key_details_sign_def sample_details_def)
  with usable_bind [OF sample_usable fp sample_writes(3)] show ?thesis
    by (auto simp: unsigned_secret_key_sign_def sample_impl_def sample_unsigned_def secret_subkey_sign_def)
qed

section \<open>Properties\<close>

text \<open>
  C25. A signed key verifies: when \<open>SecretKey::sign\<close> succeeds for a primary key of version 4 that verifies what
  it signs, with any user ids, attributes, preferences, key flags and public and secret subkeys, \<open>SignedSecretKey::verify\<close> accepts every certification and
  binding it made, and the public key derived from the signed key is accepted as well.
\<close>

theorem signed_key_verifies:
  assumes "key_impl_laws I" and "signing_key (ki_secret I (usk_primary_key k)) pw"
    and "unsigned_secret_key_sign W H I now k pw = Ok sk"
    and "key_version (sk_details (usk_primary_key k)) = KV4"
  shows "signed_secret_key_verify W H I sk = Ok () \<and> signed_secret_key_ok sk
    \<and> signed_public_key_verify W H I (public_of_secret sk) = Ok ()"
  using secret_key_made [OF assms(2,3)] assms(4) key_impl_laws.public_of_secret_verify [OF assms(1)] by blast

theorem signed_key_verifies_witness:
  "\<exists>sk. unsigned_secret_key_sign std_wire std_hash sample_impl 5 sample_unsigned [] = Ok sk
     \<and> signed_secret_key_verify std_wire std_hash sample_impl sk = Ok ()
     \<and> signed_public_key_verify std_wire std_hash sample_impl (public_of_secret sk) = Ok ()"
proof -
  obtain sk where sk: "unsigned_secret_key_sign std_wire std_hash sample_impl 5 sample_unsigned [] = Ok sk"
    using sample_signs by blast
  have "signing_key (ki_secret sample_impl (usk_primary_key sample_unsigned)) []"
    using sample_signer_ok by (simp add: sample_impl_def)
  moreover have "key_version (sk_details (usk_primary_key sample_unsigned)) = KV4"
    by (simp add: sample_unsigned_def sample_secret_key_def sample_key_def)
  ultimately show ?thesis
    using signed_key_verifies [OF sample_impl.key_impl_laws_axioms _ sk] sk by blast
qed

text \<open>
  Unsigning undoes signing: the public key of a secret key that was signed has the user ids,
  attributes, flags, preferences and revocation key it was signed with, and the public parts of
  all its subkeys with their flags, public subkeys first.
\<close>

theorem unsign_signed_key:
  assumes "unsigned_secret_key_sign W H I now k pw = Ok sk"
  shows "signed_secret_key_public_key sk = Ok \<lparr>upk_primary_key = sk_details (usk_primary_key k),
    upk_details = usk_details k,
    upk_public_subkeys = usk_public_subkeys k
      @ map (\<lambda>s. \<lparr>ups_key = sk_details (uss_key s), ups_keyflags = uss_keyflags s\<rparr>) (usk_secret_subkeys k)\<rparr>"
proof -
  let ?K = "ki_secret I (usk_primary_key k)"
  obtain d ps ss where d: "key_details_sign W H now (usk_details k) ?K pw = Ok d"
    and ps: "list_all2 (\<lambda>x s. public_subkey_sign W H I now x ?K pw = Ok s) (usk_public_subkeys k) ps"
    and ss: "list_all2 (\<lambda>x s. secret_subkey_sign W H I now x ?K pw = Ok s) (usk_secret_subkeys k) ss"
    and sk: "sk = \<lparr>ssk_primary_key = usk_primary_key k, ssk_details = d, ssk_public_subkeys = ps, ssk_secret_subkeys = ss\<rparr>"
    using assms by (auto simp: unsigned_secret_key_sign_def Let_def try_map_Ok_iff)
  show ?thesis
    using key_details_unsign_sign [OF d] public_subkeys_unsign_sign [OF ps] secret_subkeys_unsign_sign [OF ss]
    by (simp add: sk signed_secret_key_public_key_def)
qed

theorem unsign_signed_key_witness:
  "\<exists>sk. unsigned_secret_key_sign std_wire std_hash sample_impl 5 sample_unsigned [] = Ok sk
     \<and> signed_secret_key_public_key sk = Ok \<lparr>upk_primary_key = sample_key, upk_details = sample_details,
         upk_public_subkeys = [\<lparr>ups_key = sample_key, ups_keyflags = 12\<rparr>]\<rparr>"
proof -
  obtain sk where sk: "unsigned_secret_key_sign std_wire std_hash sample_impl 5 sample_unsigned [] = Ok sk"
    using sample_signs by blast
  from unsign_signed_key [OF this] sk show ?thesis
    by (simp add: sample_unsigned_def sample_secret_key_def)
qed

end
