(* ===== verification/Pgp_Aes_Kw.thy ===== *)
theory Pgp_Aes_Kw
  imports Pgp_Chunks Pgp_Errors
begin

text \<open>
  AES key wrapping (RFC 3394), \<open>src/src/crypto/aes_kw.rs\<close>. The block cipher is a crate of its own and
  a parameter; what is needed of it is that decryption of a block inverts encryption. Unwrapping
  undoes wrapping for every key of a legal size and all data of whole 64-bit blocks.
\<close>

record aes_lib =
  aes_encrypt_block :: "bytes \<Rightarrow> bytes \<Rightarrow> bytes"
  aes_decrypt_block :: "bytes \<Rightarrow> bytes \<Rightarrow> bytes"

locale aes_laws =
  fixes B :: "('b) aes_lib_scheme"
  assumes encrypt_block_length: "length b = 16 \<Longrightarrow> length (aes_encrypt_block B k b) = 16"
    and decrypt_block_inverse: "length b = 16 \<Longrightarrow> aes_decrypt_block B k (aes_encrypt_block B k b) = b"

section \<open>Model\<close>

definition KW_IV :: bytes where
  "KW_IV = replicate 8 0xA6"

definition xor_bytes :: "bytes \<Rightarrow> bytes \<Rightarrow> bytes" where
  "xor_bytes a t = map2 (XOR) a t"

definition kw_counter :: "nat \<Rightarrow> nat \<Rightarrow> nat \<Rightarrow> bytes" where
  "kw_counter n j i = be64 (of_nat (n * j + (i + 1)))"

text \<open>The bodies of the inner loops, on the register \<open>A\<close> and the blocks \<open>R\<close>.\<close>

fun wrap_step :: "('b) aes_lib_scheme \<Rightarrow> bytes \<Rightarrow> nat \<Rightarrow> nat \<Rightarrow> nat \<Rightarrow> bytes \<times> bytes list \<Rightarrow> bytes \<times> bytes list" where
  "wrap_step B key n j i (a, r) =
     (let b = aes_encrypt_block B key (a @ r ! i) in
      (xor_bytes (take 8 b) (kw_counter n j i), r[i := drop 8 b]))"

fun unwrap_step :: "('b) aes_lib_scheme \<Rightarrow> bytes \<Rightarrow> nat \<Rightarrow> nat \<Rightarrow> nat \<Rightarrow> bytes \<times> bytes list \<Rightarrow> bytes \<times> bytes list" where
  "unwrap_step B key n j i (a, r) =
     (let b = aes_decrypt_block B key (xor_bytes a (kw_counter n j i) @ r ! i) in
      (take 8 b, r[i := drop 8 b]))"

text \<open>The macro-generated functions, the same for the three key sizes.\<close>

definition wrap_blocks :: "('b) aes_lib_scheme \<Rightarrow> bytes \<Rightarrow> bytes \<Rightarrow> bytes" where
  "wrap_blocks B key data =
     (let n = length data div 8;
          (a, r) = fold (\<lambda>j. fold (wrap_step B key n j) [0..<n]) [0..<6] (KW_IV, chunks 8 data)
      in a @ concat r)"

text \<open>\<open>(data.len() / 8) - 1\<close> underflows, and \<open>c[0]\<close> is out of range, when there is no block.\<close>

definition unwrap_blocks :: "('b) aes_lib_scheme \<Rightarrow> bytes \<Rightarrow> bytes \<Rightarrow> bytes res" where
  "unwrap_blocks B key data =
     (case chunks 8 data of
        [] \<Rightarrow> Panic
      | c0 # cs \<Rightarrow>
          let n = length data div 8 - 1;
              (a, r) = fold (\<lambda>j. fold (unwrap_step B key n j) (rev [0..<n])) (rev [0..<6]) (c0, cs)
          in if a = KW_IV then Ok (concat r) else Err (Message ''failed integrity check''))"

definition kw_wrap :: "('b) aes_lib_scheme \<Rightarrow> bytes \<Rightarrow> bytes \<Rightarrow> bytes res" where
  "kw_wrap B key data =
     (if length data mod 8 \<noteq> 0 then Err (Message ''data must be a multiple of 64bit'')
      else if length key * 8 \<in> {128, 192, 256} then Ok (wrap_blocks B key data)
      else Err (Message ''invalid aes key size: {}''))"

definition kw_unwrap :: "('b) aes_lib_scheme \<Rightarrow> bytes \<Rightarrow> bytes \<Rightarrow> bytes res" where
  "kw_unwrap B key data =
     (if length data mod 8 \<noteq> 0 then Err (Message ''data must be a multiple of 64bit'')
      else if length key * 8 \<in> {128, 192, 256} then unwrap_blocks B key data
      else Err (Message ''invalid aes key size: {}''))"

section \<open>Unwrapping undoes wrapping\<close>

lemma length_kw_counter [simp]: "length (kw_counter n j i) = 8"
  by (simp add: kw_counter_def)

lemma length_xor_bytes [simp]: "length (xor_bytes a t) = min (length a) (length t)"
  by (simp add: xor_bytes_def)

lemma xor_bytes_cancel: "length a = length t \<Longrightarrow> xor_bytes (xor_bytes a t) t = a"
  unfolding xor_bytes_def
  by (induction a t rule: list_induct2) (simp_all add: xor.assoc)

lemma length_concat_const: "\<forall>b \<in> set r. length b = n \<Longrightarrow> length (concat r) = n * length r"
  by (induction r) auto

text \<open>The register and the blocks have 8 bytes each.\<close>

definition kw_state :: "nat \<Rightarrow> bytes \<times> bytes list \<Rightarrow> bool" where
  "kw_state n s \<longleftrightarrow> length (fst s) = 8 \<and> length (snd s) = n \<and> (\<forall>b \<in> set (snd s). length b = 8)"

context aes_laws
begin

lemma unwrap_wrap_step:
  assumes "i < n" "kw_state n s"
  shows "kw_state n (wrap_step B key n j i s) \<and> unwrap_step B key n j i (wrap_step B key n j i s) = s"
proof -
  obtain a r where s: "s = (a, r)" by (cases s)
  let ?b = "aes_encrypt_block B key (a @ r ! i)"
  have l: "length a = 8" "length r = n" "\<forall>b \<in> set r. length b = 8" "length (r ! i) = 8"
    using assms s by (auto simp: kw_state_def)
  then have b: "length ?b = 16" "aes_decrypt_block B key ?b = a @ r ! i"
    by (simp_all add: encrypt_block_length decrypt_block_inverse)
  have "xor_bytes (xor_bytes (take 8 ?b) (kw_counter n j i)) (kw_counter n j i) @ drop 8 ?b = ?b"
    using b(1) by (simp add: xor_bytes_cancel)
  then show ?thesis
    using s l b assms(1) set_update_subset_insert [of r i "drop 8 ?b"]
    by (auto simp: kw_state_def Let_def)
qed

lemma unwrap_wrap_round:
  assumes "kw_state n s"
  shows "kw_state n (fold (wrap_step B key n j) [0..<n] s)
    \<and> fold (unwrap_step B key n j) (rev [0..<n]) (fold (wrap_step B key n j) [0..<n] s) = s"
  by (rule fold_rev_inverse [where P = "kw_state n"]) (use assms unwrap_wrap_step in auto)

lemma unwrap_wrap_rounds:
  assumes "kw_state n s"
  shows "kw_state n (fold (\<lambda>j. fold (wrap_step B key n j) [0..<n]) js s)
    \<and> fold (\<lambda>j. fold (unwrap_step B key n j) (rev [0..<n])) (rev js)
        (fold (\<lambda>j. fold (wrap_step B key n j) [0..<n]) js s) = s"
  by (rule fold_rev_inverse [where P = "kw_state n"]) (use assms unwrap_wrap_round in auto)

lemma unwrap_wrap_blocks:
  assumes "length data mod 8 = 0"
  shows "unwrap_blocks B key (wrap_blocks B key data) = Ok data
    \<and> length (wrap_blocks B key data) = length data + 8"
proof -
  let ?n = "length data div 8"
  have "8 dvd length data" using assms by (rule mod_0_imp_dvd)
  from chunks_exact [OF _ this] have s: "kw_state ?n (KW_IV, chunks 8 data)"
    by (simp add: kw_state_def KW_IV_def)
  obtain a r where ar: "fold (\<lambda>j. fold (wrap_step B key ?n j) [0..<?n]) [0..<6] (KW_IV, chunks 8 data) = (a, r)"
    by fastforce
  from unwrap_wrap_rounds [OF s, of key "[0..<6]"] ar
  have st: "kw_state ?n (a, r)" and inv: "fold (\<lambda>j. fold (unwrap_step B key ?n j) (rev [0..<?n])) (rev [0..<6]) (a, r)
      = (KW_IV, chunks 8 data)" by simp_all
  have len: "length a = 8" "length r = ?n" "\<forall>b \<in> set r. length b = 8"
    using st by (simp_all add: kw_state_def)
  have w: "wrap_blocks B key data = concat (a # r)" using ar by (simp add: wrap_blocks_def Let_def)
  have ch: "chunks 8 (concat (a # r)) = a # r" using len by (intro chunks_concat) auto
  have lr: "length (concat r) = 8 * ?n" using length_concat_const [OF len(3)] len(2) by simp
  then have "length (concat (a # r)) div 8 - 1 = ?n" using len(1) by simp
  then have "unwrap_blocks B key (concat (a # r)) = Ok (concat (chunks 8 data))"
    using ch inv by (simp add: unwrap_blocks_def Let_def del: concat.simps upt_rec_numeral)
  then show ?thesis using w lr len(1) assms by auto
qed

lemma kw_unwrap_wrap:
  assumes "kw_wrap B key data = Ok c"
  shows "kw_unwrap B key c = Ok data \<and> length c = length data + 8"
proof -
  have d: "length data mod 8 = 0" "length key * 8 \<in> {128, 192, 256}" "c = wrap_blocks B key data"
    using assms by (auto simp: kw_wrap_def split: if_splits)
  moreover from this have "length c mod 8 = 0" using unwrap_wrap_blocks [of data key] by simp
  ultimately show ?thesis using unwrap_wrap_blocks [of data key] by (simp add: kw_unwrap_def)
qed

end

text \<open>A block cipher for concrete runs: rotate the block.\<close>

definition std_aes :: aes_lib where
  "std_aes = \<lparr>aes_encrypt_block = (\<lambda>k b. drop 1 b @ take 1 b),
     aes_decrypt_block = (\<lambda>k b. drop 15 b @ take 15 b)\<rparr>"

interpretation std_aes: aes_laws std_aes
  by unfold_locales (auto simp: std_aes_def)

text \<open>
  AES key wrapping round-trips: whatever \<open>wrap\<close> returns is 8 bytes longer than the data and is
  unwrapped to the data by \<open>unwrap\<close> under the same key; the six rounds over all blocks are undone
  in the opposite order and the integrity check register returns to its initial value.
\<close>

theorem key_wrap_roundtrip:
  assumes "aes_laws B" and "kw_wrap B key data = Ok c"
  shows "kw_unwrap B key c = Ok data \<and> length c = length data + 8"
  using assms by (rule aes_laws.kw_unwrap_wrap)

theorem key_wrap_roundtrip_witness:
  "\<exists>c. kw_wrap std_aes (replicate 16 1) [1, 2, 3, 4, 5, 6, 7, 8] = Ok c
    \<and> kw_unwrap std_aes (replicate 16 1) c = Ok [1, 2, 3, 4, 5, 6, 7, 8]"
proof -
  have "kw_wrap std_aes (replicate 16 1) [1, 2, 3, 4, 5, 6, 7, 8]
      = Ok (wrap_blocks std_aes (replicate 16 1) [1, 2, 3, 4, 5, 6, 7, 8])"
    by (simp add: kw_wrap_def)
  from key_wrap_roundtrip [OF std_aes.aes_laws_axioms this] this show ?thesis by blast
qed

end
