(* ===== verification/Pgp_Ecdh.thy ===== *)
theory Pgp_Ecdh
  imports Pgp_Aes_Kw Pgp_Public_Key
begin

text \<open>
  ECDH encryption of session keys, \<open>src/src/crypto/ecdh.rs\<close>: the key derivation of RFC 6637, padding,
  key wrapping, and both directions of the exchange. The Diffie-Hellman functions of the curve
  crates are a parameter, with commutativity and the sizes of the encoded points as the laws; the
  ephemeral secret that the random generator yields is an argument.
\<close>

section \<open>Left padding\<close>

text \<open>A value whose leading zeros were stripped, padded to its old length again.\<close>

definition left_pad :: "nat \<Rightarrow> bytes \<Rightarrow> bytes" where
  "left_pad n v = replicate (n - length v) 0 @ v"

lemma left_pad_strip:
  assumes "length v = n"
  shows "left_pad n (mpi_from_raw_slice v) = v \<and> length (mpi_from_raw_slice v) \<le> n"
proof (cases "position (\<lambda>b. b \<noteq> 0) v")
  case None
  with assms show ?thesis by (simp add: left_pad_def mpi_from_raw_slice_def strip_leading_zeros_def)
next
  case (Some k)
  then have k: "k < length v" "\<forall>i < k. v ! i = 0"
    using position_Some [of "\<lambda>b. b \<noteq> 0" v k] by auto
  then have "take k v = replicate k 0"
    by (intro nth_equalityI) auto
  then have "replicate k 0 @ drop k v = v" by (metis append_take_drop_id)
  with Some k(1) assms show ?thesis
    by (simp add: left_pad_def mpi_from_raw_slice_def strip_leading_zeros_def)
qed

section \<open>The curve crates\<close>

record ecdh_lib =
  x25519_public :: "bytes \<Rightarrow> bytes"
  x25519_dh :: "bytes \<Rightarrow> bytes \<Rightarrow> bytes"
  ec_secret_valid :: "ecc_curve \<Rightarrow> bytes \<Rightarrow> bool"
  ec_point_valid :: "ecc_curve \<Rightarrow> bytes \<Rightarrow> bool"
  ec_public :: "ecc_curve \<Rightarrow> bytes \<Rightarrow> bytes"
  ec_dh :: "ecc_curve \<Rightarrow> bytes \<Rightarrow> bytes \<Rightarrow> bytes"

text \<open>The length of an uncompressed point, as the decryption expects it.\<close>

fun point_length :: "ecc_curve \<Rightarrow> nat" where
  "point_length P256 = 65"
| "point_length P384 = 97"
| "point_length P521 = 133"
| "point_length _ = 33"

locale ecdh_laws =
  fixes E :: "('e) ecdh_lib_scheme"
  assumes x25519_public_length: "length a = 32 \<Longrightarrow> length (x25519_public E a) = 32"
    and x25519_commutes: "length a = 32 \<Longrightarrow> length b = 32 \<Longrightarrow>
      x25519_dh E a (x25519_public E b) = x25519_dh E b (x25519_public E a)"
    and ec_secret_length: "ec_secret_valid E c a \<Longrightarrow> c \<in> {P256, P384, P521} \<Longrightarrow> length a = secret_key_length c"
    and ec_public_point: "ec_secret_valid E c a \<Longrightarrow> c \<in> {P256, P384, P521} \<Longrightarrow>
      ec_point_valid E c (ec_public E c a) \<and> length (ec_public E c a) = point_length c
      \<and> hd (ec_public E c a) = 4"
    and ec_commutes: "ec_secret_valid E c a \<Longrightarrow> ec_secret_valid E c b \<Longrightarrow> c \<in> {P256, P384, P521} \<Longrightarrow>
      ec_dh E c a (ec_public E c b) = ec_dh E c b (ec_public E c a)"

section \<open>Key derivation and padding\<close>

definition ANON_SENDER :: bytes where
  "ANON_SENDER = [0x41, 0x6E, 0x6F, 0x6E, 0x79, 0x6D, 0x6F, 0x75, 0x73, 0x20, 0x53, 0x65, 0x6E, 0x64,
     0x65, 0x72, 0x20, 0x20, 0x20, 0x20]"

definition build_ecdh_param :: "bytes \<Rightarrow> sym_alg \<Rightarrow> hash_alg \<Rightarrow> bytes \<Rightarrow> bytes" where
  "build_ecdh_param oid alg_sym hash fp =
     [of_nat (length oid)] @ oid @ [pk_alg_to_u8 Pk_ECDH]
     @ [0x03, 0x01, hash_alg_to_u8 hash, sym_alg_to_u8 alg_sym] @ ANON_SENDER @ fp"

definition kdf :: "hash_lib \<Rightarrow> hash_alg \<Rightarrow> bytes \<Rightarrow> nat \<Rightarrow> bytes \<Rightarrow> bytes res" where
  "kdf H hash x len param = map_ok (take len) (hash_digest H hash ([0, 0, 0, 1] @ x @ param))"

definition PAD_DEFAULT_TARGET :: nat where
  "PAD_DEFAULT_TARGET = 40"

text \<open>\<open>resize\<close> extends here, the padded length is never below that of the input.\<close>

definition ecdh_pad :: "bytes \<Rightarrow> bytes" where
  "ecdh_pad plain =
     (let len = length plain;
          padded_len = (if len < PAD_DEFAULT_TARGET then PAD_DEFAULT_TARGET else len + 8 - len mod 8);
          padding = of_nat (padded_len - len) :: u8
      in plain @ replicate (padded_len - len) padding)"

text \<open>The unpadding block of \<open>derive_session_key\<close>.\<close>

definition ecdh_unpad :: "bytes \<Rightarrow> bytes res" where
  "ecdh_unpad d =
     (let len = length d in
      if len mod 8 \<noteq> 0 then Err (Message ''invalid key length {}'')
      else if d = [] then Err (Message ''empty key is not valid'')
      else let pad = last d in
        if len < unat pad then Err UnpadError
        else let unpadded_len = len - unat pad in
          if \<exists>b \<in> set (drop unpadded_len d). b \<noteq> pad then Err UnpadError
          else if take unpadded_len d = [] then Err (Message ''empty unpadded key is not valid'')
          else Ok (take unpadded_len d))"

text \<open>The slice start \<open>encrypted_key_len - encrypted_session_key.len()\<close> underflows on a long value.\<close>

definition derive_session_key ::
  "('b) aes_lib_scheme \<Rightarrow> hash_lib \<Rightarrow> ('a) curve_lib_scheme \<Rightarrow> bytes \<Rightarrow> bytes \<Rightarrow> nat
     \<Rightarrow> ecc_curve \<times> sym_alg \<times> hash_alg \<Rightarrow> bytes \<Rightarrow> bytes res" where
  "derive_session_key B H L shared_secret esk esk_len key_params fp =
     (case key_params of (curve, alg_sym, hash) \<Rightarrow>
        and_then (curve_oid L curve) (\<lambda>oid.
        and_then (kdf H hash shared_secret (key_size alg_sym) (build_ecdh_param oid alg_sym hash fp)) (\<lambda>z.
        if esk_len < length esk then Panic
        else and_then (kw_unwrap B z (left_pad esk_len esk)) ecdh_unpad)))"

section \<open>Decryption and encryption\<close>

datatype ecdh_secret_key =
    Ecdh_Curve25519 bytes hash_alg sym_alg
  | Ecdh_P256 bytes hash_alg sym_alg
  | Ecdh_P384 bytes hash_alg sym_alg
  | Ecdh_P521 bytes hash_alg sym_alg

fun ecdh_key_params :: "ecdh_secret_key \<Rightarrow> ecc_curve \<times> sym_alg \<times> hash_alg" where
  "ecdh_key_params (Ecdh_Curve25519 _ hash alg_sym) = (Curve25519, alg_sym, hash)"
| "ecdh_key_params (Ecdh_P256 _ hash alg_sym) = (P256, alg_sym, hash)"
| "ecdh_key_params (Ecdh_P384 _ hash alg_sym) = (P384, alg_sym, hash)"
| "ecdh_key_params (Ecdh_P521 _ hash alg_sym) = (P521, alg_sym, hash)"

definition derive_shared_secret_decryption ::
  "('e) ecdh_lib_scheme \<Rightarrow> mpi \<Rightarrow> bytes \<Rightarrow> ecc_curve \<Rightarrow> nat \<Rightarrow> bytes res" where
  "derive_shared_secret_decryption E public_point secret curve pub_bits =
     (if length secret \<noteq> secret_key_length curve then Err (Message ''invalid secret point'')
      else if length public_point \<noteq> pub_bits then Err (Message ''invalid public point'')
      else if \<not> ec_point_valid E curve public_point then Err EllipticCurve
      else if \<not> ec_secret_valid E curve secret then Err EllipticCurve
      else Ok (ec_dh E curve secret public_point))"

text \<open>The secret of Curve25519 is stored big-endian and reversed for the exchange.\<close>

fun ecdh_shared_secret :: "('e) ecdh_lib_scheme \<Rightarrow> ecdh_secret_key \<Rightarrow> mpi \<Rightarrow> bytes res" where
  "ecdh_shared_secret E (Ecdh_Curve25519 secret _ _) public_point =
     (if length secret \<noteq> secret_key_length Curve25519 then Err (Message ''invalid secret point'')
      else if length public_point \<noteq> 33 then Err (Message ''invalid public point'')
      else Ok (x25519_dh E (rev secret) (drop 1 public_point)))"
| "ecdh_shared_secret E (Ecdh_P256 secret _ _) public_point =
     derive_shared_secret_decryption E public_point secret P256 65"
| "ecdh_shared_secret E (Ecdh_P384 secret _ _) public_point =
     derive_shared_secret_decryption E public_point secret P384 97"
| "ecdh_shared_secret E (Ecdh_P521 secret _ _) public_point =
     derive_shared_secret_decryption E public_point secret P521 133"

definition ecdh_decrypt ::
  "('e) ecdh_lib_scheme \<Rightarrow> ('b) aes_lib_scheme \<Rightarrow> hash_lib \<Rightarrow> ('a) curve_lib_scheme \<Rightarrow> ecdh_secret_key
     \<Rightarrow> mpi list \<Rightarrow> bytes \<Rightarrow> bytes res" where
  "ecdh_decrypt E B H L sk mpis fp =
     (case mpis of
        [public_point, len, esk] \<Rightarrow>
          and_then (ecdh_shared_secret E sk public_point) (\<lambda>shared_secret.
            derive_session_key B H L shared_secret esk (case len of [] \<Rightarrow> 0 | l # _ \<Rightarrow> unat l)
              (ecdh_key_params sk) fp)
      | _ \<Rightarrow> Err (Message ''assertion failed: `(left == right)`''))"

definition derive_shared_secret_encryption ::
  "('e) ecdh_lib_scheme \<Rightarrow> ecc_curve \<Rightarrow> bytes \<Rightarrow> bytes \<Rightarrow> (bytes \<times> bytes) res" where
  "derive_shared_secret_encryption E curve eph q =
     (if \<not> ec_point_valid E curve q then Err EllipticCurve
      else Ok (ec_public E curve eph, ec_dh E curve eph q))"

definition MAX_SIZE :: nat where
  "MAX_SIZE = 239"

definition ecdh_exchange :: "('e) ecdh_lib_scheme \<Rightarrow> bytes \<Rightarrow> ecc_curve \<Rightarrow> bytes \<Rightarrow> (bytes \<times> bytes) res" where
  "ecdh_exchange E eph curve q =
     (case curve of
        Curve25519 \<Rightarrow>
          if length q \<noteq> 33 then Err (Message ''invalid public key'')
          else Ok (0x40 # x25519_public E eph, x25519_dh E eph (drop 1 q))
      | P256 \<Rightarrow> derive_shared_secret_encryption E P256 eph q
      | P384 \<Rightarrow> derive_shared_secret_encryption E P384 eph q
      | P521 \<Rightarrow> derive_shared_secret_encryption E P521 eph q
      | _ \<Rightarrow> Err (Unsupported ''curve {:?} for ECDH''))"

definition ecdh_encrypt ::
  "('e) ecdh_lib_scheme \<Rightarrow> ('b) aes_lib_scheme \<Rightarrow> hash_lib \<Rightarrow> ('a) curve_lib_scheme \<Rightarrow> bytes \<Rightarrow> ecc_curve
     \<Rightarrow> sym_alg \<Rightarrow> hash_alg \<Rightarrow> bytes \<Rightarrow> bytes \<Rightarrow> bytes \<Rightarrow> bytes list res" where
  "ecdh_encrypt E B H L eph curve alg_sym hash fp q plain =
     (if MAX_SIZE < length plain then Err (Message ''unable to encrypt larger than {} bytes'')
      else
        and_then (ecdh_exchange E eph curve q) (\<lambda>(encoded_public, shared_secret).
        and_then (curve_oid L curve) (\<lambda>oid.
        and_then (kdf H hash shared_secret (key_size alg_sym) (build_ecdh_param oid alg_sym hash fp)) (\<lambda>z.
        and_then (kw_wrap B z (ecdh_pad plain)) (\<lambda>encrypted_key.
          if length encrypted_key < 256 then
            Ok [encoded_public, [of_nat (length encrypted_key)], encrypted_key]
          else Err TryFromInt)))))"

section \<open>Padding is undone\<close>

lemma ecdh_pad_length: "length (ecdh_pad plain) mod 8 = 0 \<and> length plain < length (ecdh_pad plain)"
proof -
  have "(length plain + 8 - length plain mod 8) mod 8 = 0"
    by (metis add_diff_assoc2 mod_add_self2 mod_less_eq_dividend mod_mult_self1_is_0
        minus_mod_eq_mult_div mult.commute)
  moreover have "length plain mod 8 < 8" by simp
  ultimately show ?thesis by (auto simp: ecdh_pad_def Let_def PAD_DEFAULT_TARGET_def)
qed

lemma ecdh_unpad_pad:
  assumes "plain \<noteq> []"
  shows "ecdh_unpad (ecdh_pad plain) = Ok plain"
proof -
  define n where "n = length (ecdh_pad plain) - length plain"
  have n: "0 < n" "length (ecdh_pad plain) mod 8 = 0"
    using ecdh_pad_length [of plain] by (simp_all add: n_def)
  have "length plain mod 8 < 8" by simp
  then have "n < 256" by (auto simp: n_def ecdh_pad_def Let_def PAD_DEFAULT_TARGET_def)
  then have u: "unat (of_nat n :: u8) = n" by simp
  have p: "ecdh_pad plain = plain @ replicate n (of_nat n)"
    by (simp add: n_def ecdh_pad_def Let_def)
  with n have "last (ecdh_pad plain) = of_nat n" by simp
  with n u p assms show ?thesis by (simp add: ecdh_unpad_def Let_def)
qed

section \<open>The exchange\<close>

text \<open>The public point that belongs to a secret key.\<close>

fun ecdh_key_pair :: "('e) ecdh_lib_scheme \<Rightarrow> ecdh_secret_key \<Rightarrow> bytes \<Rightarrow> bool" where
  "ecdh_key_pair E (Ecdh_Curve25519 s _ _) q \<longleftrightarrow> length s = 32 \<and> q = 0x40 # x25519_public E (rev s)"
| "ecdh_key_pair E (Ecdh_P256 s _ _) q \<longleftrightarrow> ec_secret_valid E P256 s \<and> q = ec_public E P256 s"
| "ecdh_key_pair E (Ecdh_P384 s _ _) q \<longleftrightarrow> ec_secret_valid E P384 s \<and> q = ec_public E P384 s"
| "ecdh_key_pair E (Ecdh_P521 s _ _) q \<longleftrightarrow> ec_secret_valid E P521 s \<and> q = ec_public E P521 s"

text \<open>What the generator of ephemeral secrets yields.\<close>

definition ephemeral_ok :: "('e) ecdh_lib_scheme \<Rightarrow> ecc_curve \<Rightarrow> bytes \<Rightarrow> bool" where
  "ephemeral_ok E c eph \<longleftrightarrow> (if c = Curve25519 then length eph = 32 else ec_secret_valid E c eph)"

locale ecdh_system = ecdh_laws E + aes_laws B
  for E :: "('e) ecdh_lib_scheme" and B :: "('b) aes_lib_scheme"
begin

lemma shared_secret_agrees:
  assumes "ecdh_key_pair E sk q" "ecdh_key_params sk = (curve, alg_sym, hash)" "ephemeral_ok E curve eph"
    and "ecdh_exchange E eph curve q = Ok (pub, z)"
  shows "ecdh_shared_secret E sk pub = Ok z \<and> pub \<noteq> [] \<and> hd pub \<noteq> 0"
proof -
  have *: "derive_shared_secret_decryption E pub s c (point_length c) = Ok z \<and> pub \<noteq> [] \<and> hd pub \<noteq> 0"
    if "c \<in> {P256, P384, P521}" "ec_secret_valid E c s" "ec_secret_valid E c eph"
      "derive_shared_secret_encryption E c eph (ec_public E c s) = Ok (pub, z)" for c s
    using that ec_public_point [of c eph] ec_public_point [of c s] ec_secret_length [of c s]
      ec_commutes [of c s eph]
    by (auto simp: derive_shared_secret_encryption_def derive_shared_secret_decryption_def split: if_splits)
  show ?thesis
  proof (cases sk)
    case (Ecdh_Curve25519 s h a)
    with assms show ?thesis
      using x25519_commutes [of eph "rev s"] x25519_public_length [of eph]
      by (auto simp: ecdh_exchange_def ephemeral_ok_def split: if_splits)
  next
    case (Ecdh_P256 s h a)
    with assms * [of P256 s] show ?thesis by (auto simp: ecdh_exchange_def ephemeral_ok_def)
  next
    case (Ecdh_P384 s h a)
    with assms * [of P384 s] show ?thesis by (auto simp: ecdh_exchange_def ephemeral_ok_def)
  next
    case (Ecdh_P521 s h a)
    with assms * [of P521 s] show ?thesis by (auto simp: ecdh_exchange_def ephemeral_ok_def)
  qed
qed

lemma decrypt_encrypt:
  assumes "ecdh_key_pair E sk q" "ecdh_key_params sk = (curve, alg_sym, hash)" "ephemeral_ok E curve eph"
    and "plain \<noteq> []" "ecdh_encrypt E B H L eph curve alg_sym hash fp q plain = Ok out"
  shows "ecdh_decrypt E B H L sk (map mpi_from_raw_slice out) fp = Ok plain"
proof -
  obtain pub ss oid z ek where e: "ecdh_exchange E eph curve q = Ok (pub, ss)" "curve_oid L curve = Ok oid"
    and k: "kdf H hash ss (key_size alg_sym) (build_ecdh_param oid alg_sym hash fp) = Ok z"
    and w: "kw_wrap B z (ecdh_pad plain) = Ok ek" "length ek < 256"
    and out: "out = [pub, [of_nat (length ek)], ek]"
    using assms(5) by (auto simp: ecdh_encrypt_def split: if_splits)
  from shared_secret_agrees [OF assms(1-3) e(1)]
  have pub: "ecdh_shared_secret E sk pub = Ok ss" "mpi_from_raw_slice pub = pub"
    by (simp_all add: mpi_from_raw_slice_def)
  from kw_unwrap_wrap [OF w(1)] have un: "kw_unwrap B z ek = Ok (ecdh_pad plain)" "length ek \<noteq> 0"
    by simp_all
  have "unat (of_nat (length ek) :: u8) = length ek" using w(2) by simp
  moreover from this have "(of_nat (length ek) :: u8) \<noteq> 0" using un(2) by fastforce
  ultimately show ?thesis
    using pub un(1) e(2) k left_pad_strip [of ek "length ek"] assms(2) ecdh_unpad_pad [OF assms(4)]
    by (simp add: out ecdh_decrypt_def derive_session_key_def mpi_from_raw_slice_def)
qed

end

text \<open>Curves for concrete runs: the exchange of two secrets is their exclusive or.\<close>

definition std_ecdh :: ecdh_lib where
  "std_ecdh = \<lparr>x25519_public = (\<lambda>a. a), x25519_dh = xor_bytes,
     ec_secret_valid = (\<lambda>c a. length a = secret_key_length c), ec_point_valid = (\<lambda>_ _. True),
     ec_public = (\<lambda>c a. 4 # take (point_length c - 1) (a @ replicate 132 0)),
     ec_dh = (\<lambda>c a p. xor_bytes a (take (length a) (tl p)))\<rparr>"

lemma xor_bytes_commute: "xor_bytes a b = xor_bytes b a"
  unfolding xor_bytes_def
  by (induction a b rule: list_induct2') (simp_all add: xor.commute)

interpretation std_ecdh: ecdh_laws std_ecdh
  by unfold_locales (auto simp: std_ecdh_def xor_bytes_commute [of a b for a b])

interpretation std_ecdh_system: ecdh_system std_ecdh std_aes ..

text \<open>
  ECDH encryption is undone by the secret key: for each of the four supported curves, decrypting
  with the key that belongs to the public point what \<open>encrypt\<close> produced, after the values have lost
  their leading zeros as MPIs do, returns the plaintext, whatever the ephemeral secret, the
  fingerprint and the cipher and hash of the key are.
\<close>

theorem ecdh_roundtrip:
  assumes "ecdh_laws E" and "aes_laws B" and "ecdh_key_pair E sk q"
    and "ecdh_key_params sk = (curve, alg_sym, hash)" and "ephemeral_ok E curve eph"
    and "plain \<noteq> []" and "ecdh_encrypt E B H L eph curve alg_sym hash fp q plain = Ok out"
  shows "ecdh_decrypt E B H L sk (map mpi_from_raw_slice out) fp = Ok plain"
  using ecdh_system.decrypt_encrypt [OF ecdh_system.intro [OF assms(1,2)] assms(3-)] .

lemma std_kdf: "\<exists>z. kdf std_hash Hash_SHA2_256 x (key_size Sym_AES128) param = Ok z \<and> length z = 16"
  by (simp add: kdf_def hash_digest_def hash_supported_def std_hash_def)

theorem ecdh_roundtrip_witness:
  "\<exists>out. ecdh_encrypt std_ecdh std_aes std_hash std_curves (replicate 32 3) Curve25519 Sym_AES128
       Hash_SHA2_256 (replicate 20 2) (0x40 # replicate 32 1) [9, 1, 2] = Ok out
     \<and> ecdh_decrypt std_ecdh std_aes std_hash std_curves
         (Ecdh_Curve25519 (replicate 32 1) Hash_SHA2_256 Sym_AES128)
         (map mpi_from_raw_slice out) (replicate 20 2) = Ok [9, 1, 2]"
proof -
  have len: "length (wrap_blocks std_aes key (ecdh_pad [9, 1, 2])) = 48" for key
    using std_aes.unwrap_wrap_blocks [of "ecdh_pad [9, 1, 2]" key]
    by (simp add: ecdh_pad_def Let_def PAD_DEFAULT_TARGET_def)
  obtain oid where oid: "curve_oid std_curves Curve25519 = Ok oid" by (simp add: curve_oid_known)
  obtain z where z: "kdf std_hash Hash_SHA2_256 (x25519_dh std_ecdh (replicate 32 3) (replicate 32 1))
      (key_size Sym_AES128) (build_ecdh_param oid Sym_AES128 Hash_SHA2_256 (replicate 20 2)) = Ok z" "length z = 16"
    using std_kdf by blast
  then have "kw_wrap std_aes z (ecdh_pad [9, 1, 2]) = Ok (wrap_blocks std_aes z (ecdh_pad [9, 1, 2]))"
    using ecdh_pad_length [of "[9, 1, 2]"] by (simp add: kw_wrap_def)
  with oid z(1) len obtain out where o: "ecdh_encrypt std_ecdh std_aes std_hash std_curves (replicate 32 3) Curve25519
      Sym_AES128 Hash_SHA2_256 (replicate 20 2) (0x40 # replicate 32 1) [9, 1, 2] = Ok out"
    by (simp add: ecdh_encrypt_def MAX_SIZE_def ecdh_exchange_def)
  have "ecdh_key_pair std_ecdh (Ecdh_Curve25519 (replicate 32 1) Hash_SHA2_256 Sym_AES128) (0x40 # replicate 32 1)"
    "ecdh_key_params (Ecdh_Curve25519 (replicate 32 1) Hash_SHA2_256 Sym_AES128)
      = (Curve25519, Sym_AES128, Hash_SHA2_256)"
    "ephemeral_ok std_ecdh Curve25519 (replicate 32 3)"
    by (simp_all add: std_ecdh_def ephemeral_ok_def)
  from ecdh_roundtrip [OF std_ecdh.ecdh_laws_axioms std_aes.aes_laws_axioms this _ o] o
  show ?thesis by auto
qed

text \<open>
  A session key packet that announces a wrapped key of length 0 makes decryption panic: the key
  unwrapping takes the first block of empty data. Such a packet is well-formed for the parser.
\<close>

theorem ecdh_empty_key_panics:
  assumes "ecdh_shared_secret E sk pub = Ok ss" and "ecdh_key_params sk = (curve, alg_sym, hash)"
    and "curve_oid L curve = Ok oid"
    and "kdf H hash ss (key_size alg_sym) (build_ecdh_param oid alg_sym hash fp) = Ok z"
    and "length z * 8 \<in> {128, 192, 256}"
  shows "ecdh_decrypt E B H L sk [pub, [0], []] fp = Panic"
  using assms
  by (simp add: ecdh_decrypt_def derive_session_key_def left_pad_def kw_unwrap_def unwrap_blocks_def)

theorem ecdh_empty_key_panics_witness:
  "ecdh_decrypt std_ecdh std_aes std_hash std_curves
     (Ecdh_Curve25519 (replicate 32 1) Hash_SHA2_256 Sym_AES128) [0x40 # replicate 32 5, [0], []]
     (replicate 20 2) = Panic"
proof -
  obtain oid where oid: "curve_oid std_curves Curve25519 = Ok oid" by (simp add: curve_oid_known)
  obtain z where z: "kdf std_hash Hash_SHA2_256 (xor_bytes (replicate 32 1) (replicate 32 5)) (key_size Sym_AES128)
      (build_ecdh_param oid Sym_AES128 Hash_SHA2_256 (replicate 20 2)) = Ok z" "length z * 8 \<in> {128, 192, 256}"
    using std_kdf by auto
  show ?thesis
    by (rule ecdh_empty_key_panics [OF _ _ oid z]) (simp_all add: std_ecdh_def)
qed

end
