(* ===== verification/Pgp_Asymmetric.thy ===== *)
theory Pgp_Asymmetric
  imports Pgp_Ecdh Pgp_Signing Pgp_Secret_Key
begin

text \<open>
  The adapters to the asymmetric crates (\<open>rsa.rs\<close>, \<open>dsa.rs\<close>, \<open>ecdsa.rs\<close>, \<open>eddsa.rs\<close> under
  \<open>src/src/crypto/\<close>), the key objects built from plain secret parameters (\<open>as_repr\<close> in
  \<open>src/src/types/params/plain_secret.rs\<close>), and the key traits as the key packets implement them
  (\<open>src/src/packet/public_key_macro.rs\<close>, \<open>secret_key_macro.rs\<close>). The primitives are a parameter;
  numbers are their big-endian bytes. The key packets are shown to be signing keys in the sense
  of the contract that signatures rest on, through the loss of leading zeros in MPIs.
\<close>

section \<open>The primitives\<close>

type_synonym rsa_key = "mpi \<times> mpi \<times> mpi \<times> mpi \<times> mpi"

record asym_lib = ecdh_lib +
  rsa_public_ok :: "bytes \<Rightarrow> bytes \<Rightarrow> bool"
  rsa_private_ok :: "rsa_key \<Rightarrow> bool"
  rsa_size :: "bytes \<Rightarrow> bytes \<Rightarrow> nat"
  rsa_sign_prehash :: "hash_alg \<Rightarrow> rsa_key \<Rightarrow> bytes \<Rightarrow> bytes option"
  rsa_verify_prehash :: "hash_alg \<Rightarrow> bytes \<Rightarrow> bytes \<Rightarrow> bytes \<Rightarrow> bytes \<Rightarrow> bool"
  rsa_pkcs1_encrypt :: "bytes \<Rightarrow> bytes \<Rightarrow> bytes \<Rightarrow> bytes \<Rightarrow> bytes option"
  rsa_pkcs1_decrypt :: "rsa_key \<Rightarrow> bytes \<Rightarrow> bytes option"
  ed_public :: "bytes \<Rightarrow> bytes"
  ed_sign :: "bytes \<Rightarrow> bytes \<Rightarrow> bytes"
  ed_point_ok :: "bytes \<Rightarrow> bool"
  ed_verify :: "bytes \<Rightarrow> bytes \<Rightarrow> bytes \<Rightarrow> bool"
  ecdsa_secret_ok :: "ecc_curve \<Rightarrow> bytes \<Rightarrow> bool"
  ecdsa_public :: "ecc_curve \<Rightarrow> bytes \<Rightarrow> bytes"
  ecdsa_sign_prehash :: "ecc_curve \<Rightarrow> bytes \<Rightarrow> bytes \<Rightarrow> (bytes \<times> bytes) option"
  ecdsa_verify_prehash :: "ecc_curve \<Rightarrow> bytes \<Rightarrow> bytes \<Rightarrow> bytes \<Rightarrow> bool"
  dsa_private_ok :: "mpi \<times> mpi \<times> mpi \<times> mpi \<Rightarrow> mpi \<Rightarrow> bool"
  dsa_sign_prehashed :: "mpi \<times> mpi \<times> mpi \<times> mpi \<Rightarrow> bytes \<Rightarrow> hash_alg \<Rightarrow> bytes \<Rightarrow> (bytes \<times> bytes) option"
  dsa_verify_prehash :: "mpi \<times> mpi \<times> mpi \<times> mpi \<Rightarrow> bytes \<Rightarrow> bytes \<Rightarrow> bytes \<Rightarrow> bool"

section \<open>RSA\<close>

text \<open>The match on the hash: the hashes that have a digest type, and the errors of the others.\<close>

definition rsa_hash :: "hash_alg \<Rightarrow> unit res" where
  "rsa_hash h =
     (if h = Hash_None then Err (Message ''none'')
      else if hash_supported h then Ok ()
      else if h = Hash_Private10 then Err (Unsupported ''Private10 should not be used'')
      else Err (Unsupported ''Hash algorithm {} is unsupported''))"

definition rsa_sign :: "('a) asym_lib_scheme \<Rightarrow> rsa_key \<Rightarrow> hash_alg \<Rightarrow> bytes \<Rightarrow> public_params \<Rightarrow> bytes list res" where
  "rsa_sign A key h digest pp =
     (case pp of
        Pub_RSA _ _ \<Rightarrow> and_then (rsa_hash h) (\<lambda>_.
          case rsa_sign_prehash A h key digest of None \<Rightarrow> Err SignatureError | Some s \<Rightarrow> Ok [s])
      | _ \<Rightarrow> Err (Message ''invalid public params''))"

definition rsa_verify :: "('a) asym_lib_scheme \<Rightarrow> bytes \<Rightarrow> bytes \<Rightarrow> hash_alg \<Rightarrow> bytes \<Rightarrow> bytes \<Rightarrow> unit res" where
  "rsa_verify A n e h hashed sig =
     (if \<not> rsa_public_ok A n e then Err RSAError
      else
        let sig = (if length sig < rsa_size A n e then left_pad (rsa_size A n e) sig else sig) in
        and_then (rsa_hash h) (\<lambda>_.
          if rsa_verify_prehash A h n e hashed sig then Ok () else Err SignatureError))"

definition rsa_encrypt :: "('a) asym_lib_scheme \<Rightarrow> bytes \<Rightarrow> bytes \<Rightarrow> bytes \<Rightarrow> bytes \<Rightarrow> bytes list res" where
  "rsa_encrypt A seed n e plaintext =
     (if \<not> rsa_public_ok A n e then Err RSAError
      else case rsa_pkcs1_encrypt A seed n e plaintext of None \<Rightarrow> Err RSAError | Some c \<Rightarrow> Ok [c])"

definition rsa_decrypt :: "('a) asym_lib_scheme \<Rightarrow> rsa_key \<Rightarrow> mpi list \<Rightarrow> bytes res" where
  "rsa_decrypt A key mpis =
     (case mpis of
        [mpi] \<Rightarrow> (case rsa_pkcs1_decrypt A key mpi of None \<Rightarrow> Err RSAError | Some m \<Rightarrow> Ok m)
      | _ \<Rightarrow> Err (Message ''invalid input''))"

section \<open>EdDSA\<close>

text \<open>\<open>signature.to_bytes()\<close> has 64 bytes by its type; slicing it does not panic.\<close>

definition eddsa_sign :: "('a) asym_lib_scheme \<Rightarrow> bytes \<Rightarrow> bytes \<Rightarrow> public_params \<Rightarrow> bytes list res" where
  "eddsa_sign A secret digest pp =
     (case pp of
        Pub_EdDSA curve q \<Rightarrow>
          if curve \<noteq> Ed25519 then Err (Unsupported ''curve {:?} for EdDSA'')
          else if length q \<noteq> 33 then Err (Message ''invalid Q (len)'')
          else if hd q \<noteq> 0x40 then Err (Message ''invalid Q (prefix)'')
          else let sig = ed_sign A secret digest in Ok [take 32 sig, drop 32 sig]
      | _ \<Rightarrow> Err (Message ''invalid public params''))"

definition eddsa_verify :: "('a) asym_lib_scheme \<Rightarrow> ecc_curve \<Rightarrow> bytes \<Rightarrow> bytes \<Rightarrow> mpi list \<Rightarrow> unit res" where
  "eddsa_verify A curve q hashed sig =
     (if curve \<noteq> Ed25519 then Err (Unsupported ''curve {:?} for EdDSA'')
      else case sig of
        [r, s] \<Rightarrow>
          if \<not> length r < 33 then Err (Message ''invalid R (len)'')
          else if \<not> length s < 33 then Err (Message ''invalid S (len)'')
          else if length q \<noteq> 33 then Err (Message ''invalid Q (len)'')
          else if hd q \<noteq> 0x40 then Err (Message ''invalid Q (prefix)'')
          else if \<not> ed_point_ok A (tl q) then Err SignatureError
          else if ed_verify A (tl q) hashed (left_pad 32 r @ left_pad 32 s) then Ok ()
          else Err SignatureError
      | _ \<Rightarrow> Err (Message ''assertion failed: `(left == right)`''))"

section \<open>ECDSA\<close>

datatype ecdsa_secret_key =
    EcdsaSk_P256 bytes
  | EcdsaSk_P384 bytes
  | EcdsaSk_P521 bytes
  | EcdsaSk_Secp256k1 bytes
  | EcdsaSk_Unsupported mpi ecc_curve

fun ecdsa_sk_length :: "ecdsa_secret_key \<Rightarrow> nat option" where
  "ecdsa_sk_length (EcdsaSk_P256 _) = Some 32"
| "ecdsa_sk_length (EcdsaSk_P384 _) = Some 48"
| "ecdsa_sk_length (EcdsaSk_P521 _) = Some 66"
| "ecdsa_sk_length (EcdsaSk_Secp256k1 _) = Some 32"
| "ecdsa_sk_length (EcdsaSk_Unsupported _ _) = None"

text \<open>The four arms of the match over the curve, and the arm that is not supported.\<close>

fun ecdsa_sk_sign :: "('a) asym_lib_scheme \<Rightarrow> ecdsa_secret_key \<Rightarrow> bytes \<Rightarrow> (bytes \<times> bytes) res" where
  "ecdsa_sk_sign A (EcdsaSk_P256 s) d =
     (case ecdsa_sign_prehash A P256 s d of None \<Rightarrow> Err SignatureError | Some rs \<Rightarrow> Ok rs)"
| "ecdsa_sk_sign A (EcdsaSk_P384 s) d =
     (case ecdsa_sign_prehash A P384 s d of None \<Rightarrow> Err SignatureError | Some rs \<Rightarrow> Ok rs)"
| "ecdsa_sk_sign A (EcdsaSk_P521 s) d =
     (case ecdsa_sign_prehash A P521 s d of None \<Rightarrow> Err SignatureError | Some rs \<Rightarrow> Ok rs)"
| "ecdsa_sk_sign A (EcdsaSk_Secp256k1 s) d =
     (case ecdsa_sign_prehash A Secp256k1 s d of None \<Rightarrow> Err SignatureError | Some rs \<Rightarrow> Ok rs)"
| "ecdsa_sk_sign A (EcdsaSk_Unsupported _ c) d = Err (Unsupported ''curve {:?} for ECDSA'')"

definition ecdsa_sign :: "('a) asym_lib_scheme \<Rightarrow> ecdsa_secret_key \<Rightarrow> bytes \<Rightarrow> public_params \<Rightarrow> bytes list res" where
  "ecdsa_sign A sk digest pp =
     (case pp of
        Pub_ECDSA _ \<Rightarrow>
          (case ecdsa_sk_length sk of
             Some field_size \<Rightarrow>
               if length digest < (if field_size = 66 then 64 else field_size)
               then Err (Message ''Hash digest size ({:?}) must at least match key size ({:?})'')
               else map_ok (\<lambda>(r, s). [r, s]) (ecdsa_sk_sign A sk digest)
           | None \<Rightarrow> map_ok (\<lambda>(r, s). [r, s]) (ecdsa_sk_sign A sk digest))
      | _ \<Rightarrow> Err (Message ''invalid public params''))"

text \<open>One arm of the match over the curve, which differ in \<open>FLEN\<close> and the curve type.\<close>

definition ecdsa_verify_arm ::
  "('a) asym_lib_scheme \<Rightarrow> ecc_curve \<Rightarrow> nat \<Rightarrow> bytes \<Rightarrow> bytes \<Rightarrow> mpi list \<Rightarrow> unit res" where
  "ecdsa_verify_arm A c FLEN key hashed sig =
     (case sig of
        [r, s] \<Rightarrow>
          if \<not> length r \<le> FLEN then Err (Message ''invalid R (len)'')
          else if \<not> length s \<le> FLEN then Err (Message ''invalid S (len)'')
          else if ecdsa_verify_prehash A c key hashed (left_pad FLEN r @ left_pad FLEN s) then Ok ()
          else Err SignatureError
      | _ \<Rightarrow> Err (Message ''assertion failed: `(left == right)`''))"

definition ecdsa_verify :: "('a) asym_lib_scheme \<Rightarrow> ecdsa_public_params \<Rightarrow> bytes \<Rightarrow> mpi list \<Rightarrow> unit res" where
  "ecdsa_verify A p hashed sig =
     (if (case ecdsa_secret_key_length p of Some field_size \<Rightarrow> length hashed < field_size div 2 | None \<Rightarrow> False)
      then Err (Message ''Hash algorithm {:?} cannot be combined with key {:?}'')
      else case p of
        Ecdsa_P256 key _ \<Rightarrow> ecdsa_verify_arm A P256 32 key hashed sig
      | Ecdsa_P384 key _ \<Rightarrow> ecdsa_verify_arm A P384 48 key hashed sig
      | Ecdsa_P521 key _ \<Rightarrow> ecdsa_verify_arm A P521 66 key hashed sig
      | Ecdsa_Secp256k1 key _ \<Rightarrow> ecdsa_verify_arm A Secp256k1 32 key hashed sig
      | Ecdsa_Unsupported _ _ \<Rightarrow> Err (Unsupported ''curve {:?} for ECDSA''))"

section \<open>DSA\<close>

definition dsa_sign :: "('a) asym_lib_scheme \<Rightarrow> bytes \<Rightarrow> hash_alg \<Rightarrow> bytes \<Rightarrow> public_params \<Rightarrow> bytes list res" where
  "dsa_sign A x h digest pp =
     (case pp of
        Pub_DSA p q g y \<Rightarrow>
          if \<not> dsa_private_ok A (p, q, g, y) x then Err SignatureError
          else if \<not> hash_supported h then Err (Unimplemented ''hasher {:?}'')
          else (case dsa_sign_prehashed A (p, q, g, y) x h digest of
                  None \<Rightarrow> Err SignatureError | Some (r, s) \<Rightarrow> Ok [r, s])
      | _ \<Rightarrow> Err (Message ''invalid public params''))"

definition dsa_verify :: "('a) asym_lib_scheme \<Rightarrow> mpi \<Rightarrow> mpi \<Rightarrow> mpi \<Rightarrow> mpi \<Rightarrow> bytes \<Rightarrow> mpi \<Rightarrow> mpi \<Rightarrow> unit res" where
  "dsa_verify A p q g y hashed r s =
     (if dsa_verify_prehash A (p, q, g, y) hashed r s then Ok () else Err SignatureError)"

section \<open>Key objects\<close>

datatype secret_key_repr =
    Repr_RSA rsa_key
  | Repr_DSA mpi
  | Repr_ECDSA ecdsa_secret_key
  | Repr_ECDH ecdh_secret_key
  | Repr_EdDSA bytes bytes

definition ecdh_repr :: "ecc_curve \<Rightarrow> mpi \<Rightarrow> hash_alg \<Rightarrow> sym_alg \<Rightarrow> secret_key_repr res" where
  "ecdh_repr curve d h a =
     (let pad = pad_key (secret_key_length curve) d in
      case curve of
        Curve25519 \<Rightarrow> map_ok (\<lambda>s. Repr_ECDH (Ecdh_Curve25519 s h a)) pad
      | P256 \<Rightarrow> map_ok (\<lambda>s. Repr_ECDH (Ecdh_P256 s h a)) pad
      | P384 \<Rightarrow> map_ok (\<lambda>s. Repr_ECDH (Ecdh_P384 s h a)) pad
      | P521 \<Rightarrow> map_ok (\<lambda>s. Repr_ECDH (Ecdh_P521 s h a)) pad
      | _ \<Rightarrow> Err (Unsupported ''curve {:?} for ECDH''))"

definition ecdsa_repr :: "('a) asym_lib_scheme \<Rightarrow> ecdsa_public_params \<Rightarrow> mpi \<Rightarrow> secret_key_repr res" where
  "ecdsa_repr A params d =
     (let make = (\<lambda>c mk. if ecdsa_secret_ok A c d then Ok (Repr_ECDSA (mk d)) else Err EllipticCurve) in
      case params of
        Ecdsa_P256 _ _ \<Rightarrow> make P256 EcdsaSk_P256
      | Ecdsa_P384 _ _ \<Rightarrow> make P384 EcdsaSk_P384
      | Ecdsa_P521 _ _ \<Rightarrow> make P521 EcdsaSk_P521
      | Ecdsa_Secp256k1 _ _ \<Rightarrow> make Secp256k1 EcdsaSk_Secp256k1
      | Ecdsa_Unsupported _ _ \<Rightarrow> Err (Unsupported ''curve {:?} for ECDSA''))"

text \<open>\<open>as_repr\<close>: parameters of another algorithm than the public ones are \<open>unreachable!\<close>, a panic.\<close>

definition as_repr ::
  "('a) asym_lib_scheme \<Rightarrow> ('l) curve_lib_scheme \<Rightarrow> plain_secret_params \<Rightarrow> public_params \<Rightarrow> secret_key_repr res" where
  "as_repr A L sp pp =
     (case sp of
        Sec_RSA d p q _ \<Rightarrow>
          (case pp of
             Pub_RSA n e \<Rightarrow>
               if rsa_private_ok A (n, e, d, p, q) then Ok (Repr_RSA (n, e, d, p, q)) else Err RSAError
           | _ \<Rightarrow> Panic)
      | Sec_ECDH d \<Rightarrow> (case pp of Pub_ECDH curve _ h a \<Rightarrow> ecdh_repr curve d h a | _ \<Rightarrow> Panic)
      | Sec_EdDSA d \<Rightarrow>
          (case pp of
             Pub_EdDSA curve _ \<Rightarrow>
               if curve = Ed25519 then
                 and_then (curve_oid L curve) (\<lambda>oid.
                   map_ok (\<lambda>s. Repr_EdDSA s oid) (pad_key (secret_key_length Ed25519) d))
               else Err (Unsupported ''curve {:?} for EdDSA'')
           | _ \<Rightarrow> Panic)
      | Sec_DSA x \<Rightarrow> Ok (Repr_DSA x)
      | Sec_Elgamal _ \<Rightarrow> Err (Unimplemented ''Elgamal'')
      | Sec_ECDSA d \<Rightarrow> (case pp of Pub_ECDSA params \<Rightarrow> ecdsa_repr A params d | _ \<Rightarrow> Panic))"

section \<open>Public keys\<close>

definition key_verify_signature ::
  "('a) asym_lib_scheme \<Rightarrow> public_key \<Rightarrow> hash_alg \<Rightarrow> bytes \<Rightarrow> mpi list \<Rightarrow> unit res" where
  "key_verify_signature A k h hashed sig =
     (case key_public_params k of
        Pub_RSA n e \<Rightarrow> (case sig of [s] \<Rightarrow> rsa_verify A n e h hashed s | _ \<Rightarrow> Err (Message ''invalid signature''))
      | Pub_EdDSA curve q \<Rightarrow> eddsa_verify A curve q hashed sig
      | Pub_ECDSA params \<Rightarrow> ecdsa_verify A params hashed sig
      | Pub_ECDH _ _ _ _ \<Rightarrow> Err (Unimplemented ''verify ECDH: {:?} {:?} {:?}'')
      | Pub_Elgamal _ _ _ \<Rightarrow> Err (Unimplemented ''verify Elgamal'')
      | Pub_DSA p q g y \<Rightarrow>
          (case sig of [r, s] \<Rightarrow> dsa_verify A p q g y hashed r s | _ \<Rightarrow> Err (Message ''invalid signature''))
      | Pub_Unknown _ \<Rightarrow> Err (Unimplemented ''verify unknown''))"

text \<open>\<open>encrypt\<close>; the randomness of the two algorithms is the argument \<open>seed\<close>.\<close>

definition key_encrypt ::
  "('a) asym_lib_scheme \<Rightarrow> ('b) aes_lib_scheme \<Rightarrow> hash_lib \<Rightarrow> wire \<Rightarrow> ('l) curve_lib_scheme \<Rightarrow> bytes \<Rightarrow> public_key
     \<Rightarrow> bytes \<Rightarrow> mpi list res" where
  "key_encrypt A B H W L seed k plain =
     map_ok (map mpi_from_raw_slice)
       (case key_public_params k of
          Pub_RSA n e \<Rightarrow> rsa_encrypt A seed n e plain
        | Pub_EdDSA _ _ \<Rightarrow> Err (Message ''EdDSA is only used for signing'')
        | Pub_ECDSA _ \<Rightarrow> Err (Message ''ECDSA is only used for signing'')
        | Pub_ECDH curve p h a \<Rightarrow>
            and_then (fingerprint H W L k) (\<lambda>fp. ecdh_encrypt A B H L seed curve a h fp p plain)
        | Pub_Elgamal _ _ _ \<Rightarrow> Err (Unimplemented ''encryption with Elgamal'')
        | Pub_DSA _ _ _ _ \<Rightarrow> Err (Message ''DSA is only used for signing'')
        | Pub_Unknown _ \<Rightarrow> Err (Message ''Unknown algorithm''))"

definition public_key_as_trait ::
  "('a) asym_lib_scheme \<Rightarrow> ('b) aes_lib_scheme \<Rightarrow> hash_lib \<Rightarrow> wire \<Rightarrow> ('l) curve_lib_scheme \<Rightarrow> bytes \<Rightarrow> public_key
     \<Rightarrow> public_key_trait" where
  "public_key_as_trait A B H W L seed k =
     \<lparr>pkt_fingerprint = fingerprint H W L k, pkt_key_id = key_id H W L k, pkt_algorithm = key_algorithm k,
      pkt_verify_signature = key_verify_signature A k, pkt_encrypt = key_encrypt A B H W L seed k,
      pkt_to_writer_old = key_hash_form W L k\<rparr>"

section \<open>Secret keys\<close>

text \<open>\<open>SecretKeyTrait::unlock\<close>: the plain parameters, as they are or decrypted, and the key object.\<close>

definition key_plain_params ::
  "wire \<Rightarrow> hash_lib \<Rightarrow> (nat \<Rightarrow> nat \<Rightarrow> nat \<Rightarrow> nat \<Rightarrow> bytes \<Rightarrow> bytes \<Rightarrow> bytes option) \<Rightarrow> ('s, 'z) cipher_lib_scheme
     \<Rightarrow> secret_key \<Rightarrow> bytes \<Rightarrow> plain_secret_params res" where
  "key_plain_params W H argon2 C k pw =
     (case sk_secret_params k of
        Plain sp \<Rightarrow> Ok sp
      | Encrypted e \<Rightarrow> unlock W H argon2 C e pw (key_algorithm (sk_details k)))"

definition key_unlock ::
  "('a) asym_lib_scheme \<Rightarrow> ('l) curve_lib_scheme \<Rightarrow> (bytes \<Rightarrow> plain_secret_params res) \<Rightarrow> secret_key \<Rightarrow> bytes
     \<Rightarrow> secret_key_repr res" where
  "key_unlock A L params k pw =
     and_then (params pw) (\<lambda>sp. as_repr A L sp (key_public_params (sk_details k)))"

fun repr_sign ::
  "('a) asym_lib_scheme \<Rightarrow> secret_key_repr \<Rightarrow> hash_alg \<Rightarrow> bytes \<Rightarrow> public_params \<Rightarrow> bytes list res" where
  "repr_sign A (Repr_RSA key) h d pp = rsa_sign A key h d pp"
| "repr_sign A (Repr_ECDSA key) h d pp = ecdsa_sign A key d pp"
| "repr_sign A (Repr_DSA x) h d pp = dsa_sign A x h d pp"
| "repr_sign A (Repr_ECDH _) h d pp = Err (Message ''ECDH can not be used to for signing operations'')"
| "repr_sign A (Repr_EdDSA s _) h d pp = eddsa_sign A s d pp"

definition key_create_signature ::
  "('a) asym_lib_scheme \<Rightarrow> ('l) curve_lib_scheme \<Rightarrow> (bytes \<Rightarrow> plain_secret_params res) \<Rightarrow> secret_key \<Rightarrow> bytes
     \<Rightarrow> hash_alg \<Rightarrow> bytes \<Rightarrow> mpi list res" where
  "key_create_signature A L params k pw h d =
     and_then (key_unlock A L params k pw) (\<lambda>repr.
       map_ok (map mpi_from_raw_slice) (repr_sign A repr h d (key_public_params (sk_details k))))"

text \<open>\<open>SecretKeyRepr::decrypt\<close> with the decryptor of the key object.\<close>

fun repr_decrypt_session ::
  "('a) asym_lib_scheme \<Rightarrow> ('b) aes_lib_scheme \<Rightarrow> hash_lib \<Rightarrow> ('l) curve_lib_scheme \<Rightarrow> secret_key_repr
     \<Rightarrow> bytes \<Rightarrow> mpi list \<Rightarrow> (bytes \<times> sym_alg) res" where
  "repr_decrypt_session A B H L (Repr_RSA key) fp mpis = repr_decrypt False (rsa_decrypt A key) mpis"
| "repr_decrypt_session A B H L (Repr_ECDH key) fp mpis =
     repr_decrypt True (\<lambda>m. ecdh_decrypt A B H L key m fp) mpis"
| "repr_decrypt_session A B H L (Repr_DSA _) fp mpis = Err (Message ''DSA is only used for signing'')"
| "repr_decrypt_session A B H L (Repr_ECDSA _) fp mpis = Err (Message ''ECDSA is only used for signing'')"
| "repr_decrypt_session A B H L (Repr_EdDSA _ _) fp mpis = Err (Unimplemented ''EdDSA'')"

definition key_decrypt_session ::
  "('a) asym_lib_scheme \<Rightarrow> ('b) aes_lib_scheme \<Rightarrow> hash_lib \<Rightarrow> wire \<Rightarrow> ('l) curve_lib_scheme
     \<Rightarrow> (bytes \<Rightarrow> plain_secret_params res) \<Rightarrow> secret_key \<Rightarrow> bytes \<Rightarrow> mpi list \<Rightarrow> plain_session_key res" where
  "key_decrypt_session A B H W L params k pw mpis =
     and_then (key_unlock A L params k pw) (\<lambda>repr.
     and_then (fingerprint H W L (sk_details k)) (\<lambda>fp.
       map_ok (\<lambda>(key, alg). Plain_V4 alg key) (repr_decrypt_session A B H L repr fp mpis)))"

definition secret_key_as_trait ::
  "('a) asym_lib_scheme \<Rightarrow> ('b) aes_lib_scheme \<Rightarrow> hash_lib \<Rightarrow> wire \<Rightarrow> ('l) curve_lib_scheme \<Rightarrow> bytes
     \<Rightarrow> (bytes \<Rightarrow> plain_secret_params res) \<Rightarrow> secret_key \<Rightarrow> secret_key_trait" where
  "secret_key_as_trait A B H W L seed params k =
     public_key_trait.extend (public_key_as_trait A B H W L seed (sk_details k))
       (secret_key_trait.fields (key_create_signature A L params k) (key_public_params (sk_details k)))"

section \<open>Key packets are signing keys\<close>

text \<open>
  DSA keys: the group of order \<open>q\<close> generated by \<open>g\<close> modulo \<open>p\<close>, where \<open>q\<close> is prime, and the public value that
  belongs to a secret one. The code builds a key from the numbers of a packet without checking it.
\<close>

definition be_nat :: "bytes \<Rightarrow> nat" where
  "be_nat b = foldl (\<lambda>n c. 256 * n + unat c) 0 b"

definition dsa_group :: "mpi \<Rightarrow> mpi \<Rightarrow> mpi \<Rightarrow> bool" where
  "dsa_group p q g \<longleftrightarrow> 1 < be_nat p \<and> 1 < be_nat q \<and> (\<forall>k \<in> {1..<be_nat q}. coprime k (be_nat q))
     \<and> be_nat g ^ be_nat q mod be_nat p = 1"

definition dsa_key_pair :: "mpi \<times> mpi \<times> mpi \<times> mpi \<Rightarrow> mpi \<Rightarrow> bool" where
  "dsa_key_pair pub x = (case pub of (p, q, g, y) \<Rightarrow>
     dsa_group p q g \<and> be_nat y = be_nat g ^ be_nat x mod be_nat p)"

text \<open>
  What the crates promise: a signature made with a valid private key verifies under the public key that belongs
  to it, values have their fixed lengths, and RSA decryption inverts encryption, reading the ciphertext as a
  number. A private key of RSA is checked against the public one when it is built; for the others, what belongs
  to a public key is stated in the law.
\<close>

locale asym_laws = ecdh_laws A for A :: "('a) asym_lib_scheme" +
  assumes rsa_private_public: "rsa_private_ok A (n, e, d, p, q) \<Longrightarrow> rsa_public_ok A n e"
    and rsa_sign_verify: "rsa_private_ok A (n, e, d, p, q) \<Longrightarrow> rsa_sign_prehash A h (n, e, d, p, q) m = Some s \<Longrightarrow>
      length s = rsa_size A n e \<and> rsa_verify_prehash A h n e m s"
    and rsa_decrypt_encrypt: "rsa_private_ok A (n, e, d, p, q) \<Longrightarrow> rsa_pkcs1_encrypt A seed n e m = Some ct \<Longrightarrow>
      rsa_pkcs1_decrypt A (n, e, d, p, q) (strip_leading_zeros ct) = Some m"
    and ed_sign_verify: "length sk = 32 \<Longrightarrow> length (ed_sign A sk m) = 64 \<and> ed_point_ok A (ed_public A sk)
      \<and> length (ed_public A sk) = 32 \<and> ed_verify A (ed_public A sk) m (ed_sign A sk m)"
    and ecdsa_sign_verify: "ecdsa_secret_ok A c x \<Longrightarrow> ecdsa_sign_prehash A c x m = Some (r, s) \<Longrightarrow>
      length r = secret_key_length c \<and> length s = secret_key_length c
      \<and> ecdsa_verify_prehash A c (ecdsa_public A c x) m (r @ s)"
    and dsa_sign_verify: "dsa_private_ok A pub x \<Longrightarrow> dsa_key_pair pub x \<Longrightarrow>
      dsa_sign_prehashed A pub x h m = Some (r, s) \<Longrightarrow>
      dsa_verify_prehash A pub m (strip_leading_zeros r) (strip_leading_zeros s)"

text \<open>The secret parameters that belong to public parameters, where the code does not check it.\<close>

fun key_pair_ok :: "('a) asym_lib_scheme \<Rightarrow> public_params \<Rightarrow> plain_secret_params \<Rightarrow> bool" where
  "key_pair_ok A (Pub_EdDSA c q) (Sec_EdDSA d) \<longleftrightarrow> q = 0x40 # ed_public A (left_pad 32 d)"
| "key_pair_ok A (Pub_ECDSA (Ecdsa_P256 key _)) (Sec_ECDSA d) \<longleftrightarrow> key = ecdsa_public A P256 d"
| "key_pair_ok A (Pub_ECDSA (Ecdsa_P384 key _)) (Sec_ECDSA d) \<longleftrightarrow> key = ecdsa_public A P384 d"
| "key_pair_ok A (Pub_ECDSA (Ecdsa_P521 key _)) (Sec_ECDSA d) \<longleftrightarrow> key = ecdsa_public A P521 d"
| "key_pair_ok A (Pub_ECDSA (Ecdsa_Secp256k1 key _)) (Sec_ECDSA d) \<longleftrightarrow> key = ecdsa_public A Secp256k1 d"
| "key_pair_ok A (Pub_ECDH c p h a) (Sec_ECDH d) \<longleftrightarrow>
     (case ecdh_repr c d h a of Ok (Repr_ECDH sk) \<Rightarrow> ecdh_key_pair A sk p | _ \<Rightarrow> True)"
| "key_pair_ok A (Pub_RSA _ _) (Sec_RSA _ _ _ _) \<longleftrightarrow> True"
| "key_pair_ok A (Pub_DSA p q g y) (Sec_DSA x) \<longleftrightarrow> dsa_key_pair (p, q, g, y) x"
| "key_pair_ok A _ _ \<longleftrightarrow> False"

lemma pad_key_left_pad: "pad_key n v = (if length v \<le> n then Ok (left_pad n v) else Err (Message ''invalid secret key size''))"
  by (simp add: pad_key_def left_pad_def)

context asym_laws
begin

lemma rsa_signs:
  assumes "rsa_private_ok A (n, e, d, p, q)" "rsa_sign A (n, e, d, p, q) h m (Pub_RSA n e) = Ok sig"
  shows "\<exists>s. sig = [s] \<and> rsa_verify A n e h m (mpi_from_raw_slice s) = Ok ()"
proof -
  obtain s where s: "rsa_sign_prehash A h (n, e, d, p, q) m = Some s" "sig = [s]" "rsa_hash h = Ok ()"
    using assms(2) by (auto simp: rsa_sign_def split: option.splits)
  from rsa_sign_verify [OF assms(1) s(1)] have v: "length s = rsa_size A n e" "rsa_verify_prehash A h n e m s"
    by simp_all
  let ?t = "mpi_from_raw_slice s"
  from left_pad_strip [OF v(1)] have "left_pad (rsa_size A n e) ?t = s" "length ?t \<le> rsa_size A n e" by simp_all
  then have "(if length ?t < rsa_size A n e then left_pad (rsa_size A n e) ?t else ?t) = s"
    by (auto simp: left_pad_def)
  with s(2,3) v(2) rsa_private_public [OF assms(1)] show ?thesis
    by (simp add: rsa_verify_def Let_def)
qed

lemma eddsa_signs:
  assumes "length sk = 32" "eddsa_sign A sk m (Pub_EdDSA c (0x40 # ed_public A sk)) = Ok sig"
  shows "eddsa_verify A c (0x40 # ed_public A sk) m (map mpi_from_raw_slice sig) = Ok ()"
proof -
  from ed_sign_verify [OF assms(1), of m] have e: "length (ed_sign A sk m) = 64"
    "ed_point_ok A (ed_public A sk)" "length (ed_public A sk) = 32" "ed_verify A (ed_public A sk) m (ed_sign A sk m)"
    by simp_all
  have sig: "c = Ed25519" "sig = [take 32 (ed_sign A sk m), drop 32 (ed_sign A sk m)]"
    using assms(2) by (auto simp: eddsa_sign_def Let_def split: if_splits)
  have "left_pad 32 (mpi_from_raw_slice (take 32 (ed_sign A sk m))) = take 32 (ed_sign A sk m)"
    "length (mpi_from_raw_slice (take 32 (ed_sign A sk m))) \<le> 32"
    "left_pad 32 (mpi_from_raw_slice (drop 32 (ed_sign A sk m))) = drop 32 (ed_sign A sk m)"
    "length (mpi_from_raw_slice (drop 32 (ed_sign A sk m))) \<le> 32"
    using left_pad_strip [of "take 32 (ed_sign A sk m)" 32] left_pad_strip [of "drop 32 (ed_sign A sk m)" 32] e(1)
    by simp_all
  with sig e show ?thesis by (simp add: eddsa_verify_def)
qed

lemma ecdsa_arm_accepts:
  assumes "ecdsa_secret_ok A c x" "ecdsa_sign_prehash A c x m = Some (r, s)"
  shows "ecdsa_verify_arm A c (secret_key_length c) (ecdsa_public A c x) m
    [mpi_from_raw_slice r, mpi_from_raw_slice s] = Ok ()"
  using ecdsa_sign_verify [OF assms] left_pad_strip [of r "secret_key_length c"]
    left_pad_strip [of s "secret_key_length c"]
  by (simp add: ecdsa_verify_arm_def)

lemma ecdsa_signs:
  assumes "ecdsa_repr A params d = Ok (Repr_ECDSA sk)" "key_pair_ok A (Pub_ECDSA params) (Sec_ECDSA d)"
    and "ecdsa_sign A sk m (Pub_ECDSA params) = Ok sig"
  shows "ecdsa_verify A params m (map mpi_from_raw_slice sig) = Ok ()"
  using assms ecdsa_arm_accepts [of P256 d m] ecdsa_arm_accepts [of P384 d m]
    ecdsa_arm_accepts [of P521 d m] ecdsa_arm_accepts [of Secp256k1 d m]
  by (cases params) (auto simp: ecdsa_repr_def Let_def ecdsa_sign_def ecdsa_verify_def
      split: if_splits option.splits)

lemma repr_signs:
  assumes "as_repr A L sp (key_public_params k) = Ok repr" "key_pair_ok A (key_public_params k) sp"
    and "repr_sign A repr h m (key_public_params k) = Ok sig"
  shows "key_verify_signature A k h m (map mpi_from_raw_slice sig) = Ok ()"
proof (cases sp)
  case (Sec_RSA d p q u)
  with assms show ?thesis
    by (auto simp: as_repr_def key_verify_signature_def split: public_params.splits if_splits dest!: rsa_signs)
next
  case (Sec_DSA x)
  with assms dsa_sign_verify show ?thesis
    by (auto simp: as_repr_def key_verify_signature_def dsa_sign_def dsa_verify_def mpi_from_raw_slice_def
        split: public_params.splits if_splits option.splits)
next
  case (Sec_ECDSA d)
  then obtain params where p: "key_public_params k = Pub_ECDSA params" "ecdsa_repr A params d = Ok repr"
    using assms(1) by (auto simp: as_repr_def split: public_params.splits)
  then obtain sk where "repr = Repr_ECDSA sk"
    by (auto simp: ecdsa_repr_def Let_def split: ecdsa_public_params.splits if_splits)
  with p assms Sec_ECDSA ecdsa_signs [of params d sk m sig] show ?thesis
    by (simp add: key_verify_signature_def)
next
  case (Sec_ECDH d)
  then obtain sk where "repr = Repr_ECDH sk"
    using assms(1) by (auto simp: as_repr_def ecdh_repr_def Let_def split: public_params.splits ecc_curve.splits)
  with assms(3) show ?thesis by simp
next
  case (Sec_EdDSA d)
  then obtain q oid where q: "key_public_params k = Pub_EdDSA Ed25519 q" "length d \<le> 32"
      "repr = Repr_EdDSA (left_pad 32 d) oid"
    using assms(1) by (auto simp: as_repr_def pad_key_left_pad split: public_params.splits if_splits)
  then have "length (left_pad 32 d) = 32" by (simp add: left_pad_def)
  with q assms(2,3) Sec_EdDSA eddsa_signs [of "left_pad 32 d" m Ed25519 sig] show ?thesis
    by (simp add: key_verify_signature_def)
qed (use assms in \<open>simp add: as_repr_def\<close>)

lemma key_signs:
  assumes "\<And>sp. params pw = Ok sp \<Longrightarrow> key_pair_ok A (key_public_params (sk_details k)) sp"
  shows "signing_key (secret_key_as_trait A B H W L seed params k) pw"
proof
  fix h d sig
  assume "skt_create_signature (secret_key_as_trait A B H W L seed params k) pw h d = Ok sig"
  then obtain sp repr m where r: "params pw = Ok sp" "as_repr A L sp (key_public_params (sk_details k)) = Ok repr"
    "repr_sign A repr h d (key_public_params (sk_details k)) = Ok m" "sig = map mpi_from_raw_slice m"
    by (auto simp: secret_key_as_trait_def secret_key_trait.defs public_key_trait.defs
        key_create_signature_def key_unlock_def public_key_as_trait_def)
  from repr_signs [OF r(2) assms [OF r(1)] r(3)] r(4)
  show "pkt_verify_signature (secret_key_as_trait A B H W L seed params k) h d sig = Ok ()"
    by (simp add: secret_key_as_trait_def secret_key_trait.defs public_key_trait.defs public_key_as_trait_def)
qed

lemma rsa_decrypts:
  assumes "rsa_private_ok A (n, e, d, p, q)" "rsa_encrypt A seed n e m = Ok out"
  shows "rsa_decrypt A (n, e, d, p, q) (map mpi_from_raw_slice out) = Ok m"
proof -
  obtain ct where "rsa_pkcs1_encrypt A seed n e m = Some ct" "out = [ct]"
    using assms(2) by (auto simp: rsa_encrypt_def split: if_splits option.splits)
  with rsa_decrypt_encrypt [OF assms(1)] show ?thesis
    by (simp add: rsa_decrypt_def mpi_from_raw_slice_def)
qed

end

text \<open>Verification reads only the public part of a key.\<close>

lemma secret_trait_public:
  "pkt_fingerprint (secret_key_as_trait A B H W L seed params k)
    = pkt_fingerprint (public_key_as_trait A B H W L seed (sk_details k))"
  "pkt_key_id (secret_key_as_trait A B H W L seed params k)
    = pkt_key_id (public_key_as_trait A B H W L seed (sk_details k))"
  "pkt_verify_signature (secret_key_as_trait A B H W L seed params k)
    = pkt_verify_signature (public_key_as_trait A B H W L seed (sk_details k))"
  by (simp_all add: secret_key_as_trait_def secret_key_trait.defs public_key_trait.defs public_key_as_trait_def)

lemma verify_public_part:
  "match_identity sig (secret_key_as_trait A B H' W' L seed params k)
    = match_identity sig (public_key_as_trait A B H' W' L seed (sk_details k))"
  "verify W H sig (secret_key_as_trait A B H' W' L seed params k) doc
    = verify W H sig (public_key_as_trait A B H' W' L seed (sk_details k)) doc"
  unfolding verify_def ensure_identity_def match_identity_def verify_hashed_def secret_trait_public
  by (rule refl)+

locale asym_system = asym_laws A + aes_laws B
  for A :: "('a) asym_lib_scheme" and B :: "('b) aes_lib_scheme"

sublocale asym_system \<subseteq> ecdh: ecdh_system A B ..

context asym_system
begin

lemma ecdh_repr_key:
  assumes "ecdh_repr curve d h a = Ok repr"
  shows "\<exists>sk. repr = Repr_ECDH sk \<and> ecdh_key_params sk = (curve, a, h)"
  using assms by (auto simp: ecdh_repr_def Let_def split: ecc_curve.splits)

lemma session_key_decrypts:
  assumes "params pw = Ok sp" "as_repr A L sp (key_public_params (sk_details k)) = Ok repr"
    and "key_pair_ok A (key_public_params (sk_details k)) sp"
    and "\<And>curve q h a. key_public_params (sk_details k) = Pub_ECDH curve q h a \<Longrightarrow> ephemeral_ok A curve seed"
    and "key_encrypt A B H W L seed (sk_details k) (session_key_data key alg) = Ok mpis"
    and "fingerprint H W L (sk_details k) = Ok fp"
    and "canonical_sym_alg alg" "alg \<noteq> Sym_Plaintext" "length key = key_size alg"
  shows "key_decrypt_session A B H W L params k pw mpis = Ok (Plain_V4 alg key)"
proof (cases "key_public_params (sk_details k)")
  case (Pub_RSA n e)
  with assms(3) obtain d p q u where sp: "sp = Sec_RSA d p q u" by (cases sp) auto
  with Pub_RSA assms(2) have r: "rsa_private_ok A (n, e, d, p, q)" "repr = Repr_RSA (n, e, d, p, q)"
    by (auto simp: as_repr_def split: if_splits)
  obtain out where out: "rsa_encrypt A seed n e (session_key_data key alg) = Ok out"
      "mpis = map mpi_from_raw_slice out"
    using Pub_RSA assms(5) by (auto simp: key_encrypt_def)
  from rsa_decrypts [OF r(1) out(1)] assms(7-9) out(2)
  have "repr_decrypt False (rsa_decrypt A (n, e, d, p, q)) mpis = Ok (key, alg)"
    by (intro repr_decrypt_session_key_data) simp_all
  with assms(1,2,6) r(2) show ?thesis by (simp add: key_decrypt_session_def key_unlock_def)
next
  case (Pub_ECDH curve q h a)
  with assms(3) obtain d where sp: "sp = Sec_ECDH d" by (cases sp) auto
  with Pub_ECDH assms(2) have "ecdh_repr curve d h a = Ok repr" by (simp add: as_repr_def)
  moreover from ecdh_repr_key [OF this] obtain sk where sk: "repr = Repr_ECDH sk"
      "ecdh_key_params sk = (curve, a, h)" by blast
  ultimately have kp: "ecdh_key_pair A sk q" using assms(3) sp Pub_ECDH by simp
  obtain out where out: "ecdh_encrypt A B H L seed curve a h fp q (session_key_data key alg) = Ok out"
      "mpis = map mpi_from_raw_slice out"
    using Pub_ECDH assms(5,6) by (auto simp: key_encrypt_def)
  have "session_key_data key alg \<noteq> []" by (simp add: session_key_data_Cons)
  from ecdh.decrypt_encrypt [OF kp sk(2) assms(4) [OF Pub_ECDH] this out(1)] assms(7,8) out(2)
  have "repr_decrypt True (\<lambda>m. ecdh_decrypt A B H L sk m fp) mpis = Ok (key, alg)"
    by (intro repr_decrypt_session_key_data) simp_all
  with assms(1,2,6) sk(1) show ?thesis by (simp add: key_decrypt_session_def key_unlock_def)
qed (use assms(5) in \<open>simp_all add: key_encrypt_def\<close>)

end

section \<open>Concrete primitives\<close>

text \<open>
  Primitives for concrete runs: an RSA signature is the digest in 32 bytes, a ciphertext is the message
  after a byte 2, EdDSA and ECDSA signatures repeat the digest in fixed length.
\<close>

definition fixed :: "nat \<Rightarrow> bytes \<Rightarrow> bytes" where
  "fixed n b = take n (b @ replicate n 0)"

lemma fixed_length [simp]: "length (fixed n b) = n"
  by (simp add: fixed_def)

definition std_asym :: asym_lib where
  "std_asym = ecdh_lib.extend std_ecdh
     (asym_lib.fields (\<lambda>_ _. True) (\<lambda>_. True) (\<lambda>_ _. 32)
       (\<lambda>h key m. Some (fixed 32 m)) (\<lambda>h n e m s. s = fixed 32 m)
       (\<lambda>seed n e m. Some (2 # m)) (\<lambda>key c. Some (tl c))
       (\<lambda>sk. sk) (\<lambda>sk m. fixed 64 m) (\<lambda>_. True) (\<lambda>pk m s. s = fixed 64 m)
       (\<lambda>c x. True) (\<lambda>c x. x) (\<lambda>c x m. Some (fixed (secret_key_length c) m, fixed (secret_key_length c) m))
       (\<lambda>c p m s. s = fixed (secret_key_length c) m @ fixed (secret_key_length c) m)
       (\<lambda>y x. True) (\<lambda>y x h m. Some (m, m)) (\<lambda>y m r s. r = strip_leading_zeros m \<and> s = r))"

lemma std_asym_ecdh:
  "x25519_public std_asym = x25519_public std_ecdh" "x25519_dh std_asym = x25519_dh std_ecdh"
  "ec_secret_valid std_asym = ec_secret_valid std_ecdh" "ec_point_valid std_asym = ec_point_valid std_ecdh"
  "ec_public std_asym = ec_public std_ecdh" "ec_dh std_asym = ec_dh std_ecdh"
  by (simp_all add: std_asym_def ecdh_lib.defs std_ecdh_def)

interpretation std_asym_ecdh: ecdh_laws std_asym
  using std_ecdh.ecdh_laws_axioms unfolding ecdh_laws_def std_asym_ecdh .

lemmas std_asym_fields = std_asym_def ecdh_lib.defs asym_lib.defs

interpretation std_asym: asym_laws std_asym
  by unfold_locales (auto simp: std_asym_fields)

interpretation std_asym_system: asym_system std_asym std_aes ..

definition rsa_secret_key :: secret_key where
  "rsa_secret_key = \<lparr>sk_details = \<lparr>key_packet_version = New, key_version = KV4, key_algorithm = Pk_RSA,
       key_created_at = 1, key_expiration = None, key_public_params = Pub_RSA [0xC5, 1] [3]\<rparr>,
     sk_secret_params = Plain (Sec_RSA [7] [11] [13] [5])\<rparr>"

section \<open>Properties\<close>

text \<open>
  C15. A key packet signs and its public part verifies, from the secret parameters on: for RSA, DSA,
  ECDSA on the four supported curves and EdDSA keys, unlocked with their password, whose secret parameters belong
  to the public ones (for DSA, \<open>y\<close> is \<open>g^x\<close> modulo \<open>p\<close> in a group of prime order \<open>q\<close>), the
  signature that \<open>sign\<close> makes with the secret key packet over binary data, or over the CRLF form of a
  text, is accepted by \<open>verify\<close> with the public key packet, when it names this key as its issuer, although the signature values lose their leading zeros as MPIs and are padded again
  before verification.
\<close>

theorem key_packet_sign_verify:
  assumes "asym_laws A"
    and "\<And>sp. params pw = Ok sp \<Longrightarrow> key_pair_ok A (key_public_params (sk_details k)) sp"
    and "sign W H c (secret_key_as_trait A B H W L seed params k) pw data = Ok sig"
    and "data = (if cfg_typ c = Sig_Text then normalize_lines Crlf doc else doc)"
    and "match_identity sig (public_key_as_trait A B H W L seed (sk_details k)) = Ok True"
  shows "verify W H sig (public_key_as_trait A B H W L seed (sk_details k)) doc = Ok ()"
  using signing_key.verify_sign [OF asym_laws.key_signs [OF assms(1,2)] assms(3,4)] assms(5)
  by (simp add: verify_public_part)

theorem key_packet_sign_verify_witness:
  "\<exists>sig. sign std_wire std_hash (new_v4 SigV4 Sig_Binary Pk_RSA Hash_SHA2_256 [] [])
       (secret_key_as_trait std_asym std_aes std_hash std_wire std_curves []
         (key_plain_params std_wire std_hash (\<lambda>_ _ _ _ _ _. None) std_cipher rsa_secret_key) rsa_secret_key)
       [] [7] = Ok sig
     \<and> verify std_wire std_hash sig
       (public_key_as_trait std_asym std_aes std_hash std_wire std_curves [] (sk_details rsa_secret_key)) [7] = Ok ()"
proof -
  let ?c = "new_v4 SigV4 Sig_Binary Pk_RSA Hash_SHA2_256 [] []"
  let ?P = "key_plain_params std_wire std_hash (\<lambda>_ _ _ _ _ _. None) std_cipher rsa_secret_key"
  let ?K = "secret_key_as_trait std_asym std_aes std_hash std_wire std_curves [] ?P rsa_secret_key"
  have c: "skt_create_signature ?K pw Hash_SHA2_256 d = Ok [mpi_from_raw_slice (fixed 32 d)]" for pw d
    by (simp add: secret_key_as_trait_def secret_key_trait.defs public_key_trait.defs public_key_as_trait_def
        key_create_signature_def key_unlock_def key_plain_params_def rsa_secret_key_def as_repr_def
        rsa_sign_def rsa_hash_def hash_supported_def std_asym_fields)
  have "\<exists>sig. sign std_wire std_hash ?c ?K [] [7] = Ok sig \<and> config sig = ?c"
    using c by (simp add: sign_def hash_data_to_sign_def sample_run)
  then obtain sig where s: "sign std_wire std_hash ?c ?K [] [7] = Ok sig" "config sig = ?c" by blast
  have k: "key_pair_ok std_asym (key_public_params (sk_details rsa_secret_key)) sp" if "?P [] = Ok sp" for sp
    using that by (auto simp: key_plain_params_def rsa_secret_key_def)
  have "match_identity sig (public_key_as_trait std_asym std_aes std_hash std_wire std_curves []
      (sk_details rsa_secret_key)) = Ok True"
    using s(2) by (simp add: match_identity_def config_issuer_def config_issuer_fingerprint_def filter_map_def new_v4_def)
  from key_packet_sign_verify [where doc = "[7]", OF std_asym.asym_laws_axioms k s(1) _ this] s(1) show ?thesis
    by (simp add: new_v4_def)
qed

text \<open>
  C16. A session key encrypted to a key packet is recovered by the secret key packet: for RSA keys and
  ECDH keys on the four supported curves, the session key packet made from the public key's
  \<open>encrypt\<close> is decrypted by the unlocked secret key to the same key and algorithm, through the
  checksum, the padding, the key derivation over the fingerprint, the key wrap and the MPIs.
\<close>

theorem session_key_end_to_end:
  assumes "asym_laws A" and "aes_laws B"
    and "params pw = Ok sp" and "as_repr A L sp (key_public_params (sk_details k)) = Ok repr"
    and "key_pair_ok A (key_public_params (sk_details k)) sp"
    and "\<And>curve q h a. key_public_params (sk_details k) = Pub_ECDH curve q h a \<Longrightarrow> ephemeral_ok A curve seed"
    and "from_session_key (key_encrypt A B H W L seed (sk_details k)) kid pa key alg = Ok p"
    and "fingerprint H W L (sk_details k) = Ok fp"
    and "canonical_sym_alg alg" and "alg \<noteq> Sym_Plaintext" and "length key = key_size alg"
  shows "key_decrypt_session A B H W L params k pw (pkesk_mpis p) = Ok (Plain_V4 alg key)"
proof -
  obtain mpis where m: "key_encrypt A B H W L seed (sk_details k) (session_key_data key alg) = Ok mpis"
      "pkesk_mpis p = mpis"
    using assms(7) by (auto simp: from_session_key_def)
  from asym_system.session_key_decrypts [where params = params and pw = pw, OF asym_system.intro [OF assms(1,2)] assms(3-6) m(1) assms(8-)] m(2)
  show ?thesis by simp
qed

theorem session_key_end_to_end_witness:
  "\<exists>p. from_session_key (key_encrypt std_asym std_aes std_hash std_wire std_curves [] (sk_details rsa_secret_key))
       (replicate 8 1) Pk_RSA (replicate 16 3) Sym_AES128 = Ok p
     \<and> key_decrypt_session std_asym std_aes std_hash std_wire std_curves
       (key_plain_params std_wire std_hash (\<lambda>_ _ _ _ _ _. None) std_cipher rsa_secret_key) rsa_secret_key []
       (pkesk_mpis p) = Ok (Plain_V4 Sym_AES128 (replicate 16 3))"
proof -
  let ?P = "key_plain_params std_wire std_hash (\<lambda>_ _ _ _ _ _. None) std_cipher rsa_secret_key"
  have sp: "?P [] = Ok (Sec_RSA [7] [11] [13] [5])"
    by (simp add: key_plain_params_def rsa_secret_key_def)
  have r: "as_repr std_asym std_curves (Sec_RSA [7] [11] [13] [5]) (key_public_params (sk_details rsa_secret_key))
      = Ok (Repr_RSA ([0xC5, 1], [3], [7], [11], [13]))"
    by (simp add: as_repr_def rsa_secret_key_def std_asym_fields)
  obtain p where p: "from_session_key (key_encrypt std_asym std_aes std_hash std_wire std_curves []
      (sk_details rsa_secret_key)) (replicate 8 1) Pk_RSA (replicate 16 3) Sym_AES128 = Ok p"
    by (simp add: from_session_key_def key_encrypt_def rsa_secret_key_def rsa_encrypt_def std_asym_fields)
  obtain fp where fp: "fingerprint std_hash std_wire std_curves (sk_details rsa_secret_key) = Ok fp"
    by (simp add: fingerprint_def rsa_secret_key_def)
  have k: "key_pair_ok std_asym (key_public_params (sk_details rsa_secret_key)) (Sec_RSA [7] [11] [13] [5])"
    by (simp add: rsa_secret_key_def)
  have e: "ephemeral_ok std_asym curve []" if "key_public_params (sk_details rsa_secret_key) = Pub_ECDH curve q h a"
    for curve q h a using that by (simp add: rsa_secret_key_def)
  from session_key_end_to_end [where params = ?P and pw = "[]", OF std_asym.asym_laws_axioms std_aes.aes_laws_axioms sp r k e p fp] p show ?thesis
    by (simp add: canonical_sym sym_alg_of_u8_def)
qed

end
