(* ===== verification/Pgp_Key_Gen.thy ===== *)
theory Pgp_Key_Gen
  imports Pgp_Key_Build Pgp_Asymmetric
begin

text \<open>
  Key generation: \<open>generate_key\<close> of the algorithms under \<open>src/src/crypto/\<close>, and the parameters, the
  validation and the generation of whole keys in \<open>src/src/composed/key/builder.rs\<close>. Generated
  parameters belong together, and a generated and signed key verifies, protected by a passphrase
  or not. The random generator is a function \<open>rng\<close> that returns bytes of a given length; what the
  crates draw from it is part of the parameter \<open>keygen_lib\<close>.
\<close>

section \<open>The generators\<close>

record keygen_lib = asym_lib +
  kg_rsa :: "(nat \<Rightarrow> bytes) \<Rightarrow> nat \<Rightarrow> rsa_key option"
  kg_mod_inverse :: "mpi \<Rightarrow> mpi \<Rightarrow> mpi option"
  kg_dsa :: "(nat \<Rightarrow> bytes) \<Rightarrow> nat \<times> nat \<Rightarrow> (mpi \<times> mpi \<times> mpi \<times> mpi) \<times> mpi"
  kg_ec_secret :: "ecc_curve \<Rightarrow> (nat \<Rightarrow> bytes) \<Rightarrow> bytes"
  kg_encode_point :: "ecc_curve \<Rightarrow> bytes \<Rightarrow> bytes"
  x25519_clamp :: "bytes \<Rightarrow> bytes"

definition rsa_generate_key ::
  "('g) keygen_lib_scheme \<Rightarrow> (nat \<Rightarrow> bytes) \<Rightarrow> nat \<Rightarrow> (public_params \<times> plain_secret_params) res" where
  "rsa_generate_key G rng bits =
     (case kg_rsa G rng bits of
        None \<Rightarrow> Err RSAError
      | Some (n, e, d, p, q) \<Rightarrow>
          (case kg_mod_inverse G p q of
             None \<Rightarrow> Panic
           | Some u \<Rightarrow> Ok (Pub_RSA n e, Sec_RSA d p q u)))"

text \<open>A key on one of the generic curves; the public point is written uncompressed.\<close>

definition ecdh_keygen ::
  "('g) keygen_lib_scheme \<Rightarrow> (nat \<Rightarrow> bytes) \<Rightarrow> ecc_curve \<Rightarrow> (public_params \<times> plain_secret_params) res" where
  "ecdh_keygen G rng curve =
     (let secret = kg_ec_secret G curve rng in
      and_then (curve_hash_algo curve) (\<lambda>h.
      and_then (curve_sym_algo curve) (\<lambda>a.
        Ok (Pub_ECDH curve (mpi_from_raw_slice (ec_public G curve secret)) h a,
            Sec_ECDH (mpi_from_raw_slice secret)))))"

definition ecdh_generate_key ::
  "('g) keygen_lib_scheme \<Rightarrow> (nat \<Rightarrow> bytes) \<Rightarrow> ecc_curve \<Rightarrow> (public_params \<times> plain_secret_params) res" where
  "ecdh_generate_key G rng curve =
     (case curve of
        Curve25519 \<Rightarrow>
          (let secret = rng (secret_key_length Curve25519); p = 0x40 # x25519_public G secret;
               q = rev (x25519_clamp G secret)
           in and_then (curve_hash_algo Curve25519) (\<lambda>h.
              and_then (curve_sym_algo Curve25519) (\<lambda>a.
              map_ok (\<lambda>d. (Pub_ECDH Curve25519 p h a, Sec_ECDH d)) (mpi_from_raw q))))
      | P256 \<Rightarrow> ecdh_keygen G rng P256
      | P384 \<Rightarrow> ecdh_keygen G rng P384
      | P521 \<Rightarrow> ecdh_keygen G rng P521
      | _ \<Rightarrow> Err (Unsupported ''curve {:?} for ECDH''))"

definition ecdsa_generate_key ::
  "('g) keygen_lib_scheme \<Rightarrow> (nat \<Rightarrow> bytes) \<Rightarrow> ecc_curve \<Rightarrow> (public_params \<times> plain_secret_params) res" where
  "ecdsa_generate_key G rng curve =
     (let secret = kg_ec_secret G curve rng; public = ecdsa_public G curve secret;
          p = mpi_from_raw_slice (kg_encode_point G curve public); d = mpi_from_raw_slice secret
      in case curve of
        P256 \<Rightarrow> Ok (Pub_ECDSA (Ecdsa_P256 public p), Sec_ECDSA d)
      | P384 \<Rightarrow> Ok (Pub_ECDSA (Ecdsa_P384 public p), Sec_ECDSA d)
      | P521 \<Rightarrow> Ok (Pub_ECDSA (Ecdsa_P521 public p), Sec_ECDSA d)
      | Secp256k1 \<Rightarrow> Ok (Pub_ECDSA (Ecdsa_Secp256k1 public p), Sec_ECDSA d)
      | _ \<Rightarrow> Err (Unsupported ''curve {:?} for ECDSA''))"

definition eddsa_generate_key ::
  "('g) keygen_lib_scheme \<Rightarrow> (nat \<Rightarrow> bytes) \<Rightarrow> public_params \<times> plain_secret_params" where
  "eddsa_generate_key G rng =
     (let secret = rng 32
      in (Pub_EdDSA Ed25519 (0x40 # ed_public G secret), Sec_EdDSA (mpi_from_raw_slice secret)))"

definition dsa_generate_key ::
  "('g) keygen_lib_scheme \<Rightarrow> (nat \<Rightarrow> bytes) \<Rightarrow> nat \<times> nat \<Rightarrow> (public_params \<times> plain_secret_params) res" where
  "dsa_generate_key G rng ksize =
     (case kg_dsa G rng ksize of ((p, q, g, y), x) \<Rightarrow> Ok (Pub_DSA p q g y, Sec_DSA x))"

section \<open>Kinds of keys\<close>

datatype dsa_key_size = B1024 | B2048 | B3072

fun dsa_components_size :: "dsa_key_size \<Rightarrow> nat \<times> nat" where
  "dsa_components_size B1024 = (1024, 160)"
| "dsa_components_size B2048 = (2048, 256)"
| "dsa_components_size B3072 = (3072, 256)"

datatype key_type =
    Kt_Rsa u32
  | Kt_ECDH ecc_curve
  | Kt_EdDSA
  | Kt_ECDSA ecc_curve
  | Kt_Dsa dsa_key_size

fun key_type_to_alg :: "key_type \<Rightarrow> pk_alg" where
  "key_type_to_alg (Kt_Rsa _) = Pk_RSA"
| "key_type_to_alg (Kt_ECDH _) = Pk_ECDH"
| "key_type_to_alg Kt_EdDSA = Pk_EdDSA"
| "key_type_to_alg (Kt_ECDSA _) = Pk_ECDSA"
| "key_type_to_alg (Kt_Dsa _) = Pk_DSA"

fun key_type_keygen ::
  "('g) keygen_lib_scheme \<Rightarrow> (nat \<Rightarrow> bytes) \<Rightarrow> key_type \<Rightarrow> (public_params \<times> plain_secret_params) res" where
  "key_type_keygen G rng (Kt_Rsa bits) = rsa_generate_key G rng (unat bits)"
| "key_type_keygen G rng (Kt_ECDH curve) = ecdh_generate_key G rng curve"
| "key_type_keygen G rng Kt_EdDSA = Ok (eddsa_generate_key G rng)"
| "key_type_keygen G rng (Kt_ECDSA curve) = ecdsa_generate_key G rng curve"
| "key_type_keygen G rng (Kt_Dsa ksize) = dsa_generate_key G rng (dsa_components_size ksize)"

text \<open>What locking a key depends on besides its parameters.\<close>

record ('s, 'z) lock_lib =
  ll_wire :: wire
  ll_hash :: hash_lib
  ll_argon2 :: "nat \<Rightarrow> nat \<Rightarrow> nat \<Rightarrow> nat \<Rightarrow> bytes \<Rightarrow> bytes \<Rightarrow> bytes option"
  ll_cipher :: "('s, 'z) cipher_lib_scheme"

definition key_type_generate ::
  "('s, 'z) lock_lib \<Rightarrow> ('g) keygen_lib_scheme \<Rightarrow> (nat \<Rightarrow> bytes) \<Rightarrow> key_type \<Rightarrow> bytes option \<Rightarrow> s2k_params
     \<Rightarrow> (public_params \<times> secret_params) res" where
  "key_type_generate E G rng kt passphrase s2k =
     and_then (key_type_keygen G rng kt) (\<lambda>(pub_params, plain).
       case passphrase of
         Some pw \<Rightarrow> map_ok (\<lambda>e. (pub_params, Encrypted e))
           (plain_encrypt (ll_wire E) (ll_hash E) (ll_argon2 E) (ll_cipher E) plain pw s2k KV4)
       | None \<Rightarrow> Ok (pub_params, Plain plain))"

section \<open>Whole keys\<close>

record key_params =
  kp_key_type :: key_type
  kp_can_sign :: bool
  kp_can_certify :: bool
  kp_can_encrypt :: bool
  kp_passphrase :: "bytes option"
  kp_s2k :: "s2k_params option"
  kp_created_at :: int
  kp_packet_version :: version
  kp_version :: key_version
  kp_expiration :: "nat option"

record subkey_params = key_params +
  kp_can_authenticate :: bool

record secret_key_params = key_params +
  kp_preferred_symmetric_algorithms :: "sym_alg list"
  kp_preferred_hash_algorithms :: "hash_alg list"
  kp_preferred_compression_algorithms :: "compression_alg list"
  kp_revocation_key :: "Pgp_Signature_Types.revocation_key option"
  kp_primary_user_id :: bytes
  kp_user_ids :: "bytes list"
  kp_user_attributes :: "user_attribute list"
  kp_subkeys :: "subkey_params list"

text \<open>The builder's validation; only fields that were set are looked at.\<close>

definition builder_validate :: "key_type option \<Rightarrow> bool option \<Rightarrow> bool option \<Rightarrow> unit res" where
  "builder_validate key_type can_sign can_encrypt =
     (case key_type of
        Some (Kt_Rsa bits) \<Rightarrow>
          if bits < 2048 then Err (Message ''Keys with less than 2048bits are considered insecure'') else Ok ()
      | Some Kt_EdDSA \<Rightarrow>
          if can_encrypt = Some True then Err (Message ''EdDSA can only be used for signing keys'') else Ok ()
      | Some (Kt_ECDSA curve) \<Rightarrow>
          if can_encrypt = Some True then Err (Message ''ECDSA can only be used for signing keys'')
          else if curve \<in> {P256, P384, P521, Secp256k1} then Ok ()
          else Err (Message ''Curve {} is not supported for ECDSA'')
      | Some (Kt_ECDH _) \<Rightarrow>
          if can_sign = Some True then Err (Message ''ECDH can only be used for encryption keys'') else Ok ()
      | Some (Kt_Dsa _) \<Rightarrow>
          if can_encrypt = Some True then Err (Message ''DSA can only be used for signing keys'') else Ok ()
      | None \<Rightarrow> Ok ())"

text \<open>
  The two setters written out in the source collect values; of the builder's fields, which are all
  optional, the two they change.
\<close>

record params_builder =
  pb_user_ids :: "bytes list option"
  pb_subkeys :: "subkey_params list option"

definition builder_user_id :: "bytes \<Rightarrow> params_builder \<Rightarrow> params_builder" where
  "builder_user_id value b =
     (case pb_user_ids b of
        Some user_ids \<Rightarrow> b\<lparr>pb_user_ids := Some (user_ids @ [value])\<rparr>
      | None \<Rightarrow> b\<lparr>pb_user_ids := Some [value]\<rparr>)"

definition builder_subkey :: "subkey_params \<Rightarrow> params_builder \<Rightarrow> params_builder" where
  "builder_subkey value b =
     (case pb_subkeys b of
        Some subkeys \<Rightarrow> b\<lparr>pb_subkeys := Some (subkeys @ [value])\<rparr>
      | None \<Rightarrow> b\<lparr>pb_subkeys := Some [value]\<rparr>)"

text \<open>The setters of the key flags, which are a bit field.\<close>

definition kf_set :: "nat \<Rightarrow> bool \<Rightarrow> key_flags \<Rightarrow> key_flags" where
  "kf_set n b f = (if b then set_bit n f else unset_bit n f)"

definition params_flags :: "('p) key_params_scheme \<Rightarrow> key_flags" where
  "params_flags p = kf_set 1 (kp_can_sign p) (kf_set 3 (kp_can_encrypt p)
     (kf_set 2 (kp_can_encrypt p) (kf_set 0 (kp_can_certify p) 0)))"

definition params_generate ::
  "('s, 'z) lock_lib \<Rightarrow> ('g) keygen_lib_scheme \<Rightarrow> (nat \<Rightarrow> bytes) \<Rightarrow> ('p) key_params_scheme \<Rightarrow> secret_key res" where
  "params_generate E G rng p =
     and_then (key_type_generate E G rng (kp_key_type p) (kp_passphrase p)
         (case kp_s2k p of Some s \<Rightarrow> s | None \<Rightarrow> s2k_params_new_default rng)) (\<lambda>(pub_params, sec_params).
       Ok \<lparr>sk_details = \<lparr>key_packet_version = kp_packet_version p, key_version = kp_version p,
             key_algorithm = key_type_to_alg (kp_key_type p), key_created_at = kp_created_at p,
             key_expiration = map_option of_nat (kp_expiration p), key_public_params = pub_params\<rparr>,
           sk_secret_params = sec_params\<rparr>)"

text \<open>\<open>generate_with_rng\<close>; the random generators of the primary key and of the subkeys are separate.\<close>

definition generate_with_rng ::
  "('s, 'z) lock_lib \<Rightarrow> ('g) keygen_lib_scheme \<Rightarrow> (nat \<Rightarrow> bytes) \<Rightarrow> (subkey_params \<Rightarrow> nat \<Rightarrow> bytes) \<Rightarrow> secret_key_params
     \<Rightarrow> unsigned_secret_key res" where
  "generate_with_rng E G rng sub_rng p =
     and_then (params_generate E G rng p) (\<lambda>primary.
     and_then (try_map (\<lambda>s. map_ok (\<lambda>k. \<lparr>uss_key = k,
         uss_keyflags = kf_set 5 (kp_can_authenticate s) (params_flags s)\<rparr>)
           (params_generate E G (sub_rng s) s)) (kp_subkeys p)) (\<lambda>subs.
       Ok \<lparr>usk_primary_key = primary,
           usk_details = \<lparr>kd_primary_user_id = \<lparr>uid_packet_version = version_default, uid_id = kp_primary_user_id p\<rparr>,
             kd_user_ids = map (\<lambda>i. \<lparr>uid_packet_version = version_default, uid_id = i\<rparr>) (kp_user_ids p),
             kd_user_attributes = kp_user_attributes p, kd_keyflags = params_flags p,
             kd_preferred_symmetric_algorithms = kp_preferred_symmetric_algorithms p,
             kd_preferred_hash_algorithms = kp_preferred_hash_algorithms p,
             kd_preferred_compression_algorithms = kp_preferred_compression_algorithms p,
             kd_revocation_key = kp_revocation_key p\<rparr>,
           usk_public_subkeys = [], usk_secret_subkeys = subs\<rparr>))"

section \<open>The builder collects\<close>

lemma builder_user_ids:
  "pb_user_ids (fold builder_user_id ids b) =
     (if ids = [] then pb_user_ids b else Some (case_option [] id (pb_user_ids b) @ ids))
   \<and> pb_subkeys (fold builder_user_id ids b) = pb_subkeys b"
  by (induction ids arbitrary: b) (auto simp: builder_user_id_def split: option.splits)

lemma builder_subkeys:
  "pb_subkeys (fold builder_subkey ks b) =
     (if ks = [] then pb_subkeys b else Some (case_option [] id (pb_subkeys b) @ ks))
   \<and> pb_user_ids (fold builder_subkey ks b) = pb_user_ids b"
  by (induction ks arbitrary: b) (auto simp: builder_subkey_def split: option.splits)

section \<open>Generated parameters belong together\<close>

lemma mpi_from_raw_id: "v \<noteq> [] \<Longrightarrow> hd v \<noteq> 0 \<Longrightarrow> mpi_from_raw v = Ok v"
  by (cases v) (simp_all add: mpi_from_raw_def strip_leading_zeros_vec_def)

text \<open>
  What the crates promise: a generated DSA key has its public value, in a group as the standard requires it,
  random secrets of the generic curves are valid, a public key depends on
  the number a secret stands for, and clamping a secret of Curve25519 sets its top bits and does not
  change its public key.
\<close>

locale keygen_laws = asym_laws G for G :: "('g) keygen_lib_scheme" +
  assumes kg_dsa_pair: "kg_dsa G rng sz = (pub, x) \<Longrightarrow> dsa_key_pair pub x"
    and kg_ec_valid: "c \<in> {P256, P384, P521} \<Longrightarrow> ec_secret_valid G c (kg_ec_secret G c rng)"
    and kg_ecdsa_public: "ecdsa_public G c (strip_leading_zeros (kg_ec_secret G c rng))
      = ecdsa_public G c (kg_ec_secret G c rng)"
    and clamp_secret: "length s = 32 \<Longrightarrow> length (x25519_clamp G s) = 32 \<and> last (x25519_clamp G s) \<noteq> 0
      \<and> x25519_public G (x25519_clamp G s) = x25519_public G s"
begin

lemma ecdh_keygen_pair:
  assumes "ecdh_keygen G rng c = Ok (pp, sp)" "c \<in> {P256, P384, P521}"
  shows "key_pair_ok G pp sp"
proof -
  let ?s = "kg_ec_secret G c rng"
  have v: "ec_secret_valid G c ?s" using kg_ec_valid assms(2) by blast
  then have l: "length ?s = secret_key_length c" using ec_secret_length assms(2) by blast
  from ec_public_point [OF v assms(2)] have "hd (ec_public G c ?s) = 4" "ec_public G c ?s \<noteq> []"
    using assms(2) by auto
  then have "mpi_from_raw_slice (ec_public G c ?s) = ec_public G c ?s"
    by (simp add: mpi_from_raw_slice_def)
  with v l left_pad_strip [OF l] assms show ?thesis
    by (auto simp: ecdh_keygen_def Let_def ecdh_repr_def pad_key_left_pad)
qed

lemma keygen_pair:
  assumes "key_type_keygen G rng kt = Ok (pp, sp)" "\<And>n. length (rng n) = n"
  shows "key_pair_ok G pp sp"
proof (cases kt)
  case (Kt_Rsa b)
  with assms(1) show ?thesis by (auto simp: rsa_generate_key_def split: option.splits)
next
  case (Kt_ECDH c)
  show ?thesis
  proof (cases "c = Curve25519")
    case True
    let ?q = "rev (x25519_clamp G (rng 32))"
    have q: "length ?q = 32" "hd ?q \<noteq> 0" "x25519_public G (rev ?q) = x25519_public G (rng 32)"
      using clamp_secret [of "rng 32"] assms(2) by (auto simp: hd_rev)
    then have "?q \<noteq> []" by auto
    with q have "mpi_from_raw ?q = Ok ?q" by (simp add: mpi_from_raw_id)
    with q True Kt_ECDH assms(1) show ?thesis
      by (auto simp: ecdh_generate_key_def Let_def ecdh_repr_def pad_key_def)
  next
    case False
    with Kt_ECDH assms(1) ecdh_keygen_pair show ?thesis
      by (auto simp: ecdh_generate_key_def split: ecc_curve.splits)
  qed
next
  case Kt_EdDSA
  with assms left_pad_strip [of "rng 32" 32] show ?thesis
    by (auto simp: eddsa_generate_key_def Let_def)
next
  case (Kt_ECDSA c)
  with assms(1) kg_ecdsa_public show ?thesis
    by (auto simp: ecdsa_generate_key_def Let_def mpi_from_raw_slice_def split: ecc_curve.splits)
next
  case (Kt_Dsa s)
  with assms(1) show ?thesis by (auto simp: dsa_generate_key_def split: prod.splits dest!: kg_dsa_pair)
qed

end

section \<open>Generated keys sign\<close>

text \<open>The key traits as the key packets implement them.\<close>

definition model_impl ::
  "('s, 'z) lock_lib \<Rightarrow> ('a) asym_lib_scheme \<Rightarrow> ('b) aes_lib_scheme \<Rightarrow> ('l) curve_lib_scheme \<Rightarrow> bytes \<Rightarrow> key_impl" where
  "model_impl E A B L seed =
     \<lparr>ki_public = public_key_as_trait A B (ll_hash E) (ll_wire E) L seed,
      ki_secret = (\<lambda>k. secret_key_as_trait A B (ll_hash E) (ll_wire E) L seed
        (key_plain_params (ll_wire E) (ll_hash E) (ll_argon2 E) (ll_cipher E) k) k)\<rparr>"

interpretation model_impl: key_impl_laws "model_impl E A B L seed" for E A B L seed
  by unfold_locales (simp add: model_impl_def secret_key_as_trait_def secret_key_trait.defs
      public_key_trait.defs public_key_as_trait_def)

text \<open>A lock that can be opened: the laws of the wire formats and the ciphers, and SHA-1 digests of 20 bytes.\<close>

definition lock_laws :: "('s, 'z) lock_lib \<Rightarrow> bool" where
  "lock_laws E \<longleftrightarrow> wire_laws (ll_wire E) \<and> cipher_laws (ll_cipher E)
     \<and> (\<forall>x. length (hash_fun (ll_hash E) Hash_SHA1 x) = 20)"

text \<open>The generated numbers fit the format of an MPI.\<close>

definition keygen_fits :: "('g) keygen_lib_scheme \<Rightarrow> (nat \<Rightarrow> bytes) \<Rightarrow> key_type \<Rightarrow> bool" where
  "keygen_fits G rng kt \<longleftrightarrow>
     (case key_type_keygen G rng kt of Ok (_, sp) \<Rightarrow> plain_ok (key_type_to_alg kt) sp | _ \<Rightarrow> True)"

context keygen_laws
begin

lemma generated_plain_params:
  assumes "lock_laws E" "params_generate E G rng p = Ok k" "kp_passphrase p \<in> {None, Some pw}"
    and "keygen_fits G rng (kp_key_type p)"
  shows "\<exists>pp sp. key_type_keygen G rng (kp_key_type p) = Ok (pp, sp) \<and> key_public_params (sk_details k) = pp
    \<and> key_plain_params (ll_wire E) (ll_hash E) (ll_argon2 E) (ll_cipher E) k pw = Ok sp"
proof -
  let ?open = "\<lambda>k. key_plain_params (ll_wire E) (ll_hash E) (ll_argon2 E) (ll_cipher E) k pw"
  let ?s2k = "case kp_s2k p of Some s \<Rightarrow> s | None \<Rightarrow> s2k_params_new_default rng"
  obtain pp sp where g: "key_type_keygen G rng (kp_key_type p) = Ok (pp, sp)"
    using assms(2) by (auto simp: params_generate_def key_type_generate_def)
  have k: "key_public_params (sk_details k) = pp" "key_algorithm (sk_details k) = key_type_to_alg (kp_key_type p)"
    using assms(2) g by (auto simp: params_generate_def key_type_generate_def split: option.splits)
  have "?open k = Ok sp"
  proof (cases "kp_passphrase p")
    case None
    with assms(2) g have "sk_secret_params k = Plain sp"
      by (auto simp: params_generate_def key_type_generate_def)
    then show ?thesis by (simp add: key_plain_params_def)
  next
    case (Some pw')
    with assms(2,3) g obtain e where e: "sk_secret_params k = Encrypted e"
      "plain_encrypt (ll_wire E) (ll_hash E) (ll_argon2 E) (ll_cipher E) sp pw ?s2k KV4 = Ok e"
      by (auto simp: params_generate_def key_type_generate_def)
    have "plain_ok (key_type_to_alg (kp_key_type p)) sp" using assms(4) g by (simp add: keygen_fits_def)
    from unlock_plain_encrypt [OF _ _ _ this e(2)] assms(1) e(1) k(2) show ?thesis
      by (simp add: key_plain_params_def lock_laws_def)
  qed
  with g k(1) show ?thesis by blast
qed

lemma generated_signs:
  assumes "lock_laws E" "params_generate E G rng p = Ok k" "kp_passphrase p \<in> {None, Some pw}"
    and "keygen_fits G rng (kp_key_type p)"
    and "\<And>n. length (rng n) = n"
  shows "signing_key (ki_secret (model_impl E G B L seed) k) pw"
proof -
  obtain pp sp where g: "key_type_keygen G rng (kp_key_type p) = Ok (pp, sp)" "key_public_params (sk_details k) = pp"
    "key_plain_params (ll_wire E) (ll_hash E) (ll_argon2 E) (ll_cipher E) k pw = Ok sp"
    using generated_plain_params [OF assms(1-4)] by blast
  from keygen_pair [OF g(1) assms(5)] g(2,3) show ?thesis
    by (auto simp: model_impl_def intro!: key_signs)
qed

end

section \<open>Concrete generators\<close>

definition std_clamp :: "bytes \<Rightarrow> bytes" where
  "std_clamp s = take 31 s @ [1]"

definition std_keygen :: keygen_lib where
  "std_keygen = asym_lib.extend (asym_lib.truncate std_asym\<lparr>x25519_public := std_clamp,
       x25519_dh := (\<lambda>a p. xor_bytes (std_clamp a) p)\<rparr>)
     (keygen_lib.fields (\<lambda>_ _. None) (\<lambda>p q. Some p) (\<lambda>_ _. (([7], [3], [2], [4]), [2]))
       (\<lambda>c _. replicate (secret_key_length c) 1) (\<lambda>_ p. p) std_clamp)"

lemma std_clamp [simp]: "std_clamp (std_clamp s) = std_clamp s" if "length s = 32" for s
  using that by (simp add: std_clamp_def)

lemma strip_ones [simp]: "strip_leading_zeros (replicate n 1) = replicate n 1"
  by (cases n) simp_all

lemmas std_keygen_fields = std_keygen_def keygen_lib.defs asym_lib.defs std_asym_fields

text \<open>The DSA key has the generator 2 of order 3 modulo 7.\<close>

lemma small_dsa_pair: "dsa_key_pair ([7], [3], [2], [4]) [2]"
proof -
  have "{1..<3} = {1, 2 :: nat}" by auto
  then show ?thesis by (simp add: dsa_key_pair_def dsa_group_def be_nat_def)
qed

interpretation std_keygen: keygen_laws std_keygen
  by unfold_locales (auto simp: std_keygen_fields std_ecdh_def std_clamp_def small_dsa_pair xor_bytes_commute [of a b for a b])

definition std_lock :: "(u8, unit) lock_lib" where
  "std_lock = \<lparr>ll_wire = std_wire, ll_hash = std_hash, ll_argon2 = (\<lambda>_ _ _ _ _ _. None), ll_cipher = std_cipher\<rparr>"

definition std_params :: secret_key_params where
  "std_params = \<lparr>kp_key_type = Kt_EdDSA, kp_can_sign = True, kp_can_certify = True, kp_can_encrypt = False,
     kp_passphrase = None, kp_s2k = None, kp_created_at = 5, kp_packet_version = New, kp_version = KV4,
     kp_expiration = None, kp_preferred_symmetric_algorithms = [Sym_AES256],
     kp_preferred_hash_algorithms = [Hash_SHA2_256], kp_preferred_compression_algorithms = [],
     kp_revocation_key = None, kp_primary_user_id = [0x61], kp_user_ids = [], kp_user_attributes = [],
     kp_subkeys = []\<rparr>"

definition std_generated :: secret_key where
  "std_generated = \<lparr>sk_details = \<lparr>key_packet_version = New, key_version = KV4, key_algorithm = Pk_EdDSA,
       key_created_at = 5, key_expiration = None, key_public_params = Pub_EdDSA Ed25519 (0x40 # replicate 32 7)\<rparr>,
     sk_secret_params = Plain (Sec_EdDSA (replicate 32 7))\<rparr>"

lemma std_generates: "params_generate std_lock std_keygen (\<lambda>n. replicate n 7) std_params = Ok std_generated"
  by (simp add: params_generate_def key_type_generate_def std_params_def eddsa_generate_key_def Let_def
      mpi_from_raw_slice_def std_keygen_fields std_generated_def)

lemma std_lock_laws: "lock_laws std_lock"
  using std.wire_laws_axioms std_cipher.cipher_laws_axioms
  by (auto simp: lock_laws_def std_lock_def std_hash_def)

abbreviation std_impl :: key_impl where
  "std_impl \<equiv> model_impl std_lock std_keygen std_aes std_curves []"

lemma std_fingerprint: "\<exists>fp. fingerprint std_hash std_wire std_curves (sk_details std_generated) = Ok fp \<and> length fp = 20"
  by (simp add: fingerprint_def std_generated_def write_curve_point_def curve_oid_known std_hash_def Let_def)

lemma std_impl_usable: "usable (ki_secret std_impl std_generated) []"
proof -
  have "\<exists>b. key_hash_form std_wire std_curves (sk_details std_generated) = Ok b"
    by (simp add: key_hash_form_def public_key_to_writer_def key_to_writer_new_def std_generated_def
        write_curve_point_def curve_oid_known)
  moreover have "\<exists>i. key_id std_hash std_wire std_curves (sk_details std_generated) = Ok i"
    using std_fingerprint by (fastforce simp: key_id_def std_generated_def)
  moreover have "key_create_signature std_keygen std_curves
      (key_plain_params std_wire std_hash (\<lambda>_ _ _ _ _ _. None) std_cipher std_generated) std_generated [] h d
      = Ok [mpi_from_raw_slice (take 32 (fixed 64 d)), mpi_from_raw_slice (drop 32 (fixed 64 d))]" for h d
    by (simp add: key_create_signature_def key_unlock_def key_plain_params_def std_generated_def as_repr_def
        curve_oid_known pad_key_left_pad left_pad_def eddsa_sign_def Let_def std_keygen_fields)
  ultimately show ?thesis
    by (simp add: usable_def model_impl_def std_lock_def secret_key_as_trait_def secret_key_trait.defs
        public_key_trait.defs public_key_as_trait_def suggested_hash_alg_def std_generated_def hash_alg_default_def
        hash_supported_def)
qed

definition std_details :: key_details where
  "std_details = \<lparr>kd_primary_user_id = \<lparr>uid_packet_version = version_default, uid_id = [0x61]\<rparr>, kd_user_ids = [],
     kd_user_attributes = [], kd_keyflags = 3, kd_preferred_symmetric_algorithms = [Sym_AES256],
     kd_preferred_hash_algorithms = [Hash_SHA2_256], kd_preferred_compression_algorithms = [],
     kd_revocation_key = None\<rparr>"

lemma std_generates_key:
  "generate_with_rng std_lock std_keygen (\<lambda>n. replicate n 7) (\<lambda>_ n. replicate n 7) std_params
    = Ok \<lparr>usk_primary_key = std_generated, usk_details = std_details, usk_public_subkeys = [], usk_secret_subkeys = []\<rparr>"
proof -
  have "params_flags std_params = 3"
    by (simp add: params_flags_def kf_set_def std_params_def set_bit_eq_or unset_bit_eq_and_not)
  then show ?thesis
    by (simp add: generate_with_rng_def std_generates) (simp add: std_params_def std_details_def)
qed

lemma std_signs:
  "\<exists>sk. unsigned_secret_key_sign std_wire std_hash std_impl 5 \<lparr>usk_primary_key = std_generated,
     usk_details = std_details, usk_public_subkeys = [], usk_secret_subkeys = []\<rparr> [] = Ok sk"
proof -
  let ?K = "ki_secret std_impl std_generated"
  obtain fp where fp: "pkt_fingerprint ?K = Ok fp" "length fp = 20"
    using std_fingerprint by (auto simp: model_impl_def secret_key_as_trait_def secret_key_trait.defs
        public_key_trait.defs public_key_as_trait_def std_lock_def)
  have "\<exists>b. subpackets_to_writer std_wire (primary_subpackets std_details 5 fp) = Ok b \<and> length b < 2 ^ 16"
    using fp(2) by (simp add: primary_subpackets_def user_subpackets_def std_details_def subpacket_regular_def
        std_wire_def be32_def write_packet_length_def write_packet_len_def)
  from usable_certify [OF std_impl_usable this] fp(1) show ?thesis
    by (auto simp: unsigned_secret_key_sign_def key_details_sign_def std_details_def)
qed

section \<open>Properties\<close>

text \<open>
  Generated secret and public parameters belong together: for RSA, DSA, EdDSA, ECDSA on the four
  curves and ECDH on the four curves, what \<open>generate_key\<close> returns is a key pair, so that signatures
  made with the secret part verify under the public part and session keys encrypted to the public
  part are recovered, although the numbers lose their leading zeros as MPIs.
\<close>

theorem keygen_yields_pair:
  assumes "keygen_laws G" and "key_type_keygen G rng kt = Ok (pp, sp)" and "\<And>n. length (rng n) = n"
  shows "key_pair_ok G pp sp"
  using keygen_laws.keygen_pair [OF assms(1,2)] assms(3) by blast

theorem keygen_yields_pair_witness:
  "key_type_keygen std_keygen (\<lambda>n. replicate n 0) Kt_EdDSA
      = Ok (Pub_EdDSA Ed25519 (0x40 # replicate 32 0), Sec_EdDSA (replicate 32 0))
    \<and> key_pair_ok std_keygen (Pub_EdDSA Ed25519 (0x40 # replicate 32 0)) (Sec_EdDSA (replicate 32 0))"
proof -
  have z: "strip_leading_zeros (replicate 32 (0::u8)) = replicate 32 0" 
  proof -
    have "position (\<lambda>b. b \<noteq> 0) (replicate 32 (0::u8)) = None" by (simp add: position_None)
    then show ?thesis unfolding strip_leading_zeros_def by simp
  qed
  have "key_type_keygen std_keygen (\<lambda>n. replicate n 0) Kt_EdDSA
      = Ok (Pub_EdDSA Ed25519 (0x40 # replicate 32 0), Sec_EdDSA (replicate 32 0))"
    by (simp add: eddsa_generate_key_def Let_def mpi_from_raw_slice_def z std_keygen_fields)
  from keygen_yields_pair [OF std_keygen.keygen_laws_axioms this] this show ?thesis by simp
qed

text \<open>
  C5. A generated key verifies after it is signed: for any parameters of the builder with version 4 keys,
  any kind of primary key, user ids, preferences and subkeys, and with or without a passphrase, when the generated
  numbers of the primary key fit their length fields, the key that \<open>generate\<close> makes and \<open>sign\<close> signs is accepted by \<open>verify\<close>, and so is its public key.
\<close>

theorem generated_key_verifies:
  assumes "keygen_laws G" and "lock_laws E" and "\<And>n. length (rng n) = n" and "keygen_fits G rng (kp_key_type p)"
    and "generate_with_rng E G rng sub_rng p = Ok k" and "kp_version p = KV4"
    and "kp_passphrase p \<in> {None, Some pw}"
    and "unsigned_secret_key_sign W H (model_impl E G B L seed) now k pw = Ok sk"
  shows "signed_secret_key_verify W H (model_impl E G B L seed) sk = Ok ()
    \<and> signed_public_key_verify W H (model_impl E G B L seed) (public_of_secret sk) = Ok ()"
proof -
  have g: "params_generate E G rng p = Ok (usk_primary_key k)"
    using assms(5) by (auto simp: generate_with_rng_def)
  have "params_generate E G rng p = Ok k' \<Longrightarrow> key_version (sk_details k') = KV4" for k'
    using assms(6) by (auto simp: params_generate_def)
  with g have "key_version (sk_details (usk_primary_key k)) = KV4" by blast
  moreover have "signing_key (ki_secret (model_impl E G B L seed) (usk_primary_key k)) pw"
    using keygen_laws.generated_signs [OF assms(1,2) g assms(7,4)] assms(3) by blast
  ultimately show ?thesis
    using secret_key_made [OF _ assms(8)] model_impl.public_of_secret_verify by blast
qed

theorem generated_key_verifies_witness:
  "\<exists>k sk. generate_with_rng std_lock std_keygen (\<lambda>n. replicate n 7) (\<lambda>_ n. replicate n 7) std_params = Ok k
    \<and> unsigned_secret_key_sign std_wire std_hash std_impl 5 k [] = Ok sk
    \<and> signed_secret_key_verify std_wire std_hash std_impl sk = Ok ()"
proof -
  obtain sk where sk: "unsigned_secret_key_sign std_wire std_hash std_impl 5 \<lparr>usk_primary_key = std_generated,
      usk_details = std_details, usk_public_subkeys = [], usk_secret_subkeys = []\<rparr> [] = Ok sk"
    using std_signs by blast
  have "replicate 32 (7::u8) = 7 # replicate 31 7" by (subst replicate_Suc [symmetric]) simp
  then have "mpi_ok (replicate 32 7)" by (simp add: mpi_ok_def bit_size_def)
  then have "keygen_fits std_keygen (\<lambda>n. replicate n 7) (kp_key_type std_params)"
    by (simp add: keygen_fits_def std_params_def eddsa_generate_key_def Let_def mpi_from_raw_slice_def)
  moreover have "kp_version std_params = KV4" "kp_passphrase std_params \<in> {None, Some []}"
    by (simp_all add: std_params_def)
  ultimately show ?thesis
    using generated_key_verifies [OF std_keygen.keygen_laws_axioms std_lock_laws _ _ std_generates_key _ _ sk]
      sk std_generates_key by auto
qed

end
