(* ===== verification/Pgp_Message_Ops.thy ===== *)
theory Pgp_Message_Ops
  imports Pgp_Message Pgp_Key_Gen
begin

text \<open>
  What is done with messages (\<open>impl Message\<close> and \<open>Edata::decrypt\<close> of
  \<open>src/src/composed/message/types.rs\<close>): compression, encryption to keys and with a password, signing,
  decryption, verification and access to the content. The libraries are gathered in one record;
  the outer option of an operation that parses is \<open>None\<close> when reading packets does not end, which is
  proved not to happen.
\<close>

section \<open>The libraries\<close>

text \<open>
  Compressors: an encoder is total; a decoder delivers bytes and then ends, or fails on malformed input.
\<close>

record compress_lib =
  deflate_encode :: "bytes \<Rightarrow> bytes"
  deflate_decode :: "bytes \<Rightarrow> bytes \<times> source_end"
  zlib_encode :: "bytes \<Rightarrow> bytes"
  zlib_decode :: "bytes \<Rightarrow> bytes \<times> source_end"

locale compress_laws =
  fixes Z :: compress_lib
  assumes deflate_inverse: "deflate_decode Z (deflate_encode Z b) = (b, Src_Eof)"
    and zlib_inverse: "zlib_decode Z (zlib_encode Z b) = (b, Src_Eof)"

record ('s, 'z, 'a, 'b) msg_lib =
  ml_lock :: "('s, 'z) lock_lib"
  ml_aead :: aead_lib
  ml_curves :: curve_lib
  ml_reader :: reader_lib
  ml_zip :: compress_lib
  ml_asym :: "('a) asym_lib_scheme"
  ml_aes :: "('b) aes_lib_scheme"

abbreviation ml_wire :: "('s, 'z, 'a, 'b) msg_lib \<Rightarrow> wire" where
  "ml_wire E \<equiv> ll_wire (ml_lock E)"

abbreviation ml_hash :: "('s, 'z, 'a, 'b) msg_lib \<Rightarrow> hash_lib" where
  "ml_hash E \<equiv> ll_hash (ml_lock E)"

abbreviation msg_bytes :: "('s, 'z, 'a, 'b) msg_lib \<Rightarrow> message \<Rightarrow> bytes res" where
  "msg_bytes E \<equiv> message_to_writer (ml_wire E) (ml_curves E)"

abbreviation msg_packets :: "('s, 'z, 'a, 'b) msg_lib \<Rightarrow> bytes \<Rightarrow> packet res list option" where
  "msg_packets E \<equiv> filtered_packets (ml_wire E) (ml_curves E) (ml_reader E)"

abbreviation msg_read :: "('s, 'z, 'a, 'b) msg_lib \<Rightarrow> bytes \<Rightarrow> message res option" where
  "msg_read E \<equiv> message_from_bytes (ml_wire E) (ml_curves E) (ml_reader E)"

text \<open>The operator \<open>?\<close> in front of a computation that may not return, and behind one.\<close>

definition try_opt :: "'a res \<Rightarrow> ('a \<Rightarrow> 'b res option) \<Rightarrow> 'b res option" where
  "try_opt r f = (case r of Ok x \<Rightarrow> f x | Err e \<Rightarrow> Some (Err e) | Panic \<Rightarrow> Some Panic)"

definition opt_try :: "'a res option \<Rightarrow> ('a \<Rightarrow> 'b res option) \<Rightarrow> 'b res option" where
  "opt_try r f = (case r of None \<Rightarrow> None | Some x \<Rightarrow> try_opt x f)"

lemma try_opt_simps [simp]:
  "try_opt (Ok x) f = f x" "try_opt (Err e) f = Some (Err e)" "try_opt Panic f = Some Panic"
  "opt_try (Some r) f = try_opt r f"
  by (simp_all add: try_opt_def opt_try_def)

section \<open>Compression\<close>

definition message_compress :: "('s, 'z, 'a, 'b) msg_lib \<Rightarrow> compression_alg \<Rightarrow> message \<Rightarrow> message res" where
  "message_compress E alg m =
     map_ok (\<lambda>data. Msg_Compressed (from_compressed alg data))
       (case alg of
          Comp_Uncompressed \<Rightarrow> msg_bytes E m
        | Comp_ZIP \<Rightarrow> map_ok (deflate_encode (ml_zip E)) (msg_bytes E m)
        | Comp_ZLIB \<Rightarrow> map_ok (zlib_encode (ml_zip E)) (msg_bytes E m)
        | Comp_BZip2 \<Rightarrow> Err (Unimplemented ''BZip2'')
        | _ \<Rightarrow> Err (Unsupported ''CompressionAlgorithm {} is unsupported''))"

text \<open>Reading from a \<open>Decompressor\<close>; the bzip2 variant is \<open>unimplemented!\<close>.\<close>

fun decoder_output :: "compress_lib \<Rightarrow> decompressor \<Rightarrow> bytes \<times> source_end" where
  "decoder_output Z (Dec_Uncompressed b) = (b, Src_Eof)"
| "decoder_output Z (Dec_Zip b) = deflate_decode Z b"
| "decoder_output Z (Dec_Zlib b) = zlib_decode Z b"
| "decoder_output Z Dec_Bzip2 = ([], Src_Panics)"

definition read_compressed :: "('s, 'z, 'a, 'b) msg_lib \<Rightarrow> compressed_data \<Rightarrow> message res option" where
  "read_compressed E p = try_opt (decompress p) (\<lambda>d. case decoder_output (ml_zip E) d of (b, e) \<Rightarrow>
     message_from_bytes (ml_wire E) (ml_curves E) (ml_reader E\<lparr>src_end := e\<rparr>) b)"

definition message_decompress :: "('s, 'z, 'a, 'b) msg_lib \<Rightarrow> message \<Rightarrow> message res option" where
  "message_decompress E m = (case m of Msg_Compressed data \<Rightarrow> read_compressed E data | _ \<Rightarrow> Some (Ok m))"

section \<open>Encryption\<close>

definition encrypt_symmetric ::
  "('s, 'z, 'a, 'b) msg_lib \<Rightarrow> (nat \<Rightarrow> bytes) \<Rightarrow> esk list \<Rightarrow> sym_alg \<Rightarrow> bytes \<Rightarrow> message \<Rightarrow> message res" where
  "encrypt_symmetric E rng es alg session_key m =
     and_then (msg_bytes E m) (\<lambda>data.
     and_then (seipd_encrypt_with_rng (ll_cipher (ml_lock E)) rng alg session_key data) (\<lambda>p.
       Ok (Msg_Encrypted es (Ed_Protected p))))"

text \<open>\<open>PublicKeyEncryptedSessionKey::from_session_key\<close> for a key: its id is read after the encryption.\<close>

definition esk_for_key :: "bytes \<Rightarrow> sym_alg \<Rightarrow> ('k) public_key_trait_scheme \<Rightarrow> esk res" where
  "esk_for_key session_key alg k =
     and_then (from_session_key (pkt_encrypt k) [] (pkt_algorithm k) session_key alg) (\<lambda>p.
       map_ok (\<lambda>i. Esk_Public (p\<lparr>pkesk_id := i\<rparr>)) (pkt_key_id k))"

text \<open>The draws of the random generator: the session key, and what the data packet needs.\<close>

definition encrypt_to_keys ::
  "('s, 'z, 'a, 'b) msg_lib \<Rightarrow> (nat \<Rightarrow> bytes) \<Rightarrow> (nat \<Rightarrow> bytes) \<Rightarrow> sym_alg \<Rightarrow> ('k) public_key_trait_scheme list
     \<Rightarrow> message \<Rightarrow> message res" where
  "encrypt_to_keys E key_rng rng alg pkeys m =
     (let session_key = new_session_key alg key_rng in
      and_then (try_map (esk_for_key session_key alg) pkeys) (\<lambda>es.
        encrypt_symmetric E rng es alg session_key m))"

definition encrypt_with_password ::
  "('s, 'z, 'a, 'b) msg_lib \<Rightarrow> (nat \<Rightarrow> bytes) \<Rightarrow> (nat \<Rightarrow> bytes) \<Rightarrow> string_to_key \<Rightarrow> sym_alg \<Rightarrow> bytes \<Rightarrow> message
     \<Rightarrow> message res" where
  "encrypt_with_password E key_rng rng s2k alg pw m =
     (let session_key = new_session_key alg key_rng in
      and_then (skesk_encrypt (ml_hash E) (ll_argon2 (ml_lock E)) (ll_cipher (ml_lock E)) pw session_key s2k alg) (\<lambda>k.
        encrypt_symmetric E rng [Esk_Sym k] alg session_key m))"

section \<open>Signing\<close>

definition message_config ::
  "int \<Rightarrow> signature_type \<Rightarrow> hash_alg \<Rightarrow> ('k) public_key_trait_scheme \<Rightarrow> key_id \<Rightarrow> bytes \<Rightarrow> signature_config" where
  "message_config now t ha key i fp =
     new_v4 SigV4 t (pkt_algorithm key) ha
       [subpacket_regular (Sp_IssuerFingerprint KV4 fp), subpacket_regular (Sp_SignatureCreationTime now)]
       [subpacket_regular (Sp_Issuer i)]"

definition message_sign ::
  "('s, 'z, 'a, 'b) msg_lib \<Rightarrow> int \<Rightarrow> ('k) secret_key_trait_scheme \<Rightarrow> bytes \<Rightarrow> hash_alg \<Rightarrow> message \<Rightarrow> message res" where
  "message_sign E now key pw ha m =
     and_then (pkt_key_id key) (\<lambda>i. and_then (pkt_fingerprint key) (\<lambda>fp.
       let ops = (\<lambda>t. ops_from_details t ha (pkt_algorithm key) i) in
       case m of
         Msg_Literal l \<Rightarrow>
           (let t = (if literal_is_binary l then Sig_Binary else Sig_Text) in
            map_ok (Msg_Signed (Some m) (Some (ops t)))
              (sign (ml_wire E) (ml_hash E) (message_config now t ha key i fp) key pw (lit_data l)))
       | _ \<Rightarrow>
           and_then (msg_bytes E m) (\<lambda>data.
             map_ok (Msg_Signed (Some m) (Some (ops Sig_Binary)))
               (sign (ml_wire E) (ml_hash E) (message_config now Sig_Binary ha key i fp) key pw data))))"

definition into_signature :: "message \<Rightarrow> signature res" where
  "into_signature m = (case m of Msg_Signed _ _ s \<Rightarrow> Ok s | _ \<Rightarrow> Panic)"

text \<open>
  \<open>verify_internal\<close>: at most one layer of compression is removed, so that the recursion is unrolled.
\<close>

definition verify_signed ::
  "('s, 'z, 'a, 'b) msg_lib \<Rightarrow> ('k) public_key_trait_scheme \<Rightarrow> message option \<Rightarrow> signature \<Rightarrow> unit res" where
  "verify_signed E key m s =
     (case m of
        None \<Rightarrow> Err (Unimplemented ''no message, what to do?'')
      | Some (Msg_Literal d) \<Rightarrow> verify (ml_wire E) (ml_hash E) s key (lit_data d)
      | Some n \<Rightarrow> and_then (msg_bytes E n) (verify (ml_wire E) (ml_hash E) s key))"

definition verify_internal ::
  "('s, 'z, 'a, 'b) msg_lib \<Rightarrow> ('k) public_key_trait_scheme \<Rightarrow> (compressed_data \<Rightarrow> unit res option) \<Rightarrow> message
     \<Rightarrow> unit res option" where
  "verify_internal E key on_compressed m =
     (case m of
        Msg_Signed n _ s \<Rightarrow> Some (verify_signed E key n s)
      | Msg_Compressed data \<Rightarrow> on_compressed data
      | _ \<Rightarrow> Some (Err (Unsupported ''Unexpected message format: {self:?}'')))"

definition message_verify ::
  "('s, 'z, 'a, 'b) msg_lib \<Rightarrow> ('k) public_key_trait_scheme \<Rightarrow> message \<Rightarrow> unit res option" where
  "message_verify E key = verify_internal E key (\<lambda>data. opt_try (read_compressed E data)
     (verify_internal E key (\<lambda>_. Some (Err (Message ''Recursive decompression not allowed'')))))"

section \<open>Decryption\<close>

definition mismatch :: error where
  "mismatch = Message ''Version mismatch between key and integrity packet''"

definition edata_decrypt ::
  "('s, 'z, 'a, 'b) msg_lib \<Rightarrow> edata \<Rightarrow> plain_session_key \<Rightarrow> message res option" where
  "edata_decrypt E d key =
     (case key of
        Plain_V4 alg k \<Rightarrow>
          if alg = Sym_Plaintext then Some (Err (Message ''session key algorithm cannot be plaintext''))
          else (case d of
             Ed_Protected p \<Rightarrow>
               if edata_version d \<noteq> Some 1 then Some (Err mismatch)
               else try_opt (seipd_decrypt (ll_cipher (ml_lock E)) (ml_aead E) p k (Some alg)) (msg_read E)
           | Ed_Sym p \<Rightarrow>
               if edata_version d \<noteq> None then Some (Err mismatch)
               else try_opt (sym_decrypt (ll_cipher (ml_lock E)) alg k (sed_data p)) (msg_read E))
      | Plain_V5 _ \<Rightarrow>
          Some (Err (case d of
             Ed_Protected _ \<Rightarrow> if edata_version d \<noteq> Some 2 then mismatch else Unimplemented ''V5 decryption''
           | Ed_Sym _ \<Rightarrow> Message ''invalid packet combination''))
      | Plain_V6 k \<Rightarrow>
          (case d of
             Ed_Sym _ \<Rightarrow> Some (Err (Message ''invalid packet combination''))
           | Ed_Protected p \<Rightarrow>
               try_opt (seipd_decrypt (ll_cipher (ml_lock E)) (ml_aead E) p k None) (\<lambda>data.
                 map_option (\<lambda>ps. case message_next ps of
                     None \<Rightarrow> Err (Message ''no valid message found'')
                   | Some (m, r) \<Rightarrow> and_then m (\<lambda>m. case message_next r of
                        None \<Rightarrow> Ok m
                      | Some (Panic, _) \<Rightarrow> Panic
                      | Some _ \<Rightarrow> Err (Message ''unexpected message: {:?}'')))
                   (msg_packets E data))))"

definition get_recipients :: "message \<Rightarrow> key_id list" where
  "get_recipients m = (case m of
       Msg_Encrypted es _ \<Rightarrow> filter_map (\<lambda>e. case e of Esk_Public k \<Rightarrow> Some (pkesk_id k) | _ \<Rightarrow> None) es
     | _ \<Rightarrow> [])"

text \<open>
  The search of \<open>decrypt\<close> for a session key packet and the key that opens it: for each packet first the
  primary key, then the secret subkeys.
\<close>

abbreviation ml_key_id :: "('s, 'z, 'a, 'b) msg_lib \<Rightarrow> secret_key \<Rightarrow> key_id res" where
  "ml_key_id E k \<equiv> Pgp_Public_Key.key_id (ml_hash E) (ml_wire E) (ml_curves E) (sk_details k)"

fun find_subkey :: "('s, 'z, 'a, 'b) msg_lib \<Rightarrow> key_id \<Rightarrow> signed_secret_subkey list \<Rightarrow> secret_key option res" where
  "find_subkey E i [] = Ok None"
| "find_subkey E i (s # ss) = and_then (ml_key_id E (ssub_key s)) (\<lambda>j.
     if j = i then Ok (Some (ssub_key s)) else find_subkey E i ss)"

fun find_encoding_key ::
  "('s, 'z, 'a, 'b) msg_lib \<Rightarrow> signed_secret_key \<Rightarrow> pkesk list \<Rightarrow> (pkesk \<times> secret_key) option res" where
  "find_encoding_key E key [] = Ok None"
| "find_encoding_key E key (p # ps) = and_then (ml_key_id E (ssk_primary_key key)) (\<lambda>i.
     if i = pkesk_id p then Ok (Some (p, ssk_primary_key key))
     else and_then (find_subkey E (pkesk_id p) (ssk_secret_subkeys key)) (\<lambda>s.
       case s of Some k \<Rightarrow> Ok (Some (p, k)) | None \<Rightarrow> find_encoding_key E key ps))"

definition open_session_key ::
  "('s, 'z, 'a, 'b) msg_lib \<Rightarrow> bytes \<Rightarrow> pkesk \<times> secret_key \<Rightarrow> (key_id \<times> plain_session_key) res" where
  "open_session_key E pw pk = (case pk of (p, k) \<Rightarrow>
     and_then (ml_key_id E k) (\<lambda>i. map_ok (Pair i)
       (key_decrypt_session (ml_asym E) (ml_aes E) (ml_hash E) (ml_wire E) (ml_curves E)
         (key_plain_params (ml_wire E) (ml_hash E) (ll_argon2 (ml_lock E)) (ll_cipher (ml_lock E)) k) k pw (pkesk_mpis p))))"

text \<open>\<open>filter\<close> on the results: errors are logged and dropped, a panic is not.\<close>

fun keep_ok :: "'a res list \<Rightarrow> 'a list res" where
  "keep_ok [] = Ok []"
| "keep_ok (Ok x # rs) = map_ok ((#) x) (keep_ok rs)"
| "keep_ok (Err _ # rs) = keep_ok rs"
| "keep_ok (Panic # rs) = Panic"

definition public_esks :: "esk list \<Rightarrow> pkesk list" where
  "public_esks es = filter_map (\<lambda>e. case e of Esk_Public k \<Rightarrow> Some k | _ \<Rightarrow> None) es"

definition session_key_from ::
  "('s, 'z, 'a, 'b) msg_lib \<Rightarrow> bytes \<Rightarrow> signed_secret_key list \<Rightarrow> esk list \<Rightarrow> (plain_session_key \<times> key_id list) res" where
  "session_key_from E pw keys es =
     and_then (try_map (\<lambda>key. find_encoding_key E key (public_esks es)) keys) (\<lambda>found.
     let valid_keys = filter_map (\<lambda>x. x) found in
     if valid_keys = [] then Err MissingKey
     else and_then (keep_ok (map (open_session_key E pw) valid_keys)) (\<lambda>session_keys.
       case session_keys of
         [] \<Rightarrow> Err (Message ''failed to decrypt session key'')
       | (_, k0) # rest \<Rightarrow>
           if \<not> list_all (\<lambda>(_, k). k0 = k) rest
           then Err (Message ''found inconsistent session keys, possible message corruption'')
           else Ok (k0, map fst session_keys)))"

fun message_decrypt ::
  "('s, 'z, 'a, 'b) msg_lib \<Rightarrow> bytes \<Rightarrow> signed_secret_key list \<Rightarrow> message \<Rightarrow> (message \<times> key_id list) res option" where
  "message_decrypt E pw keys (Msg_Signed (Some m) _ _) = message_decrypt E pw keys m"
| "message_decrypt E pw keys (Msg_Encrypted es d) =
     try_opt (session_key_from E pw keys es) (\<lambda>(key, ids).
       map_option (map_ok (\<lambda>m. (m, ids))) (edata_decrypt E d key))"
| "message_decrypt E pw keys _ = Some (Err (Message ''not encrypted''))"

definition first_skesk :: "esk list \<Rightarrow> skesk option" where
  "first_skesk es = (case filter_map (\<lambda>e. case e of Esk_Sym k \<Rightarrow> Some k | _ \<Rightarrow> None) es of [] \<Rightarrow> None | k # _ \<Rightarrow> Some k)"

fun message_decrypt_with_password :: "('s, 'z, 'a, 'b) msg_lib \<Rightarrow> bytes \<Rightarrow> message \<Rightarrow> message res option" where
  "message_decrypt_with_password E pw (Msg_Signed (Some m) _ _) = message_decrypt_with_password E pw m"
| "message_decrypt_with_password E pw (Msg_Encrypted es d) =
     (case first_skesk es of
        None \<Rightarrow> Some (Err (Message ''message is not password protected''))
      | Some k \<Rightarrow>
          try_opt (decrypt_session_key_with_password (ml_hash E) (ll_argon2 (ml_lock E)) (ll_cipher (ml_lock E))
            (ml_aead E) k pw) (edata_decrypt E d))"
| "message_decrypt_with_password E pw _ = Some (Err (Message ''not encrypted''))"

section \<open>Content\<close>

definition is_one_pass_signed :: "message \<Rightarrow> bool" where
  "is_one_pass_signed m = (case m of Msg_Signed _ ops _ \<Rightarrow> ops \<noteq> None | _ \<Rightarrow> False)"

fun get_literal :: "message \<Rightarrow> literal_data option" where
  "get_literal (Msg_Literal d) = Some d"
| "get_literal (Msg_Signed (Some m) _ _) = get_literal m"
| "get_literal _ = None"

fun is_literal :: "message \<Rightarrow> bool" where
  "is_literal (Msg_Literal _) = True"
| "is_literal (Msg_Signed (Some m) _ _) = is_literal m"
| "is_literal _ = False"

definition get_content_internal ::
  "(compressed_data \<Rightarrow> bytes option res option) \<Rightarrow> message \<Rightarrow> bytes option res option" where
  "get_content_internal on_compressed m =
     (case m of
        Msg_Literal d \<Rightarrow> Some (Ok (Some (lit_data d)))
      | Msg_Signed n _ _ \<Rightarrow> Some (Ok (map_option lit_data (Option.bind n get_literal)))
      | Msg_Compressed data \<Rightarrow> on_compressed data
      | Msg_Encrypted _ _ \<Rightarrow> Some (Ok None))"

definition get_content :: "('s, 'z, 'a, 'b) msg_lib \<Rightarrow> message \<Rightarrow> bytes option res option" where
  "get_content E = get_content_internal (\<lambda>data. opt_try (read_compressed E data)
     (get_content_internal (\<lambda>_. Some (Err (Message ''Recursive decompression not allowed'')))))"

section \<open>What the operations undo\<close>

lemma message_sign_identity:
  assumes "pkt_key_id K = Ok i" "config sig = message_config now t ha K i fp"
  shows "match_identity sig K = Ok True"
proof -
  have "i \<in> set (config_issuer (config sig))"
    by (simp add: assms(2) message_config_def config_issuer_def new_v4_def set_filter_map subpacket_regular_def)
  with assms(1) show ?thesis by (auto simp: match_identity_def Let_def)
qed

lemma message_sign_Ok:
  assumes "message_sign E now K pw ha m = Ok m'"
  obtains i fp t s where "pkt_key_id K = Ok i" "pkt_fingerprint K = Ok fp"
    "m' = Msg_Signed (Some m) (Some (ops_from_details t ha (pkt_algorithm K) i)) s"
    "(\<exists>l. m = Msg_Literal l \<and> t = (if literal_is_binary l then Sig_Binary else Sig_Text)
        \<and> sign (ml_wire E) (ml_hash E) (message_config now t ha K i fp) K pw (lit_data l) = Ok s)
     \<or> (\<exists>d. (\<forall>l. m \<noteq> Msg_Literal l) \<and> t = Sig_Binary \<and> msg_bytes E m = Ok d
        \<and> sign (ml_wire E) (ml_hash E) (message_config now t ha K i fp) K pw d = Ok s)"
proof -
  obtain i fp where i: "pkt_key_id K = Ok i" "pkt_fingerprint K = Ok fp"
    using assms by (auto simp: message_sign_def)
  show ?thesis
  proof (cases m)
    case (Msg_Literal l)
    with assms i show ?thesis by (auto simp: message_sign_def Let_def intro: that)
  qed (use assms i in \<open>auto simp: message_sign_def Let_def intro!: that\<close>)
qed

lemma verify_message_config:
  assumes "signing_key K pw" "pkt_key_id K = Ok i" "sign W H (message_config now t ha K i fp) K pw d = Ok s"
    and "t = Sig_Text \<longrightarrow> normalize_lines Crlf d = d"
  shows "verify W H s K d = Ok ()"
proof -
  have "config s = message_config now t ha K i fp" using assms(3) by (auto simp: sign_def dest: sign_hashed_config)
  with message_sign_identity [OF assms(2)] signing_key.verify_sign [OF assms(1,3), of d] assms(4)
  show ?thesis by (auto simp: message_config_def new_v4_def)
qed

text \<open>Text that is signed as it is stored must be stored in its normalized form.\<close>

definition text_normalized :: "message \<Rightarrow> bool" where
  "text_normalized m \<longleftrightarrow> (case m of
     Msg_Literal l \<Rightarrow> literal_is_binary l \<or> normalize_lines Crlf (lit_data l) = lit_data l | _ \<Rightarrow> True)"

lemma message_verify_sign:
  assumes "signing_key K pw" "message_sign E now K pw ha m = Ok m'" "text_normalized m"
  shows "message_verify E K m' = Some (Ok ())"
proof -
  obtain i fp t s where i: "pkt_key_id K = Ok i"
    and m': "m' = Msg_Signed (Some m) (Some (ops_from_details t ha (pkt_algorithm K) i)) s"
    and s: "(\<exists>l. m = Msg_Literal l \<and> t = (if literal_is_binary l then Sig_Binary else Sig_Text)
        \<and> sign (ml_wire E) (ml_hash E) (message_config now t ha K i fp) K pw (lit_data l) = Ok s)
     \<or> (\<exists>d. (\<forall>l. m \<noteq> Msg_Literal l) \<and> t = Sig_Binary \<and> msg_bytes E m = Ok d
        \<and> sign (ml_wire E) (ml_hash E) (message_config now t ha K i fp) K pw d = Ok s)"
    using assms(2) by (rule message_sign_Ok)
  have v: "verify (ml_wire E) (ml_hash E) s K d = Ok ()"
    if "sign (ml_wire E) (ml_hash E) (message_config now t ha K i fp) K pw d = Ok s"
      "t = Sig_Text \<longrightarrow> normalize_lines Crlf d = d" for d
    using verify_message_config [OF assms(1) i that] .
  from s v assms(3) show ?thesis
    by (auto simp: m' message_verify_def verify_internal_def verify_signed_def text_normalized_def
        split: if_splits message.splits)
qed

definition sendable :: "('s, 'z, 'a, 'b) msg_lib \<Rightarrow> message \<Rightarrow> bool" where
  "sendable E m \<longleftrightarrow> message_ok m \<and> list_all (packet_ok (ml_wire E) (ml_curves E)) (message_packets m)"

text \<open>The laws of all libraries a message depends on.\<close>

locale message_system =
  packet_stream "ll_wire (ml_lock E)" "ml_reader E" + cipher_laws "ll_cipher (ml_lock E)" + compress_laws "ml_zip E"
  for E :: "('s, 'z, 'a, 'b) msg_lib"
begin

lemma read_written: "sendable E m \<Longrightarrow> msg_bytes E m = Ok b \<Longrightarrow> msg_read E b = Some (Ok m)"
  using message_read [of m "ml_curves E" b] by (simp add: sendable_def)

lemma eof_reader_id [simp]: "ml_reader E\<lparr>src_end := Src_Eof\<rparr> = ml_reader E"
  using reads_to_eof by simp

lemma decompress_compress:
  assumes "sendable E m" "message_compress E alg m = Ok c"
  shows "\<exists>d. c = Msg_Compressed d \<and> read_compressed E d = Some (Ok m)"
  using assms(2)
  by (cases alg) (auto simp: message_compress_def from_compressed_def read_compressed_def decompress_def
      deflate_inverse zlib_inverse dest: read_written [OF assms(1)])

lemma decrypt_encrypt_symmetric:
  assumes "sendable E m" "encrypt_symmetric E rng es alg key m = Ok c"
    and "cipher_supported alg" "alg \<noteq> Sym_Plaintext" "length key = key_size alg"
      "length (rng (block_size alg)) = block_size alg"
  shows "\<exists>d. c = Msg_Encrypted es d \<and> edata_decrypt E d (Plain_V4 alg key) = Some (Ok m)"
proof -
  obtain data p where d: "msg_bytes E m = Ok data"
    "seipd_encrypt_with_rng (ll_cipher (ml_lock E)) rng alg key data = Ok p" "c = Msg_Encrypted es (Ed_Protected p)"
    using assms(2) by (auto simp: encrypt_symmetric_def)
  obtain ct where ct: "encrypt_protected_with_rng (ll_cipher (ml_lock E)) alg rng key data = Ok ct"
    "decrypt_protected (ll_cipher (ml_lock E)) alg key ct = Ok data"
    using decrypt_protected_encrypt [where rng = rng, OF assms(3,5,6), of data] by blast
  with d(2) have "seipd_data p = Seipd_V1 ct" by (auto simp: seipd_encrypt_with_rng_def)
  with d(1,3) ct(2) assms(4) read_written [OF assms(1)] show ?thesis
    by (auto simp: edata_decrypt_def edata_version_def seipd_decrypt_def)
qed

lemma encrypt_symmetric_Ok:
  assumes "sendable E m" "cipher_supported alg" "length key = key_size alg" "length (rng (block_size alg)) = block_size alg"
  shows "\<exists>c. encrypt_symmetric E rng es alg key m = Ok c"
  using message_written [of m "ml_curves E"] assms(1)
    decrypt_protected_encrypt [where rng = rng, OF assms(2-4)]
  by (fastforce simp: sendable_def encrypt_symmetric_def seipd_encrypt_with_rng_def)

lemma read_compressed_returns: "\<exists>r. read_compressed E p = Some r"
proof -
  have "packet_source (ml_wire E) (ml_reader E\<lparr>src_end := e\<rparr>)" for e
    using reader_buffer_ended [OF reader_buffer_axioms] wire_laws_axioms by (simp add: packet_source_def)
  from packet_source.message_from_bytes_returns [OF this] show ?thesis
    by (auto simp: read_compressed_def try_opt_def split: result.splits prod.splits)
qed

lemma edata_decrypt_returns: "\<exists>r. edata_decrypt E d key = Some r"
proof -
  have "\<exists>r. msg_packets E b = Some r" for b
    using message_from_bytes_returns [of "ml_curves E" b] by (auto simp: message_from_bytes_def)
  then show ?thesis
    using message_from_bytes_returns [of "ml_curves E"]
    by (auto simp: edata_decrypt_def try_opt_def split: plain_session_key.splits edata.splits result.splits)
qed

lemma operations_return:
  "\<exists>r. message_decompress E m = Some r" "\<exists>r. message_verify E key m = Some r" "\<exists>r. get_content E m = Some r"
  "\<exists>r. message_decrypt E pw keys m = Some r" "\<exists>r. message_decrypt_with_password E pw m = Some r"
proof -
  show "\<exists>r. message_decompress E m = Some r"
    using read_compressed_returns by (auto simp: message_decompress_def split: message.splits)
  show "\<exists>r. message_verify E key m = Some r"
  proof (cases m)
    case (Msg_Compressed d)
    obtain r where "read_compressed E d = Some r" using read_compressed_returns by blast
    with Msg_Compressed show ?thesis
      by (cases r) (auto simp: message_verify_def verify_internal_def split: message.splits)
  qed (simp_all add: message_verify_def verify_internal_def)
  show "\<exists>r. get_content E m = Some r"
  proof (cases m)
    case (Msg_Compressed d)
    obtain r where "read_compressed E d = Some r" using read_compressed_returns by blast
    with Msg_Compressed show ?thesis
      by (cases r) (auto simp: get_content_def get_content_internal_def split: message.splits)
  qed (simp_all add: get_content_def get_content_internal_def)
  show "\<exists>r. message_decrypt E pw keys m = Some r"
    using edata_decrypt_returns
    by (induction E pw keys m rule: message_decrypt.induct) (auto simp: try_opt_def split: result.splits)
  show "\<exists>r. message_decrypt_with_password E pw m = Some r"
    using edata_decrypt_returns
    by (induction E pw m rule: message_decrypt_with_password.induct) (auto simp: try_opt_def split: result.splits option.splits)
qed

end

section \<open>Finding the key of a recipient\<close>

definition own_keys :: "signed_secret_key \<Rightarrow> secret_key list" where
  "own_keys key = ssk_primary_key key # map ssub_key (ssk_secret_subkeys key)"

lemma find_subkey_None:
  assumes "\<forall>x \<in> ssub_key ` set ss. \<exists>j. ml_key_id E x = Ok j" "\<forall>x \<in> ssub_key ` set ss. ml_key_id E x \<noteq> Ok i"
  shows "find_subkey E i ss = Ok None"
  using assms by (induction ss) auto

lemma find_subkey_Some:
  assumes "\<forall>x \<in> ssub_key ` set ss. \<exists>j. ml_key_id E x = Ok j" "k \<in> ssub_key ` set ss" "ml_key_id E k = Ok i"
    and "\<forall>x \<in> ssub_key ` set ss. ml_key_id E x = Ok i \<longrightarrow> x = k"
  shows "find_subkey E i ss = Ok (Some k)"
  using assms(1,2,4)
proof (induction ss)
  case (Cons s ss)
  obtain j where j: "ml_key_id E (ssub_key s) = Ok j" using Cons.prems(1) by auto
  show ?case
  proof (cases "j = i")
    case True
    with j Cons.prems(3) have "ssub_key s = k" by simp
    with j True show ?thesis by simp
  next
    case False
    with j assms(3) Cons.prems(2) have "k \<in> ssub_key ` set ss" by auto
    with j False Cons show ?thesis by simp
  qed
qed simp

lemma find_encoding_key_here:
  assumes "\<forall>x \<in> set (own_keys key). \<exists>j. ml_key_id E x = Ok j" "k \<in> set (own_keys key)"
    and "ml_key_id E k = Ok (pkesk_id p)" "\<forall>x \<in> set (own_keys key). ml_key_id E x = Ok (pkesk_id p) \<longrightarrow> x = k"
  shows "find_encoding_key E key (p # ps) = Ok (Some (p, k))"
proof -
  obtain j where j: "ml_key_id E (ssk_primary_key key) = Ok j" using assms(1) by (auto simp: own_keys_def)
  show ?thesis
  proof (cases "j = pkesk_id p")
    case True
    with assms(4) j have "ssk_primary_key key = k" by (simp add: own_keys_def)
    with j True show ?thesis by simp
  next
    case False
    with j assms(2,3) have "k \<in> ssub_key ` set (ssk_secret_subkeys key)" by (auto simp: own_keys_def)
    with assms have "find_subkey E (pkesk_id p) (ssk_secret_subkeys key) = Ok (Some k)"
      by (intro find_subkey_Some) (simp_all add: own_keys_def)
    with j False show ?thesis by simp
  qed
qed

lemma find_encoding_key_skip:
  assumes "\<forall>x \<in> set (own_keys key). \<exists>j. ml_key_id E x = Ok j" "\<forall>x \<in> set (own_keys key). ml_key_id E x \<noteq> Ok (pkesk_id p)"
  shows "find_encoding_key E key (p # ps) = find_encoding_key E key ps"
proof -
  obtain j where j: "ml_key_id E (ssk_primary_key key) = Ok j" "j \<noteq> pkesk_id p"
    using assms by (auto simp: own_keys_def)
  moreover have "find_subkey E (pkesk_id p) (ssk_secret_subkeys key) = Ok None"
    using assms by (intro find_subkey_None) (simp_all add: own_keys_def)
  ultimately show ?thesis by simp
qed

lemma find_encoding_key_skip_all:
  assumes "\<forall>x \<in> set (own_keys key). \<exists>j. ml_key_id E x = Ok j"
    and "\<forall>q \<in> set qs. \<forall>x \<in> set (own_keys key). ml_key_id E x \<noteq> Ok (pkesk_id q)"
  shows "find_encoding_key E key (qs @ ps) = find_encoding_key E key ps"
  using assms(2)
proof (induction qs)
  case (Cons q qs)
  then have "find_encoding_key E key (q # qs @ ps) = find_encoding_key E key (qs @ ps)"
    by (intro find_encoding_key_skip [OF assms(1)]) simp
  with Cons show ?case by simp
qed simp

lemma esk_for_key_Ok:
  assumes "esk_for_key sk alg k = Ok e"
  shows "\<exists>p i. e = Esk_Public p \<and> pkt_key_id k = Ok i \<and> pkesk_id p = i \<and> pkt_encrypt k (session_key_data sk alg) = Ok (pkesk_mpis p)"
  using assms by (auto simp: esk_for_key_def from_session_key_def)

lemma public_esks_keys:
  "list_all2 (\<lambda>k e. esk_for_key sk alg k = Ok e) ks es \<Longrightarrow>
     list_all2 (\<lambda>k p. pkt_key_id k = Ok (pkesk_id p) \<and> pkt_encrypt k (session_key_data sk alg) = Ok (pkesk_mpis p))
       ks (public_esks es)"
  by (induction rule: list_all2_induct) (auto simp: public_esks_def filter_map_def dest!: esk_for_key_Ok)

lemma session_key_from_single:
  assumes "find_encoding_key E key (public_esks es) = Ok (Some (p, k))" "open_session_key E pw (p, k) = Ok (i, sk)"
  shows "session_key_from E pw [key] es = Ok (sk, [i])"
  using assms by (simp add: session_key_from_def filter_map_def)

lemma session_key_from_recipient:
  assumes "list_all2 (\<lambda>k e. esk_for_key sk alg k = Ok e) (pre @ rk # post) es"
    and "pkt_key_id rk = Ok i" "ml_key_id E k = Ok i" "k \<in> set (own_keys key)"
    and "\<forall>x \<in> set (own_keys key). \<exists>j. ml_key_id E x = Ok j"
    and "\<forall>x \<in> set (own_keys key). ml_key_id E x = Ok i \<longrightarrow> x = k"
    and "\<forall>q \<in> set pre. \<forall>x \<in> set (own_keys key). pkt_key_id q \<noteq> ml_key_id E x"
    and "\<And>p. pkt_encrypt rk (session_key_data sk alg) = Ok (pkesk_mpis p) \<Longrightarrow> open_session_key E pw (p, k) = Ok (i, Plain_V4 alg sk)"
  shows "session_key_from E pw [key] es = Ok (Plain_V4 alg sk, [i])"
proof -
  let ?P = "\<lambda>k p. pkt_key_id k = Ok (pkesk_id p) \<and> pkt_encrypt k (session_key_data sk alg) = Ok (pkesk_mpis p)"
  from public_esks_keys [OF assms(1)] obtain qs p rs where
    e: "public_esks es = qs @ p # rs" "list_all2 ?P pre qs" "?P rk p"
    by (auto simp: list_all2_append1 list_all2_Cons1)
  have id: "pkesk_id p = i" using e(3) assms(2) by simp
  have "\<forall>q \<in> set qs. \<forall>x \<in> set (own_keys key). ml_key_id E x \<noteq> Ok (pkesk_id q)"
    using e(2) assms(7)
  proof (induction rule: list_all2_induct)
    case (Cons q qs p ps)
    then have "pkt_key_id q = Ok (pkesk_id p)" "\<forall>x \<in> set (own_keys key). pkt_key_id q \<noteq> ml_key_id E x" by simp_all
    then have "\<forall>x \<in> set (own_keys key). ml_key_id E x \<noteq> Ok (pkesk_id p)" by metis
    with Cons show ?case by simp
  qed simp
  then have "find_encoding_key E key (public_esks es) = find_encoding_key E key (p # rs)"
    unfolding e(1) by (rule find_encoding_key_skip_all [OF assms(5)])
  also have "\<dots> = Ok (Some (p, k))"
    using find_encoding_key_here [OF assms(5,4)] assms(3,6) id by blast
  finally show ?thesis using session_key_from_single assms(8) e(3) by blast
qed

section \<open>Concrete libraries\<close>

text \<open>A compressor that stores: a zero octet and the data.\<close>

definition std_zip :: compress_lib where
  "std_zip = \<lparr>deflate_encode = Cons 0, deflate_decode = (\<lambda>b. (tl b, if b = [] then Src_Fails else Src_Eof)),
     zlib_encode = Cons 120, zlib_decode = (\<lambda>b. (tl b, if b = [] then Src_Fails else Src_Eof))\<rparr>"

definition std_msg :: "(u8, unit, unit, unit) msg_lib" where
  "std_msg = \<lparr>ml_lock = std_lock, ml_aead = std_aead, ml_curves = std_curves, ml_reader = std_reader,
     ml_zip = std_zip, ml_asym = std_asym, ml_aes = std_aes\<rparr>"

interpretation std_zip: compress_laws std_zip
  by unfold_locales (simp_all add: std_zip_def)

lemma std_msg_sel [simp]:
  "ml_lock std_msg = std_lock" "ml_aead std_msg = std_aead" "ml_curves std_msg = std_curves"
  "ml_reader std_msg = std_reader" "ml_zip std_msg = std_zip" "ml_asym std_msg = std_asym" "ml_aes std_msg = std_aes"
  "ll_wire std_lock = std_wire" "ll_hash std_lock = std_hash" "ll_cipher std_lock = std_cipher"
  "ll_argon2 std_lock = (\<lambda>_ _ _ _ _ _. None)"
  by (simp_all add: std_msg_def std_lock_def)

interpretation std_msg: message_system std_msg
  by (rule message_system.intro) (simp_all add: std_stream.packet_stream_axioms
    std_cipher.cipher_laws_axioms std_zip.compress_laws_axioms)

section \<open>A concrete run\<close>

definition rsa_signer :: secret_key_trait where
  "rsa_signer = sample_signer\<lparr>pkt_algorithm := Pk_RSA\<rparr>"

interpretation rsa_signer: signing_key rsa_signer pw for pw
  by unfold_locales (auto simp: rsa_signer_def sample_signer_def)

lemma rsa_signer_sel [simp]:
  "pkt_key_id rsa_signer = Ok (replicate 8 7)" "pkt_fingerprint rsa_signer = Ok (replicate 20 7)"
  "pkt_algorithm rsa_signer = Pk_RSA" "skt_create_signature rsa_signer pw h d = Ok [d]"
  by (simp_all add: rsa_signer_def sample_signer_def)

abbreviation sample_msg_config :: signature_config where
  "sample_msg_config \<equiv> message_config 77 Sig_Text Hash_SHA2_256 rsa_signer (replicate 8 7) (replicate 20 7)"

lemma sample_msg_areas:
  "subpackets_to_writer std_wire (hashed_subpackets sample_msg_config)
     = Ok ([22, 33, 4] @ replicate 20 7 @ [5, 2, 0, 0, 0, 77])"
  "subpackets_to_writer std_wire (unhashed_subpackets sample_msg_config) = Ok ([9, 16] @ replicate 8 7)"
  by (simp_all add: message_config_def new_v4_def subpacket_regular_def std_wire_def be32_def
      write_packet_length_def write_packet_len_def subpacket_type_as_u8_def)

lemma sample_msg_config_ok: "cfg_ok std_wire sample_msg_config"
  using sample_msg_areas
  by (simp add: message_config_def new_v4_def subpacket_regular_def canonical_pk canonical_hash hash_alg_of_u8_def
      pk_alg_of_u8_def in_u32_def area_ok_def key_version_of_u8_def)

lemma sample_msg_signs:
  "\<exists>s. sign std_wire std_hash sample_msg_config rsa_signer [] [0x68, 0x69] = Ok s \<and> sig_ok std_wire s
     \<and> sig_packet_version s = New \<and> (\<exists>b. signature_to_writer std_wire s = Ok b \<and> length b < 200)"
proof -
  let ?c = sample_msg_config
  let ?h = "\<lparr>hasher_alg = Hash_SHA2_256, hasher_data = [0x68, 0x69]\<rparr>"
  obtain h' where h': "hash_config std_wire ?c ?h = Ok h'" "take 2 (hasher_data h') = [0x68, 0x69]"
    using std.hash_config_v4 [of ?c ?h] sample_msg_areas(1)
    by (fastforce simp: message_config_def new_v4_def hasher_update_def)
  let ?m = "hasher_finish std_hash h'"
  obtain r where "hasher_data h' = 0x68 # 0x69 # r" using h'(2)
    by (cases "hasher_data h'"; cases "tl (hasher_data h')") auto
  then have m: "\<exists>r. ?m = 0x68 # 0x69 # r \<and> length r = 18"
    by (simp add: hasher_finish_def std_hash_def)
  then have "mpi_ok ?m" by (auto simp: mpi_ok_def bit_size_def)
  have c: "hash_alg ?c = Hash_SHA2_256" "cfg_typ ?c = Sig_Text" "pub_alg ?c = Pk_RSA"
    by (simp_all add: message_config_def new_v4_def)
  have "sign_hashed std_wire std_hash ?c rsa_signer [] ?h = Ok (from_config ?c [?m ! 0, ?m ! 1] [?m])"
    using h'(1) m by (auto simp: sign_hashed_def Let_def)
  then have s: "sign std_wire std_hash ?c rsa_signer [] [0x68, 0x69] = Ok (from_config ?c [?m ! 0, ?m ! 1] [?m])"
    by (simp add: sign_def new_hasher_def hash_data_to_sign_def hash_supported_def c hasher_update_def)
  have "\<exists>b. config_to_writer_v4 std_wire ?c = Ok b \<and> length b < 100"
    using sample_msg_areas by (simp add: message_config_def new_v4_def del: subpackets_to_writer.simps)
  then have "\<exists>b. signature_to_writer std_wire (from_config ?c [?m ! 0, ?m ! 1] [?m]) = Ok b \<and> length b < 200"
    using m by (auto simp: from_config_def message_config_def new_v4_def mpis_to_writer_def mpi_to_writer_def)
  with sample_msg_config_ok \<open>mpi_ok ?m\<close> show ?thesis
    unfolding s by (simp add: from_config_def mpis_fit_def c version_default_def del: signature_to_writer.simps)
qed

lemma sample_msg_signed:
  "\<exists>m d. message_sign std_msg 77 rsa_signer [] Hash_SHA2_256 (Msg_Literal sample_literal) = Ok m \<and> sendable std_msg m
     \<and> msg_bytes std_msg m = Ok d \<and> length d < 2 ^ 31"
proof -
  let ?ops = "ops_from_details Sig_Text Hash_SHA2_256 Pk_RSA (replicate 8 7)"
  obtain s b where s: "sign std_wire std_hash sample_msg_config rsa_signer [] [0x68, 0x69] = Ok s" "sig_ok std_wire s"
    "sig_packet_version s = New" "signature_to_writer std_wire s = Ok b" "length b < 200"
    using sample_msg_signs by blast
  have l: "lit_data sample_literal = [0x68, 0x69]" "\<not> literal_is_binary sample_literal"
    by (simp_all add: sample_literal_def literal_is_binary_def)
  have "message_sign std_msg 77 rsa_signer [] Hash_SHA2_256 (Msg_Literal sample_literal)
      = Ok (Msg_Signed (Some (Msg_Literal sample_literal)) (Some ?ops) s)"
    using s(1) l by (simp add: message_sign_def)
  moreover have "packet_ok std_wire std_curves (P_Signature s)"
    using s(2-5) by (simp add: packet_ok_def header_fits_def canonical_tag_def tag_of_u8_def)
  moreover have "packet_ok std_wire std_curves (P_OnePassSignature ?ops)"
    by (simp add: packet_ok_def header_fits_def canonical_tag_def tag_of_u8_def ops_from_details_def ops_ok_def
        canonical_pk canonical_hash hash_alg_of_u8_def pk_alg_of_u8_def ops_to_writer_def version_default_def)
  moreover have "\<exists>d. msg_bytes std_msg (Msg_Signed (Some (Msg_Literal sample_literal)) (Some ?ops) s) = Ok d \<and> length d < 2 ^ 31"
    using s(3-5) std_stream.length_write_header(2) [of New 4 13] std_stream.length_write_header(2) [of New 11 9]
      std_stream.length_write_header(2) [of New 2 "length b"]
    by (auto simp: message_to_writer_def write_packets_def packet_to_writer_def write_packet_def ops_to_writer_def
        ops_from_details_def version_default_def sample_literal_def literal_to_writer_def
        simp del: write_header.simps)
  ultimately show ?thesis using sample_literal_ok by (simp add: sendable_def)
qed

definition rsa_owner :: signed_secret_key where
  "rsa_owner = \<lparr>ssk_primary_key = rsa_secret_key, ssk_details = \<lparr>skd_revocation_signatures = [],
     skd_direct_signatures = [], skd_users = [], skd_user_attributes = []\<rparr>, ssk_public_subkeys = [], ssk_secret_subkeys = []\<rparr>"

section \<open>Properties\<close>

text \<open>
  The key of a recipient: its parameters unlock with the password, they belong to the public key,
  and its own id finds it among the keys of the owner.
\<close>

definition key_opens :: "('s, 'z, 'a, 'b) msg_lib \<Rightarrow> bytes \<Rightarrow> secret_key \<Rightarrow> bytes \<Rightarrow> bool" where
  "key_opens E seed k pw \<longleftrightarrow> (\<exists>sp repr fp.
     key_plain_params (ml_wire E) (ml_hash E) (ll_argon2 (ml_lock E)) (ll_cipher (ml_lock E)) k pw = Ok sp
     \<and> as_repr (ml_asym E) (ml_curves E) sp (key_public_params (sk_details k)) = Ok repr
     \<and> key_pair_ok (ml_asym E) (key_public_params (sk_details k)) sp
     \<and> fingerprint (ml_hash E) (ml_wire E) (ml_curves E) (sk_details k) = Ok fp
     \<and> (\<forall>curve q h a. key_public_params (sk_details k) = Pub_ECDH curve q h a \<longrightarrow> ephemeral_ok (ml_asym E) curve seed))"

definition finds_key :: "('s, 'z, 'a, 'b) msg_lib \<Rightarrow> signed_secret_key \<Rightarrow> secret_key \<Rightarrow> key_id \<Rightarrow> bool" where
  "finds_key E key k i \<longleftrightarrow> k \<in> set (own_keys key) \<and> ml_key_id E k = Ok i
     \<and> (\<forall>x \<in> set (own_keys key). \<exists>j. ml_key_id E x = Ok j)
     \<and> (\<forall>x \<in> set (own_keys key). ml_key_id E x = Ok i \<longrightarrow> x = k)"

abbreviation public_trait :: "('s, 'z, 'a, 'b) msg_lib \<Rightarrow> bytes \<Rightarrow> secret_key \<Rightarrow> public_key_trait" where
  "public_trait E seed k \<equiv> public_key_as_trait (ml_asym E) (ml_aes E) (ml_hash E) (ml_wire E) (ml_curves E) seed (sk_details k)"

lemma cipher_supported_canonical: "cipher_supported a \<Longrightarrow> canonical_sym_alg a \<and> a \<noteq> Sym_Plaintext"
  by (auto simp: cipher_supported_def canonical_sym sym_alg_of_u8_def)

lemma open_session_key_Ok:
  assumes "asym_laws (ml_asym E)" "aes_laws (ml_aes E)" "key_opens E seed k pw" "ml_key_id E k = Ok i"
    and "pkt_encrypt (public_trait E seed k) (session_key_data sk alg) = Ok (pkesk_mpis p)"
    and "cipher_supported alg" "length sk = key_size alg"
  shows "open_session_key E pw (p, k) = Ok (i, Plain_V4 alg sk)"
proof -
  obtain sp repr fp where k: "key_plain_params (ml_wire E) (ml_hash E) (ll_argon2 (ml_lock E)) (ll_cipher (ml_lock E)) k pw = Ok sp"
      "as_repr (ml_asym E) (ml_curves E) sp (key_public_params (sk_details k)) = Ok repr"
      "key_pair_ok (ml_asym E) (key_public_params (sk_details k)) sp"
      "fingerprint (ml_hash E) (ml_wire E) (ml_curves E) (sk_details k) = Ok fp"
    and e: "\<And>curve q h a. key_public_params (sk_details k) = Pub_ECDH curve q h a \<Longrightarrow> ephemeral_ok (ml_asym E) curve seed"
    using assms(3) by (auto simp: key_opens_def)
  have enc: "key_encrypt (ml_asym E) (ml_aes E) (ml_hash E) (ml_wire E) (ml_curves E) seed (sk_details k)
      (session_key_data sk alg) = Ok (pkesk_mpis p)"
    using assms(5) by (simp add: public_key_as_trait_def)
  have "canonical_sym_alg alg" "alg \<noteq> Sym_Plaintext" using cipher_supported_canonical [OF assms(6)] by simp_all
  from asym_system.session_key_decrypts [where params = "key_plain_params (ml_wire E) (ml_hash E)
        (ll_argon2 (ml_lock E)) (ll_cipher (ml_lock E)) k" and pw = pw,
      OF asym_system.intro [OF assms(1,2)] k(1-3) e enc k(4) this assms(7)]
  show ?thesis using assms(4) by (simp add: open_session_key_def)
qed

text \<open>
  C8. A message encrypted to keys is decrypted by a recipient: for any supported cipher, and a
  recipient's key that is the primary key or a secret subkey of a signed secret key, \<open>decrypt\<close> with
  that signed key and its password returns the message and the id of the key that opened it. The
  message can be sent: its signatures are one-pass signatures, its encrypted parts have session keys
  and its packets fit the format. All keys of the owner have ids, and the recipient's key is the only
  one with its id; the recipients listed before it have none of the owner's ids, those behind it are
  arbitrary. The key has a fingerprint, the password unlocks it, its secret parameters belong to
  its public ones, and for ECDH the random bytes of the sender make an ephemeral key.
\<close>

theorem encrypted_message_decrypts:
  assumes "message_system E" and "asym_laws (ml_asym E)" and "aes_laws (ml_aes E)" and "sendable E m"
    and "cipher_supported alg" and "\<And>n. length (key_rng n) = n" and "\<And>n. length (rng n) = n"
    and "encrypt_to_keys E key_rng rng alg (pre @ public_trait E seed k # post) m = Ok c"
    and "key_opens E seed k pw" and "finds_key E key k i"
    and "\<forall>q \<in> set pre. \<forall>x \<in> set (own_keys key). pkt_key_id q \<noteq> ml_key_id E x"
  shows "message_decrypt E pw [key] c = Some (Ok (m, [i]))"
proof -
  let ?sk = "new_session_key alg key_rng"
  have l: "length ?sk = key_size alg" using assms(6) by (simp add: new_session_key_def)
  obtain es where es: "list_all2 (\<lambda>k e. esk_for_key ?sk alg k = Ok e) (pre @ public_trait E seed k # post) es"
    "encrypt_symmetric E rng es alg ?sk m = Ok c"
    using assms(8) by (auto simp: encrypt_to_keys_def Let_def try_map_Ok_iff)
  have ids: "ml_key_id E k = Ok i" "k \<in> set (own_keys key)" "\<forall>x \<in> set (own_keys key). \<exists>j. ml_key_id E x = Ok j"
    "\<forall>x \<in> set (own_keys key). ml_key_id E x = Ok i \<longrightarrow> x = k"
    using assms(10) by (simp_all add: finds_key_def)
  have pid: "pkt_key_id (public_trait E seed k) = Ok i" using ids(1) by (simp add: public_key_as_trait_def)
  have "session_key_from E pw [key] es = Ok (Plain_V4 alg ?sk, [i])"
    using open_session_key_Ok [OF assms(2,3,9) ids(1) _ assms(5) l]
    by (intro session_key_from_recipient [OF es(1) pid ids assms(11)])
  moreover obtain d where "c = Msg_Encrypted es d" "edata_decrypt E d (Plain_V4 alg ?sk) = Some (Ok m)"
    using message_system.decrypt_encrypt_symmetric [OF assms(1,4) es(2) assms(5) _ l] assms(7)
      cipher_supported_canonical [OF assms(5)] by blast
  ultimately show ?thesis by simp
qed

theorem encrypted_message_decrypts_witness:
  "\<exists>c i. encrypt_to_keys std_msg (\<lambda>n. replicate n 3) (\<lambda>n. replicate n 7) Sym_AES128
       [public_trait std_msg [] rsa_secret_key] (Msg_Literal sample_literal) = Ok c
     \<and> message_decrypt std_msg [] [rsa_owner] c = Some (Ok (Msg_Literal sample_literal, [i]))"
proof -
  let ?k = "replicate 16 (3::u8)" and ?K = "public_trait std_msg [] rsa_secret_key"
  have sup: "cipher_supported Sym_AES128" by (simp add: cipher_supported_def)
  have m: "sendable std_msg (Msg_Literal sample_literal)" using sample_literal_ok by (simp add: sendable_def)
  obtain i where i: "ml_key_id std_msg rsa_secret_key = Ok i"
    by (simp add: Pgp_Public_Key.key_id_def fingerprint_def rsa_secret_key_def std_hash_def Let_def)
  then obtain e where "esk_for_key ?k Sym_AES128 ?K = Ok e"
    by (simp add: esk_for_key_def from_session_key_def public_key_as_trait_def key_encrypt_def rsa_secret_key_def
        rsa_encrypt_def std_asym_fields)
  moreover obtain c where "encrypt_symmetric std_msg (\<lambda>n. replicate n 7) [e] Sym_AES128 ?k (Msg_Literal sample_literal) = Ok c"
    using std_msg.encrypt_symmetric_Ok [OF m sup, of ?k "\<lambda>n. replicate n 7"] by auto
  ultimately have c: "encrypt_to_keys std_msg (\<lambda>n. replicate n 3) (\<lambda>n. replicate n 7) Sym_AES128
      ([] @ ?K # []) (Msg_Literal sample_literal) = Ok c"
    by (simp add: encrypt_to_keys_def new_session_key_def)
  have "key_opens std_msg [] rsa_secret_key []"
    by (simp add: key_opens_def key_plain_params_def rsa_secret_key_def as_repr_def std_asym_fields fingerprint_def)
  moreover have "finds_key std_msg rsa_owner rsa_secret_key i"
    using i by (simp add: finds_key_def own_keys_def rsa_owner_def)
  ultimately have "message_decrypt std_msg [] [rsa_owner] c = Some (Ok (Msg_Literal sample_literal, [i]))"
    using encrypted_message_decrypts [OF std_msg.message_system_axioms _ _ m sup _ _ c]
      std_asym.asym_laws_axioms std_aes.aes_laws_axioms by simp
  with c show ?thesis by auto
qed

context message_system
begin

lemma password_message_sendable:
  assumes "encrypt_with_password E key_rng rng s2k alg pw m = Ok c" "msg_bytes E m = Ok data" "length data < 2 ^ 31"
    and "cipher_supported alg" "s2k_ok s2k" "\<And>n. length (key_rng n) = n" "\<And>n. length (rng n) = n"
  shows "sendable E c"
proof -
  let ?k = "new_session_key alg key_rng" and ?C = "ll_cipher (ml_lock E)"
  have a: "canonical_sym_alg alg" "alg \<noteq> Sym_Plaintext" using cipher_supported_canonical [OF assms(4)] by simp_all
  have sz: "length ?k \<le> 32" "block_size alg \<le> 16" using assms(4,6) by (auto simp: new_session_key_def cipher_supported_def)
  obtain ek ct where c: "c = Msg_Encrypted [Esk_Sym (Skesk_V4 version_default alg s2k (Some ek))]
      (Ed_Protected \<lparr>seipd_packet_version = version_default, seipd_data = Seipd_V1 ct\<rparr>)"
    and s: "uses_salt s2k" and ek: "length ek = Suc (length ?k)"
    and ct: "encrypt_protected_with_rng ?C alg rng ?k data = Ok ct"
    using assms(1,2,4) a(2) cfb_length
    by (force simp: encrypt_with_password_def skesk_encrypt_def encrypt_symmetric_def seipd_encrypt_with_rng_def
        encrypt_with_iv_regular_def Let_def split: if_splits option.splits)
  have "length ct = block_size alg + 2 + length data + 22"
    using decrypt_protected_encrypt [OF assms(4), of ?k rng data] ct assms(6,7) by (auto simp: new_session_key_def)
  with sz assms(3) have "ct \<noteq> []" "length ct < 2 ^ 32 - 1" by auto
  moreover have "s2k_delimited s2k" "length (s2k_to_writer s2k) \<le> 32" using s assms(5) by (cases s2k; simp)+
  ultimately show ?thesis
    using a assms(5) ek sz c
    by (auto simp: sendable_def packet_ok_def header_fits_def canonical_tag_def tag_of_u8_def version_default_def seipd_to_writer_def)
qed

end

lemma decrypt_with_password_encrypt:
  assumes "message_system E" and "sendable E m" and "cipher_supported alg"
    and "\<And>n. length (key_rng n) = n" and "\<And>n. length (rng n) = n"
    and "encrypt_with_password E key_rng rng s2k alg pw m = Ok c"
  shows "message_decrypt_with_password E pw c = Some (Ok m)
    \<and> message_decrypt_with_password E pw (Msg_Signed (Some c) ops s) = Some (Ok m)"
proof -
  let ?sk = "new_session_key alg key_rng"
  have l: "length ?sk = key_size alg" using assms(4) by (simp add: new_session_key_def)
  have a: "canonical_sym_alg alg" "alg \<noteq> Sym_Plaintext" using cipher_supported_canonical [OF assms(3)] by simp_all
  obtain p where p: "skesk_encrypt (ml_hash E) (ll_argon2 (ml_lock E)) (ll_cipher (ml_lock E)) pw ?sk s2k alg = Ok p"
    "encrypt_symmetric E rng [Esk_Sym p] alg ?sk m = Ok c"
    using assms(6) by (auto simp: encrypt_with_password_def Let_def)
  have "cipher_laws (ll_cipher (ml_lock E))" using assms(1) by (simp add: message_system_def)
  from skesk_password_decrypts [OF this p(1) a]
  have "decrypt_session_key_with_password (ml_hash E) (ll_argon2 (ml_lock E)) (ll_cipher (ml_lock E)) (ml_aead E) p pw
      = Ok (Plain_V4 alg ?sk)" .
  moreover obtain d where "c = Msg_Encrypted [Esk_Sym p] d" "edata_decrypt E d (Plain_V4 alg ?sk) = Some (Ok m)"
    using message_system.decrypt_encrypt_symmetric [OF assms(1,2) p(2) assms(3) a(2) l] assms(5) by blast
  ultimately show ?thesis by (simp add: first_skesk_def filter_map_def)
qed

lemma sample_skesk_made:
  "\<exists>p. skesk_encrypt std_hash (\<lambda>_ _ _ _ _ _. None) std_cipher [0x70] (replicate 16 3)
     (Salted Hash_SHA2_256 [1, 2, 3, 4, 5, 6, 7, 8]) Sym_AES128 = Ok p"
proof -
  let ?s = "Salted Hash_SHA2_256 [1, 2, 3, 4, 5, 6, 7, 8]"
  have ok: "s2k_ok ?s" by (simp add: canonical_hash hash_alg_of_u8_def)
  have "\<exists>key. derive_key std_hash (\<lambda>_ _ _ _ _ _. None) ?s [0x70] 16 = Ok key"
    using std_hash.derive_key_hashed [OF _ ok, of Hash_SHA2_256 16 "\<lambda>_ _ _ _ _ _. None" "[0x70]"]
    by (auto simp: hash_supported_def digest_size_def std_hash_def)
  then show ?thesis
    by (auto simp: skesk_encrypt_def encrypt_with_iv_regular_def cipher_supported_def std_cipher_def)
qed

text \<open>
  C13. A message encrypted with a password is decrypted with it: for every password hashing with which
  encryption succeeds and every supported cipher, what \<open>encrypt_with_password\<close> makes of a message that
  can be sent is turned back into it by \<open>decrypt_with_password\<close>, also inside a signature. A message can
  be sent when its signatures are one-pass signatures (a signature in front of its message is written in
  another order than it is read), its encrypted parts have session keys and its packets fit the format.
\<close>

theorem password_message_decrypts:
  assumes "message_system E" and "sendable E m" and "cipher_supported alg"
    and "\<And>n. length (key_rng n) = n" and "\<And>n. length (rng n) = n"
    and "encrypt_with_password E key_rng rng s2k alg pw m = Ok c"
  shows "message_decrypt_with_password E pw c = Some (Ok m)
    \<and> message_decrypt_with_password E pw (Msg_Signed (Some c) ops s) = Some (Ok m)"
  using assms by (rule decrypt_with_password_encrypt)

theorem password_message_decrypts_witness:
  "\<exists>c. encrypt_with_password std_msg (\<lambda>n. replicate n 3) (\<lambda>n. replicate n 7)
       (Salted Hash_SHA2_256 [1, 2, 3, 4, 5, 6, 7, 8]) Sym_AES128 [0x70] (Msg_Literal sample_literal) = Ok c
     \<and> message_decrypt_with_password std_msg [0x70] c = Some (Ok (Msg_Literal sample_literal))"
proof -
  let ?s = "Salted Hash_SHA2_256 [1, 2, 3, 4, 5, 6, 7, 8]" and ?k = "replicate 16 (3::u8)"
  have sup: "cipher_supported Sym_AES128" by (simp add: cipher_supported_def)
  have m: "sendable std_msg (Msg_Literal sample_literal)" using sample_literal_ok by (simp add: sendable_def)
  obtain p where "skesk_encrypt std_hash (\<lambda>_ _ _ _ _ _. None) std_cipher [0x70] ?k ?s Sym_AES128 = Ok p"
    using sample_skesk_made by blast
  moreover obtain c where "encrypt_symmetric std_msg (\<lambda>n. replicate n 7) [Esk_Sym p] Sym_AES128 ?k (Msg_Literal sample_literal) = Ok c"
    using std_msg.encrypt_symmetric_Ok [OF m sup, of ?k "\<lambda>n. replicate n 7"] by auto
  ultimately have "encrypt_with_password std_msg (\<lambda>n. replicate n 3) (\<lambda>n. replicate n 7) ?s Sym_AES128 [0x70]
      (Msg_Literal sample_literal) = Ok c"
    by (simp add: encrypt_with_password_def new_session_key_def)
  with password_message_decrypts [OF std_msg.message_system_axioms m sup _ _ this] show ?thesis by simp
qed



text \<open>
  Every operation on a message returns: whatever the message, the keys and the contained bytes,
  decompression, verification, decryption and access to the content come to a result, an error or (as for
  BZip2) a panic, since each parses nested data once and removes at most one layer of compression.
\<close>

theorem message_operations_return:
  assumes "message_system E"
  shows "(\<exists>r. message_decompress E m = Some r) \<and> (\<exists>r. message_verify E key m = Some r)
    \<and> (\<exists>r. get_content E m = Some r) \<and> (\<exists>r. message_decrypt E pw keys m = Some r)
    \<and> (\<exists>r. message_decrypt_with_password E pw m = Some r)"
  using message_system.operations_return [OF assms] by blast

theorem message_operations_return_witness:
  "(\<exists>r. message_decompress std_msg (Msg_Compressed (from_compressed Comp_ZIP [1, 2])) = Some r)
   \<and> (\<exists>r. message_verify std_msg rsa_signer (Msg_Compressed (from_compressed Comp_ZIP [1, 2])) = Some r)"
  using message_operations_return [OF std_msg.message_system_axioms,
      of "Msg_Compressed (from_compressed Comp_ZIP [1, 2])" rsa_signer] by blast

end
