(* ===== verification/Pgp_Base64.thy ===== *)
theory Pgp_Base64
  imports Pgp_Lines Pgp_Util "HOL-Library.Sublist"
begin

text \<open>
  Streaming base64 decoding: the reader that passes on base64 characters and skips line ends
  (\<open>src/src/base64_reader.rs\<close>) and the buffered decoder on top of it
  (\<open>src/src/base64_decoder.rs\<close>). Encoding and decoding of whole strings are functions of the crate
  \<open>base64\<close> and enter as a parameter, as does the room the inner buffer offers for a read.
\<close>

section \<open>The library\<close>

record b64_lib =
  b64_encode :: "bytes \<Rightarrow> bytes"
  b64_decode :: "bytes \<Rightarrow> bytes option"
  b64_writes :: "bytes \<Rightarrow> bytes list"
  b64_room :: "nat \<Rightarrow> nat"

abbreviation pad :: u8 where "pad \<equiv> 61"

definition b64_char :: "u8 \<Rightarrow> bool" where
  "b64_char c \<longleftrightarrow> is_base64_token c \<and> c \<noteq> lf \<and> c \<noteq> cr"

text \<open>
  What is relied on: groups of three bytes are encoded on their own, four characters each; a string
  that was encoded is decoded; a group cannot start with padding; the pieces the encoding writer
  passes on are the encoding; a buffer of 1024 bytes with less than four in it has room for four.
\<close>

locale b64_laws =
  fixes B :: b64_lib
  assumes encode_append: "3 dvd length x \<Longrightarrow> b64_encode B (x @ y) = b64_encode B x @ b64_encode B y"
    and encode_length: "length (b64_encode B x) = 4 * ((length x + 2) div 3)"
    and encode_chars: "list_all b64_char (b64_encode B x)"
    and decode_encode: "b64_decode B (b64_encode B x) = Some x"
    and decode_pad: "4 dvd length x \<Longrightarrow> b64_decode B (x @ pad # y) = None"
    and writes_encode: "concat (b64_writes B x) = b64_encode B x"
    and room: "k < 4 \<Longrightarrow> 4 \<le> b64_room B k"

section \<open>The reader\<close>

text \<open>
  \<open>Base64Reader::read\<close> into a slice of \<open>n\<close> bytes: what is read and the rest of the input. The outcome does
  not depend on the windows in which the source is buffered, since the loop refills them.
\<close>

fun b64_read :: "nat \<Rightarrow> bytes \<Rightarrow> (bytes \<times> bytes) res" where
  "b64_read n [] = Ok ([], [])"
| "b64_read n (c # r) =
     (if c = cr \<or> c = lf then b64_read n r
      else if \<not> is_base64_token c then Ok ([], c # r)
      else case n of
        0 \<Rightarrow> Panic
      | Suc m \<Rightarrow> if m = 0 then Ok ([c], r) else map_ok (\<lambda>(t, q). (c # t, q)) (b64_read m r))"

section \<open>The decoder\<close>

record b64_decoder =
  bd_src :: bytes
  bd_buf :: bytes
  bd_out :: bytes

definition bd_new :: "bytes \<Rightarrow> b64_decoder" where
  "bd_new src = \<lparr>bd_src = src, bd_buf = [], bd_out = []\<rparr>"

text \<open>\<open>try_decode_engine_slice\<close>: the longest prefix of whole groups that decodes.\<close>

function try_decode :: "b64_lib \<Rightarrow> bytes \<Rightarrow> nat \<Rightarrow> nat \<times> bytes" where
  "try_decode B i n =
     (if n = 0 then (0, [])
      else case b64_decode B (take n i) of
        Some d \<Rightarrow> (n, d)
      | None \<Rightarrow> try_decode B i (if n mod 4 \<noteq> 0 then n - n mod 4 else n - 4))"
  by pat_completeness auto
termination
  by (relation "measure (\<lambda>(B, i, n). n)") auto

declare try_decode.simps [simp del]

definition bd_fill :: "b64_lib \<Rightarrow> b64_decoder \<Rightarrow> b64_decoder res" where
  "bd_fill B s =
     (if length (bd_buf s) < 4 then
        map_ok (\<lambda>(t, r). s\<lparr>bd_buf := bd_buf s @ t, bd_src := r\<rparr>)
          (b64_read (b64_room B (length (bd_buf s))) (bd_src s))
      else Ok s)"

definition bd_read :: "b64_lib \<Rightarrow> nat \<Rightarrow> b64_decoder \<Rightarrow> (bytes \<times> b64_decoder) res" where
  "bd_read B n s =
     (if bd_out s \<noteq> [] then Ok (take n (bd_out s), s\<lparr>bd_out := drop n (bd_out s)\<rparr>)
      else and_then (bd_fill B s) (\<lambda>s.
        let buf = bd_buf s; nr = length buf div 4 * 4; nw = length buf div 4 * 3 in
        if buf = [] then Ok ([], s)
        else let (consumed, d) = try_decode B (take nr buf) nr; s1 = s\<lparr>bd_buf := drop consumed buf\<rparr> in
          if nw > n then Ok (take n d, s1\<lparr>bd_out := drop n d\<rparr>) else Ok (d, s1)))"

section \<open>Reading characters\<close>

text \<open>A text of base64 characters and line ends, and its characters.\<close>

definition b64_text :: "bytes \<Rightarrow> bool" where
  "b64_text t \<longleftrightarrow> (\<forall>c \<in> set t. is_base64_token c)"

definition b64_chars :: "bytes \<Rightarrow> bytes" where
  "b64_chars t = filter (\<lambda>c. c \<noteq> cr \<and> c \<noteq> lf) t"

definition text_end :: "bytes \<Rightarrow> bool" where
  "text_end r \<longleftrightarrow> r = [] \<or> \<not> is_base64_token (hd r)"

lemma b64_chars_simps [simp]:
  "b64_chars [] = []" "b64_chars (c # t) = (if c = cr \<or> c = lf then b64_chars t else c # b64_chars t)"
  "b64_chars (s @ t) = b64_chars s @ b64_chars t"
  by (simp_all add: b64_chars_def)

lemma b64_text_simps [simp]:
  "b64_text []" "b64_text (c # t) \<longleftrightarrow> is_base64_token c \<and> b64_text t" "b64_text (s @ t) \<longleftrightarrow> b64_text s \<and> b64_text t"
  by (auto simp: b64_text_def)

lemma b64_read_end: "text_end r \<Longrightarrow> b64_read n r = Ok ([], r)"
  by (cases r) (auto simp: text_end_def is_base64_token_def)

text \<open>Reading stops after the wanted number of characters, or in front of what is not base64.\<close>

lemma b64_read_text:
  "0 < n \<Longrightarrow> b64_text t \<Longrightarrow> text_end r \<Longrightarrow>
   \<exists>t1 t2. t1 @ t2 = t \<and> b64_read n (t @ r) = Ok (take n (b64_chars t), t2 @ r)
     \<and> b64_chars t1 = take n (b64_chars t) \<and> (length (b64_chars t) < n \<longrightarrow> t2 = [])"
proof (induction t arbitrary: n)
  case Nil
  then show ?case by (simp add: b64_read_end)
next
  case (Cons c t)
  have tx: "b64_text t" using Cons.prems(2) by simp
  show ?case
  proof (cases "c = cr \<or> c = lf")
    case True
    from Cons.IH [OF Cons.prems(1) tx Cons.prems(3)] obtain t1 t2 where "t1 @ t2 = t"
      "b64_read n (t @ r) = Ok (take n (b64_chars t), t2 @ r)" "b64_chars t1 = take n (b64_chars t)"
      "length (b64_chars t) < n \<longrightarrow> t2 = []" by blast
    with True have "(c # t1) @ t2 = c # t \<and> b64_read n ((c # t) @ r) = Ok (take n (b64_chars (c # t)), t2 @ r)
      \<and> b64_chars (c # t1) = take n (b64_chars (c # t)) \<and> (length (b64_chars (c # t)) < n \<longrightarrow> t2 = [])" by simp
    then show ?thesis by blast
  next
    case False
    obtain m where n: "n = Suc m" using Cons.prems(1) by (cases n) auto
    show ?thesis
    proof (cases "m = 0")
      case True
      with False n Cons.prems show ?thesis by (intro exI [of _ "[c]"] exI [of _ t]) auto
    next
      case False': False
      then have "0 < m" by simp
      from Cons.IH [OF this tx Cons.prems(3)] obtain t1 t2 where "t1 @ t2 = t"
        "b64_read m (t @ r) = Ok (take m (b64_chars t), t2 @ r)" "b64_chars t1 = take m (b64_chars t)"
        "length (b64_chars t) < m \<longrightarrow> t2 = []" by blast
      with False False' n Cons.prems(2)
      have "(c # t1) @ t2 = c # t \<and> b64_read n ((c # t) @ r) = Ok (take n (b64_chars (c # t)), t2 @ r)
        \<and> b64_chars (c # t1) = take n (b64_chars (c # t)) \<and> (length (b64_chars (c # t)) < n \<longrightarrow> t2 = [])" by simp
      then show ?thesis by blast
    qed
  qed
qed

section \<open>Decoding\<close>

context b64_laws
begin

lemma encode_Nil [simp]: "b64_encode B x = [] \<longleftrightarrow> x = []"
  using encode_length [of x] by (cases x) auto

lemma encode_take:
  assumes "4 dvd n" "n \<le> length (b64_encode B d)"
  shows "take n (b64_encode B d) = b64_encode B (take (n div 4 * 3) d)"
proof -
  obtain k where n: "n = 4 * k" using assms(1) by blast
  show ?thesis
  proof (cases "3 * k \<le> length d")
    case True
    then have "b64_encode B d = b64_encode B (take (3 * k) d) @ b64_encode B (drop (3 * k) d)"
      using encode_append [of "take (3 * k) d" "drop (3 * k) d"] by simp
    moreover have "length (b64_encode B (take (3 * k) d)) = n" using True n by (simp add: encode_length)
    ultimately show ?thesis using n by (simp add: mult.commute)
  next
    case False
    with assms(2) n have "length (b64_encode B d) = n" by (simp add: encode_length)
    with False n show ?thesis by simp
  qed
qed

lemma encode_Nil_eq [simp]: "b64_encode B [] = []" by simp

text \<open>
  A buffer of whole groups out of the encoding of \<open>d\<close>, possibly followed by a checksum, decodes up to
  the end of the encoding.
\<close>

lemma try_decode_groups:
  assumes "c = [] \<or> hd c = pad" "4 dvd n" "n \<le> nr" "nr \<le> length (b64_encode B d @ c)"
  shows "try_decode B (take nr (b64_encode B d @ c)) n
    = (min n (length (b64_encode B d)), take (min n (length (b64_encode B d)) div 4 * 3) d)"
  using assms(2,3)
proof (induction n rule: less_induct)
  case (less n)
  let ?e = "b64_encode B d"
  consider "n = 0" | "0 < n" "n \<le> length ?e" | "length ?e < n" by linarith
  then show ?case
  proof cases
    case 2
    with less.prems encode_take [of n d] show ?thesis
      by (subst try_decode.simps) (simp add: take_append decode_encode)
  next
    case 3
    have l4: "4 dvd length ?e" by (simp add: encode_length)
    have "c \<noteq> []" using 3 less.prems(2) assms(4) by auto
    with assms(1) obtain y where c: "c = pad # y" by (cases c) auto
    have "take n (take nr (?e @ c)) = ?e @ pad # take (n - length ?e - 1) y"
      using 3 less.prems(2) by (simp add: c take_Cons')
    then have "b64_decode B (take n (take nr (?e @ c))) = None"
      using decode_pad [OF l4] by simp
    moreover have "n \<ge> length ?e + 4" using 3 less.prems(1) l4 by (auto elim!: dvdE)
    then have "min (n - 4) (length ?e) = length ?e" "min n (length ?e) = length ?e" by simp_all
    moreover have "try_decode B (take nr (?e @ c)) (n - 4)
        = (min (n - 4) (length ?e), take (min (n - 4) (length ?e) div 4 * 3) d)"
      using 3 less.prems by (intro less.IH) (auto intro: dvd_diff_nat)
    ultimately show ?thesis
      using 3 less.prems(1) by (subst try_decode.simps) (auto simp: dvd_eq_mod_eq_0)
  qed (simp add: try_decode.simps)
qed

text \<open>
  The state of a decoder that has \<open>d\<close> still to deliver from a text \<open>T\<close>, before the checksum \<open>c\<close> and the
  rest \<open>r\<close> that is not base64.
\<close>

definition bd_inv :: "b64_decoder \<Rightarrow> bytes \<Rightarrow> bytes \<Rightarrow> bytes \<Rightarrow> bytes \<Rightarrow> bool" where
  "bd_inv s d c T r \<longleftrightarrow> (\<exists>t e. d = bd_out s @ e \<and> bd_src s = t @ r \<and> suffix t T \<and> b64_text T \<and> text_end r
     \<and> bd_buf s @ b64_chars t = b64_encode B e @ c) \<and> (c = [] \<or> hd c = pad)"

lemma bd_inv_new:
  assumes "b64_text T" "text_end r" "b64_chars T = b64_encode B d @ c" "c = [] \<or> hd c = pad"
  shows "bd_inv (bd_new (T @ r)) d c T r"
  using assms by (auto simp: bd_inv_def bd_new_def)

lemma bd_fill_inv:
  assumes "bd_inv s d c T r"
  shows "\<exists>s' t. bd_fill B s = Ok s' \<and> bd_out s' = bd_out s \<and> bd_inv s' d c T r \<and> bd_src s' = t @ r \<and> suffix t T
    \<and> (length (bd_buf s') < 4 \<longrightarrow> t = [])"
proof -
  obtain t e where i: "d = bd_out s @ e" "bd_src s = t @ r" "suffix t T" "b64_text T" "text_end r"
    "bd_buf s @ b64_chars t = b64_encode B e @ c" "c = [] \<or> hd c = pad"
    using assms by (auto simp: bd_inv_def)
  show ?thesis
  proof (cases "length (bd_buf s) < 4")
    case True
    let ?n = "b64_room B (length (bd_buf s))"
    have n: "4 \<le> ?n" using room [OF True] .
    have "b64_text t" using i(3,4) by (auto simp: suffix_def)
    moreover have "0 < ?n" using n by simp
    ultimately obtain t1 t2 where
      t: "t1 @ t2 = t" "b64_read ?n (t @ r) = Ok (take ?n (b64_chars t), t2 @ r)"
        "b64_chars t1 = take ?n (b64_chars t)" "length (b64_chars t) < ?n \<longrightarrow> t2 = []"
      using b64_read_text i(5) by blast
    have "suffix t2 T" using i(3) t(1) by (auto simp: suffix_def)
    let ?s = "s\<lparr>bd_buf := bd_buf s @ take ?n (b64_chars t), bd_src := t2 @ r\<rparr>"
    have f: "bd_fill B s = Ok ?s" using True i(2) t(2) by (simp add: bd_fill_def)
    have "b64_chars t = take ?n (b64_chars t) @ b64_chars t2"
      using arg_cong [OF t(1) [symmetric], of b64_chars] t(3) by simp
    then have "bd_buf ?s @ b64_chars t2 = b64_encode B e @ c" using i(6) by (simp; metis append_assoc)
    with i(1,4,5,7) \<open>suffix t2 T\<close> have "bd_inv ?s d c T r"
      unfolding bd_inv_def by (intro conjI exI [of _ t2] exI [of _ e]) simp_all
    moreover have "t2 = []" if "length (bd_buf ?s) < 4"
      using that n t(4) by simp
    ultimately show ?thesis using f \<open>suffix t2 T\<close> by auto
  next
    case False
    with assms i show ?thesis by (auto simp: bd_fill_def)
  qed
qed

lemma bd_read_out:
  assumes "bd_inv s d c T r" "bd_out s \<noteq> []" "0 < n"
  shows "\<exists>x d' s'. bd_read B n s = Ok (x, s') \<and> d = x @ d' \<and> x \<noteq> [] \<and> length x \<le> n \<and> bd_inv s' d' c T r"
proof -
  let ?s = "s\<lparr>bd_out := drop n (bd_out s)\<rparr>"
  obtain e where e: "d = bd_out s @ e" using assms(1) by (auto simp: bd_inv_def)
  have "bd_inv ?s (drop n (bd_out s) @ e) c T r"
    using assms(1) e by (auto simp: bd_inv_def)
  with assms(2,3) e show ?thesis
    by (rule_tac x = "take n (bd_out s)" in exI, rule_tac x = "drop n (bd_out s) @ e" in exI, rule_tac x = ?s in exI)
      (simp add: bd_read_def flip: append_assoc)
qed

text \<open>Whole groups of the text are decoded up to the end of the encoding.\<close>

lemma encode_split:
  assumes "4 dvd m" "m \<le> length (b64_encode B d)"
  shows "b64_encode B d = take m (b64_encode B d) @ b64_encode B (drop (m div 4 * 3) d)"
proof (cases "m div 4 * 3 \<le> length d")
  case True
  then have "3 dvd length (take (m div 4 * 3) d)" by simp
  from encode_append [OF this, of "drop (m div 4 * 3) d"] show ?thesis unfolding encode_take [OF assms] by simp
qed (simp add: encode_take [OF assms])

lemma try_decode_prefix:
  assumes "buf @ t = b64_encode B d @ c" "c = [] \<or> hd c = pad" "n \<le> length buf" "4 dvd n"
  shows "try_decode B (take n buf) n
    = (min n (length (b64_encode B d)), take (min n (length (b64_encode B d)) div 4 * 3) d)"
proof -
  have "take n buf = take n (b64_encode B d @ c)" using assms(3) unfolding assms(1) [symmetric] by simp
  moreover have "n \<le> length (b64_encode B d @ c)" using arg_cong [OF assms(1), of length] assms(3) by simp
  ultimately show ?thesis using try_decode_groups [OF assms(2), of n n d] assms(4) by simp
qed

text \<open>One read: it delivers a part of what is left, and nothing only when nothing is left.\<close>

lemma bd_read_fresh:
  assumes "bd_inv s d c T r" "bd_out s = []" "d \<noteq> []" "0 < n"
  shows "\<exists>x d' s'. bd_read B n s = Ok (x, s') \<and> d = x @ d' \<and> x \<noteq> [] \<and> length x \<le> n \<and> bd_inv s' d' c T r"
proof -
  obtain s1 where f: "bd_fill B s = Ok s1" "bd_out s1 = []" "bd_inv s1 d c T r"
    and full: "length (bd_buf s1) < 4 \<longrightarrow> bd_src s1 = r"
    using bd_fill_inv [OF assms(1)] assms(2) by auto
  then obtain t where t: "bd_src s1 = t @ r" "suffix t T" "b64_text T" "text_end r"
    "bd_buf s1 @ b64_chars t = b64_encode B d @ c" "c = [] \<or> hd c = pad"
    by (auto simp: bd_inv_def)
  let ?e = "b64_encode B d" and ?buf = "bd_buf s1"
  let ?nr = "length ?buf div 4 * 4" and ?nw = "length ?buf div 4 * 3"
  have e4: "4 \<le> length ?e" using assms(3) by (cases d) (simp_all add: encode_length)
  have b4: "4 \<le> length ?buf"
  proof (rule ccontr)
    assume n4: "\<not> 4 \<le> length ?buf"
    with full t(1) have "t = []" by simp
    with t(5) have "?buf = ?e @ c" by simp
    with n4 e4 show False by simp
  qed
  let ?m = "min ?nr (length ?e)"
  have dec: "try_decode B (take ?nr ?buf) ?nr = (?m, take (?m div 4 * 3) d)"
    by (rule try_decode_prefix [OF t(5,6)]) simp_all
  define k where "k = ?m div 4 * 3"
  have m: "4 dvd ?m" "4 \<le> ?m" "?m \<le> length ?e" "?m \<le> length ?buf" using b4 e4 by (auto simp: encode_length min_def)
  have k: "0 < k" "k \<le> ?nw" using m(2) by (auto simp: k_def min_def)
  have split: "?e = take ?m ?e @ b64_encode B (drop k d)" unfolding k_def by (rule encode_split [OF m(1,3)])
  let ?s = "\<lambda>q. s1\<lparr>bd_buf := drop ?m ?buf, bd_out := q\<rparr>"
  have "drop ?m ?buf @ b64_chars t = drop ?m (?e @ c)"
    using m(4) unfolding t(5) [symmetric] by simp
  also have "\<dots> = b64_encode B (drop k d) @ c"
    using m(3) by (subst split) simp
  finally have rest: "drop ?m ?buf @ b64_chars t = b64_encode B (drop k d) @ c" .
  have inv: "bd_inv (?s q) (q @ drop k d) c T r" for q
    using t rest by (auto simp: bd_inv_def)
  have ne: "take k d \<noteq> []" using k(1) assms(3) by simp
  show ?thesis
  proof (cases "?nw > n")
    case True
    then have "bd_read B n s = Ok (take n (take k d), ?s (drop n (take k d)))"
      using f(1,2) assms(2) b4 dec by (auto simp: bd_read_def Let_def k_def)
    with inv [of "drop n (take k d)"] ne assms(4) show ?thesis
      by (rule_tac x = "take n (take k d)" in exI, rule_tac x = "drop n (take k d) @ drop k d" in exI,
          rule_tac x = "?s (drop n (take k d))" in exI) (simp flip: append_assoc del: take_take)
  next
    case False
    have "bd_read B n s = Ok (take k d, ?s [])"
      using False f(1,2) assms(2) b4 dec by (auto simp: bd_read_def Let_def k_def)
    with inv [of "[]"] ne k False show ?thesis
      by (rule_tac x = "take k d" in exI, rule_tac x = "drop k d" in exI, rule_tac x = "?s []" in exI) auto
  qed
qed

lemma bd_read_some:
  assumes "bd_inv s d c T r" "d \<noteq> []" "0 < n"
  shows "\<exists>x d' s'. bd_read B n s = Ok (x, s') \<and> d = x @ d' \<and> x \<noteq> [] \<and> length x \<le> n \<and> bd_inv s' d' c T r"
  using bd_read_out bd_read_fresh assms by (cases "bd_out s = []") blast+

text \<open>The text left over at the end, seen through the character filter, is the checksum and line ends.\<close>

lemma buffer_ends:
  assumes "b @ b64_chars t = c" "suffix t T" "T = T0 @ c @ nl" "b64_chars nl = []" "b64_chars c = c"
    and "length b < 4 \<longrightarrow> t = []"
  shows "\<exists>nl'. b @ t = c @ nl' \<and> suffix nl' nl"
proof (cases "t = []")
  case True
  with assms(1) show ?thesis by auto
next
  case False
  with assms(2,3) consider "suffix t nl" | c2 where "t = c2 @ nl" "suffix c2 c" | T2 where "t = T2 @ c @ nl"
    by (auto simp: suffix_append)
  then show ?thesis
  proof cases
    case 1
    then have "b64_chars t = []" using assms(4) by (auto simp: suffix_def)
    with assms(1) 1 show ?thesis by auto
  next
    case (2 c2)
    have "b64_chars c2 = c2" using 2(2) assms(5) by (auto simp: b64_chars_def suffix_def filter_id_conv)
    with 2(1) assms(1,4) show ?thesis by auto
  next
    case (3 T2)
    then have "length c \<le> length (b64_chars t)" using assms(5) by simp
    with arg_cong [OF assms(1), of length] False assms(6) show ?thesis by simp
  qed
qed

text \<open>
  At the end the buffer and the source together hold the checksum and what follows it.
\<close>

lemma bd_read_end:
  assumes "bd_inv s [] c T r" "T = T0 @ c @ nl" "b64_chars nl = []" "b64_chars c = c"
  shows "\<exists>s' nl'. bd_read B n s = Ok ([], s') \<and> bd_buf s' @ bd_src s' = c @ nl' @ r \<and> suffix nl' nl"
proof -
  have out: "bd_out s = []" using assms(1) by (auto simp: bd_inv_def)
  obtain s1 t where f: "bd_fill B s = Ok s1" "bd_out s1 = []" "bd_inv s1 [] c T r" "bd_src s1 = t @ r"
      "suffix t T" "length (bd_buf s1) < 4 \<longrightarrow> t = []"
    using bd_fill_inv [OF assms(1)] out by auto
  then have b: "bd_buf s1 @ b64_chars t = c" "c = [] \<or> hd c = pad"
    by (auto simp: bd_inv_def)
  let ?nr = "length (bd_buf s1) div 4 * 4"
  have dec: "try_decode B (take ?nr (bd_buf s1)) ?nr = (0, [])"
    using try_decode_prefix [of "bd_buf s1" "b64_chars t" "[]" c ?nr] b by simp
  have "bd_read B n s = Ok ([], s1\<lparr>bd_out := []\<rparr>) \<or> bd_read B n s = Ok ([], s1)"
    using out f(1,2) dec by (auto simp: bd_read_def Let_def)
  then obtain s' where s': "bd_read B n s = Ok ([], s')" "bd_buf s' = bd_buf s1" "bd_src s' = bd_src s1" by auto
  obtain nl' where "bd_buf s1 @ t = c @ nl'" "suffix nl' nl"
    using buffer_ends [OF b(1) f(5) assms(2-4) f(6)] by blast
  with s' f(4) show ?thesis by auto
qed

end

section \<open>The standard alphabet\<close>

text \<open>Base64 as RFC 4648 defines it satisfies the laws.\<close>

definition std_sym :: "nat \<Rightarrow> u8" where
  "std_sym n = (if n < 26 then of_nat (n + 65) else if n < 52 then of_nat (n + 71) else if n < 62 then of_nat (n - 4)
     else if n = 62 then 43 else 47)"

definition std_val :: "u8 \<Rightarrow> nat option" where
  "std_val c = (if 65 \<le> c \<and> c \<le> 90 then Some (unat c - 65) else if 97 \<le> c \<and> c \<le> 122 then Some (unat c - 71)
     else if 48 \<le> c \<and> c \<le> 57 then Some (unat c + 4) else if c = 43 then Some 62 else if c = 47 then Some 63 else None)"

fun std_encode :: "bytes \<Rightarrow> bytes" where
  "std_encode [] = []"
| "std_encode [a] = [std_sym (unat a div 4), std_sym (unat a mod 4 * 16), pad, pad]"
| "std_encode [a, b] = [std_sym (unat a div 4), std_sym (unat a mod 4 * 16 + unat b div 16),
     std_sym (unat b mod 16 * 4), pad]"
| "std_encode (a # b # c # r) = [std_sym (unat a div 4), std_sym (unat a mod 4 * 16 + unat b div 16),
     std_sym (unat b mod 16 * 4 + unat c div 64), std_sym (unat c mod 64)] @ std_encode r"

definition std_group :: "nat option list \<Rightarrow> bytes option" where
  "std_group vs =
     (case vs of
        [Some w, Some x] \<Rightarrow> if x mod 16 = 0 then Some [of_nat (w * 4 + x div 16)] else None
      | [Some w, Some x, Some y] \<Rightarrow>
          if y mod 4 = 0 then Some [of_nat (w * 4 + x div 16), of_nat (x mod 16 * 16 + y div 4)] else None
      | [Some w, Some x, Some y, Some z] \<Rightarrow>
          Some [of_nat (w * 4 + x div 16), of_nat (x mod 16 * 16 + y div 4), of_nat (y mod 4 * 64 + z)]
      | _ \<Rightarrow> None)"

fun std_decode :: "bytes \<Rightarrow> bytes option" where
  "std_decode [] = Some []"
| "std_decode (w # x # y # z # r) =
     (if z = pad \<and> r = [] then
        if y = pad then std_group [std_val w, std_val x] else std_group [std_val w, std_val x, std_val y]
      else case std_group [std_val w, std_val x, std_val y, std_val z] of
        None \<Rightarrow> None | Some d \<Rightarrow> map_option ((@) d) (std_decode r))"
| "std_decode _ = None"

definition std_b64 :: b64_lib where
  "std_b64 = \<lparr>b64_encode = std_encode, b64_decode = std_decode, b64_writes = (\<lambda>d. [std_encode d]), b64_room = (\<lambda>k. 1024 - k)\<rparr>"

lemma std_sym_all: "list_all (\<lambda>n. std_val (std_sym n) = Some n \<and> std_sym n \<noteq> pad \<and> b64_char (std_sym n)) [0..<64]"
  by code_simp

lemma std_sym [simp]:
  assumes "n < 64"
  shows "std_val (std_sym n) = Some n" "std_sym n \<noteq> pad" "b64_char (std_sym n)"
  using std_sym_all assms by (auto simp: list_all_iff)

lemma std_val_pad [simp]: "std_val pad = None" by (simp add: std_val_def)

lemma unat_u8_parts:
  fixes a :: u8
  shows "unat a div 4 < 64" "unat a div 16 < 16" "unat a div 64 < 4" "unat a mod 4 * 16 < 64" "unat a mod 16 * 4 < 64"
    "unat a mod 64 < 64"
  using unat_u8 [of a] by (simp_all add: less_mult_imp_div_less del: unat_u8)

lemma std_join_less:
  fixes a b c :: u8
  shows "unat a mod 4 * 16 + unat b div 16 < 64" "unat b mod 16 * 4 + unat c div 64 < 64"
  using unat_u8_parts(2) [of b] unat_u8_parts(3) [of c] mod_less_divisor [of 4 "unat a"] mod_less_divisor [of 16 "unat b"]
  by linarith+

lemma std_join:
  fixes a b c :: u8
  shows "(unat a mod 4 * 16 + unat b div 16) div 16 = unat a mod 4"
    "(unat a mod 4 * 16 + unat b div 16) mod 16 = unat b div 16"
    "(unat b mod 16 * 4 + unat c div 64) div 4 = unat b mod 16"
    "(unat b mod 16 * 4 + unat c div 64) mod 4 = unat c div 64"
  using unat_u8_parts [of b] unat_u8_parts [of c] by simp_all

lemma of_nat_parts:
  fixes a :: u8
  shows "of_nat (unat a div k) * of_nat k + of_nat (unat a mod k) = a"
proof -
  have "of_nat (unat a div k) * of_nat k + of_nat (unat a mod k) = (of_nat (unat a div k * k + unat a mod k) :: u8)"
    by (simp only: of_nat_add of_nat_mult)
  also have "\<dots> = a" by (metis div_mult_mod_eq of_nat_unat ucast_id)
  finally show ?thesis .
qed

lemmas std_parts = unat_u8_parts std_join_less std_join of_nat_parts [of _ 4, simplified] of_nat_parts [of _ 16, simplified]
  of_nat_parts [of _ 64, simplified]

lemma std_decode_encode: "std_decode (std_encode d) = Some d"
  by (induction d rule: std_encode.induct) (simp_all add: std_group_def std_parts)

lemma dvd4_Suc: "4 dvd Suc (Suc (Suc (Suc n))) \<longleftrightarrow> 4 dvd n" by presburger

lemma std_decode_pad: "4 dvd length x \<Longrightarrow> std_decode (x @ pad # y) = None"
proof (induction x rule: std_decode.induct)
  case 1
  show ?case by (cases "pad # y" rule: std_decode.cases) (auto simp: std_group_def)
next
  case (2 w x y' z r)
  show ?case
  proof (cases "z = pad \<and> r = []")
    case True
    then show ?thesis by (simp add: std_group_def split: option.splits)
  next
    case False
    with 2 show ?thesis by (auto simp: dvd4_Suc split: option.splits)
  qed
qed (simp_all, presburger+)

lemma std_encode_append: "3 dvd length x \<Longrightarrow> std_encode (x @ y) = std_encode x @ std_encode y"
proof (induction x rule: std_encode.induct)
  case (4 a b c r)
  then have "3 dvd length r" by (simp; presburger)
  with 4 show ?case by simp
qed (simp_all, presburger+)

lemma std_encode_length: "length (std_encode x) = 4 * ((length x + 2) div 3)"
proof (induction x rule: std_encode.induct)
  case (4 a b c r)
  have "(5 + length r) div 3 = (length r + 2) div 3 + 1" by presburger
  with 4 show ?case by simp
qed simp_all

lemma std_encode_chars: "list_all b64_char (std_encode x)"
proof -
  have "b64_char pad" by (simp add: b64_char_def is_base64_token_def)
  then show ?thesis by (induction x rule: std_encode.induct) (simp_all add: std_parts)
qed

interpretation std_b64: b64_laws std_b64
  by unfold_locales (simp_all add: std_b64_def std_decode_encode std_decode_pad std_encode_append std_encode_length
      std_encode_chars)

end
