(* ===== verification/Pgp_Armor_Text.thy ===== *)
theory Pgp_Armor_Text
  imports Pgp_Signature Pgp_Base64 "HOL-Library.List_Lexorder"
begin

text \<open>
  The text around armored data (the parsers of \<open>src/src/armor/reader.rs\<close> and the header of
  \<open>src/src/armor/writer.rs\<close>): block types, header lines with their key-value pairs, the \<open>Hash\<close> lines of
  cleartext messages, and the footer with its checksum. The streaming text parsers of \<open>nom\<close> are a
  parameter whose laws fix their documented behaviour, in particular when they ask for more input.
\<close>

section \<open>Text parsers of nom\<close>

record text_lib =
  tx_tag :: "bytes \<Rightarrow> bytes \<Rightarrow> bytes parsed"
  tx_take :: "nat \<Rightarrow> bytes \<Rightarrow> bytes parsed"
  tx_take_until :: "bytes \<Rightarrow> bytes \<Rightarrow> bytes parsed"
  tx_take_until1 :: "bytes \<Rightarrow> bytes \<Rightarrow> bytes parsed"
  tx_digit1 :: "bytes \<Rightarrow> bytes parsed"
  tx_alphanumeric1 :: "bytes \<Rightarrow> bytes parsed"
  tx_space0 :: "bytes \<Rightarrow> bytes parsed"
  tx_line_ending :: "bytes \<Rightarrow> bytes parsed"
  tx_not_line_ending :: "bytes \<Rightarrow> bytes parsed"

text \<open>A tag that is cut off by the end of the input is incomplete, any other mismatch is an error.\<close>

fun tag_rest :: "bytes \<Rightarrow> bytes \<Rightarrow> (bytes, nom_err) result" where
  "tag_rest [] i = Ok i"
| "tag_rest (c # t) [] = Err (NomIncomplete (Size (Suc (length t))))"
| "tag_rest (c # t) (d # i) = (if c = d then tag_rest t i else Err (NomError (from_error_kind KTag)))"

definition text_tag :: "bytes \<Rightarrow> bytes \<Rightarrow> bytes parsed" where
  "text_tag t i = map_ok (\<lambda>r. (r, t)) (tag_rest t i)"

text \<open>The position of the first occurrence of a string.\<close>

fun find_sub :: "bytes \<Rightarrow> bytes \<Rightarrow> nat option" where
  "find_sub t [] = (if t = [] then Some 0 else None)"
| "find_sub t (c # i) = (if is_ok (tag_rest t (c # i)) then Some 0 else map_option Suc (find_sub t i))"

definition std_take_until :: "bytes \<Rightarrow> bytes \<Rightarrow> bytes parsed" where
  "std_take_until t i = (case find_sub t i of
     None \<Rightarrow> Err (NomIncomplete Unknown) | Some k \<Rightarrow> Ok (drop k i, take k i))"

definition std_take_until1 :: "bytes \<Rightarrow> bytes \<Rightarrow> bytes parsed" where
  "std_take_until1 t i = (case find_sub t i of
     None \<Rightarrow> Err (NomIncomplete Unknown)
   | Some k \<Rightarrow> if k = 0 then Err (NomError (from_error_kind KTakeUntil)) else Ok (drop k i, take k i))"

text \<open>The longest prefix of bytes with a property; it has to be ended by another byte.\<close>

definition std_span :: "(u8 \<Rightarrow> bool) \<Rightarrow> bytes \<Rightarrow> bytes parsed" where
  "std_span P i = (if dropWhile P i = [] then Err (NomIncomplete (Size 1)) else Ok (dropWhile P i, takeWhile P i))"

definition std_span1 :: "error_kind \<Rightarrow> (u8 \<Rightarrow> bool) \<Rightarrow> bytes \<Rightarrow> bytes parsed" where
  "std_span1 k P i = and_then (std_span P i) (\<lambda>(r, x).
     if x = [] then Err (NomError (from_error_kind k)) else Ok (r, x))"

definition is_digit :: "u8 \<Rightarrow> bool" where
  "is_digit c \<longleftrightarrow> 48 \<le> c \<and> c \<le> 57"

fun std_line_ending :: "bytes \<Rightarrow> bytes parsed" where
  "std_line_ending [] = Err (NomIncomplete (Size 1))"
| "std_line_ending (c # i) =
     (if c = lf then Ok (i, [lf])
      else if c = cr then (case i of
          [] \<Rightarrow> Err (NomIncomplete (Size 2))
        | d # r \<Rightarrow> if d = lf then Ok (r, [cr, lf]) else Err (NomError (from_error_kind KCrLf)))
      else Err (NomError (from_error_kind KCrLf)))"

definition std_not_line_ending :: "bytes \<Rightarrow> bytes parsed" where
  "std_not_line_ending i =
     (let l = takeWhile (\<lambda>c. c \<noteq> cr \<and> c \<noteq> lf) i; r = dropWhile (\<lambda>c. c \<noteq> cr \<and> c \<noteq> lf) i in
      case r of
        [] \<Rightarrow> Err (NomIncomplete Unknown)
      | c # q \<Rightarrow>
          if c = lf then Ok (r, l)
          else (case q of
              [] \<Rightarrow> Err (NomIncomplete Unknown)
            | d # _ \<Rightarrow> if d = lf then Ok (r, l) else Err (NomError (from_error_kind KTag))))"

locale text_laws =
  fixes T :: text_lib
  assumes tag_eq [simp]: "tx_tag T = text_tag"
    and take_eq [simp]: "tx_take T = std_take"
    and take_until_eq [simp]: "tx_take_until T = std_take_until"
    and take_until1_eq [simp]: "tx_take_until1 T = std_take_until1"
    and digit1_eq [simp]: "tx_digit1 T = std_span1 KDigit is_digit"
    and alphanumeric1_eq [simp]: "tx_alphanumeric1 T = std_span1 KAlphaNumeric is_alphanumeric"
    and space0_eq [simp]: "tx_space0 T = std_span (\<lambda>c. c = 32 \<or> c = 9)"
    and line_ending_eq [simp]: "tx_line_ending T = std_line_ending"
    and not_line_ending_eq [simp]: "tx_not_line_ending T = std_not_line_ending"

definition std_text :: text_lib where
  "std_text = \<lparr>tx_tag = text_tag, tx_take = std_take, tx_take_until = std_take_until,
     tx_take_until1 = std_take_until1, tx_digit1 = std_span1 KDigit is_digit,
     tx_alphanumeric1 = std_span1 KAlphaNumeric is_alphanumeric,
     tx_space0 = std_span (\<lambda>c. c = 32 \<or> c = 9), tx_line_ending = std_line_ending,
     tx_not_line_ending = std_not_line_ending\<rparr>"

interpretation std_text: text_laws std_text
  by unfold_locales (simp_all add: std_text_def)

text \<open>\<open>alt\<close> goes on after an error only, \<open>opt\<close> turns an error into \<open>None\<close>.\<close>

fun alts :: "(bytes \<Rightarrow> 'a parsed) list \<Rightarrow> bytes \<Rightarrow> 'a parsed" where
  "alts [] i = Err (NomError (from_error_kind KSwitch))"
| "alts (p # ps) i = (case p i of
     Err (NomError e) \<Rightarrow> if ps = [] then Err (NomError e) else alts ps i | r \<Rightarrow> r)"

definition popt :: "(bytes \<Rightarrow> 'a parsed) \<Rightarrow> bytes \<Rightarrow> 'a option parsed" where
  "popt p i = (case p i of Err (NomError _) \<Rightarrow> Ok (i, None) | r \<Rightarrow> pmap Some r)"

definition str :: "string \<Rightarrow> bytes" where
  "str s = map (\<lambda>c. of_nat (of_char c)) s"

lemma str_simps [simp]: "str [] = []" "str (c # s) = of_nat (of_char c) # str s"
  by (simp_all add: str_def)

section \<open>Block types\<close>

datatype pkcs1_type = Pkcs1_RSA | Pkcs1_DSA | Pkcs1_EC

datatype block_type =
    Bt_PublicKey
  | Bt_PublicKeyPKCS1 pkcs1_type
  | Bt_PublicKeyPKCS8
  | Bt_PublicKeyOpenssh
  | Bt_PrivateKey
  | Bt_PrivateKeyPKCS1 pkcs1_type
  | Bt_PrivateKeyPKCS8
  | Bt_PrivateKeyOpenssh
  | Bt_Message
  | Bt_MultiPartMessage nat nat
  | Bt_Signature
  | Bt_File
  | Bt_CleartextMessage

text \<open>The decimal image of a \<open>usize\<close>, and parsing it back; a \<open>usize\<close> has 64 bits.\<close>

fun dec :: "nat \<Rightarrow> bytes" where
  "dec n = (if n < 10 then [48 + of_nat n] else dec (n div 10) @ [48 + of_nat (n mod 10)])"

declare dec.simps [simp del]

definition dec_value :: "bytes \<Rightarrow> nat" where
  "dec_value s = foldl (\<lambda>v c. v * 10 + (unat c - 48)) 0 s"

definition parse_usize :: "bytes \<Rightarrow> nat res" where
  "parse_usize s =
     (let ds = (case s of [] \<Rightarrow> [] | c # r \<Rightarrow> if c = 43 \<and> r \<noteq> [] then r else s) in
      if ds = [] \<or> \<not> list_all is_digit ds \<or> dec_value ds \<ge> 2 ^ 64 then Err ParseIntError else Ok (dec_value ds))"

definition parse_digit :: "bytes \<Rightarrow> nat res" where
  "parse_digit x = and_then (str_from_utf8 x) parse_usize"

fun pkcs1_string :: "pkcs1_type \<Rightarrow> bytes" where
  "pkcs1_string Pkcs1_RSA = str ''RSA''"
| "pkcs1_string Pkcs1_DSA = str ''DSA''"
| "pkcs1_string Pkcs1_EC = str ''EC''"

fun block_type_string :: "block_type \<Rightarrow> bytes" where
  "block_type_string Bt_PublicKey = str ''PGP PUBLIC KEY BLOCK''"
| "block_type_string Bt_PrivateKey = str ''PGP PRIVATE KEY BLOCK''"
| "block_type_string (Bt_MultiPartMessage x y) = str ''PGP MESSAGE, PART '' @ dec x @ str ''/'' @ dec y"
| "block_type_string Bt_Message = str ''PGP MESSAGE''"
| "block_type_string Bt_Signature = str ''PGP SIGNATURE''"
| "block_type_string Bt_File = str ''PGP ARMORED FILE''"
| "block_type_string (Bt_PublicKeyPKCS1 t) = pkcs1_string t @ str '' PUBLIC KEY''"
| "block_type_string Bt_PublicKeyPKCS8 = str ''PUBLIC KEY''"
| "block_type_string Bt_PublicKeyOpenssh = str ''OPENSSH PUBLIC KEY''"
| "block_type_string (Bt_PrivateKeyPKCS1 t) = pkcs1_string t @ str '' PRIVATE KEY''"
| "block_type_string Bt_PrivateKeyPKCS8 = str ''PRIVATE KEY''"
| "block_type_string Bt_PrivateKeyOpenssh = str ''OPENSSH PRIVATE KEY''"
| "block_type_string Bt_CleartextMessage = str ''PGP SIGNED MESSAGE''"

definition armor_header_sep :: "text_lib \<Rightarrow> bytes \<Rightarrow> bytes parsed" where
  "armor_header_sep T i = tx_tag T (str ''-----'') i"

definition tagged :: "text_lib \<Rightarrow> string \<Rightarrow> block_type \<Rightarrow> bytes \<Rightarrow> block_type parsed" where
  "tagged T s b i = pmap (\<lambda>_. b) (tx_tag T (str s) i)"

definition part_number :: "text_lib \<Rightarrow> bytes \<Rightarrow> nat parsed" where
  "part_number T i = pmap_res parse_digit (tx_digit1 T i)"

definition multi_part :: "text_lib \<Rightarrow> bytes \<Rightarrow> block_type parsed" where
  "multi_part T i =
     and_then (tx_tag T (str ''PGP MESSAGE, PART '') i) (\<lambda>(i, _).
     and_then (part_number T i) (\<lambda>(i, x).
     and_then (popt (\<lambda>i. and_then (tx_tag T (str ''/'') i) (\<lambda>(i, _). part_number T i)) i) (\<lambda>(i, y).
       Ok (i, Bt_MultiPartMessage x (case y of Some y \<Rightarrow> y | None \<Rightarrow> 0)))))"

definition armor_header_type :: "text_lib \<Rightarrow> bytes \<Rightarrow> block_type parsed" where
  "armor_header_type T = alts
     [tagged T ''PGP PUBLIC KEY BLOCK'' Bt_PublicKey,
      tagged T ''PGP PRIVATE KEY BLOCK'' Bt_PrivateKey,
      multi_part T,
      tagged T ''PGP MESSAGE'' Bt_Message,
      tagged T ''PGP SIGNATURE'' Bt_Signature,
      tagged T ''PGP ARMORED FILE'' Bt_File,
      tagged T ''PGP SIGNED MESSAGE'' Bt_CleartextMessage,
      tagged T ''RSA PUBLIC KEY'' (Bt_PublicKeyPKCS1 Pkcs1_RSA),
      tagged T ''DSA PUBLIC KEY'' (Bt_PublicKeyPKCS1 Pkcs1_DSA),
      tagged T ''EC PUBLIC KEY'' (Bt_PublicKeyPKCS1 Pkcs1_EC),
      tagged T ''PUBLIC KEY'' Bt_PublicKeyPKCS8,
      tagged T ''OPENSSH PUBLIC KEY'' Bt_PublicKeyOpenssh,
      tagged T ''RSA PRIVATE KEY'' (Bt_PrivateKeyPKCS1 Pkcs1_RSA),
      tagged T ''DSA PRIVATE KEY'' (Bt_PrivateKeyPKCS1 Pkcs1_DSA),
      tagged T ''EC PRIVATE KEY'' (Bt_PrivateKeyPKCS1 Pkcs1_EC),
      tagged T ''PRIVATE KEY'' Bt_PrivateKeyPKCS8,
      tagged T ''OPENSSH PRIVATE KEY'' Bt_PrivateKeyOpenssh]"

definition armor_header_line :: "text_lib \<Rightarrow> bytes \<Rightarrow> block_type parsed" where
  "armor_header_line T i =
     and_then (armor_header_sep T i) (\<lambda>(i, _).
     and_then (tx_tag T (str ''BEGIN '') i) (\<lambda>(i, _).
     and_then (armor_header_type T i) (\<lambda>(i, typ).
     and_then (armor_header_sep T i) (\<lambda>(i, _).
     and_then (tx_line_ending T i) (\<lambda>(i, _). Ok (i, typ))))))"

section \<open>Headers\<close>

text \<open>A \<open>BTreeMap\<close> from keys to their values: an association list sorted by key.\<close>

type_synonym headers = "(bytes \<times> bytes list) list"

text \<open>\<open>entry(k).or_default().push(v)\<close>.\<close>

fun bt_push :: "bytes \<Rightarrow> bytes \<Rightarrow> headers \<Rightarrow> headers" where
  "bt_push k v [] = [(k, [v])]"
| "bt_push k v ((j, vs) # h) =
     (if k = j then (j, vs @ [v]) # h else if k < j then (k, [v]) # (j, vs) # h else (j, vs) # bt_push k v h)"

definition key_value_pair :: "text_lib \<Rightarrow> bytes \<Rightarrow> (bytes \<times> bytes) parsed" where
  "key_value_pair T i =
     and_then (pmap_res str_from_utf8 (alts
       [\<lambda>i. pcomplete (tx_take_until1 T [58, cr, lf] i),
        \<lambda>i. pcomplete (tx_take_until1 T [58, lf] i),
        \<lambda>i. pcomplete (tx_take_until1 T [58, 32] i)] i)) (\<lambda>(i, key).
     and_then (tx_tag T [58] i) (\<lambda>(i, _).
     and_then (alts [tx_tag T [32], tx_line_ending T] i) (\<lambda>(i, t).
       if t = [32] then
         and_then (pmap_res str_from_utf8 (tx_not_line_ending T i)) (\<lambda>(i, v).
         and_then (tx_line_ending T i) (\<lambda>(i, _). Ok (i, (key, v))))
       else Ok (i, (key, [])))))"

definition key_value_pairs :: "text_lib \<Rightarrow> bytes \<Rightarrow> (bytes \<times> bytes) list parsed" where
  "key_value_pairs T i = many0 (\<lambda>i. pcomplete (key_value_pair T i)) i"

definition armor_headers :: "text_lib \<Rightarrow> bytes \<Rightarrow> headers parsed" where
  "armor_headers T i = pmap (\<lambda>ps. fold (\<lambda>(k, v). bt_push k v) ps []) (key_value_pairs T i)"

definition hash_header_line :: "text_lib \<Rightarrow> bytes \<Rightarrow> bytes list parsed" where
  "hash_header_line T i =
     and_then (tx_tag T (str ''Hash: '') i) (\<lambda>(i, _).
     and_then (many0 (\<lambda>i. pmap_res str_from_utf8 (and_then (tx_alphanumeric1 T i) (\<lambda>(i, x).
        and_then (tx_tag T (str '','') i) (\<lambda>(i, _). Ok (i, x))))) i) (\<lambda>(i, values).
     and_then (pmap_res str_from_utf8 (tx_alphanumeric1 T i)) (\<lambda>(i, last).
     and_then (tx_line_ending T i) (\<lambda>(i, _). Ok (i, values @ [last])))))"

definition blank_line :: "text_lib \<Rightarrow> bytes \<Rightarrow> unit parsed" where
  "blank_line T i = and_then (tx_space0 T i) (\<lambda>(i, _). pmap (\<lambda>_. ()) (tx_line_ending T i))"

definition armor_headers_hash :: "text_lib \<Rightarrow> bytes \<Rightarrow> headers parsed" where
  "armor_headers_hash T i =
     and_then (many0 (\<lambda>i. pcomplete (hash_header_line T i)) i) (\<lambda>(i, hs).
     and_then (blank_line T i) (\<lambda>(i, _). Ok (i, [(str ''Hash'', concat hs)])))"

definition armor_header :: "text_lib \<Rightarrow> bytes \<Rightarrow> (block_type \<times> headers) parsed" where
  "armor_header T i =
     and_then (armor_header_line T i) (\<lambda>(i, typ).
     and_then (if typ = Bt_CleartextMessage then armor_headers_hash T i else armor_headers T i) (\<lambda>(i, hs).
       Ok (i, (typ, hs))))"

definition armor_header_parser :: "text_lib \<Rightarrow> bytes \<Rightarrow> (block_type \<times> headers \<times> bool) parsed" where
  "armor_header_parser T i =
     and_then (tx_take_until T (str ''-----'') i) (\<lambda>(i, prefix).
     and_then (armor_header T i) (\<lambda>(i, (typ, hs)).
     and_then (many0 (blank_line T) i) (\<lambda>(i, _). Ok (i, (typ, hs, prefix \<noteq> [])))))"

section \<open>The footer\<close>

text \<open>
  \<open>read_checksum\<close>: the decoded bytes are placed behind a zero byte in an array of four; an index
  outside of it panics.
\<close>

definition read_checksum :: "b64_lib \<Rightarrow> bytes \<Rightarrow> u64 res" where
  "read_checksum B i =
     (case b64_decode B i of
        None \<Rightarrow> Err IOError
      | Some cs \<Rightarrow>
          if length cs > 3 then Panic
          else let buf = 0 # cs @ replicate (3 - length cs) 0 in
            Ok (ucast (of_be32 (buf ! 0) (buf ! 1) (buf ! 2) (buf ! 3))))"

definition footer_dashes :: "text_lib \<Rightarrow> bytes \<Rightarrow> unit parsed" where
  "footer_dashes T i = and_then (many0 (tx_line_ending T) i) (\<lambda>(i, _). pmap (\<lambda>_. ()) (tx_tag T (str ''--'') i))"

definition armor_footer_line :: "text_lib \<Rightarrow> bytes \<Rightarrow> block_type parsed" where
  "armor_footer_line T i =
     and_then (tx_tag T (str ''---END '') i) (\<lambda>(i, _).
     and_then (armor_header_type T i) (\<lambda>(i, typ).
     and_then (armor_header_sep T i) (\<lambda>(i, _).
     and_then (popt (\<lambda>i. pcomplete (tx_line_ending T i)) i) (\<lambda>(i, _). Ok (i, typ)))))"

definition footer_parser :: "text_lib \<Rightarrow> b64_lib \<Rightarrow> bytes \<Rightarrow> (u64 option \<times> block_type) parsed" where
  "footer_parser T B i =
     and_then (pmap_res (\<lambda>c. case c of None \<Rightarrow> Ok None | Some s \<Rightarrow> map_ok Some (read_checksum B s)) (alts
       [\<lambda>i. and_then (tx_tag T (str ''='') i) (\<lambda>(i, _). and_then (tx_take T 4 i) (\<lambda>(i, c).
              pmap (\<lambda>_. Some c) (footer_dashes T i))),
        \<lambda>i. and_then (many0 (tx_tag T (str ''='')) i) (\<lambda>(i, _). pmap (\<lambda>_. None) (footer_dashes T i))] i)) (\<lambda>(i, checksum).
     and_then (armor_footer_line T i) (\<lambda>(i, typ). Ok (i, (checksum, typ))))"

section \<open>Writing the header and the footer\<close>

definition header_lines :: "headers \<Rightarrow> bytes" where
  "header_lines hs = concat (map (\<lambda>(k, vs). concat (map (\<lambda>v. k @ str '': '' @ v @ [lf]) vs)) hs)"

definition armor_write_header :: "block_type \<Rightarrow> headers option \<Rightarrow> bytes" where
  "armor_write_header typ hs =
     str ''-----BEGIN '' @ block_type_string typ @ str ''-----'' @ [lf]
     @ (case hs of Some h \<Rightarrow> header_lines h | None \<Rightarrow> []) @ [lf]"

definition crc_bytes :: "u64 \<Rightarrow> bytes" where
  "crc_bytes c = (let x = ucast c :: u32 in [ucast (drop_bit 16 x), ucast (drop_bit 8 x), ucast x])"

definition armor_write_footer :: "b64_lib \<Rightarrow> block_type \<Rightarrow> u64 option \<Rightarrow> bytes" where
  "armor_write_footer B typ crc =
     (case crc of Some c \<Rightarrow> str ''='' @ b64_encode B (crc_bytes c) @ [lf] | None \<Rightarrow> [])
     @ str ''-----END '' @ block_type_string typ @ str ''-----'' @ [lf]"


section \<open>Laws of the text parsers\<close>

definition is_error :: "'a parsed \<Rightarrow> bool" where
  "is_error r = (case r of Err (NomError _) \<Rightarrow> True | _ \<Rightarrow> False)"

lemma is_error_simps [simp]:
  "is_error (Err (NomError e))" "\<not> is_error (Ok x)" "\<not> is_error Panic" "\<not> is_error (Err (NomIncomplete n))"
  by (simp_all add: is_error_def)

lemma is_error_and_then [simp]: "is_error r \<Longrightarrow> is_error (and_then r f)"
  by (cases r) (simp_all add: is_error_def)

lemma alts_simps:
  "alts (p # q # ps) i = (if is_error (p i) then alts (q # ps) i else p i)" "alts [p] i = p i"
  by (auto simp: is_error_def split: result.splits nom_err.splits)

declare alts.simps [simp del]
declare alts_simps [simp]

lemma tag_rest_append [simp]: "tag_rest t (t @ r) = Ok r"
  by (induction t) simp_all

lemma text_tag_append [simp]: "text_tag t (t @ r) = Ok (r, t)"
  by (simp add: text_tag_def)

lemma text_tag_Cons [simp]:
  "text_tag [c] (d # r) = (if c = d then Ok (r, [c]) else Err (NomError (from_error_kind KTag)))"
  by (simp add: text_tag_def)

lemma std_span_append [simp]: "list_all P x \<Longrightarrow> \<not> P c \<Longrightarrow> std_span P (x @ c # r) = Ok (c # r, x)"
  by (simp add: std_span_def dropWhile_append2 takeWhile_append2 list_all_iff)

lemma std_span_none [simp]: "\<not> P c \<Longrightarrow> std_span P (c # r) = Ok (c # r, [])"
  by (simp add: std_span_def)

lemma std_span1_append [simp]:
  "list_all P x \<Longrightarrow> x \<noteq> [] \<Longrightarrow> \<not> P c \<Longrightarrow> std_span1 k P (x @ c # r) = Ok (c # r, x)"
  by (simp add: std_span1_def)

lemma std_not_line_ending_append [simp]:
  "cr \<notin> set x \<Longrightarrow> lf \<notin> set x \<Longrightarrow> std_not_line_ending (x @ lf # r) = Ok (lf # r, x)"
proof -
  assume "cr \<notin> set x" "lf \<notin> set x"
  then have "\<forall>c \<in> set x. c \<noteq> cr \<and> c \<noteq> lf" by auto
  then show ?thesis by (simp add: std_not_line_ending_def takeWhile_append2 dropWhile_append2)
qed

lemma many0_stop: "is_error (p i) \<Longrightarrow> many0 p i = Ok (i, [])"
  by (subst many0.simps) (auto simp: is_error_def split: result.splits nom_err.splits)

lemma many0_step: "p i = Ok (j, x) \<Longrightarrow> length j < length i \<Longrightarrow> many0 p i = and_then (many0 p j) (\<lambda>(k, xs). Ok (k, x # xs))"
  by (subst many0.simps) simp

section \<open>Numbers and block types\<close>

lemma is_digit_dec: "k < 10 \<Longrightarrow> is_digit (48 + of_nat k)"
  by (simp add: is_digit_def word_le_nat_alt unat_word_ariths)

lemma dec_digits: "list_all is_digit (dec n)"
proof (induction n rule: dec.induct)
  case (1 n)
  then show ?case by (cases "n < 10") (subst dec.simps, simp add: is_digit_dec)+
qed

lemma dec_nonempty [simp]: "dec n \<noteq> []"
  by (subst dec.simps) simp

lemma dec_value_dec: "dec_value (dec n) = n"
proof (induction n rule: dec.induct)
  case (1 n)
  have d: "unat (48 + of_nat k :: u8) - 48 = k" if "k < 10" for k :: nat
    using that by (simp add: unat_word_ariths)
  show ?case
  proof (cases "n < 10")
    case True
    with d [of n] show ?thesis by (subst dec.simps) (simp add: dec_value_def)
  next
    case False
    with 1 have "dec_value (dec (n div 10)) = n div 10" by simp
    with False d [of "n mod 10"] show ?thesis by (subst dec.simps) (simp add: dec_value_def)
  qed
qed

lemma digits_ascii: "list_all is_digit s \<Longrightarrow> ascii s"
  by (auto simp: ascii_def list_all_iff is_digit_def word_le_nat_alt word_less_nat_alt)

lemma parse_digit_dec: "n < 2 ^ 64 \<Longrightarrow> parse_digit (dec n) = Ok n"
proof -
  assume n: "n < 2 ^ 64"
  obtain c r where cr: "dec n = c # r" by (cases "dec n") auto
  with dec_digits [of n] have "c \<noteq> 43" by (auto simp: is_digit_def)
  then have "(case dec n of [] \<Rightarrow> [] | c # r \<Rightarrow> if c = 43 \<and> r \<noteq> [] then r else dec n) = dec n"
    using cr by simp
  then show ?thesis
    using n dec_value_dec [of n] dec_digits [of n] ascii_utf8_valid [OF digits_ascii [OF dec_digits], of n]
    by (simp add: parse_digit_def str_from_utf8_def parse_usize_def)
qed

text \<open>The types that \<open>as_string\<close> prints are read back: parts of a message are \<open>usize\<close> values.\<close>

fun block_type_ok :: "block_type \<Rightarrow> bool" where
  "block_type_ok (Bt_MultiPartMessage x y) \<longleftrightarrow> x < 2 ^ 64 \<and> y < 2 ^ 64"
| "block_type_ok _ \<longleftrightarrow> True"

context text_laws
begin

lemma tagged_eq: "tagged T s b i = map_ok (\<lambda>r. (r, b)) (tag_rest (str s) i)"
  by (cases "tag_rest (str s) i") (simp_all add: tagged_def text_tag_def pmap_def)

lemma part_number_dec: "n < 2 ^ 64 \<Longrightarrow> \<not> is_digit c \<Longrightarrow> part_number T (dec n @ c # r) = Ok (c # r, n)"
  by (simp add: part_number_def dec_digits parse_digit_dec)

lemma multi_part_string:
  assumes "x < 2 ^ 64" "y < 2 ^ 64"
  shows "multi_part T (block_type_string (Bt_MultiPartMessage x y) @ 45 # r) = Ok (45 # r, Bt_MultiPartMessage x y)"
proof -
  have nd: "\<not> is_digit 45" "\<not> is_digit 47" by (simp_all add: is_digit_def)
  have "text_tag (str ''PGP MESSAGE, PART '') (block_type_string (Bt_MultiPartMessage x y) @ 45 # r)
      = Ok (dec x @ 47 # dec y @ 45 # r, str ''PGP MESSAGE, PART '')"
    by (simp add: text_tag_def)
  with part_number_dec [OF assms(1) nd(2)] part_number_dec [OF assms(2) nd(1)] show ?thesis
    by (simp add: multi_part_def popt_def)
qed

lemma multi_part_other:
  "(\<forall>x y. b \<noteq> Bt_MultiPartMessage x y) \<Longrightarrow> is_error (multi_part T (block_type_string b @ 45 # r))"
proof (cases b)
  case (Bt_PublicKeyPKCS1 t)
  then show ?thesis by (cases t) (simp_all add: multi_part_def text_tag_def)
next
  case (Bt_PrivateKeyPKCS1 t)
  then show ?thesis by (cases t) (simp_all add: multi_part_def text_tag_def)
qed (simp_all add: multi_part_def text_tag_def)

lemma armor_header_type_string:
  assumes "block_type_ok b"
  shows "armor_header_type T (block_type_string b @ 45 # r) = Ok (45 # r, b)"
proof (cases "\<exists>x y. b = Bt_MultiPartMessage x y")
  case True
  then obtain x y where b: "b = Bt_MultiPartMessage x y" by blast
  with multi_part_string [of x y r] assms
  have "multi_part T (block_type_string b @ 45 # r) = Ok (45 # r, b)" by simp
  moreover have "is_error (tagged T ''PGP PUBLIC KEY BLOCK'' Bt_PublicKey (block_type_string b @ 45 # r))"
    "is_error (tagged T ''PGP PRIVATE KEY BLOCK'' Bt_PrivateKey (block_type_string b @ 45 # r))"
    using b by (simp_all add: tagged_eq)
  ultimately show ?thesis unfolding armor_header_type_def by simp
next
  case False
  then have m: "is_error (multi_part T (block_type_string b @ 45 # r))" using multi_part_other by blast
  show ?thesis
  proof (cases b)
    case (Bt_PublicKeyPKCS1 t)
    with m show ?thesis by (cases t) (simp_all add: armor_header_type_def tagged_eq)
  next
    case (Bt_PrivateKeyPKCS1 t)
    with m show ?thesis by (cases t) (simp_all add: armor_header_type_def tagged_eq)
  next
    case (Bt_MultiPartMessage x y)
    with False show ?thesis by simp
  qed (use m in \<open>simp_all add: armor_header_type_def tagged_eq\<close>)
qed

end

section \<open>Reading headers back\<close>

text \<open>
  Headers that survive: keys are sorted, not empty and without colon, every key has a value, values do
  not end in a colon, and neither contains a line break. A colon at the end of a value is taken for
  the end of a key, because the reader looks for \<open>":\n"\<close> before \<open>": "\<close>.
\<close>

definition key_ok :: "bytes \<Rightarrow> bool" where
  "key_ok k \<longleftrightarrow> k \<noteq> [] \<and> utf8_valid k \<and> 58 \<notin> set k \<and> cr \<notin> set k \<and> lf \<notin> set k"

definition value_ok :: "bytes \<Rightarrow> bool" where
  "value_ok v \<longleftrightarrow> utf8_valid v \<and> cr \<notin> set v \<and> lf \<notin> set v \<and> (v \<noteq> [] \<longrightarrow> last v \<noteq> 58)"

definition headers_ok :: "headers \<Rightarrow> bool" where
  "headers_ok h \<longleftrightarrow> sorted_wrt (<) (map fst h)
     \<and> list_all (\<lambda>(k, vs). key_ok k \<and> vs \<noteq> [] \<and> list_all value_ok vs) h"

definition header_pairs :: "headers \<Rightarrow> (bytes \<times> bytes) list" where
  "header_pairs h = concat (map (\<lambda>(k, vs). map (Pair k) vs) h)"

lemma bt_push_new: "\<forall>j \<in> fst ` set h. j < k \<Longrightarrow> bt_push k v h = h @ [(k, [v])]"
  by (induction h) (auto dest: less_asym)

lemma bt_push_more: "\<forall>j \<in> fst ` set h. j < k \<Longrightarrow> bt_push k v (h @ [(k, vs)]) = h @ [(k, vs @ [v])]"
  by (induction h) (auto dest: less_asym)

lemma fold_bt_push_more:
  "\<forall>j \<in> fst ` set h. j < k \<Longrightarrow>
   fold (\<lambda>(k, v). bt_push k v) (map (Pair k) vs) (h @ [(k, us)]) = h @ [(k, us @ vs)]"
  by (induction vs arbitrary: us) (simp_all add: bt_push_more)

lemma fold_bt_push_pairs:
  "sorted_wrt (<) (map fst (g @ h)) \<Longrightarrow> list_all (\<lambda>(k, vs). vs \<noteq> []) h \<Longrightarrow>
   fold (\<lambda>(k, v). bt_push k v) (header_pairs h) g = g @ h"
proof (induction h arbitrary: g)
  case (Cons x h)
  obtain k v vs where x: "x = (k, v # vs)" using Cons.prems(2) by (cases x; cases "snd x") auto
  have lt: "\<forall>j \<in> fst ` set g. j < k" using Cons.prems(1) by (auto simp: x sorted_wrt_append)
  have "fold (\<lambda>(k, v). bt_push k v) (header_pairs (x # h)) g
      = fold (\<lambda>(k, v). bt_push k v) (header_pairs h) (g @ [(k, v # vs)])"
    using lt fold_bt_push_more [OF lt, of vs "[v]"] by (simp add: x header_pairs_def bt_push_new)
  also have "\<dots> = (g @ [x]) @ h" using Cons.IH [of "g @ [x]"] Cons.prems by (simp add: x)
  finally show ?case by simp
qed (simp add: header_pairs_def)

lemma header_lines_pairs: "header_lines h = concat (map (\<lambda>(k, v). k @ 58 # 32 # v @ [lf]) (header_pairs h))"
proof -
  have "concat (map (\<lambda>v. k @ str '': '' @ v @ [lf]) vs) = concat (map (\<lambda>(k, v). k @ 58 # 32 # v @ [lf]) (map (Pair k) vs))"
    for k and vs :: "bytes list" by (induction vs) simp_all
  then show ?thesis
    by (induction h) (auto simp: header_lines_def header_pairs_def simp del: str_simps)
qed

text \<open>No colon in front of a line break.\<close>

definition colon_ok :: "bytes \<Rightarrow> bool" where
  "colon_ok s \<longleftrightarrow> successively (\<lambda>a b. a = 58 \<longrightarrow> b \<noteq> lf \<and> b \<noteq> cr) s"

lemma find_sub_colon: "colon_ok s \<Longrightarrow> find_sub [58, cr, lf] s = None \<and> find_sub [58, lf] s = None"
proof (induction s)
  case (Cons c s)
  then show ?case by (cases s) (auto simp: colon_ok_def)
qed simp

lemma find_sub_none: "c \<notin> set s \<Longrightarrow> find_sub (c # t) s = None"
  by (induction s) auto

lemma find_sub_key: "58 \<notin> set k \<Longrightarrow> find_sub [58, 32] (k @ 58 # 32 # r) = Some (length k)"
  by (induction k) auto

lemma colon_free: "58 \<notin> set s \<Longrightarrow> colon_ok s"
  by (induction s rule: induct_list012) (auto simp: colon_ok_def)

lemma colon_ok_append:
  "colon_ok s \<Longrightarrow> colon_ok t \<Longrightarrow> s = [] \<or> last s \<noteq> 58 \<Longrightarrow> colon_ok (s @ t)"
  by (auto simp: colon_ok_def successively_append_iff)

lemma colon_ok_no_break: "cr \<notin> set s \<Longrightarrow> lf \<notin> set s \<Longrightarrow> colon_ok s"
  by (induction s rule: induct_list012) (auto simp: colon_ok_def)

lemma colon_ok_line:
  assumes "key_ok k" "value_ok v" "colon_ok r"
  shows "colon_ok (k @ 58 # 32 # v @ lf # r)"
proof -
  have v: "colon_ok (32 # v)" "last (32 # v) \<noteq> 58"
    using assms(2) by (auto simp: value_ok_def intro: colon_ok_no_break)
  have "colon_ok ((32 # v) @ [lf] @ r)"
    using v assms(3) by (intro colon_ok_append) (auto simp: colon_ok_def)
  then have "colon_ok (58 # 32 # v @ lf # r)" by (simp add: colon_ok_def)
  with assms(1) show ?thesis
    by (intro colon_ok_append) (auto simp: key_ok_def colon_free dest: last_in_set)
qed

context text_laws
begin

lemma key_value_pair_line:
  assumes "key_ok k" "value_ok v" "colon_ok r"
  shows "key_value_pair T (k @ 58 # 32 # v @ lf # r) = Ok (r, (k, v))"
proof -
  have "find_sub [58, cr, lf] (k @ 58 # 32 # v @ lf # r) = None" "find_sub [58, lf] (k @ 58 # 32 # v @ lf # r) = None"
    using find_sub_colon [OF colon_ok_line [OF assms]] by simp_all
  moreover have "find_sub [58, 32] (k @ 58 # 32 # v @ lf # r) = Some (length k)"
    using assms(1) by (intro find_sub_key) (simp add: key_ok_def)
  ultimately show ?thesis
    using assms(1,2) by (simp add: key_value_pair_def std_take_until1_def pcomplete_def key_ok_def value_ok_def str_from_utf8_def)
qed

lemma key_value_pair_end:
  assumes "58 \<notin> set r"
  shows "is_error (key_value_pair T r)"
  using find_sub_none [OF assms] by (simp add: key_value_pair_def std_take_until1_def pcomplete_def pmap_res_def)

lemma key_value_pairs_lines:
  assumes "list_all (\<lambda>(k, v). key_ok k \<and> value_ok v) ps" "58 \<notin> set r"
  shows "key_value_pairs T (concat (map (\<lambda>(k, v). k @ 58 # 32 # v @ [lf]) ps) @ r) = Ok (r, ps)
    \<and> colon_ok (concat (map (\<lambda>(k, v). k @ 58 # 32 # v @ [lf]) ps) @ r)"
  using assms(1)
proof (induction ps)
  case Nil
  have "is_error (pcomplete (key_value_pair T r))"
    using key_value_pair_end [OF assms(2)] by (auto simp: is_error_def pcomplete_def split: result.splits nom_err.splits)
  with assms(2) show ?case by (simp add: key_value_pairs_def many0_stop colon_free)
next
  case (Cons p ps)
  obtain k v where p: "p = (k, v)" by (cases p)
  let ?r = "concat (map (\<lambda>(k, v). k @ 58 # 32 # v @ [lf]) ps) @ r"
  from Cons p have kv: "key_ok k" "value_ok v" "colon_ok ?r" "key_value_pairs T ?r = Ok (r, ps)" by auto
  from many0_step [where p = "\<lambda>i. pcomplete (key_value_pair T i)" and i = "k @ 58 # 32 # v @ lf # ?r"]
    key_value_pair_line [OF kv(1-3)] kv(4) colon_ok_line [OF kv(1-3)]
  show ?case by (simp add: p key_value_pairs_def)
qed

lemma armor_headers_lines:
  assumes "headers_ok h" "58 \<notin> set r"
  shows "armor_headers T (header_lines h @ r) = Ok (r, h)"
proof -
  have "list_all (\<lambda>(k, v). key_ok k \<and> value_ok v) (header_pairs h)"
    using assms(1) by (force simp: headers_ok_def header_pairs_def list_all_iff)
  moreover have "list_all (\<lambda>(k, vs). vs \<noteq> []) h" using assms(1) by (auto simp: headers_ok_def list_all_iff)
  then have "fold (\<lambda>(k, v). bt_push k v) (header_pairs h) [] = h"
    using assms(1) fold_bt_push_pairs [of "[]" h] by (simp add: headers_ok_def)
  ultimately show ?thesis
    using key_value_pairs_lines assms(2) by (simp add: armor_headers_def header_lines_pairs)
qed

end

section \<open>Reading a header line and a footer back\<close>

text \<open>Blank lines in front of text.\<close>

definition plain_start :: "bytes \<Rightarrow> bool" where
  "plain_start r \<longleftrightarrow> r \<noteq> [] \<and> hd r \<notin> {32, 9, cr, lf}"

lemma block_type_string_no_colon: "58 \<notin> set (block_type_string b)"
proof -
  have "58 \<notin> set (dec n)" for n using dec_digits [of n] by (auto simp: list_all_iff is_digit_def)
  moreover have "58 \<notin> set (pkcs1_string t)" for t by (cases t) simp_all
  ultimately show ?thesis by (cases b) simp_all
qed

lemma find_sub_dashes: "45 \<notin> set lead \<Longrightarrow> find_sub (str ''-----'') (lead @ str ''-----'' @ r) = Some (length lead)"
  by (induction lead) auto

context text_laws
begin

lemma no_blank_line: "plain_start r \<Longrightarrow> many0 (blank_line T) r = Ok (r, [])"
proof -
  assume "plain_start r"
  then obtain c q where "r = c # q" "c \<noteq> 32" "c \<noteq> 9" "c \<noteq> cr" "c \<noteq> lf"
    by (cases r) (auto simp: plain_start_def)
  then show ?thesis by (intro many0_stop) (simp add: blank_line_def pmap_def)
qed

lemma blank_lines_text: "plain_start r \<Longrightarrow> many0 (blank_line T) (lf # r) = Ok (r, [()])"
  using no_blank_line [of r] by (simp add: many0_step blank_line_def)

lemma armor_header_line_written:
  assumes "block_type_ok b"
  shows "armor_header_line T (str ''-----BEGIN '' @ block_type_string b @ str ''-----'' @ lf # r) = Ok (r, b)"
proof -
  have "armor_header_type T (block_type_string b @ str ''-----'' @ lf # r) = Ok (str ''-----'' @ lf # r, b)"
    using armor_header_type_string [OF assms, of "str ''----'' @ lf # r"] by simp
  moreover have "armor_header_sep T (str ''-----BEGIN '' @ s) = Ok (str ''BEGIN '' @ s, str ''-----'')"
    "text_tag (str ''BEGIN '') (str ''BEGIN '' @ s) = Ok (s, str ''BEGIN '')"
    "armor_header_sep T (str ''-----'' @ s) = Ok (s, str ''-----'')" for s
    by (simp_all add: armor_header_sep_def text_tag_def)
  ultimately show ?thesis by (simp only: armor_header_line_def tag_eq line_ending_eq and_then.simps prod.case) simp
qed

lemma header_parser_written:
  assumes "block_type_ok b" "b \<noteq> Bt_CleartextMessage" "case hs of Some h \<Rightarrow> headers_ok h | None \<Rightarrow> True"
    and "45 \<notin> set lead" "plain_start r" "58 \<notin> set r"
  shows "armor_header_parser T (lead @ armor_write_header b hs @ r)
    = Ok (r, (b, case hs of Some h \<Rightarrow> h | None \<Rightarrow> [], lead \<noteq> []))"
proof -
  let ?h = "case hs of Some h \<Rightarrow> h | None \<Rightarrow> []"
  let ?i = "str ''-----BEGIN '' @ block_type_string b @ str ''-----'' @ lf # header_lines ?h @ lf # r"
  have i: "armor_write_header b hs @ r = ?i"
    by (cases hs) (simp_all add: armor_write_header_def header_lines_def)
  have hok: "headers_ok ?h" using assms(3) by (cases hs) (simp_all add: headers_ok_def)
  have "find_sub (str ''-----'') (lead @ ?i) = Some (length lead)"
    using find_sub_dashes [OF assms(4), of "str ''BEGIN '' @ block_type_string b @ str ''-----'' @ lf # header_lines ?h @ lf # r"]
    by simp
  then have "std_take_until (str ''-----'') (lead @ ?i) = Ok (?i, lead)" by (simp add: std_take_until_def del: str_simps)
  moreover have "armor_headers T (header_lines ?h @ lf # r) = Ok (lf # r, ?h)"
    using assms(6) by (intro armor_headers_lines [OF hok]) simp
  then have "armor_header T ?i = Ok (lf # r, (b, ?h))"
    using armor_header_line_written [OF assms(1), of "header_lines ?h @ lf # r"] assms(2)
    by (simp add: armor_header_def del: str_simps)
  ultimately show ?thesis
    unfolding i armor_header_parser_def
    using blank_lines_text [OF assms(5)] by (simp del: str_simps)
qed

lemma footer_line_written:
  assumes "block_type_ok b"
  shows "armor_footer_line T (str ''---END '' @ block_type_string b @ str ''-----'' @ lf # r) = Ok (r, b)"
proof -
  have "armor_header_type T (block_type_string b @ str ''-----'' @ lf # r) = Ok (str ''-----'' @ lf # r, b)"
    using armor_header_type_string [OF assms, of "str ''----'' @ lf # r"] by simp
  moreover have "text_tag (str ''---END '') (str ''---END '' @ s) = Ok (s, str ''---END '')"
    "armor_header_sep T (str ''-----'' @ s) = Ok (s, str ''-----'')" for s
    by (simp_all add: armor_header_sep_def text_tag_def)
  ultimately show ?thesis
    by (simp only: armor_footer_line_def tag_eq line_ending_eq and_then.simps prod.case) (simp add: popt_def)
qed

lemma footer_dashes_written:
  assumes "set nl \<subseteq> {lf}"
  shows "footer_dashes T (nl @ 45 # 45 # r) = Ok (r, ())"
proof -
  have "many0 std_line_ending (nl @ 45 # 45 # r) = Ok (45 # 45 # r, map (\<lambda>c. [c]) nl)"
    using assms by (induction nl) (simp_all add: many0_stop many0_step)
  then show ?thesis by (simp add: footer_dashes_def text_tag_def)
qed

end

lemma of_be32_crc:
  assumes "unat c < 2 ^ 24"
  shows "ucast (of_be32 0 (ucast (drop_bit 16 (ucast c :: u32))) (ucast (drop_bit 8 (ucast c :: u32))) (ucast (ucast c :: u32))) = (c :: u64)"
proof -
  let ?x = "ucast c :: u32"
  have x: "unat ?x = unat c" using assms by (simp add: unsigned_ucast_eq take_bit_nat_eq_self)
  have "drop_bit 24 ?x = 0"
  proof (rule bit_word_eqI)
    fix n show "bit (drop_bit 24 ?x) n = bit (0 :: u32) n"
      using bit_small [of ?x 24 "24 + n"] assms x by (auto simp: bit_drop_bit_eq)
  qed
  then have "of_be32 0 (ucast (drop_bit 16 ?x)) (ucast (drop_bit 8 ?x)) (ucast ?x) = ?x"
    using of_be32_be32 [of ?x] by simp
  moreover have "ucast ?x = c"
    by (rule word_unat_eq_iff [THEN iffD2]) (use x in \<open>simp add: unsigned_ucast_eq unsigned_take_bit_eq\<close>)
  ultimately show ?thesis by simp
qed

locale armor_text = text_laws T + b64_laws B for T B
begin

lemma read_checksum_written: "unat c < 2 ^ 24 \<Longrightarrow> read_checksum B (b64_encode B (crc_bytes c)) = Ok c"
  using of_be32_crc [of c] by (simp add: read_checksum_def decode_encode crc_bytes_def Let_def)

lemma footer_parser_written:
  assumes "block_type_ok b" "set nl \<subseteq> {lf}" "\<forall>c. crc = Some c \<longrightarrow> unat c < 2 ^ 24"
  shows "footer_parser T B ((case crc of Some c \<Rightarrow> str ''='' @ b64_encode B (crc_bytes c) | None \<Rightarrow> []) @ nl
      @ str ''-----END '' @ block_type_string b @ str ''-----'' @ lf # r) = Ok (r, (crc, b))"
proof -
  let ?l = "str ''---END '' @ block_type_string b @ str ''-----'' @ lf # r"
  have d: "footer_dashes T (nl @ 45 # 45 # ?l) = Ok (?l, ())" using footer_dashes_written [OF assms(2)] .
  have e: "str ''-----END '' @ s = 45 # 45 # str ''---END '' @ s" for s by simp
  show ?thesis
  proof (cases crc)
    case None
    have "many0 (text_tag (str ''='')) (nl @ 45 # s) = Ok (nl @ 45 # s, [])" "is_error (text_tag (str ''='') (nl @ 45 # s))" for s
    proof -
      show "is_error (text_tag (str ''='') (nl @ 45 # s))" using assms(2) by (cases nl) auto
      then show "many0 (text_tag (str ''='')) (nl @ 45 # s) = Ok (nl @ 45 # s, [])" by (rule many0_stop)
    qed
    with d footer_line_written [OF assms(1), of r] None show ?thesis
      unfolding e by (cases nl) (simp_all add: footer_parser_def del: str_simps)
  next
    case (Some c)
    have "length (b64_encode B (crc_bytes c)) = 4" by (simp add: encode_length crc_bytes_def Let_def)
    then have "std_take 4 (b64_encode B (crc_bytes c) @ s) = Ok (s, b64_encode B (crc_bytes c))" for s
      by (simp add: std_take_def)
    moreover have "read_checksum B (b64_encode B (crc_bytes c)) = Ok c" using assms(3) Some read_checksum_written by simp
    ultimately show ?thesis
      using d footer_line_written [OF assms(1), of r] Some unfolding e by (simp add: footer_parser_def del: str_simps)
  qed
qed

end

interpretation std_armor_text: armor_text std_text std_b64
  ..

text \<open>
  The search for the end of a key runs over the whole window: an empty value swallows the headers in
  front of it.
\<close>

lemma empty_value_swallows:
  "key_value_pair std_text (str ''Version: 1'' @ lf # str ''Comment:'' @ lf # lf # str ''aGk='')
     = Ok (lf # str ''aGk='', (str ''Version: 1'' @ lf # str ''Comment'', []))"
  by (simp add: key_value_pair_def std_take_until1_def pcomplete_def str_from_utf8_def)

end
