(* ===== verification/Pgp_Armor.thy ===== *)
theory Pgp_Armor
  imports Pgp_Armor_Text
begin

text \<open>
  Armored data as a stream: the state machine of \<open>Dearmor\<close> (\<open>src/src/armor/reader.rs\<close>) that passes
  through header, body and footer while it is read in pieces of any size, and the writer
  \<open>src/src/armor/writer.rs\<close>. Parameters are the text parsers, the base64 engine, the CRC-24 hasher and the
  windows in which the buffered readers show their input.
\<close>

section \<open>Parameters\<close>

record armor_lib =
  al_text :: text_lib
  al_b64 :: b64_lib
  al_crc :: "bytes \<Rightarrow> u64"
  al_fill :: "bytes \<Rightarrow> nat"
  al_footer :: "bytes \<Rightarrow> nat"

text \<open>
  The hasher yields 24 bits; a reader shows at least one byte of what is left; in front of the footer
  the buffer is filled up to 128 bytes.
\<close>

locale armor_laws = armor_text "al_text A" "al_b64 A" for A :: armor_lib +
  assumes crc_small: "unat (al_crc A d) < 2 ^ 24"
    and fill_some: "src \<noteq> [] \<Longrightarrow> 0 < al_fill A src"
    and footer_window: "min 128 (length src) \<le> al_footer A src"

section \<open>Reading\<close>

datatype part =
    Part_Header bytes
  | Part_Body b64_decoder
  | Part_Footer bytes
  | Part_Done bytes
  | Part_Temp

text \<open>The hasher is the data it was given so far.\<close>

record dearmor =
  dm_typ :: "block_type option"
  dm_headers :: headers
  dm_checksum :: "u64 option"
  dm_part :: part
  dm_crc :: bytes

definition dm_new :: "bytes \<Rightarrow> dearmor" where
  "dm_new i = \<lparr>dm_typ = None, dm_headers = [], dm_checksum = None, dm_part = Part_Header i, dm_crc = []\<rparr>"

definition into_parts :: "dearmor \<Rightarrow> (block_type option \<times> headers \<times> u64 option \<times> bytes) res" where
  "into_parts s = (case dm_part s of Part_Done b \<Rightarrow> Ok (dm_typ s, dm_headers s, dm_checksum s, b) | _ \<Rightarrow> Panic)"

text \<open>
  \<open>read_from_buf\<close> with a window of \<open>n\<close> bytes. The second attempt after \<open>Incomplete\<close> sees the same window,
  since nothing was consumed, and fails.
\<close>

definition read_from_buf :: "nat \<Rightarrow> (bytes \<Rightarrow> 'a parsed) \<Rightarrow> bytes \<Rightarrow> ('a \<times> bytes) res" where
  "read_from_buf n parser src =
     (let buf = take n src in
      if buf = [] then Err (Message ''not enough bytes in buffer: {}'')
      else case parser buf of
        Ok (remaining, x) \<Rightarrow> Ok (x, drop (length buf - length remaining) src)
      | Err (NomIncomplete _) \<Rightarrow> Err (Message ''failed reading: {}: not enough bytes'')
      | Err _ \<Rightarrow> Err (Message ''failed reading: {} {:?}'')
      | Panic \<Rightarrow> Panic)"

definition read_header_internal :: "armor_lib \<Rightarrow> bytes \<Rightarrow> ((block_type \<times> headers \<times> bool) \<times> bytes) res" where
  "read_header_internal A b = read_from_buf (al_fill A b) (armor_header_parser (al_text A)) b"

definition read_only_header :: "armor_lib \<Rightarrow> dearmor \<Rightarrow> (block_type \<times> headers \<times> bool \<times> bytes) res" where
  "read_only_header A s =
     (case dm_part s of
        Part_Header b \<Rightarrow> map_ok (\<lambda>((typ, hs, leading), b'). (typ, hs, leading, b')) (read_header_internal A b)
      | _ \<Rightarrow> Err (Message ''invalid state, cannot read header''))"

definition after_header :: "block_type \<Rightarrow> headers \<Rightarrow> bytes \<Rightarrow> dearmor" where
  "after_header typ hs i =
     \<lparr>dm_typ = Some typ, dm_headers = hs, dm_checksum = None, dm_part = Part_Body (bd_new i), dm_crc = []\<rparr>"

text \<open>What a header leaves behind; the operations return the state also when they fail.\<close>

definition with_header :: "dearmor \<Rightarrow> block_type \<Rightarrow> headers \<Rightarrow> bytes \<Rightarrow> dearmor" where
  "with_header s typ hs b = s\<lparr>dm_typ := Some typ, dm_headers := hs, dm_part := Part_Body (bd_new b)\<rparr>"

definition read_header :: "armor_lib \<Rightarrow> dearmor \<Rightarrow> unit res \<times> dearmor" where
  "read_header A s =
     (let s0 = s\<lparr>dm_part := Part_Temp\<rparr> in
      case dm_part s of
        Part_Header b \<Rightarrow>
          (case read_header_internal A b of
             Ok ((typ, hs, _), b') \<Rightarrow> (Ok (), with_header s0 typ hs b')
           | Err e \<Rightarrow> (Err e, s0)
           | Panic \<Rightarrow> (Panic, s0))
      | _ \<Rightarrow> (Err (Message ''invalid state, cannot read header''), s0))"

definition read_footer :: "armor_lib \<Rightarrow> bytes \<Rightarrow> dearmor \<Rightarrow> unit res \<times> dearmor" where
  "read_footer A b s =
     (case read_from_buf (al_footer A b) (footer_parser (al_text A) (al_b64 A)) b of
        Ok ((checksum, footer_typ), rest) \<Rightarrow>
          if dm_typ s \<noteq> None \<and> dm_typ s \<noteq> Some footer_typ then
            (Err (Message ''armor ascii footer does not match header: {:?} != {:?}''), s\<lparr>dm_part := Part_Done rest\<rparr>)
          else
            let s' = s\<lparr>dm_checksum := checksum, dm_part := Part_Done rest\<rparr> in
            if checksum \<noteq> None \<and> checksum \<noteq> Some (al_crc A (dm_crc s)) then (Err (Message ''invalid crc24 checksum''), s')
            else (Ok (), s')
      | Err e \<Rightarrow> (Err e, s)
      | Panic \<Rightarrow> (Panic, s))"

text \<open>
  \<open>read\<close> into a slice of \<open>n\<close> bytes, \<open>acc\<close> of which are filled; errors are wrapped as I/O errors. The
  loop returns when the slice is full or the state is \<open>Done\<close>.
\<close>

fun part_rank :: "part \<Rightarrow> nat" where
  "part_rank (Part_Header _) = 3"
| "part_rank (Part_Body _) = 2"
| "part_rank (Part_Footer _) = 1"
| "part_rank _ = 0"

lemma read_footer_rank: "read_footer A b (s\<lparr>dm_part := Part_Temp\<rparr>) = (r, s') \<Longrightarrow> part_rank (dm_part s') = 0"
  by (auto simp: read_footer_def Let_def split: result.splits if_splits)

function dm_read :: "armor_lib \<Rightarrow> nat \<Rightarrow> bytes \<Rightarrow> dearmor \<Rightarrow> bytes res \<times> dearmor" where
  "dm_read A n acc s =
     (let s0 = s\<lparr>dm_part := Part_Temp\<rparr> in
      case dm_part s of
        Part_Header b \<Rightarrow>
          (case read_header_internal A b of
             Ok ((typ, hs, _), b') \<Rightarrow> dm_read A n acc (with_header s0 typ hs b')
           | Err _ \<Rightarrow> (Err IOError, s0)
           | Panic \<Rightarrow> (Panic, s0))
      | Part_Body b \<Rightarrow>
          (case bd_read (al_b64 A) (n - length acc) b of
             Ok (x, b') \<Rightarrow>
               let s1 = s0\<lparr>dm_crc := dm_crc s @ x,
                     dm_part := (if x = [] \<and> length acc < n then Part_Footer (bd_buf b' @ bd_src b') else Part_Body b')\<rparr> in
               if n \<le> length (acc @ x) then (Ok (acc @ x), s1) else dm_read A n (acc @ x) s1
           | Err _ \<Rightarrow> (Err IOError, s0)
           | Panic \<Rightarrow> (Panic, s0))
      | Part_Footer b \<Rightarrow>
          (case read_footer A b s0 of
             (Ok _, s1) \<Rightarrow> dm_read A n acc s1
           | (Err _, s1) \<Rightarrow> (Err IOError, s1)
           | (Panic, s1) \<Rightarrow> (Panic, s1))
      | Part_Done b \<Rightarrow> (Ok acc, s)
      | Part_Temp \<Rightarrow> (Panic, s0))"
  by pat_completeness auto
termination
proof (relation "measures [\<lambda>(A, n, acc, s). part_rank (dm_part s), \<lambda>(A, n, acc, s). n - length acc]", goal_cases)
  case (4 A n acc s s0 b r s1 u)
  then have "read_footer A b (s\<lparr>dm_part := Part_Temp\<rparr>) = (Ok u, s1)" by simp
  from read_footer_rank [OF this] 4 show ?case by simp
qed (auto simp: with_header_def intro!: diff_less_mono2)

declare dm_read.simps [simp del]

text \<open>A sequence of reads with slices of the given sizes, as a consumer makes them.\<close>

fun dm_reads :: "armor_lib \<Rightarrow> nat list \<Rightarrow> dearmor \<Rightarrow> bytes res \<times> dearmor" where
  "dm_reads A [] s = (Ok [], s)"
| "dm_reads A (n # ns) s =
     (case dm_read A n [] s of
        (Ok x, s1) \<Rightarrow> (case dm_reads A ns s1 of (r, s2) \<Rightarrow> (map_ok ((@) x) r, s2))
      | (r, s1) \<Rightarrow> (r, s1))"

section \<open>Writing\<close>

text \<open>The body in lines of 64 characters; the pieces the encoder passes on do not matter.\<close>

definition armor_write_body :: "armor_lib \<Rightarrow> bytes \<Rightarrow> bytes res" where
  "armor_write_body A d = map_ok (\<lambda>w. lw_w (lw_drop w)) (lw_write_each 64 (lw_new [] Lf) (b64_writes (al_b64 A) d))"

definition armor_write :: "armor_lib \<Rightarrow> bytes res \<Rightarrow> block_type \<Rightarrow> headers option \<Rightarrow> bool \<Rightarrow> bytes res" where
  "armor_write A source typ hs include_checksum =
     and_then source (\<lambda>d. and_then (armor_write_body A d) (\<lambda>body.
       Ok (armor_write_header typ hs @ body
         @ armor_write_footer (al_b64 A) typ (if include_checksum then Some (al_crc A d) else None))))"

section \<open>Reading back what was written\<close>

lemma read_from_buf_written:
  assumes "parser (u @ v) = Ok (v, x)" "take n src = u @ v" "u \<noteq> []"
  shows "read_from_buf n parser src = Ok (x, drop (length u) src)"
proof -
  have "length (take n src) - length v = length u" unfolding assms(2) by simp
  with assms(1,3) show ?thesis unfolding read_from_buf_def Let_def assms(2) by simp
qed

lemma length_dec: "n < 10 ^ Suc k \<Longrightarrow> length (dec n) \<le> Suc k"
proof (induction k arbitrary: n)
  case 0
  then show ?case by (simp add: dec.simps)
next
  case (Suc k)
  have "n div 10 < 10 ^ Suc k" using Suc.prems by (simp add: div_less_iff_less_mult)
  from Suc.IH [OF this] show ?case by (subst dec.simps) simp
qed

lemma block_type_string_short: "block_type_ok b \<Longrightarrow> length (block_type_string b) \<le> 59"
proof (cases b)
  case (Bt_MultiPartMessage x y)
  assume "block_type_ok b"
  then have "length (dec x) \<le> 20" "length (dec y) \<le> 20"
    using length_dec [of x 19] length_dec [of y 19] Bt_MultiPartMessage by simp_all
  with Bt_MultiPartMessage show ?thesis by simp
next
  case (Bt_PublicKeyPKCS1 t)
  then show ?thesis by (cases t) simp_all
next
  case (Bt_PrivateKeyPKCS1 t)
  then show ?thesis by (cases t) simp_all
qed simp_all

lemma wrap_lines_text:
  assumes "b64_text xs" "b64_chars xs = xs"
  shows "b64_text (wrap_lines sl [lf] xs)" "0 < sl \<Longrightarrow> b64_chars (wrap_lines sl [lf] xs) = xs"
proof -
  have c: "b64_chars (take k xs) = take k xs \<and> b64_chars (drop k xs) = drop k xs" if "b64_chars xs = xs" for k and xs :: bytes
    using that by (auto simp: b64_chars_def filter_id_conv dest: in_set_takeD in_set_dropD)
  have t: "b64_text (take k xs) \<and> b64_text (drop k xs)" if "b64_text xs" for k xs
    using that by (auto simp: b64_text_def dest: in_set_takeD in_set_dropD)
  have "is_base64_token lf" by (simp add: is_base64_token_def is_alphanumeric_def)
  with assms show "b64_text (wrap_lines sl [lf] xs)"
  proof (induction sl "[lf]" xs rule: wrap_lines.induct)
    case (1 sl xs)
    then show ?case using c [of xs sl] t [of xs sl] by (subst wrap_lines.simps) auto
  qed
  show "0 < sl \<Longrightarrow> b64_chars (wrap_lines sl [lf] xs) = xs"
    using assms(2)
  proof (induction sl "[lf]" xs rule: wrap_lines.induct)
    case (1 sl xs)
    then show ?case using c [of xs sl] by (subst wrap_lines.simps) auto
  qed
qed

text \<open>The line with the checksum, and the last line.\<close>

definition checksum_line :: "b64_lib \<Rightarrow> u64 option \<Rightarrow> bytes" where
  "checksum_line B crc = (case crc of Some c \<Rightarrow> str ''='' @ b64_encode B (crc_bytes c) | None \<Rightarrow> [])"

definition end_line :: "block_type \<Rightarrow> bytes" where
  "end_line typ = str ''-----END '' @ block_type_string typ @ str ''-----'' @ [lf]"

lemma write_footer_lines:
  "armor_write_footer B typ crc = checksum_line B crc @ (if crc = None then [] else [lf]) @ end_line typ"
  by (cases crc) (simp_all add: armor_write_footer_def checksum_line_def end_line_def)

context armor_laws
begin

lemma checksum_line_chars:
  "b64_text (checksum_line (al_b64 A) crc)" "b64_chars (checksum_line (al_b64 A) crc) = checksum_line (al_b64 A) crc"
  "length (checksum_line (al_b64 A) crc) \<le> 5"
  "checksum_line (al_b64 A) crc = [] \<or> hd (checksum_line (al_b64 A) crc) = pad"
proof -
  have e: "b64_text (b64_encode (al_b64 A) x)" "b64_chars (b64_encode (al_b64 A) x) = b64_encode (al_b64 A) x" for x
    using encode_chars [of x] by (auto simp: b64_text_def b64_chars_def b64_char_def list_all_iff filter_id_conv)
  have "is_base64_token 61" by (simp add: is_base64_token_def is_alphanumeric_def)
  with e show "b64_text (checksum_line (al_b64 A) crc)"
    "b64_chars (checksum_line (al_b64 A) crc) = checksum_line (al_b64 A) crc"
    by (cases crc; simp add: checksum_line_def)+
  show "length (checksum_line (al_b64 A) crc) \<le> 5"
    by (cases crc) (simp_all add: checksum_line_def encode_length crc_bytes_def Let_def)
  show "checksum_line (al_b64 A) crc = [] \<or> hd (checksum_line (al_b64 A) crc) = pad"
    by (cases crc) (simp_all add: checksum_line_def)
qed

lemma armor_write_body_eq: "armor_write_body A d = Ok (wrap_lines 64 [lf] (b64_encode (al_b64 A) d))"
proof -
  obtain w where "lw_write_each 64 (lw_new [] Lf) (b64_writes (al_b64 A) d) = Ok w"
    "lw_holds 64 Lf [] ([] @ concat (b64_writes (al_b64 A) d)) w"
    using lw_write_each_holds [OF lw_holds_new [of 64 Lf "[]"], of "b64_writes (al_b64 A) d"] by auto
  with lw_finish_holds [of 64 Lf "[]" "concat (b64_writes (al_b64 A) d)" w] show ?thesis
    by (simp add: armor_write_body_def writes_encode)
qed

lemma read_footer_written:
  assumes "block_type_ok t" "dm_typ s = Some t" "\<forall>c. crc = Some c \<longrightarrow> c = al_crc A (dm_crc s)"
    and "set nl \<subseteq> {lf}" "length nl \<le> 1"
  shows "read_footer A (checksum_line (al_b64 A) crc @ nl @ end_line t @ post) s
    = (Ok (), s\<lparr>dm_checksum := crc, dm_part := Part_Done post\<rparr>)"
proof -
  let ?u = "checksum_line (al_b64 A) crc @ nl @ end_line t"
  let ?src = "checksum_line (al_b64 A) crc @ nl @ end_line t @ post"
  let ?n = "al_footer A ?src"
  have "length ?u \<le> 128"
    using checksum_line_chars(3) [of crc] block_type_string_short [OF assms(1)] assms(5) by (simp add: end_line_def)
  with footer_window [of ?src] have "length ?u \<le> ?n" by auto
  then have w: "take ?n ?src = ?u @ take (?n - length ?u) post" by (simp add: add.assoc)
  moreover have small: "\<forall>c. crc = Some c \<longrightarrow> unat c < 2 ^ 24" using crc_small assms(3) by blast
  have "footer_parser (al_text A) (al_b64 A) (?u @ r) = Ok (r, (crc, t))" for r
    using footer_parser_written [OF assms(1,4) small, of r]
    by (simp add: checksum_line_def end_line_def del: str_simps)
  ultimately have "read_from_buf ?n (footer_parser (al_text A) (al_b64 A)) ?src = Ok ((crc, t), drop (length ?u) ?src)"
    by (intro read_from_buf_written) (simp_all add: end_line_def)
  then have "read_from_buf ?n (footer_parser (al_text A) (al_b64 A)) ?src = Ok ((crc, t), post)" by simp
  with assms(2,3) show ?thesis by (cases crc) (auto simp: read_footer_def Let_def)
qed

text \<open>With nothing left in the body, a read passes the checksum and the footer and delivers nothing.\<close>

lemma dm_read_body_end:
  assumes "dm_part s = Part_Body b" "bd_inv b [] (checksum_line (al_b64 A) crc) T (end_line t @ post)" "length acc < n"
    and "T = T0 @ checksum_line (al_b64 A) crc @ nl" "set nl \<subseteq> {lf}" "length nl \<le> 1"
    and "block_type_ok t" "dm_typ s = Some t" "\<forall>c. crc = Some c \<longrightarrow> c = al_crc A (dm_crc s)"
  shows "dm_read A n acc s = (Ok acc, s\<lparr>dm_checksum := crc, dm_part := Part_Done post\<rparr>)"
proof -
  let ?c = "checksum_line (al_b64 A) crc" and ?s = "s\<lparr>dm_part := Part_Temp\<rparr>"
  have nl: "b64_chars nl = []" using assms(5) by (auto simp: b64_chars_def filter_empty_conv)
  obtain b' nl' where e: "bd_read (al_b64 A) (n - length acc) b = Ok ([], b')"
    "bd_buf b' @ bd_src b' = ?c @ nl' @ end_line t @ post" "suffix nl' nl"
    using bd_read_end [OF assms(2,4) nl checksum_line_chars(2)] by blast
  have nl': "set nl' \<subseteq> {lf}" "length nl' \<le> 1"
    using e(3) assms(5,6) by (auto simp: suffix_def)
  have f: "read_footer A (?c @ nl' @ end_line t @ post) ?s = (Ok (), ?s\<lparr>dm_checksum := crc, dm_part := Part_Done post\<rparr>)"
    using assms(8,9) by (intro read_footer_written [OF assms(7) _ _ nl']) simp_all
  have "dm_read A n acc s = dm_read A n acc (s\<lparr>dm_part := Part_Footer (?c @ nl' @ end_line t @ post)\<rparr>)"
    using e(1,2) assms(1,3) by (subst dm_read.simps) (simp add: Let_def)
  also have "\<dots> = dm_read A n acc (s\<lparr>dm_checksum := crc, dm_part := Part_Done post\<rparr>)"
    using f by (subst dm_read.simps) simp
  also have "\<dots> = (Ok acc, s\<lparr>dm_checksum := crc, dm_part := Part_Done post\<rparr>)"
    by (subst dm_read.simps) simp
  finally show ?thesis .
qed

text \<open>
  A body that still has \<open>d\<close> to deliver: a read fills its slice, or delivers all of \<open>d\<close> and passes the footer.
\<close>

lemma dm_read_body:
  assumes "dm_part s = Part_Body b" "bd_inv b d (checksum_line (al_b64 A) crc) T (end_line t @ post)" "length acc < n"
    and "T = T0 @ checksum_line (al_b64 A) crc @ nl" "set nl \<subseteq> {lf}" "length nl \<le> 1"
    and "block_type_ok t" "dm_typ s = Some t" "\<forall>c. crc = Some c \<longrightarrow> c = al_crc A (dm_crc s @ d)"
  shows "(n - length acc \<le> length d \<longrightarrow> (\<exists>b'. dm_read A n acc s = (Ok (acc @ take (n - length acc) d),
        s\<lparr>dm_crc := dm_crc s @ take (n - length acc) d, dm_part := Part_Body b'\<rparr>)
      \<and> bd_inv b' (drop (n - length acc) d) (checksum_line (al_b64 A) crc) T (end_line t @ post)))
    \<and> (length d < n - length acc \<longrightarrow> dm_read A n acc s
      = (Ok (acc @ d), s\<lparr>dm_crc := dm_crc s @ d, dm_checksum := crc, dm_part := Part_Done post\<rparr>))"
  using assms(1-3,8,9)
proof (induction "length d" arbitrary: d acc s b rule: less_induct)
  case less
  let ?c = "checksum_line (al_b64 A) crc" and ?k = "n - length acc"
  have k: "0 < ?k" using less.prems(3) by simp
  show ?case
  proof (cases "d = []")
    case True
    with dm_read_body_end [OF less.prems(1) _ less.prems(3) assms(4-7) less.prems(4)] less.prems(2,5) k
    show ?thesis by simp
  next
    case False
    obtain x d' b' where x: "bd_read (al_b64 A) ?k b = Ok (x, b')" "d = x @ d'" "x \<noteq> []" "length x \<le> ?k"
      "bd_inv b' d' ?c T (end_line t @ post)"
      using bd_read_some [OF less.prems(2) False k] by blast
    let ?s = "s\<lparr>dm_crc := dm_crc s @ x, dm_part := Part_Body b'\<rparr>"
    show ?thesis
    proof (cases "length x = ?k")
      case True
      with x less.prems(1,3) have "dm_read A n acc s = (Ok (acc @ x), ?s)"
        by (subst dm_read.simps) (simp add: Let_def)
      with True x show ?thesis by auto
    next
      case False
      with x(4) have "\<not> n \<le> length acc + length x" by linarith
      with x less.prems(1,3) have r: "dm_read A n acc s = dm_read A n (acc @ x) ?s"
        by (subst dm_read.simps) (simp add: Let_def)
      have "length d' < length d" using x(2,3) by simp
      from less.hyps [OF this _ x(5), where acc = "acc @ x" and s = ?s] False x less.prems(3-5)
      have "(n - length (acc @ x) \<le> length d' \<longrightarrow> (\<exists>b'. dm_read A n (acc @ x) ?s
            = (Ok ((acc @ x) @ take (n - length (acc @ x)) d'),
              ?s\<lparr>dm_crc := dm_crc ?s @ take (n - length (acc @ x)) d', dm_part := Part_Body b'\<rparr>)
          \<and> bd_inv b' (drop (n - length (acc @ x)) d') ?c T (end_line t @ post)))
        \<and> (length d' < n - length (acc @ x) \<longrightarrow> dm_read A n (acc @ x) ?s
          = (Ok ((acc @ x) @ d'), ?s\<lparr>dm_crc := dm_crc ?s @ d', dm_checksum := crc, dm_part := Part_Done post\<rparr>))"
        by simp
      moreover have "take ?k d = x @ take (n - length (acc @ x)) d'" "drop ?k d = drop (n - length (acc @ x)) d'"
        using x(2,4) by (simp_all add: diff_diff_add)
      moreover have "?k \<le> length d \<longleftrightarrow> n - length (acc @ x) \<le> length d'" "length d < ?k \<longleftrightarrow> length d' < n - length (acc @ x)"
        using x(2,4) by auto
      ultimately show ?thesis using r x(2) by simp
    qed
  qed
qed

lemma dm_reads_done: "dm_part s = Part_Done post \<Longrightarrow> dm_reads A ns s = (Ok [], s)"
  by (induction ns) (simp_all add: dm_read.simps)

lemma dm_reads_body:
  assumes "dm_part s = Part_Body b" "bd_inv b d (checksum_line (al_b64 A) crc) T (end_line t @ post)"
    and "T = T0 @ checksum_line (al_b64 A) crc @ nl" "set nl \<subseteq> {lf}" "length nl \<le> 1"
    and "block_type_ok t" "dm_typ s = Some t" "\<forall>c. crc = Some c \<longrightarrow> c = al_crc A (dm_crc s @ d)" "list_all ((<) 0) ns"
  shows "\<exists>s'. dm_reads A ns s = (Ok (take (sum_list ns) d), s') \<and> dm_typ s' = Some t \<and> dm_headers s' = dm_headers s
    \<and> (length d < sum_list ns \<longrightarrow> dm_part s' = Part_Done post \<and> dm_checksum s' = crc)"
  using assms(1,2,7-9)
proof (induction ns arbitrary: s b d)
  case (Cons n ns)
  have n: "0 < n" "list_all ((<) 0) ns" using Cons.prems(5) by simp_all
  have "length [] < n" using n by simp
  from dm_read_body [OF Cons.prems(1,2) this assms(3-6) Cons.prems(3,4)] have r: "(n \<le> length d \<longrightarrow> (\<exists>b'. dm_read A n [] s = (Ok (take n d), s\<lparr>dm_crc := dm_crc s @ take n d, dm_part := Part_Body b'\<rparr>)
      \<and> bd_inv b' (drop n d) (checksum_line (al_b64 A) crc) T (end_line t @ post)))
    \<and> (length d < n \<longrightarrow> dm_read A n [] s = (Ok d, s\<lparr>dm_crc := dm_crc s @ d, dm_checksum := crc, dm_part := Part_Done post\<rparr>))"
    unfolding list.size diff_zero append_Nil .
  show ?case
  proof (cases "n \<le> length d")
    case True
    with r obtain b' where b': "dm_read A n [] s = (Ok (take n d), s\<lparr>dm_crc := dm_crc s @ take n d, dm_part := Part_Body b'\<rparr>)"
      "bd_inv b' (drop n d) (checksum_line (al_b64 A) crc) T (end_line t @ post)" by auto
    from Cons.IH [OF _ b'(2) _ _ n(2), of "s\<lparr>dm_crc := dm_crc s @ take n d, dm_part := Part_Body b'\<rparr>"] Cons.prems(3,4)
    obtain s' where "dm_reads A ns (s\<lparr>dm_crc := dm_crc s @ take n d, dm_part := Part_Body b'\<rparr>) = (Ok (take (sum_list ns) (drop n d)), s')"
      "dm_typ s' = Some t" "dm_headers s' = dm_headers s"
      "length (drop n d) < sum_list ns \<longrightarrow> dm_part s' = Part_Done post \<and> dm_checksum s' = crc" by auto
    with b'(1) True show ?thesis by (auto simp: take_add)
  next
    case False
    with r dm_reads_done [of "s\<lparr>dm_crc := dm_crc s @ d, dm_checksum := crc, dm_part := Part_Done post\<rparr>" post ns] Cons.prems(3)
    show ?thesis by simp
  qed
qed auto

lemma read_header_written:
  assumes "block_type_ok b" "b \<noteq> Bt_CleartextMessage" "case hs of Some h \<Rightarrow> headers_ok h | None \<Rightarrow> True"
    and "45 \<notin> set lead" "plain_start r" "58 \<notin> set r"
    and "length (lead @ armor_write_header b hs) < al_fill A (lead @ armor_write_header b hs @ r)"
  shows "read_header_internal A (lead @ armor_write_header b hs @ r)
    = Ok ((b, case hs of Some h \<Rightarrow> h | None \<Rightarrow> [], lead \<noteq> []), r)"
proof -
  let ?u = "lead @ armor_write_header b hs" and ?src = "lead @ armor_write_header b hs @ r"
  let ?n = "al_fill A ?src"
  have k: "0 < ?n - length ?u" using assms(7) by simp
  then have "plain_start (take (?n - length ?u) r)" "58 \<notin> set (take (?n - length ?u) r)"
    using assms(5,6) by (auto simp: plain_start_def dest: in_set_takeD)
  from header_parser_written [OF assms(1-4) this]
  have "armor_header_parser (al_text A) (?u @ take (?n - length ?u) r)
      = Ok (take (?n - length ?u) r, (b, case hs of Some h \<Rightarrow> h | None \<Rightarrow> [], lead \<noteq> []))" by simp
  moreover have "take ?n ?src = ?u @ take (?n - length ?u) r" using assms(7) by simp
  ultimately have "read_header_internal A ?src
      = Ok ((b, case hs of Some h \<Rightarrow> h | None \<Rightarrow> [], lead \<noteq> []), drop (length ?u) ?src)"
    unfolding read_header_internal_def by (intro read_from_buf_written) (simp_all add: armor_write_header_def)
  then show ?thesis by simp
qed

end

text \<open>What follows the header of armored data: the wrapped text with the checksum, and the last line.\<close>

definition armor_body :: "armor_lib \<Rightarrow> bytes \<Rightarrow> u64 option \<Rightarrow> bytes" where
  "armor_body A d crc = wrap_lines 64 [lf] (b64_encode (al_b64 A) d) @ checksum_line (al_b64 A) crc
     @ (if crc = None then [] else [lf])"

lemma end_line_stops: "text_end (end_line b @ post)"
  by (simp add: text_end_def end_line_def is_base64_token_def is_alphanumeric_def)

context armor_laws
begin

lemma armor_write_eq:
  "armor_write A (Ok d) b hs cs = Ok (armor_write_header b hs
     @ armor_body A d (if cs then Some (al_crc A d) else None) @ end_line b)"
  by (simp add: armor_write_def armor_write_body_eq write_footer_lines armor_body_def)

lemma armor_body_text:
  "b64_text (armor_body A d crc)"
  "b64_chars (armor_body A d crc) = b64_encode (al_b64 A) d @ checksum_line (al_b64 A) crc"
proof -
  have e: "b64_text (b64_encode (al_b64 A) d)" "b64_chars (b64_encode (al_b64 A) d) = b64_encode (al_b64 A) d"
    using encode_chars [of d] by (auto simp: b64_text_def b64_chars_def b64_char_def list_all_iff filter_id_conv)
  have "is_base64_token lf" by (simp add: is_base64_token_def is_alphanumeric_def)
  with wrap_lines_text [OF e] checksum_line_chars(1,2) show "b64_text (armor_body A d crc)"
    "b64_chars (armor_body A d crc) = b64_encode (al_b64 A) d @ checksum_line (al_b64 A) crc"
    by (simp_all add: armor_body_def)
qed

lemma armor_body_start: "plain_start (armor_body A d crc @ end_line b @ post)"
proof (cases "b64_encode (al_b64 A) d @ checksum_line (al_b64 A) crc = []")
  case True
  then have "armor_body A d crc = []"
    by (cases crc) (simp_all add: armor_body_def wrap_lines.simps checksum_line_def)
  then show ?thesis by (simp add: plain_start_def end_line_def)
next
  case False
  have first: "armor_body A d crc \<noteq> [] \<and> hd (armor_body A d crc) = hd (b64_encode (al_b64 A) d @ checksum_line (al_b64 A) crc)"
  proof (cases "b64_encode (al_b64 A) d")
    case Nil
    with False show ?thesis by (auto simp: armor_body_def wrap_lines.simps)
  next
    case (Cons c e)
    have "wrap_lines 64 [lf] (c # e) = take 64 (c # e) @ lf # wrap_lines 64 [lf] (drop 64 (c # e))"
      by (subst wrap_lines.simps) simp
    with Cons show ?thesis by (simp add: armor_body_def)
  qed
  let ?c = "hd (b64_encode (al_b64 A) d @ checksum_line (al_b64 A) crc)"
  have "?c \<in> set (b64_chars (armor_body A d crc))" unfolding armor_body_text(2) using False by (rule hd_in_set)
  then have "is_base64_token ?c" "?c \<noteq> cr" "?c \<noteq> lf"
    using armor_body_text(1) by (auto simp: b64_chars_def b64_text_def)
  then have "?c \<notin> {32, 9, cr, lf}" by (auto simp: is_base64_token_def is_alphanumeric_def)
  with first show ?thesis by (simp add: plain_start_def)
qed

lemma armor_body_no_colon: "58 \<notin> set post \<Longrightarrow> 58 \<notin> set (armor_body A d crc @ end_line b @ post)"
proof -
  assume "58 \<notin> set post"
  moreover have "58 \<notin> set (armor_body A d crc)"
    using armor_body_text(1) [of d crc] by (auto simp: b64_text_def is_base64_token_def is_alphanumeric_def)
  ultimately show ?thesis using block_type_string_no_colon by (simp add: end_line_def)
qed

lemma dearmor_armor_body:
  assumes "block_type_ok b" "list_all ((<) 0) ns" "length d < sum_list ns" "dm_crc s = []" "dm_typ s = Some b"
    and "dm_part s = Part_Body (bd_new (armor_body A d crc @ end_line b @ post))" "crc = None \<or> crc = Some (al_crc A d)"
  shows "\<exists>s'. dm_reads A ns s = (Ok d, s') \<and> into_parts s' = Ok (Some b, dm_headers s, crc, post)"
proof -
  have inv: "bd_inv (bd_new (armor_body A d crc @ end_line b @ post)) d (checksum_line (al_b64 A) crc)
      (armor_body A d crc) (end_line b @ post)"
    using checksum_line_chars(4) by (intro bd_inv_new armor_body_text end_line_stops)
  have "\<exists>s'. dm_reads A ns s = (Ok (take (sum_list ns) d), s') \<and> dm_typ s' = Some b \<and> dm_headers s' = dm_headers s
    \<and> (length d < sum_list ns \<longrightarrow> dm_part s' = Part_Done post \<and> dm_checksum s' = crc)"
    using assms(4,7)
    by (intro dm_reads_body [OF assms(6) inv armor_body_def _ _ assms(1,5) _ assms(2)]) auto
  with assms(3) show ?thesis by (auto simp: into_parts_def)
qed

lemma dearmor_header:
  assumes "read_header_internal A i = Ok ((b, hs, lead), r)" "ns \<noteq> []"
  shows "dm_reads A ns (dm_new i) = dm_reads A ns (after_header b hs r)"
proof -
  obtain n ms where ns: "ns = n # ms" using assms(2) by (cases ns) auto
  have "dm_read A n [] (dm_new i) = dm_read A n [] (after_header b hs r)"
    using assms(1) by (subst dm_read.simps) (simp add: dm_new_def with_header_def after_header_def)
  with ns show ?thesis by simp
qed

lemma dearmor_armored:
  assumes "block_type_ok b" "b \<noteq> Bt_CleartextMessage" "case hs of Some h \<Rightarrow> headers_ok h | None \<Rightarrow> True"
    and "45 \<notin> set lead" "58 \<notin> set post" "armor_write A (Ok d) b hs cs = Ok out"
    and "length (lead @ armor_write_header b hs) < al_fill A (lead @ out @ post)"
    and "list_all ((<) 0) ns" "length d < sum_list ns"
  shows "\<exists>s. dm_reads A ns (dm_new (lead @ out @ post)) = (Ok d, s)
    \<and> into_parts s = Ok (Some b, case hs of Some h \<Rightarrow> h | None \<Rightarrow> [], if cs then Some (al_crc A d) else None, post)"
proof -
  let ?crc = "if cs then Some (al_crc A d) else None" and ?h = "case hs of Some h \<Rightarrow> h | None \<Rightarrow> []"
  let ?r = "armor_body A d ?crc @ end_line b @ post"
  have i: "lead @ out @ post = lead @ armor_write_header b hs @ ?r" using assms(6) by (simp add: armor_write_eq)
  have "read_header_internal A (lead @ out @ post) = Ok ((b, ?h, lead \<noteq> []), ?r)"
    using assms(7) unfolding i
    by (intro read_header_written [OF assms(1-4) armor_body_start armor_body_no_colon [OF assms(5)]])
  moreover have "ns \<noteq> []" using assms(9) by auto
  ultimately have "dm_reads A ns (dm_new (lead @ out @ post)) = dm_reads A ns (after_header b ?h ?r)"
    by (rule dearmor_header)
  with dearmor_armor_body [OF assms(1,8,9), of "after_header b ?h ?r" ?crc post] show ?thesis
    by (auto simp: after_header_def)
qed

end

section \<open>The parameters of the witnesses\<close>

text \<open>CRC-24 of RFC 4880, and readers over slices, whose window is everything.\<close>

fun crc_shift :: "nat \<Rightarrow> u64 \<Rightarrow> u64" where
  "crc_shift 0 x = x"
| "crc_shift (Suc k) x = crc_shift k (let y = push_bit 1 x in if bit y 24 then y XOR 0x1864CFB else y)"

definition std_crc24 :: "bytes \<Rightarrow> u64" where
  "std_crc24 d = foldl (\<lambda>x c. crc_shift 8 (x XOR push_bit 16 (ucast c))) 0xB704CE d AND mask 24"

definition std_armor :: armor_lib where
  "std_armor = \<lparr>al_text = std_text, al_b64 = std_b64, al_crc = std_crc24, al_fill = length, al_footer = length\<rparr>"

lemma std_armor_fields [simp]:
  "al_text std_armor = std_text" "al_b64 std_armor = std_b64" "al_crc std_armor = std_crc24"
  "al_fill std_armor = length" "al_footer std_armor = length"
  by (simp_all add: std_armor_def)

interpretation std_armor: armor_laws std_armor
  by (rule armor_laws.intro)
    (simp_all add: std_armor_text.armor_text_axioms armor_laws_axioms_def std_crc24_def unat_and_mask)

section \<open>The reader as a state machine\<close>

text \<open>
  One step is one successful turn of the loop in \<open>read\<close>, with the bytes it delivers and a slice of any size; a
  run is a sequence of steps.
\<close>

inductive dm_step :: "armor_lib \<Rightarrow> dearmor \<Rightarrow> bytes \<Rightarrow> dearmor \<Rightarrow> bool" for A where
  Header: "dm_part s = Part_Header b \<Longrightarrow> read_header_internal A b = Ok ((typ, hs, leading), b')
    \<Longrightarrow> dm_step A s [] (with_header s typ hs b')"
| Body: "dm_part s = Part_Body b \<Longrightarrow> bd_read (al_b64 A) k b = Ok (x, b')
    \<Longrightarrow> dm_step A s x (s\<lparr>dm_crc := dm_crc s @ x, dm_part := Part_Body b'\<rparr>)"
| Body_End: "dm_part s = Part_Body b \<Longrightarrow> 0 < k \<Longrightarrow> bd_read (al_b64 A) k b = Ok ([], b')
    \<Longrightarrow> dm_step A s [] (s\<lparr>dm_part := Part_Footer (bd_buf b' @ bd_src b')\<rparr>)"
| Footer: "dm_part s = Part_Footer b \<Longrightarrow> read_footer A b (s\<lparr>dm_part := Part_Temp\<rparr>) = (Ok u, s')
    \<Longrightarrow> dm_step A s [] s'"

inductive dm_run :: "armor_lib \<Rightarrow> dearmor \<Rightarrow> bytes \<Rightarrow> dearmor \<Rightarrow> bool" for A where
  Stop: "dm_run A s [] s"
| Step: "dm_step A s x s1 \<Longrightarrow> dm_run A s1 y s2 \<Longrightarrow> dm_run A s (x @ y) s2"

inductive_cases dm_stepE: "dm_step A s x s'"

lemma dm_run_trans: "dm_run A s x s1 \<Longrightarrow> dm_run A s1 y s2 \<Longrightarrow> dm_run A s (x @ y) s2"
  by (induction rule: dm_run.induct) (auto intro: dm_run.Step)

lemma dm_run_single: "dm_step A s x s1 \<Longrightarrow> dm_run A s x s1"
  using dm_run.Step [OF _ dm_run.Stop] by fastforce

lemma dm_run_silent: "dm_step A s [] s1 \<Longrightarrow> dm_run A s1 y s2 \<Longrightarrow> dm_run A s y s2"
  using dm_run.Step [of A s "[]"] by simp

text \<open>
  The states a run reaches after it delivered \<open>d\<close>: the type is known once the header is read, the checksum
  once the footer is, and it is then that of \<open>d\<close>.
\<close>

definition dm_inv :: "armor_lib \<Rightarrow> bytes \<Rightarrow> dearmor \<Rightarrow> bool" where
  "dm_inv A d s \<longleftrightarrow> dm_crc s = d \<and>
     (case dm_part s of
        Part_Header _ \<Rightarrow> d = [] \<and> dm_typ s = None \<and> dm_checksum s = None
      | Part_Done _ \<Rightarrow> dm_typ s \<noteq> None \<and> (\<forall>c. dm_checksum s = Some c \<longrightarrow> c = al_crc A d)
      | Part_Temp \<Rightarrow> False
      | _ \<Rightarrow> dm_typ s \<noteq> None \<and> dm_checksum s = None)"

lemma read_footer_Ok:
  assumes "read_footer A b s = (Ok u, s')"
  shows "\<exists>rest. dm_part s' = Part_Done rest" "dm_typ s' = dm_typ s" "dm_crc s' = dm_crc s"
    "dm_checksum s' = Some c \<Longrightarrow> c = al_crc A (dm_crc s)"
  using assms by (auto simp: read_footer_def Let_def split: result.splits if_splits)

text \<open>
  The footer that a state in front of it reads: its checksum and type, and what is behind it; and a footer that is
  parsed, but whose type is not that of the header or whose checksum is not that of the data.
\<close>

definition footer_seen :: "armor_lib \<Rightarrow> dearmor \<Rightarrow> u64 option \<Rightarrow> block_type \<Rightarrow> bytes \<Rightarrow> bool" where
  "footer_seen A s checksum footer_typ rest \<longleftrightarrow>
     (case dm_part s of
        Part_Footer b \<Rightarrow>
          read_from_buf (al_footer A b) (footer_parser (al_text A) (al_b64 A)) b = Ok ((checksum, footer_typ), rest)
      | _ \<Rightarrow> False)"

definition footer_rejected :: "armor_lib \<Rightarrow> dearmor \<Rightarrow> bytes \<Rightarrow> bool" where
  "footer_rejected A s rest \<longleftrightarrow> (\<exists>checksum footer_typ. footer_seen A s checksum footer_typ rest
     \<and> (dm_typ s \<noteq> None \<and> dm_typ s \<noteq> Some footer_typ \<or> checksum \<noteq> None \<and> checksum \<noteq> Some (al_crc A (dm_crc s))))"

lemma read_footer_seen:
  assumes "dm_part s = Part_Footer b" "read_footer A b (s\<lparr>dm_part := Part_Temp\<rparr>) = (Ok u, s')" "dm_typ s = Some t"
  shows "\<exists>rest. dm_part s' = Part_Done rest \<and> footer_seen A s (dm_checksum s') t rest"
  using assms by (auto simp: footer_seen_def read_footer_def Let_def split: result.splits if_splits)

lemma read_footer_Err:
  assumes "dm_part s = Part_Footer b" "read_footer A b (s\<lparr>dm_part := Part_Temp\<rparr>) = (Err e, s')"
  shows "dm_part s' = Part_Temp \<or> (\<exists>rest. dm_part s' = Part_Done rest \<and> footer_rejected A s rest)"
  using assms
  by (auto simp: footer_rejected_def footer_seen_def read_footer_def Let_def split: result.splits if_splits)

lemma dm_step_inv: "dm_step A s x s' \<Longrightarrow> dm_inv A d s \<Longrightarrow> dm_inv A (d @ x) s'"
proof (induction rule: dm_step.induct)
  case (Footer s b u s')
  from read_footer_Ok [OF Footer(2)] Footer(1,3) show ?case by (auto simp: dm_inv_def)
qed (auto simp: dm_inv_def with_header_def)

lemma dm_run_inv: "dm_run A s x s' \<Longrightarrow> dm_inv A d s \<Longrightarrow> dm_inv A (d @ x) s'"
  by (induction arbitrary: d rule: dm_run.induct) (simp, metis append_assoc dm_step_inv)

text \<open>
  How a run from the start got where it is: the type and the headers are those of the header, and at the end a
  footer of the same type was read behind all the data.
\<close>

definition header_seen :: "armor_lib \<Rightarrow> bytes \<Rightarrow> dearmor \<Rightarrow> bool" where
  "header_seen A i s \<longleftrightarrow> (\<exists>t l b. dm_typ s = Some t \<and> read_header_internal A i = Ok ((t, dm_headers s, l), b))"

definition dm_hist :: "armor_lib \<Rightarrow> bytes \<Rightarrow> bytes \<Rightarrow> dearmor \<Rightarrow> bool" where
  "dm_hist A i d s \<longleftrightarrow> dm_run A (dm_new i) d s \<and>
     (case dm_part s of
        Part_Header b \<Rightarrow> b = i
      | Part_Done rest \<Rightarrow> header_seen A i s \<and>
          (\<exists>s1. dm_run A (dm_new i) d s1 \<and> (\<forall>t. dm_typ s = Some t \<longrightarrow> footer_seen A s1 (dm_checksum s) t rest))
      | _ \<Rightarrow> header_seen A i s)"

lemma dm_step_hist: "dm_step A s x s' \<Longrightarrow> dm_hist A i d s \<Longrightarrow> dm_hist A i (d @ x) s'"
proof -
  assume step: "dm_step A s x s'" and h: "dm_hist A i d s"
  then have "dm_run A (dm_new i) (d @ x) s'"
    using dm_run_single dm_run_trans by (auto simp: dm_hist_def)
  with step h show ?thesis
  proof (induction rule: dm_step.induct)
    case (Header s b t hs l b')
    then show ?case by (auto simp: dm_hist_def header_seen_def with_header_def)
  next
    case (Footer s b u s')
    then obtain t where t: "dm_typ s = Some t" "header_seen A i s" by (auto simp: dm_hist_def header_seen_def)
    from read_footer_seen [OF Footer(1,2) t(1)] obtain rest where
      "dm_part s' = Part_Done rest" "footer_seen A s (dm_checksum s') t rest" by blast
    moreover have "dm_typ s' = dm_typ s" "dm_headers s' = dm_headers s"
      using Footer(2) by (auto simp: read_footer_def Let_def split: result.splits if_splits)
    ultimately show ?case using Footer t by (auto simp: dm_hist_def header_seen_def)
  qed (auto simp: dm_hist_def header_seen_def)
qed

lemma dm_run_hist: "dm_run A s x s' \<Longrightarrow> dm_hist A i d s \<Longrightarrow> dm_hist A i (d @ x) s'"
  by (induction arbitrary: d rule: dm_run.induct) (simp, metis append_assoc dm_step_hist)

lemma dm_step_rank: "dm_step A s x s' \<Longrightarrow> 0 < part_rank (dm_part s) \<and> part_rank (dm_part s') \<le> part_rank (dm_part s)"
  by (auto simp: with_header_def elim!: dm_stepE dest: read_footer_Ok(1))

lemma dm_body_step:
  assumes "dm_part s = Part_Body b" "bd_read (al_b64 A) (n - length acc) b = Ok (x, b')"
  shows "dm_step A s x (s\<lparr>dm_part := Part_Temp, dm_crc := dm_crc s @ x,
    dm_part := (if x = [] \<and> length acc < n then Part_Footer (bd_buf b' @ bd_src b') else Part_Body b')\<rparr>)"
  using dm_step.Body [OF assms] dm_step.Body_End [OF assms(1), of "n - length acc" A b'] assms(2) by simp

lemma dm_read_run: "dm_read A n acc s = (Ok d, s') \<Longrightarrow> \<exists>x. d = acc @ x \<and> dm_run A s x s'"
proof (induction A n acc s rule: dm_read.induct)
  case (1 A n acc s)
  let ?s0 = "s\<lparr>dm_part := Part_Temp\<rparr>"
  show ?case
  proof (cases "dm_part s")
    case (Part_Header b)
    then obtain t hs l b' where h: "read_header_internal A b = Ok ((t, hs, l), b')"
      using "1.prems" by (subst (asm) dm_read.simps) (auto simp: Let_def split: result.splits)
    then have "dm_read A n acc (with_header ?s0 t hs b') = (Ok d, s')"
      using "1.prems" Part_Header by (subst (asm) dm_read.simps) simp
    moreover have "dm_step A s [] (with_header ?s0 t hs b')"
      using dm_step.Header [OF Part_Header h] by (simp add: with_header_def)
    ultimately show ?thesis using "1.IH"(1) [OF refl Part_Header h refl refl refl] dm_run_silent by blast
  next
    case (Part_Body b)
    then obtain y b' where y: "bd_read (al_b64 A) (n - length acc) b = Ok (y, b')"
      using "1.prems" by (subst (asm) dm_read.simps) (auto simp: Let_def split: result.splits)
    let ?s = "s\<lparr>dm_part := Part_Temp, dm_crc := dm_crc s @ y,
      dm_part := (if y = [] \<and> length acc < n then Part_Footer (bd_buf b' @ bd_src b') else Part_Body b')\<rparr>"
    note step = dm_body_step [OF Part_Body y]
    show ?thesis
    proof (cases "n \<le> length (acc @ y)")
      case True
      then have "d = acc @ y" "s' = ?s"
        using "1.prems" y Part_Body by (subst (asm) dm_read.simps, simp add: Let_def)+
      with dm_run_single [OF step] show ?thesis by blast
    next
      case False
      then have "dm_read A n (acc @ y) ?s = (Ok d, s')"
        using "1.prems" y Part_Body by (subst (asm) dm_read.simps) (simp add: Let_def)
      from "1.IH"(2) [OF refl Part_Body y refl refl False this] dm_run.Step [OF step] show ?thesis by auto
    qed
  next
    case (Part_Footer b)
    then obtain u s1 where f: "read_footer A b ?s0 = (Ok u, s1)"
      using "1.prems" by (subst (asm) dm_read.simps) (auto simp: Let_def split: result.splits prod.splits)
    then have "dm_read A n acc s1 = (Ok d, s')"
      using "1.prems" Part_Footer by (subst (asm) dm_read.simps) simp
    with "1.IH"(3) [OF refl Part_Footer f [symmetric] refl] dm_run_silent [OF dm_step.Footer [OF Part_Footer f]]
    show ?thesis by blast
  next
    case (Part_Done b)
    then have "d = acc" "s' = s" using "1.prems" by (subst (asm) dm_read.simps, simp)+
    then show ?thesis using dm_run.Stop by auto
  next
    case Part_Temp
    then show ?thesis using "1.prems" by (subst (asm) dm_read.simps) simp
  qed
qed

lemma dm_reads_run: "dm_reads A ns s = (Ok d, s') \<Longrightarrow> dm_run A s d s'"
proof (induction ns arbitrary: s d)
  case (Cons n ns)
  obtain x s1 y where r: "dm_read A n [] s = (Ok x, s1)" "dm_reads A ns s1 = (Ok y, s')" "d = x @ y"
    using Cons.prems by (auto split: prod.splits result.splits)
  from dm_read_run [OF r(1)] Cons.IH [OF r(2)] r(3) show ?case by (auto intro: dm_run_trans)
qed (simp add: dm_run.Stop)

lemma dm_new_inv: "dm_inv A [] (dm_new i)"
  by (simp add: dm_inv_def dm_new_def)

lemma dm_read_Err:
  "dm_read A n acc s = (Err e, s') \<Longrightarrow> dm_part s' = Part_Temp
    \<or> (\<exists>x s1 rest. dm_run A s x s1 \<and> footer_rejected A s1 rest \<and> dm_part s' = Part_Done rest)"
proof (induction A n acc s rule: dm_read.induct)
  case (1 A n acc s)
  show ?case
  proof (cases "dm_part s")
    case (Part_Header b)
    show ?thesis
    proof (cases "read_header_internal A b")
      case (Ok p)
      then obtain t hs l b' where h: "read_header_internal A b = Ok ((t, hs, l), b')" by (cases p) auto
      let ?s = "with_header (s\<lparr>dm_part := Part_Temp\<rparr>) t hs b'"
      have "dm_read A n acc ?s = (Err e, s')"
        using "1.prems" h Part_Header by (subst (asm) dm_read.simps) simp
      moreover have "dm_step A s [] ?s" using dm_step.Header [OF Part_Header h] by (simp add: with_header_def)
      ultimately show ?thesis using "1.IH"(1) [OF refl Part_Header h refl refl refl] dm_run_silent by metis
    qed (use "1.prems" Part_Header in \<open>subst (asm) dm_read.simps, auto simp: Let_def\<close>)+
  next
    case (Part_Body b)
    show ?thesis
    proof (cases "bd_read (al_b64 A) (n - length acc) b")
      case (Ok p)
      then obtain y b' where y: "bd_read (al_b64 A) (n - length acc) b = Ok (y, b')" by (cases p) auto
      let ?s = "s\<lparr>dm_part := Part_Temp, dm_crc := dm_crc s @ y,
        dm_part := (if y = [] \<and> length acc < n then Part_Footer (bd_buf b' @ bd_src b') else Part_Body b')\<rparr>"
      have f: "\<not> n \<le> length (acc @ y)" and r: "dm_read A n (acc @ y) ?s = (Err e, s')"
        using "1.prems" y Part_Body by (subst (asm) dm_read.simps, simp add: Let_def split: if_splits)+
      from "1.IH"(2) [OF refl Part_Body y refl refl f r] dm_run.Step [OF dm_body_step [OF Part_Body y]]
      show ?thesis by metis
    qed (use "1.prems" Part_Body in \<open>subst (asm) dm_read.simps, auto simp: Let_def\<close>)+
  next
    case (Part_Footer b)
    obtain u s1 where f: "read_footer A b (s\<lparr>dm_part := Part_Temp\<rparr>) = (u, s1)" by fastforce
    show ?thesis
    proof (cases u)
      case (Ok v)
      have "dm_read A n acc s1 = (Err e, s')"
        using "1.prems" f Ok Part_Footer by (subst (asm) dm_read.simps) simp
      from "1.IH"(3) [OF refl Part_Footer f [symmetric] Ok this] show ?thesis
        using dm_run_silent [OF dm_step.Footer [OF Part_Footer f [unfolded Ok]]] by metis
    next
      case (Err e')
      with "1.prems" f Part_Footer have "s' = s1" by (subst (asm) dm_read.simps) simp
      with read_footer_Err [OF Part_Footer f [unfolded Err]] dm_run.Stop show ?thesis by metis
    next
      case Panic
      with "1.prems" f Part_Footer show ?thesis by (subst (asm) dm_read.simps) simp
    qed
  qed (use "1.prems" in \<open>subst (asm) dm_read.simps, auto simp: Let_def\<close>)+
qed

section \<open>Properties\<close>

text \<open>
  C6. Armored data is read back: whatever text without dashes precedes it and whatever text without a
  colon follows it, and in whichever pieces it is read, the reader returns the data, the block type,
  the headers, the checksum and the position behind the last line. The headers are well-formed
  (single lines of UTF-8, keys without colons in their order, values that do not end in a colon), and
  with the text in front they fit into the first window of the reader.
\<close>

theorem armor_roundtrip:
  assumes "armor_laws A" and "block_type_ok b" and "b \<noteq> Bt_CleartextMessage"
    and "case hs of Some h \<Rightarrow> headers_ok h | None \<Rightarrow> True" and "45 \<notin> set lead" and "58 \<notin> set post"
    and "armor_write A (Ok d) b hs cs = Ok out"
    and "length (lead @ armor_write_header b hs) < al_fill A (lead @ out @ post)"
    and "list_all ((<) 0) ns" and "length d < sum_list ns"
  shows "\<exists>s. dm_reads A ns (dm_new (lead @ out @ post)) = (Ok d, s)
    \<and> into_parts s = Ok (Some b, case hs of Some h \<Rightarrow> h | None \<Rightarrow> [], if cs then Some (al_crc A d) else None, post)"
  using armor_laws.dearmor_armored [OF assms] .

theorem armor_roundtrip_witness:
  "\<exists>out s. armor_write std_armor (Ok [0x68, 0x69]) Bt_Message (Some [(str ''Version'', [str ''1''])]) True = Ok out
     \<and> dm_reads std_armor [1, 1, 1] (dm_new (str ''Hi: '' @ out @ str ''Bye'')) = (Ok [0x68, 0x69], s)
     \<and> into_parts s = Ok (Some Bt_Message, [(str ''Version'', [str ''1''])], Some (std_crc24 [0x68, 0x69]), str ''Bye'')"
proof -
  let ?h = "[(str ''Version'', [str ''1''])]"
  obtain out where o: "armor_write std_armor (Ok [0x68, 0x69]) Bt_Message (Some ?h) True = Ok out"
    using std_armor.armor_write_eq by blast
  have "headers_ok ?h" by (simp add: headers_ok_def key_ok_def value_ok_def)
  moreover have "length (str ''Hi: '' @ armor_write_header Bt_Message (Some ?h)) < length (str ''Hi: '' @ out @ str ''Bye'')"
    using o by (auto simp: std_armor.armor_write_eq)
  ultimately show ?thesis
    using armor_roundtrip [OF std_armor.armor_laws_axioms, of Bt_Message "Some ?h" "str ''Hi: ''" "str ''Bye''" "[0x68, 0x69]" True out
      "[1, 1, 1]"] o by simp
qed

lemma sample_dearmored:
  "\<exists>out s. armor_write std_armor (Ok [1, 2, 3]) Bt_Signature None True = Ok out
     \<and> dm_reads std_armor [2, 2] (dm_new out) = (Ok [1, 2, 3], s)
     \<and> into_parts s = Ok (Some Bt_Signature, [], Some (std_crc24 [1, 2, 3]), [])"
proof -
  obtain out where o: "armor_write std_armor (Ok [1, 2, 3]) Bt_Signature None True = Ok out"
    using std_armor.armor_write_eq by blast
  have "length (armor_write_header Bt_Signature None) < length out" using o by (auto simp: std_armor.armor_write_eq end_line_def)
  with std_armor.dearmor_armored [OF _ _ _ _ _ o, of "[]" "[]" "[2, 2]"] o show ?thesis by auto
qed

text \<open>
  C19. Data is released only with its footer verified: for any input and any parameters, a reader that reaches its
  end without an error has read the type and the headers from the header of the input, has met, behind a body that
  delivered exactly these bytes, a footer of the same type, and stands right behind it; and when the footer has a
  checksum it is the checksum of exactly the bytes that were delivered.
\<close>

theorem armor_checksum_verified:
  assumes "dm_reads A ns (dm_new i) = (Ok d, s)" and "into_parts s = Ok (typ, hs, checksum, rest)"
  shows "\<exists>t lead b s1. typ = Some t \<and> read_header_internal A i = Ok ((t, hs, lead), b)
    \<and> dm_run A (dm_new i) d s1 \<and> footer_seen A s1 checksum t rest \<and> (\<forall>c. checksum = Some c \<longrightarrow> c = al_crc A d)"
proof -
  have "dm_hist A i [] (dm_new i)" by (simp add: dm_hist_def dm_new_def dm_run.Stop)
  from dm_run_hist [OF dm_reads_run [OF assms(1)] this] dm_run_inv [OF dm_reads_run [OF assms(1)] dm_new_inv] assms(2)
  show ?thesis by (auto simp: into_parts_def dm_inv_def dm_hist_def header_seen_def split: part.splits)
qed

theorem armor_checksum_verified_witness:
  "\<exists>out s. armor_write std_armor (Ok [1, 2, 3]) Bt_Signature None True = Ok out
     \<and> dm_reads std_armor [2, 2] (dm_new out) = (Ok [1, 2, 3], s)
     \<and> (\<exists>s1. dm_run std_armor (dm_new out) [1, 2, 3] s1 \<and> footer_seen std_armor s1 (Some (std_crc24 [1, 2, 3])) Bt_Signature [])"
proof -
  obtain out s where o: "armor_write std_armor (Ok [1, 2, 3]) Bt_Signature None True = Ok out"
    and s: "dm_reads std_armor [2, 2] (dm_new out) = (Ok [1, 2, 3], s)"
      "into_parts s = Ok (Some Bt_Signature, [], Some (std_crc24 [1, 2, 3]), [])" using sample_dearmored by blast
  from armor_checksum_verified [OF s] obtain s1 where
    "dm_run std_armor (dm_new out) [1, 2, 3] s1" "footer_seen std_armor s1 (Some (std_crc24 [1, 2, 3])) Bt_Signature []" by blast
  with o s show ?thesis by blast
qed

text \<open>
  C32. An error of the reader is reported once: after a failed read the next one panics, or returns an ordinary end
  of data. It returns an end of data only when the failed read had come, in a run of the state machine, to a
  footer that was parsed, but whose type was not that of the header or whose checksum was not that of the data.
\<close>

theorem dearmor_after_error:
  assumes "dm_read A n acc s = (Err e, s')"
  shows "dm_read A m [] s' = (Panic, s')
    \<or> dm_read A m [] s' = (Ok [], s')
      \<and> (\<exists>x s1 rest. dm_run A s x s1 \<and> footer_rejected A s1 rest \<and> dm_part s' = Part_Done rest)"
  using dm_read_Err [OF assms] by (auto simp: dm_read.simps)

theorem dearmor_after_error_witness:
  "dm_read std_armor 1 [] (dm_new []) = (Err IOError, (dm_new [])\<lparr>dm_part := Part_Temp\<rparr>)
     \<and> dm_read std_armor 1 [] ((dm_new [])\<lparr>dm_part := Part_Temp\<rparr>) = (Panic, (dm_new [])\<lparr>dm_part := Part_Temp\<rparr>)"
proof -
  have e: "dm_read std_armor 1 [] (dm_new []) = (Err IOError, (dm_new [])\<lparr>dm_part := Part_Temp\<rparr>)"
    by (simp add: dm_read.simps dm_new_def read_header_internal_def read_from_buf_def)
  with dearmor_after_error [OF e, of 1] show ?thesis by auto
qed

text \<open>
  C27. Reads of any sizes are runs of the reader's state machine, and every state they reach is in order: the
  hasher has seen exactly the bytes delivered, nothing is delivered before the header is read, the type is known
  from then on, the checksum is set at the end only and is then that of the delivered bytes, the temporary state is
  never left behind, the parts are passed in the order header, body, footer, done, and the last one is final.
\<close>

theorem dearmor_reads_are_runs:
  assumes "dm_reads A ns (dm_new i) = (Ok d, s)"
  shows "dm_run A (dm_new i) d s \<and> dm_inv A d s
    \<and> (\<forall>x s'. dm_step A s x s' \<longrightarrow> 0 < part_rank (dm_part s) \<and> part_rank (dm_part s') \<le> part_rank (dm_part s))"
  using dm_reads_run [OF assms] dm_run_inv [OF dm_reads_run [OF assms] dm_new_inv] dm_step_rank by auto

theorem dearmor_reads_are_runs_witness:
  "\<exists>out s. armor_write std_armor (Ok [1, 2, 3]) Bt_Signature None True = Ok out
     \<and> dm_reads std_armor [2, 2] (dm_new out) = (Ok [1, 2, 3], s)
     \<and> dm_run std_armor (dm_new out) [1, 2, 3] s \<and> dm_crc s = [1, 2, 3] \<and> \<not> dm_step std_armor s [] s"
proof -
  obtain out s where o: "armor_write std_armor (Ok [1, 2, 3]) Bt_Signature None True = Ok out"
    and s: "dm_reads std_armor [2, 2] (dm_new out) = (Ok [1, 2, 3], s)"
      "into_parts s = Ok (Some Bt_Signature, [], Some (std_crc24 [1, 2, 3]), [])" using sample_dearmored by blast
  from s(2) have "part_rank (dm_part s) = 0" by (auto simp: into_parts_def split: part.splits)
  with dearmor_reads_are_runs [OF s(1)] o s(1) show ?thesis by (auto simp: dm_inv_def)
qed

end
