(* ===== verification/Pgp_Composed.thy ===== *)
theory Pgp_Composed
  imports Pgp_Message_Ops Pgp_Armor
begin

text \<open>
  Reading and writing composed objects as text: the armored entry points of \<open>Deserializable\<close>
  (\<open>src/src/composed/shared.rs\<close>), of key rings (\<open>src/src/composed/signed_key/parse.rs\<close>) and the
  \<open>to_armored_*\<close> methods of messages, keys and detached signatures. The packets come from the armored
  text through the reader of \<open>Pgp_Armor\<close>, in reads whose sizes are a parameter.
\<close>

section \<open>Parameters\<close>

text \<open>
  \<open>cl_reads\<close>: the sizes of the reads the packet parser makes from the dearmored stream when it reads on to the end.
  \<open>cl_stopped\<close>: how many of them it has made when it stops earlier, at a malformed packet. \<open>cl_chunks\<close>: the pieces
  in which the rest behind the armor is read.
\<close>

record composed_lib =
  cl_armor :: armor_lib
  cl_wire :: wire
  cl_curves :: curve_lib
  cl_reader :: reader_lib
  cl_reads :: "bytes \<Rightarrow> nat list"
  cl_stopped :: "bytes \<Rightarrow> nat"
  cl_chunks :: "bytes \<Rightarrow> bytes list"

text \<open>The reads are not empty and go on to the end.\<close>

locale composed_system = packet_stream "cl_wire E" "cl_reader E" + armor_laws "cl_armor E" for E :: composed_lib +
  assumes reads_positive: "list_all ((<) 0) (cl_reads E i)"
    and reads_all: "length i < sum_list (cl_reads E i)"
    and chunks_all: "concat (cl_chunks E i) = i" "[] \<notin> set (cl_chunks E i)"

section \<open>Packets of armored text\<close>

text \<open>
  The reader as a source of bytes: what the reads deliver, how the source ends, and the state it is left in. Nobody
  reads on behind an error.
\<close>

fun dm_deliver :: "armor_lib \<Rightarrow> nat list \<Rightarrow> dearmor \<Rightarrow> (bytes \<times> source_end) \<times> dearmor" where
  "dm_deliver A [] s = (([], Src_Eof), s)"
| "dm_deliver A (n # ns) s =
     (case dm_read A n [] s of
        (Ok x, s1) \<Rightarrow> (case dm_deliver A ns s1 of ((y, e), s2) \<Rightarrow> ((x @ y, e), s2))
      | (Err _, s1) \<Rightarrow> (([], Src_Fails), s1)
      | (Panic, s1) \<Rightarrow> (([], Src_Panics), s1))"

lemma dm_deliver_reads: "dm_reads A ns s = (Ok d, s') \<Longrightarrow> dm_deliver A ns s = ((d, Src_Eof), s')"
  by (induction ns arbitrary: s d) (auto split: prod.splits result.splits)

text \<open>
  The filtered packets of a reader behind its header, with the bytes \<open>b\<close> still to read, and the state the
  reader is left in. The packet parser takes an error of the reader for the end of the source and stops there; when
  all packets are well-formed it has made all of the reads.
\<close>

definition dearmored_packets :: "composed_lib \<Rightarrow> dearmor \<Rightarrow> bytes \<Rightarrow> packet res list option \<times> dearmor" where
  "dearmored_packets E s b =
     (case dm_deliver (cl_armor E) (cl_reads E b) s of ((d, e), s1) \<Rightarrow>
        let items = drain (length d + 2) (cl_wire E) (cl_curves E) (cl_reader E\<lparr>src_end := e\<rparr>) (packet_parser_new d)
        in (map_option (filter_map filter_parsed_packet_results) items,
            if (case items of Some xs \<Rightarrow> list_all is_ok xs | None \<Rightarrow> True) then s1
            else snd (dm_deliver (cl_armor E) (take (cl_stopped E b) (cl_reads E b)) s)))"

text \<open>The bytes behind a header that was just read.\<close>

definition dm_source :: "dearmor \<Rightarrow> bytes" where
  "dm_source s = (case dm_part s of Part_Body d \<Rightarrow> bd_src d | _ \<Rightarrow> [])"

fun is_pgp_block :: "block_type \<Rightarrow> bool" where
  "is_pgp_block (Bt_PublicKeyPKCS1 _) = False"
| "is_pgp_block Bt_PublicKeyPKCS8 = False"
| "is_pgp_block Bt_PublicKeyOpenssh = False"
| "is_pgp_block (Bt_PrivateKeyPKCS1 _) = False"
| "is_pgp_block Bt_PrivateKeyPKCS8 = False"
| "is_pgp_block Bt_PrivateKeyOpenssh = False"
| "is_pgp_block _ = True"

definition from_armor_many ::
  "composed_lib \<Rightarrow> (block_type \<Rightarrow> bool) \<Rightarrow> bytes \<Rightarrow> (packet res list option \<times> headers) res" where
  "from_armor_many E matches_block_type i =
     (case read_header (cl_armor E) (dm_new i) of
        (Ok _, s) \<Rightarrow>
          (case dm_typ s of
             None \<Rightarrow> Err (Message ''dearmor failed to retrieve armor type'')
           | Some typ \<Rightarrow>
               if is_pgp_block typ then
                 if \<not> matches_block_type typ then Err (Message ''unexpected block type: {}'')
                 else Ok (fst (dearmored_packets E s (dm_source s)), dm_headers s)
               else Err (Unimplemented ''key format {:?}''))
      | (Err e, _) \<Rightarrow> Err e
      | (Panic, _) \<Rightarrow> Panic)"

text \<open>The first object of an iteration.\<close>

definition first_item ::
  "(packet res list \<Rightarrow> ('k res \<times> packet res list) option) \<Rightarrow> packet res list option \<Rightarrow> 'k res option" where
  "first_item next_item ps =
     map_option (\<lambda>ps. case next_item ps of None \<Rightarrow> Err NoMatchingPacket | Some (k, _) \<Rightarrow> k) ps"

definition from_armor_single ::
  "composed_lib \<Rightarrow> (block_type \<Rightarrow> bool) \<Rightarrow> (packet res list \<Rightarrow> ('k res \<times> packet res list) option) \<Rightarrow> bytes
     \<Rightarrow> ('k \<times> headers) res option" where
  "from_armor_single E matches_block_type next_item i =
     try_opt (from_armor_many E matches_block_type i) (\<lambda>(ps, hs).
       map_option (map_ok (\<lambda>k. (k, hs))) (first_item next_item ps))"

text \<open>Armored or binary, by the first byte of the window.\<close>

definition from_reader_many ::
  "composed_lib \<Rightarrow> (block_type \<Rightarrow> bool) \<Rightarrow> bytes \<Rightarrow> (packet res list option \<times> headers option) res" where
  "from_reader_many E matches_block_type i =
     and_then (is_binary (take (al_fill (cl_armor E) i) i)) (\<lambda>binary.
       if \<not> binary then map_ok (\<lambda>(ps, hs). (ps, Some hs)) (from_armor_many E matches_block_type i)
       else Ok (filtered_packets (cl_wire E) (cl_curves E) (cl_reader E) i, None))"

definition from_reader_single ::
  "composed_lib \<Rightarrow> (block_type \<Rightarrow> bool) \<Rightarrow> (packet res list \<Rightarrow> ('k res \<times> packet res list) option) \<Rightarrow> bytes
     \<Rightarrow> ('k \<times> headers option) res option" where
  "from_reader_single E matches_block_type next_item i =
     try_opt (is_binary (take (al_fill (cl_armor E) i) i)) (\<lambda>binary.
       if \<not> binary then map_option (map_ok (\<lambda>(k, hs). (k, Some hs))) (from_armor_single E matches_block_type next_item i)
       else map_option (map_ok (\<lambda>k. (k, None))) (from_bytes (cl_wire E) (cl_curves E) (cl_reader E) next_item i))"

section \<open>Key rings of either kind\<close>

text \<open>\<open>from_armor_many_buf\<close> and \<open>from_reader_many_buf\<close> of \<open>parse.rs\<close>: the iterator is that of \<open>PubPrivIterator\<close>.\<close>

definition key_block :: "block_type \<Rightarrow> bool" where
  "key_block typ \<longleftrightarrow> typ \<in> {Bt_PublicKey, Bt_PrivateKey, Bt_File}"

definition keys_from_armor :: "composed_lib \<Rightarrow> bytes \<Rightarrow> (packet res list option \<times> headers) res" where
  "keys_from_armor E i =
     (case read_header (cl_armor E) (dm_new i) of
        (Ok _, s) \<Rightarrow>
          (case dm_typ s of
             None \<Rightarrow> Err (Message ''dearmor failed to retrieve armor type'')
           | Some typ \<Rightarrow>
               if key_block typ then Ok (fst (dearmored_packets E s (dm_source s)), dm_headers s)
               else if is_pgp_block typ then Err (Message ''unexpected block type: {}'')
               else Err (Unimplemented ''key format {}''))
      | (Err e, _) \<Rightarrow> Err e
      | (Panic, _) \<Rightarrow> Panic)"

definition keys_from_reader :: "composed_lib \<Rightarrow> bytes \<Rightarrow> (packet res list option \<times> headers option) res" where
  "keys_from_reader E i =
     and_then (is_binary (take (al_fill (cl_armor E) i) i)) (\<lambda>binary.
       if \<not> binary then map_ok (\<lambda>(ps, hs). (ps, Some hs)) (keys_from_armor E i)
       else Ok (filtered_packets (cl_wire E) (cl_curves E) (cl_reader E) i, None))"

section \<open>Block types of the objects\<close>

definition message_matches :: "block_type \<Rightarrow> bool" where
  "message_matches typ = (case typ of Bt_Message \<Rightarrow> True | Bt_MultiPartMessage _ _ \<Rightarrow> True | Bt_File \<Rightarrow> True | _ \<Rightarrow> False)"

definition public_key_matches :: "block_type \<Rightarrow> bool" where
  "public_key_matches typ \<longleftrightarrow> typ = Bt_PublicKey \<or> typ = Bt_File"

definition secret_key_matches :: "block_type \<Rightarrow> bool" where
  "secret_key_matches typ \<longleftrightarrow> typ = Bt_PrivateKey \<or> typ = Bt_File"

definition signature_matches :: "block_type \<Rightarrow> bool" where
  "signature_matches typ \<longleftrightarrow> typ = Bt_Signature"

section \<open>Armored output\<close>

record armor_options =
  ao_headers :: "headers option"
  ao_checksum :: bool

definition armor_options_default :: armor_options where
  "armor_options_default = \<lparr>ao_headers = None, ao_checksum = True\<rparr>"

definition armor_options_from :: "headers option \<Rightarrow> armor_options" where
  "armor_options_from hs = \<lparr>ao_headers = hs, ao_checksum = True\<rparr>"

text \<open>\<open>to_armored_writer\<close> and \<open>to_armored_bytes\<close>; \<open>to_armored_string\<close> checks that the bytes are UTF-8.\<close>

definition to_armored :: "composed_lib \<Rightarrow> block_type \<Rightarrow> bytes res \<Rightarrow> armor_options \<Rightarrow> bytes res" where
  "to_armored E typ source opts = armor_write (cl_armor E) source typ (ao_headers opts) (ao_checksum opts)"

definition message_to_armored :: "composed_lib \<Rightarrow> message \<Rightarrow> armor_options \<Rightarrow> bytes res" where
  "message_to_armored E m = to_armored E Bt_Message (message_to_writer (cl_wire E) (cl_curves E) m)"

definition public_key_to_armored :: "composed_lib \<Rightarrow> signed_public_key \<Rightarrow> armor_options \<Rightarrow> bytes res" where
  "public_key_to_armored E k = to_armored E Bt_PublicKey (signed_public_key_to_writer (cl_wire E) (cl_curves E) k)"

definition secret_key_to_armored :: "composed_lib \<Rightarrow> signed_secret_key \<Rightarrow> armor_options \<Rightarrow> bytes res" where
  "secret_key_to_armored E k = to_armored E Bt_PrivateKey (signed_secret_key_to_writer (cl_wire E) (cl_curves E) k)"

definition signature_to_armored :: "composed_lib \<Rightarrow> signature \<Rightarrow> armor_options \<Rightarrow> bytes res" where
  "signature_to_armored E s = to_armored E Bt_Signature (standalone_to_writer (cl_wire E) (cl_curves E) s)"

fun public_or_secret_to_armored :: "composed_lib \<Rightarrow> public_or_secret \<Rightarrow> armor_options \<Rightarrow> bytes res" where
  "public_or_secret_to_armored E (PoS_Public k) = public_key_to_armored E k"
| "public_or_secret_to_armored E (PoS_Secret k) = secret_key_to_armored E k"

definition to_armored_string :: "bytes res \<Rightarrow> bytes res" where
  "to_armored_string armored = and_then armored str_from_utf8"

section \<open>Reading back\<close>

lemma dm_source_after [simp]: "dm_source (after_header typ hs b) = b"
  by (simp add: dm_source_def after_header_def bd_new_def)

lemma after_header_fields [simp]: "dm_typ (after_header typ hs b) = Some typ" "dm_headers (after_header typ hs b) = hs"
  by (simp_all add: after_header_def)

text \<open>Headers that survive, and text in front of and behind the armor that is not mistaken for it.\<close>

definition options_ok :: "armor_options \<Rightarrow> bool" where
  "options_ok opts \<longleftrightarrow> (case ao_headers opts of Some h \<Rightarrow> headers_ok h | None \<Rightarrow> True)"

definition header_list :: "armor_options \<Rightarrow> headers" where
  "header_list opts = (case ao_headers opts of Some h \<Rightarrow> h | None \<Rightarrow> [])"

definition placed :: "composed_lib \<Rightarrow> block_type \<Rightarrow> armor_options \<Rightarrow> bytes \<Rightarrow> bytes \<Rightarrow> bytes \<Rightarrow> bool" where
  "placed E typ opts lead out post \<longleftrightarrow> 45 \<notin> set lead \<and> 58 \<notin> set post
     \<and> length (lead @ armor_write_header typ (ao_headers opts)) < al_fill (cl_armor E) (lead @ out @ post)"

text \<open>Types of objects that are written as a list of packets and read back from it.\<close>

locale armored_object =
  fixes next_item :: "packet res list \<Rightarrow> ('k res \<times> packet res list) option"
    and obj_packets :: "'k \<Rightarrow> packet list"
    and obj_ok :: "'k \<Rightarrow> bool"
    and obj_type :: block_type
    and obj_matches :: "block_type \<Rightarrow> bool"
  assumes next_written: "obj_ok k \<Longrightarrow> next_item (map Ok (obj_packets k)) = Some (Ok k, [])"
    and packets_pass: "list_all passes_filter (obj_packets k)"
    and type_matches: "obj_matches obj_type"
    and type_ok: "block_type_ok obj_type" "is_pgp_block obj_type" "obj_type \<noteq> Bt_CleartextMessage"

interpretation message_object: armored_object message_next message_packets message_ok Bt_Message message_matches
  using message_next_written [where r = "[]"] message_packets_filter
  by unfold_locales (simp_all add: message_matches_def)

interpretation public_key_object:
  armored_object public_key_next signed_public_key_packets signed_public_key_ok Bt_PublicKey public_key_matches
  using public_key_next_written [where r = "[]"] key_packets_are [of "PoS_Public k" for k]
  by unfold_locales (simp_all add: public_key_matches_def)

interpretation secret_key_object:
  armored_object secret_key_next signed_secret_key_packets signed_secret_key_ok Bt_PrivateKey secret_key_matches
  using secret_key_next_written [where r = "[]"] key_packets_are [of "PoS_Secret k" for k]
  by unfold_locales (simp_all add: secret_key_matches_def)

interpretation signature_object:
  armored_object standalone_next "\<lambda>s. [P_Signature s]" "\<lambda>s. True" Bt_Signature signature_matches
  by unfold_locales (simp_all add: standalone_next_def passes_filter_def signature_matches_def)

lemma write_packets_single: "write_packets W L [p] = packet_to_writer W L p"
  by (cases "packet_to_writer W L p") (simp_all add: write_packets_def)

text \<open>Binary data starts with a packet header, whose first bit is set.\<close>

lemma top_bit: "bit (c :: u8) 7 \<Longrightarrow> c AND 0x80 \<noteq> 0"
proof -
  assume "bit c 7"
  moreover have "bit (c AND 0x80) 7 = bit c 7" by (simp add: bit_and_iff)
  ultimately show ?thesis by auto
qed

lemma write_header_top_bit: "\<exists>c r. write_header W v t n = c # r \<and> bit c 7"
  by (cases v) (auto simp: bit_or_iff)

context packet_stream
begin

lemma written_binary:
  assumes "list_all (packet_ok W L) ps" "ps \<noteq> []" "write_packets W L ps = Ok d"
  shows "\<exists>c r. d = c # r \<and> c AND 0x80 \<noteq> 0"
proof -
  obtain p qs where ps: "ps = p # qs" using assms(2) by (cases ps) auto
  obtain o1 os where o: "packet_to_writer W L p = Ok o1" "d = o1 @ concat os"
    using assms(3) by (auto simp: ps write_packets_def)
  from packet_framed_roundtrip [of L p] assms(1) o(1) obtain h b where "o1 = h @ b"
    "h = write_header W (packet_version p) (tag_to_u8 (packet_tag p)) (length b)" by (auto simp: ps)
  with write_header_top_bit [of W "packet_version p" "tag_to_u8 (packet_tag p)" "length b"] o(2) top_bit
  show ?thesis by auto
qed

end

context composed_system
begin

lemma encode_longer: "length d \<le> length (b64_encode (al_b64 (cl_armor E)) d)"
  by (simp add: encode_length)

lemma armor_body_longer: "length d \<le> length (armor_body (cl_armor E) d crc)"
proof -
  have "length (b64_chars t) \<le> length t" for t by (simp add: b64_chars_def)
  from this [of "armor_body (cl_armor E) d crc"] encode_longer [of d] show ?thesis
    by (simp add: armor_body_text(2))
qed

lemma dearmored_packets_written:
  assumes "block_type_ok typ" "list_all passes_filter ps"
    and "drain (length d + 2) (cl_wire E) (cl_curves E) (cl_reader E) (packet_parser_new d) = Some (map Ok ps)"
    and "crc = None \<or> crc = Some (al_crc (cl_armor E) d)"
  shows "\<exists>s. dearmored_packets E (after_header typ hs (armor_body (cl_armor E) d crc @ end_line typ @ post))
      (armor_body (cl_armor E) d crc @ end_line typ @ post) = (Some (map Ok ps), s) \<and> into_parts s = Ok (Some typ, hs, crc, post)"
proof -
  let ?b = "armor_body (cl_armor E) d crc @ end_line typ @ post"
  have "length d < sum_list (cl_reads E ?b)"
    using reads_all [of ?b] armor_body_longer [of d crc] by simp
  from dearmor_armor_body [OF assms(1) reads_positive this _ _ _ assms(4), of "after_header typ hs ?b"]
  obtain s where "dm_reads (cl_armor E) (cl_reads E ?b) (after_header typ hs ?b) = (Ok d, s)"
    "into_parts s = Ok (Some typ, hs, crc, post)" by (auto simp: after_header_def)
  moreover have "cl_reader E\<lparr>src_end := Src_Eof\<rparr> = cl_reader E" using reads_to_eof by simp
  moreover have "list_all is_ok (map Ok ps :: packet res list)" by (simp add: list_all_iff)
  ultimately show ?thesis
    using assms(3) dm_deliver_reads filter_key_packets [OF assms(2)]
    by (simp add: dearmored_packets_def Let_def del: drain.simps)
qed

lemma read_header_armored:
  assumes "block_type_ok typ" "typ \<noteq> Bt_CleartextMessage" "options_ok opts"
    and "to_armored E typ (Ok d) opts = Ok out" "placed E typ opts lead out post"
  shows "\<exists>b crc. b = armor_body (cl_armor E) d crc @ end_line typ @ post
    \<and> (crc = None \<or> crc = Some (al_crc (cl_armor E) d))
    \<and> read_header_internal (cl_armor E) (lead @ out @ post) = Ok ((typ, header_list opts, lead \<noteq> []), b)"
proof -
  let ?crc = "if ao_checksum opts then Some (al_crc (cl_armor E) d) else None"
  let ?b = "armor_body (cl_armor E) d ?crc @ end_line typ @ post"
  have i: "lead @ out @ post = lead @ armor_write_header typ (ao_headers opts) @ ?b"
    using assms(4) by (auto simp: to_armored_def armor_write_eq)
  have "read_header_internal (cl_armor E) (lead @ out @ post) = Ok ((typ, header_list opts, lead \<noteq> []), ?b)"
    using assms(3,5) unfolding i header_list_def
    by (intro read_header_written [OF assms(1,2) _ _ armor_body_start armor_body_no_colon])
      (auto simp: placed_def options_ok_def i)
  then show ?thesis by (intro exI conjI) auto
qed

lemma read_header_new:
  assumes "read_header_internal (cl_armor E) i = Ok ((typ, hs, l), b)"
  shows "read_header (cl_armor E) (dm_new i) = (Ok (), after_header typ hs b)"
  using assms by (simp add: read_header_def dm_new_def with_header_def after_header_def)

end

context armored_object
begin

lemma armored_opened:
  assumes "composed_system E" "list_all (packet_ok (cl_wire E) (cl_curves E)) (obj_packets k)" "options_ok opts"
    and "to_armored E obj_type (write_packets (cl_wire E) (cl_curves E) (obj_packets k)) opts = Ok out"
    and "placed E obj_type opts lead out post"
  shows "\<exists>b s crc. read_header_internal (cl_armor E) (lead @ out @ post) = Ok ((obj_type, header_list opts, lead \<noteq> []), b)
    \<and> dearmored_packets E (after_header obj_type (header_list opts) b) b = (Some (map Ok (obj_packets k)), s)
    \<and> into_parts s = Ok (Some obj_type, header_list opts, crc, post)"
proof -
  have S: "packet_stream (cl_wire E) (cl_reader E)" using assms(1) by (simp add: composed_system_def)
  obtain d where d: "write_packets (cl_wire E) (cl_curves E) (obj_packets k) = Ok d"
    "drain (length d + 2) (cl_wire E) (cl_curves E) (cl_reader E) (packet_parser_new d) = Some (map Ok (obj_packets k))"
    using packet_stream.drained_written [OF S assms(2)] by blast
  obtain b crc where b: "b = armor_body (cl_armor E) d crc @ end_line obj_type @ post"
      "crc = None \<or> crc = Some (al_crc (cl_armor E) d)"
      "read_header_internal (cl_armor E) (lead @ out @ post) = Ok ((obj_type, header_list opts, lead \<noteq> []), b)"
    using composed_system.read_header_armored [OF assms(1) type_ok(1,3) assms(3) _ assms(5), of d] assms(4) d(1) by auto
  from composed_system.dearmored_packets_written [OF assms(1) type_ok(1) packets_pass d(2) b(2)] b(1)
  show ?thesis using b(3) by blast
qed

lemma armored_header:
  assumes "composed_system E" "list_all (packet_ok (cl_wire E) (cl_curves E)) (obj_packets k)" "options_ok opts"
    and "to_armored E obj_type (write_packets (cl_wire E) (cl_curves E) (obj_packets k)) opts = Ok out"
    and "placed E obj_type opts lead out post"
  shows "\<exists>b. read_header (cl_armor E) (dm_new (lead @ out @ post)) = (Ok (), after_header obj_type (header_list opts) b)
    \<and> fst (dearmored_packets E (after_header obj_type (header_list opts) b) b) = Some (map Ok (obj_packets k))"
  using armored_opened [OF assms] composed_system.read_header_new [OF assms(1)] by fastforce

lemma armored_packets:
  assumes "composed_system E" "list_all (packet_ok (cl_wire E) (cl_curves E)) (obj_packets k)" "options_ok opts"
    and "to_armored E obj_type (write_packets (cl_wire E) (cl_curves E) (obj_packets k)) opts = Ok out"
    and "placed E obj_type opts lead out post"
  shows "from_armor_many E obj_matches (lead @ out @ post) = Ok (Some (map Ok (obj_packets k)), header_list opts)"
  using armored_header [OF assms] type_ok(2) type_matches by (auto simp: from_armor_many_def)

lemma armored_key_packets:
  assumes "composed_system E" "list_all (packet_ok (cl_wire E) (cl_curves E)) (obj_packets k)" "options_ok opts"
    and "to_armored E obj_type (write_packets (cl_wire E) (cl_curves E) (obj_packets k)) opts = Ok out"
    and "placed E obj_type opts lead out post" "key_block obj_type"
  shows "keys_from_armor E (lead @ out @ post) = Ok (Some (map Ok (obj_packets k)), header_list opts)"
  using armored_header [OF assms(1-5)] assms(6) by (auto simp: keys_from_armor_def)

lemma armored_single:
  assumes "composed_system E" "obj_ok k" "list_all (packet_ok (cl_wire E) (cl_curves E)) (obj_packets k)" "options_ok opts"
    and "to_armored E obj_type (write_packets (cl_wire E) (cl_curves E) (obj_packets k)) opts = Ok out"
    and "placed E obj_type opts lead out post"
  shows "from_armor_single E obj_matches next_item (lead @ out @ post) = Some (Ok (k, header_list opts))"
  using armored_packets [OF assms(1,3-6)] next_written [OF assms(2)]
  by (simp add: from_armor_single_def first_item_def)

lemma armored_written:
  assumes "composed_system E" "list_all (packet_ok (cl_wire E) (cl_curves E)) (obj_packets k)"
  shows "\<exists>out. to_armored E obj_type (write_packets (cl_wire E) (cl_curves E) (obj_packets k)) opts = Ok out"
proof -
  have S: "packet_stream (cl_wire E) (cl_reader E)" and A: "armor_laws (cl_armor E)"
    using assms(1) by (simp_all add: composed_system_def)
  obtain d where "write_packets (cl_wire E) (cl_curves E) (obj_packets k) = Ok d"
    using packet_stream.filtered_packets_written [OF S assms(2) packets_pass] by blast
  then show ?thesis by (simp add: to_armored_def armor_laws.armor_write_eq [OF A])
qed

text \<open>Written as text, the object is read back wherever the text is placed.\<close>

lemma armored_object_roundtrip:
  assumes "composed_system E" "obj_ok k" "list_all (packet_ok (cl_wire E) (cl_curves E)) (obj_packets k)" "options_ok opts"
  shows "\<exists>out. to_armored E obj_type (write_packets (cl_wire E) (cl_curves E) (obj_packets k)) opts = Ok out
    \<and> (\<forall>lead post. placed E obj_type opts lead out post \<longrightarrow>
        from_armor_single E obj_matches next_item (lead @ out @ post) = Some (Ok (k, header_list opts)))"
  using armored_written [OF assms(1,3)] armored_single [OF assms] by blast

text \<open>A reader that may be given either form tells them apart.\<close>

lemma reader_armored:
  assumes "composed_system E" "obj_ok k" "list_all (packet_ok (cl_wire E) (cl_curves E)) (obj_packets k)" "options_ok opts"
    and "to_armored E obj_type (write_packets (cl_wire E) (cl_curves E) (obj_packets k)) opts = Ok out"
    and "placed E obj_type opts [] out post"
  shows "from_reader_single E obj_matches next_item (out @ post) = Some (Ok (k, Some (header_list opts)))"
proof -
  let ?n = "al_fill (cl_armor E) (out @ post)"
  have A: "armor_laws (cl_armor E)" using assms(1) by (simp add: composed_system_def)
  obtain r where out: "out = 45 # r"
    using assms(5) by (auto simp: to_armored_def armor_write_def armor_write_header_def)
  moreover have "0 < ?n" using armor_laws.fill_some [OF A, of "out @ post"] out by simp
  ultimately have "take ?n (out @ post) = 45 # take (?n - 1) (r @ post)" by (simp add: take_Cons')
  then have "is_binary (take ?n (out @ post)) = Ok False" by (simp add: is_binary_def)
  with armored_single [OF assms(1-5), of "[]" post] assms(6) show ?thesis by (simp add: from_reader_single_def)
qed

lemma reader_binary:
  assumes "composed_system E" "obj_ok k" "list_all (packet_ok (cl_wire E) (cl_curves E)) (obj_packets k)" "obj_packets k \<noteq> []"
  shows "\<exists>d. write_packets (cl_wire E) (cl_curves E) (obj_packets k) = Ok d
    \<and> from_reader_single E obj_matches next_item d = Some (Ok (k, None))"
proof -
  have S: "packet_stream (cl_wire E) (cl_reader E)" and A: "armor_laws (cl_armor E)"
    using assms(1) by (simp_all add: composed_system_def)
  obtain d where d: "write_packets (cl_wire E) (cl_curves E) (obj_packets k) = Ok d"
    "filtered_packets (cl_wire E) (cl_curves E) (cl_reader E) d = Some (map Ok (obj_packets k))"
    using packet_stream.filtered_packets_written [OF S assms(3) packets_pass] by blast
  obtain c r where c: "d = c # r" "c AND 0x80 \<noteq> 0"
    using packet_stream.written_binary [OF S assms(3,4) d(1)] by blast
  have "0 < al_fill (cl_armor E) d" using armor_laws.fill_some [OF A, of d] c by simp
  then have "take (al_fill (cl_armor E) d) d = c # take (al_fill (cl_armor E) d - 1) r" using c(1) by (simp add: take_Cons')
  with c(2) have "is_binary (take (al_fill (cl_armor E) d) d) = Ok True" by (simp add: is_binary_def)
  with d next_written [OF assms(2)] show ?thesis by (simp add: from_reader_single_def from_bytes_def)
qed

end

section \<open>Properties\<close>

text \<open>
  C7. Composed objects survive as text: a message whose signatures are one-pass ones and whose encrypted parts
  have session keys, a well-formed public or secret key (its signatures where the parser puts them, subkeys only
  with a version 4 key) and a detached signature, with packets that fit their length fields and armor headers
  that have plain keys and values, is written as an armored block; reading that block with a
  text without dashes in front of it and a text without colons behind it gives the same object and the same
  headers, whatever the sizes of the reads, as long as the text in front and the header lines lie within the
  first window of the reader.
\<close>

theorem armored_objects_roundtrip:
  assumes "composed_system E" and "options_ok opts"
  shows "(message_ok m \<and> list_all (packet_ok (cl_wire E) (cl_curves E)) (message_packets m) \<longrightarrow>
      (\<exists>out. message_to_armored E m opts = Ok out \<and> (\<forall>lead post. placed E Bt_Message opts lead out post \<longrightarrow>
         from_armor_single E message_matches message_next (lead @ out @ post) = Some (Ok (m, header_list opts)))))
    \<and> (signed_public_key_ok k \<and> list_all (packet_ok (cl_wire E) (cl_curves E)) (signed_public_key_packets k) \<longrightarrow>
      (\<exists>out. public_key_to_armored E k opts = Ok out \<and> (\<forall>lead post. placed E Bt_PublicKey opts lead out post \<longrightarrow>
         from_armor_single E public_key_matches public_key_next (lead @ out @ post) = Some (Ok (k, header_list opts)))))
    \<and> (signed_secret_key_ok sk \<and> list_all (packet_ok (cl_wire E) (cl_curves E)) (signed_secret_key_packets sk) \<longrightarrow>
      (\<exists>out. secret_key_to_armored E sk opts = Ok out \<and> (\<forall>lead post. placed E Bt_PrivateKey opts lead out post \<longrightarrow>
         from_armor_single E secret_key_matches secret_key_next (lead @ out @ post) = Some (Ok (sk, header_list opts)))))
    \<and> (packet_ok (cl_wire E) (cl_curves E) (P_Signature s) \<longrightarrow>
      (\<exists>out. signature_to_armored E s opts = Ok out \<and> (\<forall>lead post. placed E Bt_Signature opts lead out post \<longrightarrow>
         from_armor_single E signature_matches standalone_next (lead @ out @ post) = Some (Ok (s, header_list opts)))))"
  using message_object.armored_object_roundtrip [OF assms(1) _ _ assms(2)]
    public_key_object.armored_object_roundtrip [OF assms(1) _ _ assms(2)]
    secret_key_object.armored_object_roundtrip [OF assms(1) _ _ assms(2)]
    signature_object.armored_object_roundtrip [OF assms(1) _ _ assms(2)]
  by (simp add: message_to_armored_def message_to_writer_def public_key_to_armored_def signed_public_key_to_writer_def
      secret_key_to_armored_def signed_secret_key_to_writer_def signature_to_armored_def standalone_to_writer_def
      write_packets_single)

fun pos_type :: "public_or_secret \<Rightarrow> block_type" where
  "pos_type (PoS_Public _) = Bt_PublicKey"
| "pos_type (PoS_Secret _) = Bt_PrivateKey"

lemma armored_key:
  assumes "composed_system E" "options_ok opts" "list_all (packet_ok (cl_wire E) (cl_curves E)) (public_or_secret_packets k)"
  shows "\<exists>out. public_or_secret_to_armored E k opts = Ok out
    \<and> (\<forall>lead post. placed E (pos_type k) opts lead out post \<longrightarrow>
        keys_from_armor E (lead @ out @ post) = Ok (Some (map Ok (public_or_secret_packets k)), header_list opts))"
proof (cases k)
  case (PoS_Public pk)
  have "key_block Bt_PublicKey" by (simp add: key_block_def)
  with PoS_Public assms public_key_object.armored_written [OF assms(1), of pk opts]
    public_key_object.armored_key_packets [OF assms(1) _ assms(2), of pk]
  show ?thesis by (auto simp: public_key_to_armored_def signed_public_key_to_writer_def)
next
  case (PoS_Secret sk)
  have "key_block Bt_PrivateKey" by (simp add: key_block_def)
  with PoS_Secret assms secret_key_object.armored_written [OF assms(1), of sk opts]
    secret_key_object.armored_key_packets [OF assms(1) _ assms(2), of sk]
  show ?thesis by (auto simp: secret_key_to_armored_def signed_secret_key_to_writer_def)
qed

lemma message_packets_nonempty: "message_packets m \<noteq> []"
  by (cases m) auto

definition std_composed :: composed_lib where
  "std_composed = \<lparr>cl_armor = std_armor, cl_wire = std_wire, cl_curves = std_curves, cl_reader = std_reader,
     cl_reads = (\<lambda>i. [1, Suc (length i)]), cl_stopped = length, cl_chunks = map (\<lambda>c. [c])\<rparr>"

lemma std_composed_fields [simp]:
  "cl_armor std_composed = std_armor" "cl_wire std_composed = std_wire" "cl_curves std_composed = std_curves"
  "cl_reader std_composed = std_reader"
  by (simp_all add: std_composed_def)

interpretation std_composed: composed_system std_composed
proof (rule composed_system.intro)
  show "packet_stream (cl_wire std_composed) (cl_reader std_composed)"
    by (simp add: packet_stream_def std.wire_laws_axioms std_reader.reader_laws_axioms)
  show "armor_laws (cl_armor std_composed)" using std_armor.armor_laws_axioms by simp
  have "concat (map (\<lambda>c. [c]) i) = i" for i :: bytes by (induction i) simp_all
  then show "composed_system_axioms std_composed"
    by (auto simp: composed_system_axioms_def std_composed_def)
qed

theorem armored_objects_roundtrip_witness:
  "\<exists>out. message_to_armored std_composed (Msg_Literal sample_literal) armor_options_default = Ok out
     \<and> from_armor_single std_composed message_matches message_next (str ''hi '' @ out)
       = Some (Ok (Msg_Literal sample_literal, []))"
proof -
  have m: "list_all (packet_ok std_wire std_curves) (message_packets (Msg_Literal sample_literal))"
    using sample_literal_ok by simp
  have opts: "options_ok armor_options_default" by (simp add: options_ok_def armor_options_default_def)
  have "message_ok (Msg_Literal sample_literal)
      \<and> list_all (packet_ok (cl_wire std_composed) (cl_curves std_composed)) (message_packets (Msg_Literal sample_literal))"
    using m by simp
  with conjunct1 [OF armored_objects_roundtrip [OF std_composed.composed_system_axioms opts], of "Msg_Literal sample_literal"]
  obtain out where out: "message_to_armored std_composed (Msg_Literal sample_literal) armor_options_default = Ok out"
    "\<forall>lead post. placed std_composed Bt_Message armor_options_default lead out post \<longrightarrow>
       from_armor_single std_composed message_matches message_next (lead @ out @ post)
       = Some (Ok (Msg_Literal sample_literal, header_list armor_options_default))" by auto
  have "placed std_composed Bt_Message armor_options_default (str ''hi '') out []"
    using out(1) by (auto simp: placed_def message_to_armored_def to_armored_def armor_write_def armor_options_default_def
        write_footer_lines end_line_def)
  with out(2) have "from_armor_single std_composed message_matches message_next (str ''hi '' @ out @ [])
       = Some (Ok (Msg_Literal sample_literal, header_list armor_options_default))" by blast
  with out(1) show ?thesis by (simp add: header_list_def armor_options_default_def)
qed

text \<open>
  A reader that takes text or binary data tells them apart: the same message is read from its armored and
  from its binary form, with the headers in the one case and without in the other, and the reader of
  key rings finds the key in its armored form.
\<close>

theorem reader_reads_either_form:
  assumes "composed_system E" and "options_ok opts"
    and "message_ok m" and "list_all (packet_ok (cl_wire E) (cl_curves E)) (message_packets m)"
    and "public_or_secret_ok k" and "list_all (packet_ok (cl_wire E) (cl_curves E)) (public_or_secret_packets k)"
  shows "(\<exists>out d. message_to_armored E m opts = Ok out \<and> message_to_writer (cl_wire E) (cl_curves E) m = Ok d
      \<and> (\<forall>post. placed E Bt_Message opts [] out post \<longrightarrow>
          from_reader_single E message_matches message_next (out @ post) = Some (Ok (m, Some (header_list opts))))
      \<and> from_reader_single E message_matches message_next d = Some (Ok (m, None)))
    \<and> (\<exists>out. public_or_secret_to_armored E k opts = Ok out \<and> (\<forall>lead post. placed E (pos_type k) opts lead out post \<longrightarrow>
          (\<exists>ps. keys_from_armor E (lead @ out @ post) = Ok (Some ps, header_list opts) \<and> pub_priv_all 2 (Some ps) = [Ok k])))"
proof
  show "\<exists>out d. message_to_armored E m opts = Ok out \<and> message_to_writer (cl_wire E) (cl_curves E) m = Ok d
      \<and> (\<forall>post. placed E Bt_Message opts [] out post \<longrightarrow>
          from_reader_single E message_matches message_next (out @ post) = Some (Ok (m, Some (header_list opts))))
      \<and> from_reader_single E message_matches message_next d = Some (Ok (m, None))"
    using message_object.armored_written [OF assms(1,4), of opts] message_object.reader_armored [OF assms(1,3,4,2)]
      message_object.reader_binary [OF assms(1,3,4) message_packets_nonempty]
    by (auto simp: message_to_armored_def message_to_writer_def)
  have "pub_priv_all 2 (Some (map Ok (public_or_secret_packets k))) = [Ok k]"
    using pub_priv_all_written [of "[k]" 2] assms(5) by (simp del: pub_priv_all.simps)
  with armored_key [OF assms(1,2,6)]
  show "\<exists>out. public_or_secret_to_armored E k opts = Ok out \<and> (\<forall>lead post. placed E (pos_type k) opts lead out post \<longrightarrow>
      (\<exists>ps. keys_from_armor E (lead @ out @ post) = Ok (Some ps, header_list opts) \<and> pub_priv_all 2 (Some ps) = [Ok k]))"
    by blast
qed

theorem reader_reads_either_form_witness:
  "\<exists>out d. message_to_armored std_composed (Msg_Literal sample_literal) armor_options_default = Ok out
     \<and> message_to_writer std_wire std_curves (Msg_Literal sample_literal) = Ok d
     \<and> from_reader_single std_composed message_matches message_next out = Some (Ok (Msg_Literal sample_literal, Some []))
     \<and> from_reader_single std_composed message_matches message_next d = Some (Ok (Msg_Literal sample_literal, None))"
proof -
  have opts: "options_ok armor_options_default" by (simp add: options_ok_def armor_options_default_def)
  have m: "message_ok (Msg_Literal sample_literal)"
    "list_all (packet_ok (cl_wire std_composed) (cl_curves std_composed)) (message_packets (Msg_Literal sample_literal))"
    using sample_literal_ok by simp_all
  have k: "public_or_secret_ok (PoS_Public bare_key)"
    "list_all (packet_ok (cl_wire std_composed) (cl_curves std_composed)) (public_or_secret_packets (PoS_Public bare_key))"
    using bare_key_ok bare_key_packet_ok by (simp_all add: bare_key_packets)
  from conjunct1 [OF reader_reads_either_form [OF std_composed.composed_system_axioms opts m k]]
  obtain out d where o: "message_to_armored std_composed (Msg_Literal sample_literal) armor_options_default = Ok out"
    "message_to_writer std_wire std_curves (Msg_Literal sample_literal) = Ok d"
    "\<forall>post. placed std_composed Bt_Message armor_options_default [] out post \<longrightarrow>
       from_reader_single std_composed message_matches message_next (out @ post)
       = Some (Ok (Msg_Literal sample_literal, Some (header_list armor_options_default)))"
    "from_reader_single std_composed message_matches message_next d = Some (Ok (Msg_Literal sample_literal, None))" by auto
  have "placed std_composed Bt_Message armor_options_default [] out []"
    using o(1) by (auto simp: placed_def message_to_armored_def to_armored_def armor_write_def armor_options_default_def
        write_footer_lines end_line_def)
  with o(3) have "from_reader_single std_composed message_matches message_next (out @ [])
       = Some (Ok (Msg_Literal sample_literal, Some (header_list armor_options_default)))" by blast
  with o show ?thesis by (simp add: header_list_def armor_options_default_def)
qed

end
