(* ===== verification/Pgp_Cleartext.thy ===== *)
theory Pgp_Cleartext
  imports Pgp_Lines Pgp_Utf8 Pgp_Signature
begin

text \<open>
  The cleartext signature framework, \<open>src/src/composed/cleartext.rs\<close>: dash escaping, the text that
  is hashed for the signature, construction and verification over an abstract signing key, and
  the check for trailing data. A text is its UTF-8 bytes. Whole messages as
  armored text are in \<open>Pgp_Cleartext_Armor\<close>.
\<close>

section \<open>Lines of a string\<close>

text \<open>\<open>str::split_inclusive('\n')\<close>: the lines with their terminators; no empty last line.\<close>

fun split_inclusive :: "bytes \<Rightarrow> bytes list" where
  "split_inclusive [] = []"
| "split_inclusive (b # r) =
     (if b = lf then [b] # split_inclusive r
      else case split_inclusive r of [] \<Rightarrow> [[b]] | l # ls \<Rightarrow> (b # l) # ls)"

abbreviation dash :: u8 where "dash \<equiv> 45"
abbreviation space :: u8 where "space \<equiv> 32"

section \<open>Model\<close>

definition dash_escape :: "bytes \<Rightarrow> bytes" where
  "dash_escape text = concat (map (\<lambda>line.
     (if take 1 line = [dash] then [dash, space] else []) @ line) (split_inclusive text))"

definition dash_unescape :: "bytes \<Rightarrow> bytes" where
  "dash_unescape text = concat (map (\<lambda>line.
     if take 2 line = [dash, space] then drop 2 line else line) (split_inclusive text))"

record cleartext_signed_message =
  csf_encoded_text :: bytes
  csf_hashes :: "hash_alg list"
  csf_signatures :: "signature list"

text \<open>\<open>new\<close>: the signature is made by the caller's key over the normalized text.\<close>

definition cleartext_new ::
  "bytes \<Rightarrow> signature_config \<Rightarrow> (signature_config \<Rightarrow> bytes \<Rightarrow> signature res)
   \<Rightarrow> cleartext_signed_message res" where
  "cleartext_new text cfg sign =
     (let signature_text = normalize_lines Crlf text; hash = hash_alg cfg in
      and_then (sign cfg signature_text) (\<lambda>sig.
        Ok \<lparr>csf_encoded_text = dash_escape text, csf_hashes = [hash], csf_signatures = [sig]\<rparr>))"

definition signed_text :: "cleartext_signed_message \<Rightarrow> bytes res" where
  "signed_text m =
     (let unescaped = dash_unescape (csf_encoded_text m);
          normalized = normalize_lines Crlf unescaped
      in if utf8_valid normalized then Ok normalized else Panic)"

text \<open>\<open>verify\<close> with the verdict of \<open>signature.verify(key, \<dots>)\<close> as an argument.\<close>

fun verify_first :: "(signature \<Rightarrow> bytes \<Rightarrow> unit res) \<Rightarrow> signature list \<Rightarrow> bytes \<Rightarrow> signature res" where
  "verify_first verify [] nt = Err (Message ''No matching signature found'')"
| "verify_first verify (s # ss) nt =
     (case verify s nt of Ok _ \<Rightarrow> Ok s | Err _ \<Rightarrow> verify_first verify ss nt | Panic \<Rightarrow> Panic)"

definition cleartext_verify ::
  "(signature \<Rightarrow> bytes \<Rightarrow> unit res) \<Rightarrow> cleartext_signed_message \<Rightarrow> signature res" where
  "cleartext_verify verify m = and_then (signed_text m) (verify_first verify (csf_signatures m))"

fun verify_each :: "(nat \<Rightarrow> signature \<Rightarrow> bytes \<Rightarrow> unit res) \<Rightarrow> nat \<Rightarrow> signature list \<Rightarrow> bytes \<Rightarrow> unit res" where
  "verify_each v i [] nt = Ok ()"
| "verify_each v i (s # ss) nt = and_then (v i s nt) (\<lambda>_. verify_each v (Suc i) ss nt)"

definition cleartext_verify_many ::
  "(nat \<Rightarrow> signature \<Rightarrow> bytes \<Rightarrow> unit res) \<Rightarrow> cleartext_signed_message \<Rightarrow> unit res" where
  "cleartext_verify_many v m = and_then (signed_text m) (verify_each v 0 (csf_signatures m))"

text \<open>\<open>validate_headers\<close> over the headers in the order of the map.\<close>

fun parse_hashes :: "string list \<Rightarrow> hash_alg list res" where
  "parse_hashes [] = Ok []"
| "parse_hashes (v # vs) = and_then (hash_alg_from_str v) (\<lambda>h. map_ok ((#) h) (parse_hashes vs))"

fun validate_headers :: "(string \<times> string list) list \<Rightarrow> hash_alg list res" where
  "validate_headers [] = Ok []"
| "validate_headers ((name, vals) # hs) =
     (if name \<noteq> ''Hash'' then Err (Message ''unexpected header'')
      else and_then (parse_hashes vals) (\<lambda>a. map_ok (\<lambda>b. a @ b) (validate_headers hs)))"

text \<open>
  \<open>has_rest\<close>: the reader as the chunks its reads return, the buffer as it is between reads.
\<close>

definition is_ascii_whitespace :: "u8 \<Rightarrow> bool" where
  "is_ascii_whitespace c \<longleftrightarrow> c \<in> {32, 9, 10, 12, 13}"

fun has_rest_loop :: "bytes list \<Rightarrow> bytes \<Rightarrow> bool" where
  "has_rest_loop [] buf = False"
| "has_rest_loop (c # cs) buf =
     (let buf = c @ drop (length c) buf in
      if \<exists>x \<in> set buf. \<not> is_ascii_whitespace x then True else has_rest_loop cs buf)"

definition has_rest :: "bytes list \<Rightarrow> bool" where
  "has_rest chunks = has_rest_loop chunks (replicate 64 0)"

section \<open>Lines\<close>

lemma concat_split_inclusive [simp]: "concat (split_inclusive t) = t"
  by (induction t) (auto split: list.splits)

text \<open>A line: bytes without LF, then possibly one LF.\<close>

definition is_line :: "bytes \<Rightarrow> bool" where
  "is_line l \<longleftrightarrow> l \<noteq> [] \<and> lf \<notin> set (butlast l)"

fun lines_ok :: "bytes list \<Rightarrow> bool" where
  "lines_ok [] = True"
| "lines_ok [l] = is_line l"
| "lines_ok (l # ls) = (is_line l \<and> last l = lf \<and> lines_ok ls)"

lemma split_inclusive_lines_ok: "lines_ok (split_inclusive t)"
proof (induction t)
  case (Cons b r)
  then show ?case
    by (cases "split_inclusive r"; cases "tl (split_inclusive r)") (auto simp: is_line_def)
qed simp

lemma split_inclusive_Cons_line:
  "is_line l \<Longrightarrow> last l = lf \<Longrightarrow> split_inclusive (l @ r) = l # split_inclusive r"
proof (induction l)
  case (Cons b l)
  then show ?case by (cases "l = []") (auto simp: is_line_def split: if_splits)
qed (simp add: is_line_def)

lemma split_inclusive_last_line: "is_line l \<Longrightarrow> split_inclusive l = [l]"
proof (induction l)
  case (Cons b l)
  then show ?case by (cases "l = []") (auto simp: is_line_def split: if_splits)
qed (simp add: is_line_def)

lemma split_inclusive_concat: "lines_ok ls \<Longrightarrow> split_inclusive (concat ls) = ls"
  by (induction ls rule: lines_ok.induct)
    (simp_all add: split_inclusive_Cons_line split_inclusive_last_line)

definition escape_line :: "bytes \<Rightarrow> bytes" where
  "escape_line line = (if take 1 line = [dash] then [dash, space] else []) @ line"

lemma escape_line_ok: "is_line l \<Longrightarrow> is_line (escape_line l) \<and> last (escape_line l) = last l"
  by (auto simp: escape_line_def is_line_def butlast_append split: if_splits)

lemma lines_ok_escape: "lines_ok ls \<Longrightarrow> lines_ok (map escape_line ls)"
  by (induction ls rule: lines_ok.induct) (simp_all add: escape_line_ok)

lemma split_dash_escape: "split_inclusive (dash_escape t) = map escape_line (split_inclusive t)"
proof -
  have "dash_escape t = concat (map escape_line (split_inclusive t))"
    by (simp add: dash_escape_def escape_line_def [abs_def])
  then show ?thesis
    using split_inclusive_concat [OF lines_ok_escape [OF split_inclusive_lines_ok]] by simp
qed

lemma take_2_Cons: "take 2 (a # l) = a # take 1 l"
  by (simp add: numeral_2_eq_2)

lemma unescape_escape_line:
  "(if take 2 (escape_line l) = [dash, space] then drop 2 (escape_line l) else escape_line l) = l"
  by (cases l) (auto simp: escape_line_def take_2_Cons)

lemma dash_unescape_escape: "dash_unescape (dash_escape t) = t"
  unfolding dash_unescape_def split_dash_escape
  by (simp add: unescape_escape_line o_def)

section \<open>UTF-8\<close>

lemma utf8_valid_ascii_append: "ascii a \<Longrightarrow> utf8_valid (a @ r) \<longleftrightarrow> utf8_valid r"
  by (induction a) (simp_all add: ascii_def)

lemma break_lines_no_breaks: "cr \<notin> set t \<Longrightarrow> lf \<notin> set t \<Longrightarrow> break_lines nl (t @ r) = t @ break_lines nl r"
  by (induction t) (auto simp: break_lines_plain)

lemma break_lines_break:
  "b \<in> {cr, lf} \<Longrightarrow> \<exists>ys'. break_lines nl (b # ys) = nl @ break_lines nl ys'
     \<and> (ys' = ys \<or> ys = lf # ys')"
  by (cases ys) auto

lemma break_lines_utf8:
  assumes "ascii nl" "nl \<noteq> []"
  shows "utf8_valid t \<Longrightarrow> utf8_valid (break_lines nl t)"
proof (induction "length t" arbitrary: t rule: less_induct)
  case less
  show ?case
  proof (cases "\<exists>b \<in> set t. b \<in> {cr, lf}")
    case False
    then have "break_lines nl (t @ []) = t @ break_lines nl []" by (intro break_lines_no_breaks) auto
    with less.prems show ?thesis by simp
  next
    case True
    then obtain xs b ys where t: "t = xs @ b # ys" "b \<in> {cr, lf}" "\<forall>x \<in> set xs. x \<notin> {cr, lf}"
      using split_list_first_prop [of t "\<lambda>b. b \<in> {cr, lf}"] by blast
    from break_lines_break [OF t(2)] obtain ys' where ys':
      "break_lines nl (b # ys) = nl @ break_lines nl ys'" "ys' = ys \<or> ys = lf # ys'" by blast
    have eq: "break_lines nl t = xs @ nl @ break_lines nl ys'"
      unfolding t(1) ys'(1) [symmetric] using t(3) by (intro break_lines_no_breaks) auto
    have "b < 0x80" using t(2) by auto
    with less.prems have v: "utf8_valid xs" "utf8_valid ys"
      unfolding t(1) by (simp_all add: utf8_valid_append_ascii)
    with ys'(2) have "utf8_valid ys'" by auto
    then have "utf8_valid (break_lines nl ys')"
      using t(1) ys'(2) by (intro less.hyps) auto
    moreover obtain a nl' where nl: "nl = a # nl'" using assms(2) by (cases nl) auto
    ultimately have "utf8_valid (xs @ nl @ break_lines nl ys')"
      using assms(1) v(1) unfolding nl
      by (simp add: utf8_valid_append_ascii utf8_valid_ascii_append ascii_def)
    then show ?thesis by (simp add: eq)
  qed
qed

lemma normalize_crlf_utf8: "utf8_valid t \<Longrightarrow> utf8_valid (normalize_lines Crlf t)"
  by (simp add: normalize_lines_def collect_Crlf break_lines_utf8 ascii_def)

definition unescape_line :: "bytes \<Rightarrow> bytes" where
  "unescape_line line = (if take 2 line = [dash, space] then drop 2 line else line)"

lemma unescape_line_utf8: "utf8_valid l \<Longrightarrow> utf8_valid (unescape_line l)"
  by (cases l; cases "tl l") (auto simp: unescape_line_def)

lemma unescape_line_lf: "unescape_line (l @ [lf]) = unescape_line l @ [lf]"
  by (cases l; cases "tl l") (auto simp: unescape_line_def)

lemma unescape_lines_utf8:
  "lines_ok ls \<Longrightarrow> utf8_valid (concat ls) \<Longrightarrow> utf8_valid (concat (map unescape_line ls))"
proof (induction ls rule: lines_ok.induct)
  case (3 l m ls)
  then obtain l0 where l: "l = l0 @ [lf]"
    by (metis append_butlast_last_id is_line_def lines_ok.simps(3))
  from 3 have "utf8_valid l0" "utf8_valid (concat (map unescape_line (m # ls)))"
    by (simp_all add: l utf8_valid_append_ascii)
  then show ?case
    by (simp add: l unescape_line_lf utf8_valid_append_ascii unescape_line_utf8)
qed (simp_all add: unescape_line_utf8)

lemma dash_unescape_utf8: "utf8_valid t \<Longrightarrow> utf8_valid (dash_unescape t)"
  using unescape_lines_utf8 [OF split_inclusive_lines_ok, of t]
  by (simp add: dash_unescape_def unescape_line_def [abs_def])

section \<open>Properties\<close>

text \<open>
  Dash escaping is undone exactly by unescaping, and in escaped text every line that starts
  with a dash starts with a dash and a space, so that the armor header of the signature
  cannot be forged inside the text.
\<close>

theorem dash_escape_roundtrip:
  "dash_unescape (dash_escape t) = t
   \<and> (\<forall>l \<in> set (split_inclusive (dash_escape t)). take 1 l = [dash] \<longrightarrow> take 2 l = [dash, space])"
proof -
  have "take 1 (escape_line l) = [dash] \<Longrightarrow> take 2 (escape_line l) = [dash, space]" for l
    by (auto simp: escape_line_def take_2_Cons split: if_splits)
  then show ?thesis by (auto simp: dash_unescape_escape split_dash_escape)
qed

theorem dash_escape_roundtrip_witness:
  "dash_escape [dash, dash, lf, 0x61, lf, dash] = [dash, space, dash, dash, lf, 0x61, lf, dash, space, dash]
   \<and> dash_unescape (dash_escape [dash, dash, lf, 0x61, lf, dash]) = [dash, dash, lf, 0x61, lf, dash]"
  using dash_escape_roundtrip [of "[dash, dash, lf, 0x61, lf, dash]"]
  by (simp add: dash_escape_def)

text \<open>
  The text recovered from a cleartext message for verification is the text that was signed:
  a message made from a valid UTF-8 text is verified by its own signature whenever the
  key's verification accepts what its signing produced. Recovering the text of a
  message never panics.
\<close>

theorem cleartext_sign_verify:
  assumes "utf8_valid text"
    and "sign cfg (normalize_lines Crlf text) = Ok sig"
    and "verify sig (normalize_lines Crlf text) = Ok ()"
  shows "\<exists>m. cleartext_new text cfg sign = Ok m
    \<and> signed_text m = Ok (normalize_lines Crlf text)
    \<and> cleartext_verify verify m = Ok sig"
  using assms
  by (simp add: cleartext_new_def signed_text_def cleartext_verify_def dash_unescape_escape
      normalize_crlf_utf8)

theorem cleartext_sign_verify_witness:
  "\<exists>m. cleartext_new [dash, 0x61, lf] (new_v4 SigV4 Sig_Text Pk_EdDSA Hash_SHA2_256 [] [])
      (\<lambda>c d. Ok (Signature New c [0, 0] [d])) = Ok m
    \<and> signed_text m = Ok [dash, 0x61, cr, lf]
    \<and> cleartext_verify (\<lambda>s d. if sig_mpis s = [d] then Ok () else Err InvalidInput) m
      = Ok (Signature New (new_v4 SigV4 Sig_Text Pk_EdDSA Hash_SHA2_256 [] []) [0, 0]
          [[dash, 0x61, cr, lf]])"
  using cleartext_sign_verify [of "[dash, 0x61, lf]" "\<lambda>c d. Ok (Signature New c [0, 0] [d])"
      "new_v4 SigV4 Sig_Text Pk_EdDSA Hash_SHA2_256 [] []"
      "Signature New (new_v4 SigV4 Sig_Text Pk_EdDSA Hash_SHA2_256 [] []) [0, 0] [[dash, 0x61, cr, lf]]"
      "\<lambda>s d. if sig_mpis s = [d] then Ok () else Err InvalidInput"]
  by (simp add: normalize_lines_def collect_Crlf)

text \<open>
  Recovering the signed text of any message whose encoded text is valid UTF-8 never panics.
\<close>

theorem signed_text_no_panic:
  assumes "utf8_valid (csf_encoded_text m)"
  shows "signed_text m = Ok (normalize_lines Crlf (dash_unescape (csf_encoded_text m)))"
  using assms by (simp add: signed_text_def Let_def normalize_crlf_utf8 dash_unescape_utf8)

theorem signed_text_no_panic_witness:
  "signed_text \<lparr>csf_encoded_text = [dash, space, dash, lf, 0xC3, 0xA9],
     csf_hashes = [], csf_signatures = []\<rparr> = Ok [dash, cr, lf, 0xC3, 0xA9]"
  using signed_text_no_panic [of "\<lparr>csf_encoded_text = [dash, space, dash, lf, 0xC3, 0xA9],
     csf_hashes = [], csf_signatures = []\<rparr>"]
  by (simp add: utf8_valid.simps utf8_len_def byte_at_def utf8_cont_def dash_unescape_def
      normalize_lines_def collect_Crlf)

text \<open>
  The trailing-data check reports data whenever the first read is non-empty and shorter than
  the buffer: the untouched zero bytes of the buffer count as non-whitespace, so that even a
  single trailing newline after the signature is rejected.
\<close>

theorem has_rest_short_read:
  assumes "chunks \<noteq> []" and "length (hd chunks) < 64"
  shows "has_rest chunks"
proof -
  obtain c cs where "chunks = c # cs" using assms(1) by (cases chunks) auto
  with assms(2) show ?thesis
    by (auto simp: has_rest_def is_ascii_whitespace_def Let_def)
qed

theorem has_rest_short_read_witness: "has_rest [[lf]] \<and> is_ascii_whitespace lf"
  using has_rest_short_read [of "[[lf]]"] by (simp add: is_ascii_whitespace_def)

end
