(* ===== verification/Pgp_Cleartext_Armor.thy ===== *)
theory Pgp_Cleartext_Armor
  imports Pgp_Composed Pgp_Cleartext
begin

text \<open>
  Cleartext signed messages as text (\<open>src/src/composed/cleartext.rs\<close>): making them with a key or with
  several signers, writing them and reading them back, and \<open>Any\<close> (\<open>src/src/composed/any.rs\<close>), which reads
  whatever kind of block it is given.
\<close>

section \<open>Signing\<close>

definition cleartext_sign ::
  "wire \<Rightarrow> hash_lib \<Rightarrow> int \<Rightarrow> ('k) secret_key_trait_scheme \<Rightarrow> bytes \<Rightarrow> bytes \<Rightarrow> cleartext_signed_message res" where
  "cleartext_sign W H now key pw t =
     and_then (pkt_key_id key) (\<lambda>i. and_then (pkt_fingerprint key) (\<lambda>fp.
       cleartext_new t
         (new_v4 SigV4 Sig_Text (pkt_algorithm key) (suggested_hash_alg key)
           [subpacket_regular (Sp_IssuerFingerprint KV4 fp), subpacket_regular (Sp_SignatureCreationTime now)]
           [subpacket_regular (Sp_Issuer i)])
         (\<lambda>cfg. sign W H cfg key pw)))"

text \<open>\<open>new_many\<close>: the hashes are collected in a set, whose order of iteration is the argument \<open>ordered\<close>.\<close>

definition cleartext_new_many ::
  "(hash_alg set \<Rightarrow> hash_alg list) \<Rightarrow> bytes \<Rightarrow> (bytes \<Rightarrow> signature list res) \<Rightarrow> cleartext_signed_message res" where
  "cleartext_new_many ordered t signer =
     and_then (signer (normalize_lines Crlf t)) (\<lambda>sigs.
       Ok \<lparr>csf_encoded_text = dash_escape t, csf_hashes = ordered (set (map (\<lambda>s. hash_alg (config s)) sigs)),
           csf_signatures = sigs\<rparr>)"

section \<open>Writing\<close>

definition HEADER_LINE :: bytes where
  "HEADER_LINE = str ''-----BEGIN PGP SIGNED MESSAGE-----''"

definition hash_line :: "(u8 \<Rightarrow> string) \<Rightarrow> hash_alg \<Rightarrow> bytes" where
  "hash_line show_u8 h = str ''Hash: '' @ str (hash_alg_display show_u8 h) @ [lf]"

definition cleartext_to_armored ::
  "composed_lib \<Rightarrow> (u8 \<Rightarrow> string) \<Rightarrow> cleartext_signed_message \<Rightarrow> armor_options \<Rightarrow> bytes res" where
  "cleartext_to_armored E show_u8 m opts =
     map_ok (\<lambda>sigs. HEADER_LINE @ [lf] @ concat (map (hash_line show_u8) (csf_hashes m)) @ [lf]
         @ csf_encoded_text m @ [lf] @ sigs)
       (to_armored E Bt_Signature (write_packets (cl_wire E) (cl_curves E) (map P_Signature (csf_signatures m))) opts)"

section \<open>Reading\<close>

definition cleartext_body :: "text_lib \<Rightarrow> bytes \<Rightarrow> bytes parsed" where
  "cleartext_body T i =
     and_then (pmap_res str_from_utf8 (alts
       [\<lambda>i. pcomplete (tx_take_until1 T (cr # lf # str ''-----'') i),
        \<lambda>i. pcomplete (tx_take_until1 T (lf # str ''-----'') i)] i)) (\<lambda>(i, ls).
     and_then (tx_line_ending T i) (\<lambda>(i, _). Ok (i, ls)))"

text \<open>The headers of the armor as strings.\<close>

definition text_of :: "bytes \<Rightarrow> string" where
  "text_of b = map (\<lambda>c. char_of (unat c)) b"

definition header_strings :: "headers \<Rightarrow> (string \<times> string list) list" where
  "header_strings hs = map (\<lambda>(k, vs). (text_of k, map text_of vs)) hs"

text \<open>\<open>collect\<close> on the iterator of signatures: the first error ends it.\<close>

fun collect_signatures :: "packet res list \<Rightarrow> signature list res" where
  "collect_signatures [] = Ok []"
| "collect_signatures (p # ps) =
     (case standalone_next (p # ps) of
        None \<Rightarrow> Ok []
      | Some (s, _) \<Rightarrow> and_then s (\<lambda>s. map_ok ((#) s) (collect_signatures ps)))"

definition from_armor_after_header ::
  "composed_lib \<Rightarrow> bytes \<Rightarrow> headers \<Rightarrow> (cleartext_signed_message \<times> headers) res option" where
  "from_armor_after_header E b hs =
     try_opt (validate_headers (header_strings hs)) (\<lambda>hashes.
     try_opt (read_from_buf (al_fill (cl_armor E) b) (cleartext_body (al_text (cl_armor E))) b) (\<lambda>(t, b).
       case read_header (cl_armor E) (dm_new b) of
         (Ok _, s) \<Rightarrow>
           (case dm_typ s of
              None \<Rightarrow> Some (Err (Message ''dearmor failed to retrieve armor type''))
            | Some typ \<Rightarrow>
                if typ \<noteq> Bt_Signature then Some (Err (Message ''invalid block type''))
                else let (ps, s') = dearmored_packets E s (dm_source s) in
                  map_option (\<lambda>ps.
                    and_then (collect_signatures ps) (\<lambda>sigs.
                    and_then (into_parts s') (\<lambda>(_, hs, _, rest).
                      if has_rest (cl_chunks E rest) then Err (Message ''unexpected trailing data'')
                      else Ok (\<lparr>csf_encoded_text = t, csf_hashes = hashes, csf_signatures = sigs\<rparr>, hs)))) ps)
       | (Err e, _) \<Rightarrow> Some (Err e)
       | (Panic, _) \<Rightarrow> Some Panic))"

definition cleartext_from_armor :: "composed_lib \<Rightarrow> bytes \<Rightarrow> (cleartext_signed_message \<times> headers) res option" where
  "cleartext_from_armor E b =
     try_opt (read_header_internal (cl_armor E) b) (\<lambda>((typ, hs, has_leading_data), b).
       if typ \<noteq> Bt_CleartextMessage then Some (Err (Message ''unexpected block type''))
       else if has_leading_data then Some (Err (Message ''must not have leading data for a cleartext message''))
       else from_armor_after_header E b hs)"

section \<open>Any block\<close>

datatype any =
    Any_Cleartext cleartext_signed_message
  | Any_PublicKey signed_public_key
  | Any_SecretKey signed_secret_key
  | Any_Message message
  | Any_Signature signature

text \<open>One arm of the match: the first object of the packets behind the header.\<close>

definition any_object ::
  "composed_lib \<Rightarrow> (packet res list \<Rightarrow> ('k res \<times> packet res list) option) \<Rightarrow> ('k \<Rightarrow> any) \<Rightarrow> block_type \<Rightarrow> headers \<Rightarrow> bytes
     \<Rightarrow> (any \<times> headers) res option" where
  "any_object E next_item f typ hs rest =
     map_option (map_ok (\<lambda>k. (f k, hs))) (first_item next_item (fst (dearmored_packets E (after_header typ hs rest) rest)))"

definition any_from_armor :: "composed_lib \<Rightarrow> bytes \<Rightarrow> (any \<times> headers) res option" where
  "any_from_armor E i =
     try_opt (read_only_header (cl_armor E) (dm_new i)) (\<lambda>(typ, hs, has_leading_data, rest).
       case typ of
         Bt_PublicKey \<Rightarrow> any_object E public_key_next Any_PublicKey typ hs rest
       | Bt_PrivateKey \<Rightarrow> any_object E secret_key_next Any_SecretKey typ hs rest
       | Bt_Message \<Rightarrow> any_object E message_next Any_Message typ hs rest
       | Bt_Signature \<Rightarrow> any_object E standalone_next Any_Signature typ hs rest
       | Bt_CleartextMessage \<Rightarrow>
           if has_leading_data then Some (Err (Message ''must not have leading data for a cleartext message''))
           else map_option (map_ok (\<lambda>(m, hs). (Any_Cleartext m, hs))) (from_armor_after_header E rest hs)
       | _ \<Rightarrow> Some (Err (Unimplemented ''unsupported block type: {}'')))"

section \<open>Reading a cleartext message back\<close>

text \<open>
  A text that can be told from the signature behind it: it starts with a character that is not
  white space, has no line of dashes and does not end in a carriage return. Names of hashes have
  to be alphanumeric.
\<close>

definition dash_line :: bytes where
  "dash_line = lf # str ''-----''"

definition body_ok :: "bytes \<Rightarrow> bool" where
  "body_ok t \<longleftrightarrow> utf8_valid t \<and> plain_start t \<and> find_sub dash_line t = None \<and> last t \<noteq> cr"

definition plain_hash :: "hash_alg \<Rightarrow> bool" where
  "plain_hash h \<longleftrightarrow> h \<in> {Hash_None, Hash_MD5, Hash_SHA1, Hash_RIPEMD160, Hash_SHA2_256, Hash_SHA2_384, Hash_SHA2_512,
     Hash_SHA2_224, Hash_Private10}"

lemma plain_hash_name:
  assumes "plain_hash h"
  shows "list_all is_alphanumeric (str (hash_alg_display show_u8 h))" "str (hash_alg_display show_u8 h) \<noteq> []"
    "utf8_valid (str (hash_alg_display show_u8 h))" "hash_alg_from_str (hash_alg_display show_u8 h) = Ok h"
  using assms by (auto simp: plain_hash_def is_alphanumeric_def hash_alg_from_str_def)

lemma text_of_str [simp]: "text_of (str s) = s"
proof -
  have "unat (of_nat (of_char c) :: u8) = of_char c" for c :: char
    by (simp add: take_bit_nat_eq_self unat_of_nat of_char_of)
  then show ?thesis by (induction s) (simp_all add: text_of_def)
qed

lemma parse_hashes_names:
  "list_all plain_hash hs \<Longrightarrow> parse_hashes (map (hash_alg_display show_u8) hs) = Ok hs"
  by (induction hs) (simp_all add: plain_hash_name(4))

lemma validate_hash_header:
  "list_all plain_hash hs \<Longrightarrow>
   validate_headers (header_strings [(str ''Hash'', map (\<lambda>h. str (hash_alg_display show_u8 h)) hs)]) = Ok hs"
  using parse_hashes_names [of hs show_u8] by (simp add: header_strings_def comp_def del: str_simps)

lemma collect_signatures_written: "collect_signatures (map Ok (map P_Signature ss)) = Ok ss"
  by (induction ss) (simp_all add: standalone_next_def)

interpretation signatures_object: armored_object "\<lambda>ps. Some (collect_signatures ps, [])" "map P_Signature" "\<lambda>_. True"
  Bt_Signature signature_matches
  using collect_signatures_written
  by unfold_locales (simp_all add: signature_matches_def list_all_iff passes_filter_def)

subsection \<open>The header\<close>

context text_laws
begin

lemma hash_header_line_written:
  assumes "plain_hash h"
  shows "hash_header_line T (hash_line show_u8 h @ r) = Ok (r, [str (hash_alg_display show_u8 h)])"
proof -
  let ?n = "str (hash_alg_display show_u8 h)"
  have a: "std_span1 KAlphaNumeric is_alphanumeric (?n @ lf # r) = Ok (lf # r, ?n)"
    using plain_hash_name(1,2) [OF assms] by (intro std_span1_append) (simp_all add: is_alphanumeric_def)
  have "many0 (\<lambda>i. pmap_res str_from_utf8 (and_then (std_span1 KAlphaNumeric is_alphanumeric i) (\<lambda>(i, x).
      and_then (text_tag (str '','') i) (\<lambda>(i, _). Ok (i, x))))) (?n @ lf # r) = Ok (?n @ lf # r, [])"
    by (rule many0_stop) (simp add: a pmap_res_def)
  moreover have "pmap_res str_from_utf8 (Ok (lf # r, ?n)) = Ok (lf # r, ?n)"
    using plain_hash_name(3) [OF assms] by (simp add: str_from_utf8_def)
  ultimately show ?thesis using a by (simp add: hash_header_line_def hash_line_def del: str_simps)
qed

lemma hash_header_lines_written:
  "list_all plain_hash hs \<Longrightarrow>
   many0 (\<lambda>i. pcomplete (hash_header_line T i)) (concat (map (hash_line show_u8) hs) @ lf # r)
     = Ok (lf # r, map (\<lambda>h. [str (hash_alg_display show_u8 h)]) hs)"
proof (induction hs)
  case Nil
  have "is_error (pcomplete (hash_header_line T (lf # r)))"
    by (simp add: hash_header_line_def text_tag_def pcomplete_def)
  then show ?case by (simp add: many0_stop)
next
  case (Cons h hs)
  have "hash_line show_u8 h \<noteq> []" by (simp add: hash_line_def)
  moreover have "pcomplete (hash_header_line T (hash_line show_u8 h @ q)) = Ok (q, [str (hash_alg_display show_u8 h)])" for q
    using Cons.prems hash_header_line_written [of h show_u8 q] by simp
  ultimately show ?case using Cons by (simp add: many0_step del: str_simps)
qed

lemma cleartext_header_written:
  assumes "list_all plain_hash hs" "plain_start r"
  shows "armor_header_parser T (HEADER_LINE @ [lf] @ concat (map (hash_line show_u8) hs) @ [lf] @ r)
    = Ok (r, (Bt_CleartextMessage, [(str ''Hash'', map (\<lambda>h. str (hash_alg_display show_u8 h)) hs)], False))"
proof -
  let ?q = "concat (map (hash_line show_u8) hs) @ lf # r"
  have h: "HEADER_LINE @ [lf] @ ?q = str ''-----BEGIN '' @ block_type_string Bt_CleartextMessage @ str ''-----'' @ lf # ?q"
    by (simp add: HEADER_LINE_def)
  have "find_sub (str ''-----'') (HEADER_LINE @ [lf] @ ?q) = Some 0" by (simp add: HEADER_LINE_def)
  then have "std_take_until (str ''-----'') (HEADER_LINE @ [lf] @ ?q) = Ok (HEADER_LINE @ [lf] @ ?q, [])"
    by (simp add: std_take_until_def del: str_simps)
  moreover have "armor_header_line T (HEADER_LINE @ [lf] @ ?q) = Ok (?q, Bt_CleartextMessage)"
    unfolding h by (rule armor_header_line_written) simp
  moreover have "concat (map (\<lambda>h. [str (hash_alg_display show_u8 h)]) hs) = map (\<lambda>h. str (hash_alg_display show_u8 h)) hs"
    by (induction hs) simp_all
  then have "armor_headers_hash T ?q = Ok (r, [(str ''Hash'', map (\<lambda>h. str (hash_alg_display show_u8 h)) hs)])"
    using hash_header_lines_written [OF assms(1)] by (simp add: armor_headers_hash_def blank_line_def del: str_simps)
  moreover have "many0 (blank_line T) r = Ok (r, [])" using assms(2) by (rule no_blank_line)
  ultimately show ?thesis by (simp add: armor_header_parser_def armor_header_def del: str_simps)
qed

end

subsection \<open>The text\<close>

lemma tag_rest_lf: "lf \<notin> set p \<Longrightarrow> is_ok (tag_rest p (t @ lf # z)) = is_ok (tag_rest p t)"
proof (induction p arbitrary: t)
  case (Cons c p)
  then show ?case by (cases t) auto
qed simp

lemma tag_rest_dash_line: "is_ok (tag_rest dash_line ((c # t) @ lf # z)) = is_ok (tag_rest dash_line (c # t))"
  using tag_rest_lf [of "str ''-----''" t z] by (simp add: dash_line_def del: str_simps) simp

lemma find_dash_line: "find_sub dash_line t = None \<Longrightarrow> find_sub dash_line (t @ dash_line @ z) = Some (length t)"
proof (induction t)
  case Nil
  show ?case by (simp add: dash_line_def)
next
  case (Cons c t)
  have "\<not> is_ok (tag_rest dash_line (c # t @ dash_line @ z))"
    using tag_rest_dash_line [of c t "str ''-----'' @ z"] Cons.prems by (auto simp: dash_line_def split: if_splits)
  with Cons show ?case by (auto split: if_splits)
qed

lemma no_crlf_dash_line:
  "find_sub dash_line t = None \<Longrightarrow> t = [] \<or> last t \<noteq> cr \<Longrightarrow> cr \<notin> set z \<Longrightarrow> find_sub (cr # dash_line) (t @ lf # z) = None"
proof (induction t)
  case Nil
  then show ?case using find_sub_none [of cr "lf # z" dash_line] by simp
next
  case (Cons c t)
  have tl: "find_sub dash_line t = None" "t = [] \<or> last t \<noteq> cr" using Cons.prems(1,2) by (auto split: if_splits)
  have "\<not> is_ok (tag_rest (cr # dash_line) (c # t @ lf # z))"
  proof (cases t)
    case Nil
    with Cons.prems(2) show ?thesis by simp
  next
    case (Cons d t')
    have "\<not> is_ok (tag_rest dash_line t)" using tl(1) Cons by (auto split: if_splits)
    with tag_rest_dash_line [of d t' z] Cons show ?thesis by simp
  qed
  with Cons.IH [OF tl Cons.prems(3)] show ?case by simp
qed

lemma cleartext_body_written:
  assumes "text_laws T" "body_ok t" "cr \<notin> set q"
  shows "cleartext_body T ((t @ [lf]) @ str ''-----'' @ q) = Ok (str ''-----'' @ q, t)"
proof -
  let ?i = "t @ lf # str ''-----'' @ q"
  have t: "t \<noteq> []" "find_sub dash_line t = None" "last t \<noteq> cr" "utf8_valid t"
    using assms(2) by (auto simp: body_ok_def plain_start_def)
  have z: "cr \<notin> set (str ''-----'' @ q)" using assms(3) by simp
  have "find_sub (cr # dash_line) ?i = None" using no_crlf_dash_line [OF t(2) _ z] t(3) by blast
  then have "std_take_until1 (cr # dash_line) ?i = Err (NomIncomplete Unknown)" by (simp add: std_take_until1_def del: str_simps)
  moreover have "find_sub dash_line ?i = Some (length t)"
    using find_dash_line [OF t(2), of q] by (simp add: dash_line_def)
  then have "std_take_until1 dash_line ?i = Ok (dash_line @ q, t)"
    using t(1) by (simp add: std_take_until1_def dash_line_def del: str_simps)
  ultimately show ?thesis
    using t(4) by (simp add: cleartext_body_def text_laws.take_until1_eq [OF assms(1)] text_laws.line_ending_eq [OF assms(1)]
        pcomplete_def str_from_utf8_def flip: dash_line_def del: str_simps) (simp add: dash_line_def)
qed

subsection \<open>Armored text has no carriage return\<close>

lemma set_wrap_lines: "set (wrap_lines sl nl xs) \<subseteq> set xs \<union> set nl"
proof (induction sl nl xs rule: wrap_lines.induct)
  case (1 sl nl xs)
  then show ?case by (subst wrap_lines.simps) (auto dest: in_set_takeD in_set_dropD)
qed

lemma header_lines_no_cr: "headers_ok h \<Longrightarrow> cr \<notin> set (header_lines h)"
  by (auto simp: headers_ok_def header_lines_def list_all_iff key_ok_def value_ok_def)

context composed_system
begin

lemma armored_signature_text:
  assumes "to_armored E Bt_Signature (Ok d) opts = Ok out" "options_ok opts"
  shows "\<exists>q. out = str ''-----'' @ q \<and> cr \<notin> set q"
proof -
  let ?crc = "if ao_checksum opts then Some (al_crc (cl_armor E) d) else None"
  have e: "cr \<notin> set (b64_encode (al_b64 (cl_armor E)) x)" for x
    using encode_chars [of x] by (auto simp: list_all_iff b64_char_def)
  have "cr \<notin> set (armor_body (cl_armor E) d ?crc)"
    using set_wrap_lines [of 64 "[lf]" "b64_encode (al_b64 (cl_armor E)) d"] e
    by (auto simp: armor_body_def checksum_line_def)
  moreover have "cr \<notin> set (case ao_headers opts of Some h \<Rightarrow> header_lines h | None \<Rightarrow> [])"
    using assms(2) by (auto simp: options_ok_def header_lines_no_cr split: option.splits)
  ultimately have "cr \<notin> set out"
    using assms(1) by (auto simp: to_armored_def armor_write_eq armor_write_header_def end_line_def)
  moreover obtain q where "out = str ''-----'' @ q"
    using assms(1) by (auto simp: to_armored_def armor_write_eq armor_write_header_def)
  ultimately show ?thesis by auto
qed

lemma has_rest_Nil: "\<not> has_rest (cl_chunks E [])"
  using chunks_all [of "[]"] by (cases "cl_chunks E []") (auto simp: has_rest_def)

text \<open>Over a reader that shows all of its input, as a string is.\<close>

lemma after_header_written:
  assumes "\<And>src. length src \<le> al_fill (cl_armor E) src" "body_ok (csf_encoded_text m)"
    and "list_all (packet_ok (cl_wire E) (cl_curves E)) (map P_Signature (csf_signatures m))" "options_ok opts"
    and "to_armored E Bt_Signature (write_packets (cl_wire E) (cl_curves E) (map P_Signature (csf_signatures m))) opts = Ok out"
    and "validate_headers (header_strings hs) = Ok (csf_hashes m)"
  shows "from_armor_after_header E (csf_encoded_text m @ [lf] @ out) hs = Some (Ok (m, header_list opts))"
proof -
  let ?b = "csf_encoded_text m @ [lf] @ out" and ?t = "csf_encoded_text m"
  obtain d where d: "to_armored E Bt_Signature (Ok d) opts = Ok out"
    using assms(5) by (cases "write_packets (cl_wire E) (cl_curves E) (map P_Signature (csf_signatures m))")
      (auto simp: to_armored_def armor_write_def)
  obtain q where q: "out = str ''-----'' @ q" "cr \<notin> set q" using armored_signature_text [OF d assms(4)] by blast
  have "cleartext_body (al_text (cl_armor E)) ((?t @ [lf]) @ out) = Ok (out, ?t)"
    unfolding q(1) by (rule cleartext_body_written [OF text_laws_axioms assms(2) q(2)])
  moreover have "take (al_fill (cl_armor E) ?b) ?b = (?t @ [lf]) @ out" using assms(1) [of ?b] by simp
  ultimately have r: "read_from_buf (al_fill (cl_armor E) ?b) (cleartext_body (al_text (cl_armor E))) ?b
      = Ok (?t, drop (length (?t @ [lf])) ?b)"
    by (intro read_from_buf_written) simp_all
  have p: "placed E Bt_Signature opts [] out []"
    using assms(1) [of out] d by (auto simp: placed_def to_armored_def armor_write_eq end_line_def)
  obtain b s crc where b: "read_header_internal (cl_armor E) out = Ok ((Bt_Signature, header_list opts, False), b)"
    "dearmored_packets E (after_header Bt_Signature (header_list opts) b) b
      = (Some (map Ok (map P_Signature (csf_signatures m))), s)"
    "into_parts s = Ok (Some Bt_Signature, header_list opts, crc, [])"
    using signatures_object.armored_opened [OF composed_system_axioms assms(3,4,5) p] by auto
  show ?thesis
    using assms(6) r b read_header_new [OF b(1)] collect_signatures_written [of "csf_signatures m"] has_rest_Nil
    by (simp add: from_armor_after_header_def del: map_map)
qed

lemma cleartext_written:
  assumes "\<And>src. length src \<le> al_fill (cl_armor E) src" "body_ok (csf_encoded_text m)" "list_all plain_hash (csf_hashes m)"
    and "list_all (packet_ok (cl_wire E) (cl_curves E)) (map P_Signature (csf_signatures m))" "options_ok opts"
  shows "\<exists>out. cleartext_to_armored E show_u8 m opts = Ok out
    \<and> cleartext_from_armor E out = Some (Ok (m, header_list opts))
    \<and> any_from_armor E out = Some (Ok (Any_Cleartext m, header_list opts))"
proof -
  obtain sigs where sigs: "to_armored E Bt_Signature (write_packets (cl_wire E) (cl_curves E)
      (map P_Signature (csf_signatures m))) opts = Ok sigs"
    using signatures_object.armored_written [OF composed_system_axioms assms(4)] by blast
  let ?h = "HEADER_LINE @ [lf] @ concat (map (hash_line show_u8) (csf_hashes m)) @ [lf]"
  let ?r = "csf_encoded_text m @ [lf] @ sigs"
  let ?hs = "[(str ''Hash'', map (\<lambda>h. str (hash_alg_display show_u8 h)) (csf_hashes m))]"
  have out: "cleartext_to_armored E show_u8 m opts = Ok (?h @ ?r)"
    using sigs by (simp add: cleartext_to_armored_def)
  have "plain_start ?r" using assms(2) by (cases "csf_encoded_text m") (auto simp: body_ok_def plain_start_def)
  then have "armor_header_parser (al_text (cl_armor E)) (?h @ ?r) = Ok (?r, (Bt_CleartextMessage, ?hs, False))"
    using cleartext_header_written [OF assms(3)] by simp
  moreover have "take (al_fill (cl_armor E) (?h @ ?r)) (?h @ ?r) = ?h @ ?r" using assms(1) [of "?h @ ?r"] by simp
  ultimately have "read_header_internal (cl_armor E) (?h @ ?r) = Ok ((Bt_CleartextMessage, ?hs, False), drop (length ?h) (?h @ ?r))"
    unfolding read_header_internal_def by (intro read_from_buf_written) simp_all
  then have "read_header_internal (cl_armor E) (?h @ ?r) = Ok ((Bt_CleartextMessage, ?hs, False), ?r)" by simp
  moreover have "from_armor_after_header E ?r ?hs = Some (Ok (m, header_list opts))"
    by (rule after_header_written [OF assms(1,2,4,5) sigs validate_hash_header [OF assms(3)]])
  ultimately show ?thesis
    using out by (simp add: cleartext_from_armor_def any_from_armor_def read_only_header_def dm_new_def)
qed

end

subsection \<open>Escaped text\<close>

text \<open>Escaping as a pass over the bytes that knows where lines start.\<close>

fun escape_from :: "bool \<Rightarrow> bytes \<Rightarrow> bytes" where
  "escape_from start [] = []"
| "escape_from start (b # r) = (if start \<and> b = dash then [dash, space] else []) @ b # escape_from (b = lf) r"

lemma escape_from_lines:
  "escape_from True t = concat (map escape_line (split_inclusive t))"
  "escape_from False t = (case split_inclusive t of [] \<Rightarrow> [] | l # ls \<Rightarrow> l @ concat (map escape_line ls))"
  by (induction t) (auto simp: escape_line_def split: list.splits)

lemma dash_escape_from: "dash_escape t = escape_from True t"
  by (simp add: escape_from_lines dash_escape_def escape_line_def [abs_def])

lemma escape_from_dash_line: "find_sub dash_line (escape_from start t) = None"
proof (induction t arbitrary: start)
  case (Cons b r)
  have "\<not> is_ok (tag_rest dash_line (b # escape_from (b = lf) r))"
    by (cases r) (auto simp: dash_line_def)
  with Cons show ?case by (auto simp: dash_line_def)
qed (simp add: dash_line_def)

lemma escape_line_utf8: "utf8_valid l \<Longrightarrow> utf8_valid (escape_line l)"
  by (simp add: escape_line_def)

lemma escape_line_lf: "escape_line (l @ [lf]) = escape_line l @ [lf]"
  by (cases l) (auto simp: escape_line_def)

lemma dash_escape_utf8: "utf8_valid t \<Longrightarrow> utf8_valid (dash_escape t)"
proof -
  have "lines_ok ls \<Longrightarrow> utf8_valid (concat ls) \<Longrightarrow> utf8_valid (concat (map escape_line ls))" for ls
  proof (induction ls rule: lines_ok.induct)
    case (3 l m ls)
    then obtain l0 where l: "l = l0 @ [lf]"
      by (metis append_butlast_last_id is_line_def lines_ok.simps(3))
    from 3 have "utf8_valid l0" "utf8_valid (concat (map escape_line (m # ls)))"
      by (simp_all add: l utf8_valid_append_ascii)
    then show ?case by (simp add: l escape_line_lf utf8_valid_append_ascii escape_line_utf8)
  qed (simp_all add: escape_line_utf8)
  from this [OF split_inclusive_lines_ok, of t] show "utf8_valid t \<Longrightarrow> utf8_valid (dash_escape t)"
    by (simp add: dash_escape_from escape_from_lines)
qed

lemma escape_from_last: "t \<noteq> [] \<Longrightarrow> escape_from start t \<noteq> [] \<and> last (escape_from start t) = last t"
  by (induction t arbitrary: start) (auto simp: neq_Nil_conv)

lemma body_ok_escaped:
  assumes "utf8_valid t" "plain_start t" "last t \<noteq> cr"
  shows "body_ok (dash_escape t)"
proof -
  have t: "t \<noteq> []" using assms(2) by (simp add: plain_start_def)
  have "plain_start (dash_escape t)" using assms(2) by (cases t) (auto simp: plain_start_def dash_escape_from)
  with t assms show ?thesis
    using escape_from_last [OF t, of True] escape_from_dash_line [of True t] dash_escape_utf8
    by (simp add: body_ok_def dash_escape_from)
qed

lemma normalize_twice: "normalize_lines Crlf (normalize_lines Crlf t) = normalize_lines Crlf t"
  by (simp add: normalize_lines_def collect_Crlf break_lines_crlf_idem)

lemma cleartext_sign_Ok:
  assumes "signing_key K pw" "cleartext_sign W H now K pw t = Ok m" "utf8_valid t"
  shows "\<exists>s. m = \<lparr>csf_encoded_text = dash_escape t, csf_hashes = [suggested_hash_alg K], csf_signatures = [s]\<rparr>
    \<and> cleartext_verify (\<lambda>s. standalone_verify W H s K) m = Ok s"
proof -
  obtain i fp s where i: "pkt_key_id K = Ok i" "pkt_fingerprint K = Ok fp"
    "sign W H (message_config now Sig_Text (suggested_hash_alg K) K i fp) K pw (normalize_lines Crlf t) = Ok s"
    "m = \<lparr>csf_encoded_text = dash_escape t, csf_hashes = [suggested_hash_alg K], csf_signatures = [s]\<rparr>"
    using assms(2) by (auto simp: cleartext_sign_def cleartext_new_def message_config_def new_v4_def Let_def)
  have "verify W H s K (normalize_lines Crlf t) = Ok ()"
    by (rule verify_message_config [OF assms(1) i(1,3)]) (simp add: normalize_twice)
  moreover have "signed_text m = Ok (normalize_lines Crlf t)"
    using assms(3) by (simp add: i(4) signed_text_def dash_unescape_escape normalize_crlf_utf8)
  ultimately show ?thesis using i(4) by (simp add: cleartext_verify_def standalone_verify_def)
qed

section \<open>What goes wrong\<close>

text \<open>The empty text, blank lines at the start and hashes with a dash in their name are not read back.\<close>

lemma empty_text_unreadable: "cr \<notin> set q \<Longrightarrow> is_error (cleartext_body std_text (lf # str ''-----'' @ q))"
proof -
  assume "cr \<notin> set q"
  then have "find_sub (cr # dash_line) (lf # str ''-----'' @ q) = None" by (intro find_sub_none) simp
  moreover have "find_sub dash_line (lf # str ''-----'' @ q) = Some 0" by (simp add: dash_line_def)
  ultimately show ?thesis
    by (simp add: cleartext_body_def std_take_until1_def pcomplete_def pmap_res_def flip: dash_line_def del: str_simps)
qed

lemma blank_line_lost:
  "armor_header_parser std_text (HEADER_LINE @ [lf] @ hash_line show_u8 Hash_SHA2_256 @ [lf] @ str '' '' @ [lf] @ str ''hi'')
     = Ok (str ''hi'', (Bt_CleartextMessage, [(str ''Hash'', [str ''SHA256''])], False))"
  by code_simp

lemma sha3_header_unreadable:
  "is_error (armor_header_parser std_text (HEADER_LINE @ [lf] @ hash_line show_u8 Hash_SHA3_256 @ [lf] @ str ''hi''))"
  by code_simp

text \<open>
  The packet parser takes an error of the armored stream for its end. A signature without a last line
  then makes \<open>into_parts\<close> panic, and one with a wrong checksum is silently dropped.
\<close>

lemma truncated_signature_panics:
  "from_armor_after_header std_composed
     (str ''hi'' @ [lf] @ str ''-----BEGIN PGP SIGNATURE-----'' @ [lf, lf] @ str ''aGk='' @ [lf]) [] = Some Panic"
  by code_simp

lemma bad_checksum_drops_signatures:
  "from_armor_after_header std_composed
     (str ''hi'' @ [lf] @ str ''-----BEGIN PGP SIGNATURE-----'' @ [lf, lf] @ str ''aGk='' @ [lf] @ str ''=AAAA'' @ [lf]
        @ str ''-----END PGP SIGNATURE-----'' @ [lf]) []
   = Some (Ok (\<lparr>csf_encoded_text = str ''hi'', csf_hashes = [], csf_signatures = []\<rparr>, []))"
  by code_simp

section \<open>Properties\<close>



text \<open>
  C20. \<open>Any\<close> finds out what it is given: the armored form of a message whose signatures are one-pass ones and whose
  encrypted parts have session keys, of a well-formed public or secret key or of a detached signature, with packets
  that fit their length fields and armor headers that have plain keys and values, is read as that kind of object
  with its content and headers. A text without dashes may stand in front, as long as it and the header lines lie
  within the first window of the reader, and a text without colons behind.
\<close>

theorem any_reads_armored_objects:
  assumes "composed_system E" and "options_ok opts"
  shows "(message_ok m \<and> list_all (packet_ok (cl_wire E) (cl_curves E)) (message_packets m)
        \<and> message_to_armored E m opts = Ok out \<and> placed E Bt_Message opts lead out post \<longrightarrow>
      any_from_armor E (lead @ out @ post) = Some (Ok (Any_Message m, header_list opts)))
    \<and> (signed_public_key_ok k \<and> list_all (packet_ok (cl_wire E) (cl_curves E)) (signed_public_key_packets k)
        \<and> public_key_to_armored E k opts = Ok out \<and> placed E Bt_PublicKey opts lead out post \<longrightarrow>
      any_from_armor E (lead @ out @ post) = Some (Ok (Any_PublicKey k, header_list opts)))
    \<and> (signed_secret_key_ok sk \<and> list_all (packet_ok (cl_wire E) (cl_curves E)) (signed_secret_key_packets sk)
        \<and> secret_key_to_armored E sk opts = Ok out \<and> placed E Bt_PrivateKey opts lead out post \<longrightarrow>
      any_from_armor E (lead @ out @ post) = Some (Ok (Any_SecretKey sk, header_list opts)))
    \<and> (packet_ok (cl_wire E) (cl_curves E) (P_Signature s)
        \<and> signature_to_armored E s opts = Ok out \<and> placed E Bt_Signature opts lead out post \<longrightarrow>
      any_from_armor E (lead @ out @ post) = Some (Ok (Any_Signature s, header_list opts)))"
proof (intro conjI impI)
  note defs = any_from_armor_def any_object_def read_only_header_def dm_new_def first_item_def
  show "any_from_armor E (lead @ out @ post) = Some (Ok (Any_Message m, header_list opts))"
    if "message_ok m \<and> list_all (packet_ok (cl_wire E) (cl_curves E)) (message_packets m)
      \<and> message_to_armored E m opts = Ok out \<and> placed E Bt_Message opts lead out post"
    using that message_object.armored_opened [OF assms(1) _ assms(2), of m out lead post] message_object.next_written [of m]
    by (auto simp: defs message_to_armored_def message_to_writer_def)
  show "any_from_armor E (lead @ out @ post) = Some (Ok (Any_PublicKey k, header_list opts))"
    if "signed_public_key_ok k \<and> list_all (packet_ok (cl_wire E) (cl_curves E)) (signed_public_key_packets k)
      \<and> public_key_to_armored E k opts = Ok out \<and> placed E Bt_PublicKey opts lead out post"
    using that public_key_object.armored_opened [OF assms(1) _ assms(2), of k out lead post] public_key_object.next_written [of k]
    by (auto simp: defs public_key_to_armored_def signed_public_key_to_writer_def)
  show "any_from_armor E (lead @ out @ post) = Some (Ok (Any_SecretKey sk, header_list opts))"
    if "signed_secret_key_ok sk \<and> list_all (packet_ok (cl_wire E) (cl_curves E)) (signed_secret_key_packets sk)
      \<and> secret_key_to_armored E sk opts = Ok out \<and> placed E Bt_PrivateKey opts lead out post"
    using that secret_key_object.armored_opened [OF assms(1) _ assms(2), of sk out lead post] secret_key_object.next_written [of sk]
    by (auto simp: defs secret_key_to_armored_def signed_secret_key_to_writer_def)
  show "any_from_armor E (lead @ out @ post) = Some (Ok (Any_Signature s, header_list opts))"
    if "packet_ok (cl_wire E) (cl_curves E) (P_Signature s)
      \<and> signature_to_armored E s opts = Ok out \<and> placed E Bt_Signature opts lead out post"
    using that signature_object.armored_opened [OF assms(1) _ assms(2), of s out lead post] signature_object.next_written [of s]
    by (auto simp: defs signature_to_armored_def standalone_to_writer_def write_packets_single)
qed

theorem any_reads_armored_objects_witness:
  "\<exists>out. public_key_to_armored std_composed bare_key armor_options_default = Ok out
     \<and> any_from_armor std_composed out = Some (Ok (Any_PublicKey bare_key, []))"
proof -
  let ?o = armor_options_default
  have opts: "options_ok ?o" by (simp add: options_ok_def armor_options_default_def)
  have k: "signed_public_key_ok bare_key"
    "list_all (packet_ok (cl_wire std_composed) (cl_curves std_composed)) (signed_public_key_packets bare_key)"
    using bare_key_ok bare_key_packet_ok by (simp_all add: bare_key_packets)
  obtain out where out: "public_key_to_armored std_composed bare_key ?o = Ok out"
    using public_key_object.armored_written [OF std_composed.composed_system_axioms k(2)]
    by (auto simp: public_key_to_armored_def signed_public_key_to_writer_def)
  have p: "placed std_composed Bt_PublicKey ?o [] out []"
    using out by (auto simp: placed_def public_key_to_armored_def to_armored_def armor_write_def armor_options_default_def
        write_footer_lines end_line_def)
  from any_reads_armored_objects [OF std_composed.composed_system_axioms opts] k out p
  have "any_from_armor std_composed ([] @ out @ []) = Some (Ok (Any_PublicKey bare_key, header_list ?o))" by blast
  with out show ?thesis by (simp add: header_list_def armor_options_default_def)
qed

end
