(* ===== verification/Pgp_Writers.thy ===== *)
theory Pgp_Writers
  imports Pgp_Secret_Key Pgp_Lines
begin

text \<open>
  Writers as the serializers use them: \<open>write_all\<close> and \<open>TeeWriter\<close> of \<open>src/src/util.rs\<close>, and plain secret
  parameters written through a \<open>TeeWriter\<close> that computes their checksum on the way
  (\<open>src/src/types/params/plain_secret.rs\<close>). A call of \<open>write\<close> takes a part of the buffer, is interrupted,
  fails, panics or does not return; \<open>None\<close> is a call that does not return. The locale \<open>writer_contract\<close> is
  what \<open>Write::write\<close> promises, with the line writer of \<open>src/src/line_writer.rs\<close> as an instance.
\<close>

section \<open>Model\<close>

datatype write_outcome = Wrote nat | Interrupted | Write_Failed | Write_Panicked

type_synonym 'w writer = "'w \<Rightarrow> bytes \<Rightarrow> ('w \<times> write_outcome) option"

text \<open>
  The loop that writes a whole buffer. \<open>util::write_all\<close> goes on after a call that took no bytes,
  \<open>Write::write_all\<close> of the standard library returns an error.
\<close>

partial_function (option) write_loop ::
  "bool \<Rightarrow> 'w writer \<Rightarrow> 'w \<Rightarrow> bytes \<Rightarrow> ('w \<times> unit res) option" where
  "write_loop retry wr w buf =
     (if buf = [] then Some (w, Ok ())
      else Option.bind (wr w buf) (\<lambda>r.
        case snd r of
          Wrote n \<Rightarrow>
            if n = 0 then if retry then write_loop retry wr (fst r) buf else Some (fst r, Err IOError)
            else if n \<le> length buf then write_loop retry wr (fst r) (drop n buf)
            else Some (fst r, Panic)
        | Interrupted \<Rightarrow> write_loop retry wr (fst r) buf
        | Write_Failed \<Rightarrow> Some (fst r, Err IOError)
        | Write_Panicked \<Rightarrow> Some (fst r, Panic)))"

definition write_all :: "'w writer \<Rightarrow> 'w \<Rightarrow> bytes \<Rightarrow> ('w \<times> unit res) option" where
  "write_all wr w buf = write_loop True wr w buf"

definition std_write_all :: "'w writer \<Rightarrow> 'w \<Rightarrow> bytes \<Rightarrow> ('w \<times> unit res) option" where
  "std_write_all wr w buf = write_loop False wr w buf"

text \<open>\<open>TeeWriter::write\<close>: the hasher takes the whole buffer before it is written.\<close>

fun tee_write :: "('h \<Rightarrow> bytes \<Rightarrow> 'h) \<Rightarrow> 'w writer \<Rightarrow> ('h \<times> 'w) writer" where
  "tee_write upd wr (h, w) buf =
     Option.bind (write_all wr w buf) (\<lambda>r.
       Some ((upd h buf, fst r),
         case snd r of Ok _ \<Rightarrow> Wrote (length buf) | Err _ \<Rightarrow> Write_Failed | Panic \<Rightarrow> Write_Panicked))"

fun std_write_each :: "'w writer \<Rightarrow> 'w \<Rightarrow> bytes list \<Rightarrow> ('w \<times> unit res) option" where
  "std_write_each wr w [] = Some (w, Ok ())"
| "std_write_each wr w (p # ps) =
     Option.bind (std_write_all wr w p) (\<lambda>r.
       if is_ok (snd r) then std_write_each wr (fst r) ps else Some r)"

text \<open>
  \<open>Serialize\<close> of plain secret parameters, into any writer: the usage octet, the parameters through a
  \<open>TeeWriter\<close>, the checksum. \<open>pieces\<close> are the writes that \<open>to_writer_raw\<close> makes.
\<close>

definition plain_write ::
  "wire \<Rightarrow> 'w writer \<Rightarrow> 'w \<Rightarrow> bytes list \<Rightarrow> ('w \<times> unit res) option" where
  "plain_write W wr w pieces =
     Option.bind (std_write_all wr w [0]) (\<lambda>r.
       if \<not> is_ok (snd r) then Some r
       else Option.bind (std_write_each (tee_write checksum_write wr) (checksum_default, fst r) pieces) (\<lambda>t.
         if \<not> is_ok (snd t) then Some (snd (fst t), snd t)
         else std_write_all wr (snd (fst t)) (checksum_to_writer W (fst (fst t)))))"

text \<open>The line writer as a writer, and \<open>impl Write for &mut [u8]\<close>: room left and bytes written.\<close>

definition lw_io :: "nat \<Rightarrow> line_writer writer" where
  "lw_io sl s buf = Some (case lw_write sl s buf of
     Ok (s', n) \<Rightarrow> (s', Wrote n) | Err _ \<Rightarrow> (s, Write_Failed) | Panic \<Rightarrow> (s, Write_Panicked))"

fun slice_write :: "(nat \<times> bytes) writer" where
  "slice_write (room, out) buf =
     (let n = min room (length buf) in Some ((room - n, out @ take n buf), Wrote n))"

section \<open>The contract of a writer\<close>

text \<open>
  \<open>holds w d\<close>: the writer has taken the data \<open>d\<close>. A call takes a part of the buffer and never more than
  there is; calls that take nothing do not go on forever.
\<close>

definition write_takes ::
  "('w \<Rightarrow> bytes \<Rightarrow> bool) \<Rightarrow> ('w \<Rightarrow> nat) \<Rightarrow> 'w \<Rightarrow> bytes \<Rightarrow> bytes \<Rightarrow> 'w \<Rightarrow> write_outcome \<Rightarrow> bool" where
  "write_takes holds stall w d buf w' r \<longleftrightarrow>
     (case r of
        Wrote n \<Rightarrow> n \<le> length buf \<and> holds w' (d @ take n buf) \<and> (n = 0 \<longrightarrow> stall w' < stall w)
      | Interrupted \<Rightarrow> holds w' d \<and> stall w' < stall w
      | _ \<Rightarrow> False)"

locale writer_contract =
  fixes wr :: "'w writer" and holds :: "'w \<Rightarrow> bytes \<Rightarrow> bool" and stall :: "'w \<Rightarrow> nat"
  assumes write_step: "holds w d \<Longrightarrow> buf \<noteq> [] \<Longrightarrow>
    \<exists>w' r. wr w buf = Some (w', r) \<and> write_takes holds stall w d buf w' r"
begin

lemma write_loop_delivers:
  assumes "holds w d" and "retry \<or> (\<forall>w d buf w'. holds w d \<longrightarrow> buf \<noteq> [] \<longrightarrow> wr w buf \<noteq> Some (w', Wrote 0))"
  shows "\<exists>w'. write_loop retry wr w buf = Some (w', Ok ()) \<and> holds w' (d @ buf)"
  using assms(1)
proof (induction "(buf, w)" arbitrary: buf w d rule: wf_induct_rule [OF wf_measures [of "[length \<circ> fst, stall \<circ> snd]"]])
  case (1 buf w)
  show ?case
  proof (cases "buf = []")
    case True
    with 1(2) show ?thesis by (subst write_loop.simps) simp
  next
    case False
    from write_step [OF 1(2) False] obtain w' r where
      r: "wr w buf = Some (w', r)" "write_takes holds stall w d buf w' r" by blast
    show ?thesis
    proof (cases r)
      case (Wrote n)
      show ?thesis
      proof (cases "n = 0")
        case True
        with r Wrote 1(2) False assms(2) have "retry" "holds w' d" "stall w' < stall w"
          by (auto simp: write_takes_def)
        with 1(1) [of buf w' d] r Wrote True False show ?thesis
          by (subst write_loop.simps) simp
      next
        case n: False
        with r Wrote have "n \<le> length buf" "holds w' (d @ take n buf)" by (auto simp: write_takes_def)
        with 1(1) [of "drop n buf" w' "d @ take n buf"] r Wrote n False show ?thesis
          by (subst write_loop.simps) simp
      qed
    next
      case Interrupted
      with r have "holds w' d" "stall w' < stall w" by (auto simp: write_takes_def)
      with 1(1) [of buf w' d] r Interrupted False show ?thesis
        by (subst write_loop.simps) simp
    qed (use r in \<open>simp_all add: write_takes_def\<close>)
  qed
qed

lemma write_all_delivers:
  "holds w d \<Longrightarrow> \<exists>w'. write_all wr w buf = Some (w', Ok ()) \<and> holds w' (d @ buf)"
  by (simp add: write_all_def write_loop_delivers)

end

locale steady_writer = writer_contract wr holds stall
  for wr :: "'w writer" and holds :: "'w \<Rightarrow> bytes \<Rightarrow> bool" and stall :: "'w \<Rightarrow> nat" +
  assumes never_zero: "holds w d \<Longrightarrow> buf \<noteq> [] \<Longrightarrow> wr w buf \<noteq> Some (w', Wrote 0)"
begin

lemma std_write_all_delivers:
  "holds w d \<Longrightarrow> \<exists>w'. std_write_all wr w buf = Some (w', Ok ()) \<and> holds w' (d @ buf)"
  unfolding std_write_all_def using never_zero by (intro write_loop_delivers) auto

lemma std_write_each_delivers:
  "holds w d \<Longrightarrow> \<exists>w'. std_write_each wr w ps = Some (w', Ok ()) \<and> holds w' (d @ concat ps)"
proof (induction ps arbitrary: w d)
  case (Cons p ps)
  from std_write_all_delivers [OF Cons.prems] obtain w1 where
    "std_write_all wr w p = Some (w1, Ok ())" "holds w1 (d @ p)" by blast
  with Cons.IH [of w1 "d @ p"] show ?case by simp
qed simp

end

text \<open>A hasher takes its data in pieces.\<close>

locale hasher =
  fixes upd :: "'h \<Rightarrow> bytes \<Rightarrow> 'h"
  assumes upd_Nil: "upd h [] = h"
    and upd_append: "upd (upd h a) b = upd h (a @ b)"

text \<open>
  A \<open>TeeWriter\<close> around a writer that holds \<open>d0\<close> is a writer that never takes nothing, even where the writer
  it wraps does; its hasher has seen what was written since.
\<close>

locale tee = writer_contract wr holds stall + hasher upd
  for wr :: "'w writer" and holds :: "'w \<Rightarrow> bytes \<Rightarrow> bool" and stall :: "'w \<Rightarrow> nat" and upd :: "'h \<Rightarrow> bytes \<Rightarrow> 'h" +
  fixes h0 :: 'h and d0 :: bytes
begin

lemma tee_write_takes_all:
  assumes "holds w (d0 @ d)"
  shows "\<exists>w'. tee_write upd wr (upd h0 d, w) buf = Some ((upd h0 (d @ buf), w'), Wrote (length buf))
    \<and> holds w' (d0 @ d @ buf)"
  using write_all_delivers [OF assms, of buf] by (auto simp: upd_append)

end

sublocale tee \<subseteq> tw: steady_writer "tee_write upd wr" "\<lambda>t d. holds (snd t) (d0 @ d) \<and> fst t = upd h0 d" "\<lambda>_. 0"
proof unfold_locales
  fix t :: "'h \<times> 'w" and d buf :: bytes and t'
  assume t: "holds (snd t) (d0 @ d) \<and> fst t = upd h0 d" and buf: "buf \<noteq> []"
  from tee_write_takes_all [of "snd t" d buf] t obtain w' where
    "tee_write upd wr t buf = Some ((upd h0 (d @ buf), w'), Wrote (length buf))" "holds w' (d0 @ d @ buf)"
    by (cases t) auto
  with buf show "\<exists>t' r. tee_write upd wr t buf = Some (t', r)
      \<and> write_takes (\<lambda>t d. holds (snd t) (d0 @ d) \<and> fst t = upd h0 d) (\<lambda>_. 0) t d buf t' r"
    and "tee_write upd wr t buf \<noteq> Some (t', Wrote 0)"
    by (auto simp: write_takes_def)
qed

context tee
begin

lemma tee_write_each:
  assumes "holds w d0"
  shows "\<exists>w'. std_write_each (tee_write upd wr) (h0, w) ps = Some ((upd h0 (concat ps), w'), Ok ())
    \<and> holds w' (d0 @ concat ps)"
  using tw.std_write_each_delivers [of "(h0, w)" "[]" ps] assms by (auto simp: upd_Nil)

end

section \<open>The instances\<close>

interpretation checksum: hasher checksum_write
  by unfold_locales (simp_all add: checksum_write_eq)

interpretation lw_io: steady_writer "lw_io sl" "\<lambda>s d. lw_holds sl lb w0 d s" "\<lambda>_. 0" for sl lb w0
proof unfold_locales
  fix s s' :: line_writer and d buf :: bytes
  assume "lw_holds sl lb w0 d s" "buf \<noteq> []"
  from lw_write_holds [OF this] show "\<exists>s' r. lw_io sl s buf = Some (s', r)
      \<and> write_takes (\<lambda>s d. lw_holds sl lb w0 d s) (\<lambda>_. 0) s d buf s' r"
    and "lw_io sl s buf \<noteq> Some (s', Wrote 0)"
    by (auto simp: lw_io_def write_takes_def)
qed

section \<open>A writer that is full\<close>

lemma write_loop_full:
  assumes "write_loop True slice_write (0, out) buf = Some r"
  shows "buf = []"
  using write_loop.raw_induct [where P = "\<lambda>retry wr w buf r.
      retry \<longrightarrow> wr = slice_write \<longrightarrow> fst w = 0 \<longrightarrow> buf = []", OF _ assms]
  by (force split: if_splits)

lemma write_loop_slice:
  "write_loop retry slice_write (room, out) buf =
     (if length buf \<le> room then Some ((room - length buf, out @ buf), Ok ())
      else if retry then None else Some ((0, out @ take room buf), Err IOError))"
proof -
  have full: "write_loop retry slice_write (0, out') b =
      (if retry then None else Some ((0, out'), Err IOError))" if "b \<noteq> []" for out' b
  proof (cases retry)
    case True
    with that write_loop_full [of out' b] show ?thesis by (cases "write_loop True slice_write (0, out') b") auto
  qed (use that in \<open>simp add: write_loop.simps [of False]\<close>)
  show ?thesis
  proof (cases "buf = [] \<or> room = 0")
    case True
    then show ?thesis using full [of buf out] by (cases "buf = []") (simp_all add: write_loop.simps [of _ _ _ "[]"])
  next
    case False
    then have "write_loop retry slice_write (room, out) buf
        = write_loop retry slice_write (room - min room (length buf), out @ take (min room (length buf)) buf)
            (drop (min room (length buf)) buf)"
      by (subst write_loop.simps) (auto simp: Let_def min_def split: if_splits)
    then show ?thesis
      using full [of "drop room buf" "out @ take room buf"] by (auto simp: write_loop.simps [of _ _ _ "[]"] min_def)
  qed
qed

text \<open>
  C36. \<open>util::write_all\<close> into a slice returns exactly when the buffer fits: it goes on after a call that took no
  bytes, and a full slice takes none. The standard library's \<open>write_all\<close> returns an error there.
\<close>

theorem write_all_slice:
  "write_all slice_write (room, out) buf =
     (if length buf \<le> room then Some ((room - length buf, out @ buf), Ok ()) else None)
   \<and> std_write_all slice_write (room, out) buf =
     (if length buf \<le> room then Some ((room - length buf, out @ buf), Ok ())
      else Some ((0, out @ take room buf), Err IOError))"
  by (simp add: write_all_def std_write_all_def write_loop_slice)

section \<open>Secret parameters through a tee\<close>

context steady_writer
begin

lemma plain_write_delivers:
  assumes "holds w d"
  shows "\<exists>w'. plain_write W wr w pieces = Some (w', Ok ())
    \<and> holds w' (d @ [0] @ concat pieces @ checksum_to_writer W (checksum_write checksum_default (concat pieces)))"
proof -
  from std_write_all_delivers [OF assms, of "[0]"] obtain w1 where
    w1: "std_write_all wr w [0] = Some (w1, Ok ())" "holds w1 (d @ [0])" by blast
  have "tee wr holds stall checksum_write"
    by (intro tee.intro writer_contract_axioms checksum.hasher_axioms)
  from tee.tee_write_each [OF this w1(2), of checksum_default pieces]
  obtain w2 where w2: "std_write_each (tee_write checksum_write wr) (checksum_default, w1) pieces
      = Some ((checksum_write checksum_default (concat pieces), w2), Ok ())" "holds w2 ((d @ [0]) @ concat pieces)"
    by auto
  from std_write_all_delivers [OF w2(2)] w1(1) w2(1) show ?thesis
    by (auto simp: plain_write_def)
qed

end

text \<open>
  C35. Plain secret parameters are written the same into every writer: for any writer that keeps the contract
  of \<open>Write::write\<close> (taking parts of a buffer, interrupted a bounded number of times in between) and any cut
  of the raw parameters into writes, the serialization through a \<open>TeeWriter\<close> returns, and the writer has taken
  exactly the usage octet, the parameters and their checksum, as \<open>plain_to_writer\<close> lists them.
\<close>

theorem plain_write_refines:
  assumes "steady_writer wr holds stall" and "holds w d" and "concat pieces = plain_to_writer_raw W s"
  shows "\<exists>w'. plain_write W wr w pieces = Some (w', Ok ()) \<and> holds w' (d @ plain_to_writer W s)"
  using steady_writer.plain_write_delivers [OF assms(1,2), of W pieces] assms(3)
  by (simp add: plain_to_writer_def)

theorem plain_write_refines_witness:
  "\<exists>w'. plain_write std_wire (lw_io 4) (lw_new [] Lf) [[0, 3], [5]] = Some (w', Ok ())
    \<and> lw_w (lw_drop w') = [0, 0, 3, 5, 10, 0, 8, 10] \<and> plain_to_writer std_wire (Sec_EdDSA [5]) = [0, 0, 3, 5, 0, 8]"
proof -
  have raw: "concat [[0, 3], [5]] = plain_to_writer_raw std_wire (Sec_EdDSA [5])" by code_simp
  have new: "lw_holds 4 Lf [] [] (lw_new [] Lf)" by (rule lw_holds_new) simp
  have out: "plain_to_writer std_wire (Sec_EdDSA [5]) = [0, 0, 3, 5, 0, 8]" by code_simp
  from plain_write_refines [OF lw_io.steady_writer_axioms new raw] obtain w' where
    w': "plain_write std_wire (lw_io 4) (lw_new [] Lf) [[0, 3], [5]] = Some (w', Ok ())"
    "lw_holds 4 Lf [] ([] @ plain_to_writer std_wire (Sec_EdDSA [5])) w'" by blast
  from lw_finish_holds [OF w'(2)] w'(1) out show ?thesis
    by (auto simp: wrap_lines.simps)
qed

end
