(* ===== verification/Pgp_Message_Grammar.thy ===== *)
theory Pgp_Message_Grammar
  imports Pgp_Message
begin

text \<open>
  The grammar of messages in RFC 4880, section 11.3, which \<open>src/src/composed/message/parser.rs\<close> cites, as an
  inductive predicate, and the language the parser accepts as another one. The parser is proved equivalent to the
  second, and the two grammars are compared: they differ in encrypted data without session keys, which the parser
  refuses, in signatures without a message, which it takes at the end of the input, and in the packets that are
  to be ignored, which it ignores in front of a message only.
\<close>

section \<open>The grammar of the standard\<close>

text \<open>
  \<open>rfc_message qs m\<close>: the packets \<open>qs\<close> form the message \<open>m\<close>. An encrypted message is encrypted data, alone or
  behind a sequence of session key packets; a signed message is a signature packet in front of a message, or a
  message between a one-pass signature packet and a signature packet.
\<close>

inductive rfc_message :: "packet list \<Rightarrow> message \<Rightarrow> bool" where
  Rfc_Literal: "rfc_message [P_LiteralData d] (Msg_Literal d)"
| Rfc_Compressed: "rfc_message [P_CompressedData d] (Msg_Compressed d)"
| Rfc_Encrypted: "rfc_message (map esk_packet es @ [edata_packet d]) (Msg_Encrypted es d)"
| Rfc_One_Pass: "rfc_message qs m
    \<Longrightarrow> rfc_message (P_OnePassSignature ops # qs @ [P_Signature s]) (Msg_Signed (Some m) (Some ops) s)"
| Rfc_Prefix: "rfc_message qs m \<Longrightarrow> rfc_message (P_Signature s # qs) (Msg_Signed (Some m) None s)"

text \<open>Messages with session keys for all encrypted data, and messages whose signatures all have a message.\<close>

fun has_session_keys :: "message \<Rightarrow> bool" where
  "has_session_keys (Msg_Encrypted es _) \<longleftrightarrow> es \<noteq> []"
| "has_session_keys (Msg_Signed (Some m) _ _) \<longleftrightarrow> has_session_keys m"
| "has_session_keys _ \<longleftrightarrow> True"

fun signs_message :: "message \<Rightarrow> bool" where
  "signs_message (Msg_Signed m _ _) \<longleftrightarrow> (case m of Some n \<Rightarrow> signs_message n | None \<Rightarrow> False)"
| "signs_message _ \<longleftrightarrow> True"

section \<open>The language of the parser\<close>

text \<open>
  \<open>accepted_message e qs m\<close>: the packets \<open>qs\<close> form the message \<open>m\<close>, with nothing behind them when \<open>e\<close> holds.
  Markers and padding may stand in front of a message, also of a nested one. A signature without a message is
  one only at the end of the input.
\<close>

inductive accepted_message :: "bool \<Rightarrow> packet list \<Rightarrow> message \<Rightarrow> bool" where
  Literal: "accepted_message e [P_LiteralData d] (Msg_Literal d)"
| Compressed: "accepted_message e [P_CompressedData d] (Msg_Compressed d)"
| Encrypted: "es \<noteq> [] \<Longrightarrow> accepted_message e (map esk_packet es @ [edata_packet d]) (Msg_Encrypted es d)"
| One_Pass: "accepted_message False qs m
    \<Longrightarrow> accepted_message e (P_OnePassSignature ops # qs @ [P_Signature s]) (Msg_Signed (Some m) (Some ops) s)"
| Prefix: "accepted_message e qs m \<Longrightarrow> accepted_message e (P_Signature s # qs) (Msg_Signed (Some m) None s)"
| Detached: "list_all ignorable ps \<Longrightarrow> accepted_message True (P_Signature s # ps) (Msg_Signed None None s)"
| Ignored: "ignorable p \<Longrightarrow> accepted_message e qs m \<Longrightarrow> accepted_message e (p # qs) m"

inductive_cases accepted_message_NilE [elim!]: "accepted_message e [] m"

text \<open>A one-pass signature is closed: the packets end with the signature it announced.\<close>

lemma one_pass_closed:
  "accepted_message e qs (Msg_Signed m (Some ops) s) \<Longrightarrow> qs \<noteq> [] \<and> last qs = P_Signature s"
  by (induction e qs "Msg_Signed m (Some ops) s" rule: accepted_message.induct) auto

section \<open>The parser finds every derivation\<close>

lemma message_next_ignorable: "ignorable p \<Longrightarrow> message_next (Ok p # ps) = message_next ps"
  by (cases p) (simp_all add: ignorable_def)

lemma message_next_ignorables: "list_all ignorable ps \<Longrightarrow> message_next (map Ok ps) = None"
  by (induction ps) (simp_all add: message_next_ignorable del: message_next.simps(4))

lemma message_next_complete:
  "accepted_message e qs m \<Longrightarrow> (e \<longrightarrow> r = []) \<Longrightarrow> message_next (map Ok qs @ r) = Some (Ok m, r)"
proof (induction arbitrary: r rule: accepted_message.induct)
  case (Encrypted es e d)
  then obtain x xs where "es = x # xs" by (cases es) auto
  with encrypted_next_written [of x xs d r] show ?case
    by (simp add: message_next_esk del: message_next.simps(4))
next
  case (One_Pass qs m e ops s)
  from One_Pass.IH [of "Ok (P_Signature s) # r"] show ?case by (simp add: one_pass_end_def)
next
  case (Ignored p e qs m)
  then show ?case by (simp add: message_next_ignorable del: message_next.simps(4))
qed (simp_all add: message_next_ignorables)

section \<open>The parser returns nothing else\<close>

lemma message_next_sound:
  "message_next ps = Some (Ok m, r) \<Longrightarrow> \<exists>qs. ps = map Ok qs @ r \<and> accepted_message (r = []) qs m"
proof (induction ps arbitrary: m r)
  case (Cons x ps)
  then obtain p where x: "x = Ok p" by (cases x) auto
  from Cons.prems [unfolded x] show ?case
  proof (cases rule: message_next_cases)
    case (encrypted e)
    from encrypted_next_Ok [OF encrypted(2)] obtain es d where
      "m = Msg_Encrypted (e # es) d" "ps = map Ok (map esk_packet es @ [edata_packet d]) @ r" by blast
    with x encrypted(1) accepted_message.Encrypted [of "e # es"] show ?thesis
      by (intro exI [of _ "map esk_packet (e # es) @ [edata_packet d]"]) simp
  next
    case (signature s)
    from message_next_None [OF signature(2)] obtain us where "ps = map Ok us" "list_all ignorable us" by blast
    with x signature show ?thesis by (intro exI [of _ "p # us"]) (simp add: accepted_message.Detached)
  next
    case (signed s n)
    from Cons.IH [OF signed(2)] obtain us where "ps = map Ok us @ r" "accepted_message (r = []) us n" by blast
    with x signed show ?thesis by (intro exI [of _ "p # us"]) (simp add: accepted_message.Prefix)
  next
    case (one_pass ops n q s)
    from Cons.IH [OF one_pass(2)] obtain us where "ps = map Ok us @ q" "accepted_message (q = []) us n" by blast
    with x one_pass show ?thesis
      by (intro exI [of _ "p # us @ [P_Signature s]"]) (simp add: accepted_message.One_Pass)
  next
    case skipped
    from Cons.IH [OF skipped(2)] obtain us where "ps = map Ok us @ r" "accepted_message (r = []) us m" by blast
    with x skipped(1) show ?thesis by (intro exI [of _ "p # us"]) (simp add: accepted_message.Ignored)
  qed (use x in \<open>auto intro!: exI [of _ "[p]"] accepted_message.intros\<close>)
qed simp

lemma message_next_iff:
  "message_next ps = Some (Ok m, r) \<longleftrightarrow> (\<exists>qs. ps = map Ok qs @ r \<and> accepted_message (r = []) qs m)"
  using message_next_sound message_next_complete by blast

text \<open>The grammar is unambiguous: packets with nothing behind them form one message at most.\<close>

lemma accepted_message_unique: "accepted_message True qs m \<Longrightarrow> accepted_message True qs n \<Longrightarrow> m = n"
  using message_next_complete [of True qs m "[]"] message_next_complete [of True qs n "[]"] by simp

section \<open>The parser and the standard\<close>

lemma esk_not_ignorable [simp]: "\<not> ignorable (esk_packet e)" "\<not> ignorable (edata_packet d)"
  by (cases e; simp add: ignorable_def) (cases d; simp add: ignorable_def)

lemma filter_esks [simp]: "filter (\<lambda>p. \<not> ignorable p) (map esk_packet es) = map esk_packet es"
  by (simp add: filter_id_conv)

lemma rfc_accepted: "rfc_message qs m \<Longrightarrow> has_session_keys m \<Longrightarrow> accepted_message e qs m"
  by (induction arbitrary: e rule: rfc_message.induct) (auto intro: accepted_message.intros)

lemma rfc_signs_message: "rfc_message qs m \<Longrightarrow> signs_message m"
  by (induction rule: rfc_message.induct) auto

lemma accepted_rfc:
  "accepted_message e qs m \<Longrightarrow> signs_message m \<Longrightarrow> has_session_keys m \<and> rfc_message (filter (\<lambda>p. \<not> ignorable p) qs) m"
proof (induction rule: accepted_message.induct)
  case (Encrypted es e d)
  then show ?case using rfc_message.Rfc_Encrypted [of es d] by simp
qed (auto simp: ignorable_def intro: rfc_message.intros)

text \<open>A signature without a message is accepted at the end of the input only.\<close>

lemma accepted_detached_end: "accepted_message e qs m \<Longrightarrow> \<not> signs_message m \<Longrightarrow> e"
  by (induction rule: accepted_message.induct) auto

lemma bare_data_rejected: "\<exists>e. message_next (Ok (edata_packet d) # ps) = Some (Err e, ps)"
  by (cases d) simp_all

section \<open>Property\<close>

text \<open>
  C12. The parser against the grammar of RFC 4880, section 11.3. It finds every derivation in which encrypted data
  has session key packets, in front of any rest. Conversely a message that it returns, and whose signatures all have
  a message, is derived by the grammar from exactly the packets in front of the rest, without the markers and padding
  among them, and has its session keys. It departs from the grammar in two ways: encrypted data without session key
  packets, which the grammar allows, is an error, and it returns signatures without a message, which the grammar does
  not know, but only at the end of the input. What it returns is the only message that these packets form.
\<close>

theorem message_parser_grammar:
  "(rfc_message qs m \<and> has_session_keys m \<longrightarrow> message_next (map Ok qs @ r) = Some (Ok m, r))
   \<and> (message_next ps = Some (Ok m, r) \<and> signs_message m \<longrightarrow>
        (\<exists>us. ps = map Ok us @ r \<and> has_session_keys m \<and> rfc_message (filter (\<lambda>p. \<not> ignorable p) us) m
          \<and> (\<forall>n. rfc_message us n \<and> has_session_keys n \<longrightarrow> n = m)))
   \<and> (message_next ps = Some (Ok m, r) \<and> \<not> signs_message m \<longrightarrow> r = [])
   \<and> (\<exists>e. message_next (Ok (edata_packet d) # ps) = Some (Err e, ps))"
proof (intro conjI impI)
  show "message_next (map Ok qs @ r) = Some (Ok m, r)" if "rfc_message qs m \<and> has_session_keys m"
    using that message_next_complete [OF rfc_accepted, of qs m False r] by blast
  show "\<exists>us. ps = map Ok us @ r \<and> has_session_keys m \<and> rfc_message (filter (\<lambda>p. \<not> ignorable p) us) m
      \<and> (\<forall>n. rfc_message us n \<and> has_session_keys n \<longrightarrow> n = m)"
    if m: "message_next ps = Some (Ok m, r) \<and> signs_message m"
  proof -
    obtain us where us: "ps = map Ok us @ r" "accepted_message (r = []) us m" using message_next_sound m by blast
    have "n = m" if "rfc_message us n \<and> has_session_keys n" for n
      using that us(1) m message_next_complete [OF rfc_accepted, of us n False r] by simp
    with us accepted_rfc [OF us(2)] m show ?thesis by blast
  qed
  show "r = []" if "message_next ps = Some (Ok m, r) \<and> \<not> signs_message m"
    using that message_next_sound accepted_detached_end by blast
  show "\<exists>e. message_next (Ok (edata_packet d) # ps) = Some (Err e, ps)" by (rule bare_data_rejected)
qed

definition sample_prefix :: signature where
  "sample_prefix = Signature New (SignatureConfig SigV4 Sig_Binary Pk_RSA Hash_SHA2_256 [] [] None None) [1, 2] [[3]]"

theorem message_parser_grammar_witness:
  "message_next [Ok (P_Signature sample_prefix), Ok (P_LiteralData sample_literal), Err InvalidInput]
     = Some (Ok (Msg_Signed (Some (Msg_Literal sample_literal)) None sample_prefix), [Err InvalidInput])"
proof -
  have "rfc_message [P_Signature sample_prefix, P_LiteralData sample_literal]
      (Msg_Signed (Some (Msg_Literal sample_literal)) None sample_prefix)"
    by (intro rfc_message.intros)
  with message_parser_grammar [THEN conjunct1, of "[P_Signature sample_prefix, P_LiteralData sample_literal]" _ "[Err InvalidInput]"]
  show ?thesis by simp
qed

end
