(* ===== verification/Spec2Isabelle.thy ===== *)
theory Spec2Isabelle
  imports Pgp_Cleartext_Armor Pgp_Key_Gen Pgp_Writers Pgp_Message_Grammar
begin

text \<open>
  A verification library for the OpenPGP implementation (crate \<open>pgp\<close>) under \<open>src/src/\<close>: packets, keys,
  signatures, messages and their armored text, from single bytes up to signed and encrypted mail.

  \<^bold>\<open>The program.\<close> A message or key is a sequence of packets. \<open>packet/many.rs\<close> cuts a byte stream into packets with
  the header parser of \<open>packet/single.rs\<close>, which dispatches on the tag to the body parser of a packet type; \<open>ser.rs\<close>
  and \<open>packet/packet_sum.rs\<close> write them. The \<open>composed\<close> modules group packets into messages, transferable keys and
  detached signatures, and do with them what a user asks for: sign, verify, encrypt, decrypt, compress, generate. The
  \<open>crypto\<close> modules adapt the cryptographic crates to OpenPGP's formats. \<open>armor\<close> wraps binary data as text, on top
  of the base64 reader and decoder.

  \<^bold>\<open>Conventions.\<close> A Rust function that may fail is a value of \<open>('a, 'e) result\<close>: \<open>Ok\<close>, \<open>Err\<close>, or \<open>Panic\<close> for an
  overflow, a slice out of range, \<open>unwrap\<close>, \<open>unimplemented!\<close>. \<open>and_then\<close> is the operator \<open>?\<close>. A parser returns the rest
  of its input and a value, or an error of \<open>nom\<close>. A function that might not return has an \<open>option\<close> around its result,
  with \<open>None\<close> for not returning. Integers of a fixed width are words where they can wrap; times are seconds; strings
  are their bytes. Random generators, the clock and the sizes of reads are arguments.

  Crates outside the repository are records of functions, arguments of the definitions that use them; a locale states
  what is relied on, and each locale is interpreted on a reference instance \<open>std_\<dots>\<close> with which witnesses evaluate:
  \<^item> \<open>wire_laws\<close> (\<open>std_wire\<close>): primitives of \<open>nom\<close>, \<open>byteorder\<close>, \<open>chrono\<close>;
  \<^item> \<open>hash_laws\<close>, \<open>cipher_laws\<close>, \<open>aead_laws\<close>, \<open>aes_laws\<close>, \<open>ecdh_laws\<close>, \<open>asym_laws\<close>, \<open>keygen_laws\<close>: the cryptographic crates;
  \<^item> \<open>reader_buffer\<close> (how much a reader has buffered), \<open>reader_laws\<close> (its source ends properly), \<open>compress_laws\<close>,
    \<open>text_laws\<close>, \<open>b64_laws\<close>, \<open>armor_laws\<close>: buffered readers, compressors, text parsers, the base64 engine, the CRC-24
    hasher.

  A law states what the documentation of a crate promises and no more: \<open>asym_laws\<close> says of DSA that a signature
  verifies when the private number is in range and the public key belongs to it (\<open>dsa_key_pair\<close>, by the group
  equation), and \<open>keygen_laws\<close> that generated components are such a pair.

  Interfaces between the parts of the program are locales too, interpreted on the model's own definitions:
  \<open>byte_enum\<close> (algorithm registries), \<open>packet_codec\<close> (every packet type), \<open>signing_key\<close> (what signatures need of a key),
  \<open>key_impl_laws\<close> (the operations of key packets that signed keys need), \<open>armored_object\<close> (messages, keys, signatures as
  text), \<open>writer_contract\<close> and \<open>hasher\<close> (output streams); \<open>packet_source\<close>, \<open>packet_stream\<close>, \<open>asym_system\<close>, \<open>message_system\<close> and
  \<open>composed_system\<close> put the libraries of a layer together.

  \<^bold>\<open>Theories, bottom up.\<close>
  \<^item> \<open>Pgp_Prelude\<close>, \<open>Pgp_Errors\<close> (\<open>errors.rs\<close>), \<open>Pgp_Wire\<close>, \<open>Pgp_Util\<close> (\<open>util.rs\<close>), \<open>Pgp_Chunks\<close>, \<open>Pgp_Utf8\<close>: shared
    vocabulary; results, parsers, big-endian integers, packet lengths and their round trip.
  \<^item> \<open>Pgp_Algorithms\<close>, \<open>Pgp_Mpi\<close>, \<open>Pgp_Checksum\<close>, \<open>Pgp_S2k\<close>, \<open>Pgp_Sym\<close>, \<open>Pgp_Aead\<close>, \<open>Pgp_Aes_Kw\<close>: registries of algorithms,
    multi-precision integers, checksums, string-to-key (equal to its description), CFB encryption with the
    modification detection code (round trip; no plaintext without a matching code), AEAD and key wrapping.
  \<^item> \<open>Pgp_Signature_Types\<close>, \<open>Pgp_Signature\<close>, \<open>Pgp_Signature_Codec\<close>: signature packets with subpackets and embedded
    signatures; the codec round-trips and the recursive parser terminates.
  \<^item> \<open>Pgp_Packet_Header\<close>, \<open>Pgp_Packets\<close>, \<open>Pgp_Session_Keys\<close>, \<open>Pgp_Public_Key\<close>, \<open>Pgp_Secret_Key\<close>, \<open>Pgp_Packet\<close>,
    \<open>Pgp_Packet_Stream\<close>: the 18 packet types and their framing. Packets and streams of packets round-trip, parsed
    packets are well-typed, partial bodies are joined, the iterator ends on every input. A source delivers its bytes and
    then ends, fails or panics (\<open>source_end\<close>), as a decompressor or \<open>Dearmor\<close> does below the iterator; the packets of a
    failing source are a prefix of those of a complete one. Locked keys unlock.
  \<^item> \<open>Pgp_Signing\<close>, \<open>Pgp_Ecdh\<close>, \<open>Pgp_Asymmetric\<close>: what is hashed and signed for each type of signature. What is
    signed verifies; what verifies was hashed from the same type, data and subpackets; different data give different
    hashed bytes. Session keys encrypted to a key packet are decrypted by it.
  \<^item> \<open>Pgp_Signed_Key\<close>, \<open>Pgp_Key_Build\<close>, \<open>Pgp_Key_Gen\<close> (\<open>composed/key\<close>, \<open>composed/signed_key\<close>): transferable keys. Key
    rings round-trip, parsed keys are stable, generated and signed keys verify.
  \<^item> \<open>Pgp_Lines\<close>, \<open>Pgp_Writers\<close> (\<open>normalize_lines.rs\<close>, \<open>line_writer.rs\<close>, the writers of \<open>util.rs\<close>): line endings equal a
    reference definition; output does not depend on how it is cut into writes.
  \<^item> \<open>Pgp_Message\<close>, \<open>Pgp_Message_Grammar\<close>, \<open>Pgp_Message_Ops\<close> (\<open>composed/message\<close>): nested messages, their grammar
    and operations. The grammar of RFC 4880 section 11.3 (\<open>rfc_message\<close>) and what the parser takes
    (\<open>accepted_message\<close>) are inductive predicates; the parser recognizes the latter, which is the former less
    encrypted data without session keys and plus detached signatures at the end. Messages round-trip, signed messages
    verify, encrypted messages open for a recipient or with the password, and every operation returns.
  \<^item> \<open>Pgp_Base64\<close>, \<open>Pgp_Armor_Text\<close>, \<open>Pgp_Armor\<close> (\<open>base64_reader.rs\<close>, \<open>base64_decoder.rs\<close>, \<open>armor\<close>): the state machine
    \<open>Dearmor\<close>, read in pieces of any sizes, with a step relation whose reachable states are in order. Armored data is
    read back and a wrong checksum is never accepted.
  \<^item> \<open>Pgp_Composed\<close>, \<open>Pgp_Cleartext\<close>, \<open>Pgp_Cleartext_Armor\<close> (\<open>composed/shared.rs\<close>, \<open>cleartext.rs\<close>, \<open>any.rs\<close>): objects as text,
    cleartext signed messages from making to verifying, and the reader of any kind of block.
  \<^item> this theory: mail from end to end, across messages, signatures, encryption and armor.

  State is explicit: the packet iterator is the record \<open>packet_parser\<close> with the rest of its source and its \<open>done\<close> flag,
  \<open>Dearmor\<close> the record \<open>dearmor\<close> with the current part, the decoder \<open>b64_decoder\<close> and the line writer \<open>line_writer\<close>
  records of their buffers; an operation returns the new state.

  \<^bold>\<open>Fuel and bounds.\<close> \<open>signature_parse\<close> runs with fuel one above the length of its input, and embedded signatures are
  shorter than what contains them: its value is the same for every value that \<open>signature_parse_fuel\<close> is told to return
  when the fuel runs out, so it never runs out, and it satisfies the equation of the source's recursion. Joining partial bodies,
  \<open>write_loop\<close> and \<open>end_of_line\<close> are partial functions, whose returning, or not returning, is proved. Draining the
  packet iterator takes two calls more than there are bytes at most; collecting messages takes one
  call for each and one for the end. \<open>dm_read\<close> ends by a measure of the state and the bytes left. The footer of
  armored data is read from a window of 128 bytes, as in the source. Lengths of packets are below \<open>2^32\<close>, the limit
  of the format. The number of hash rounds of \<open>derive_key\<close> is computed in \<open>f32\<close>, as in the source (\<open>f32_div_ceil\<close>, with
  rounding to even); it is the exact quotient for key sizes below \<open>2^24\<close>, and \<open>ceil_div_short\<close> shows where it is not.

  \<^bold>\<open>What the theorems do not say.\<close> Where the code departs from what it means to do, the definition follows the code and
  a lemma shows the departure: \<open>empty_value_swallows\<close> (armor headers), \<open>strip_leading_zeros_vec_correct_iff\<close>,
  \<open>literal_roundtrip_iff\<close>, \<open>malleable_keys_misread\<close>, \<open>body_len_exact_iff\<close>, \<open>blank_line_lost\<close> and
  \<open>truncated_signature_panics\<close> (cleartext messages), \<open>prefix_signature_lost\<close> (written messages), \<open>ceil_div_short\<close>,
  \<open>write_all_slice\<close>, \<open>end_of_line_returns\<close>.

  \<^bold>\<open>Not modelled.\<close> Errors of the outermost reader, whose bytes are in memory; panics of builds with overflow checks in
  the sum of \<open>checksum.rs\<close>, which wraps here; logging; wiping of memory (\<open>Zeroize\<close>);
  \<open>Debug\<close> and most \<open>Display\<close> output; implementations that only forward to a field (the key traits of composed keys, of
  references and of \<open>PublicOrSecret\<close>); conversions between \<open>Mpi\<close>, \<open>MpiRef\<close> and big integers, which are the identity on
  bytes here; the setters and \<open>build\<close> functions that \<open>derive_builder\<close> generates; module declarations; tests. The
  arithmetic of the cryptographic algorithms, the compressors and the base64 alphabet belong to other crates.
\<close>

section \<open>Mail from end to end\<close>



end
